(* ===== verification/LeafOS_Prelude.thy ===== *)
theory LeafOS_Prelude
  imports Main "HOL-Library.Word"
begin

text \<open>
  What the component theories share: the names of the machine types, Rust's checked
  arithmetic on 64-bit quantities, results with an error side, byte-string literals,
  and the arithmetic of ring buffers (an array, a head index and a length).
  A \<open>usize\<close> or \<open>u64\<close> that the source only moves within checked bounds is a
  natural number, with the checks written out; one that the source lets wrap is a
  \<open>64 word\<close>.
\<close>

type_synonym byte = "8 word"

named_theorems ring_simps

section \<open>Checked arithmetic of 64-bit unsigned integers\<close>

definition u64_limit :: nat where
  "u64_limit = 2 ^ 64"

definition checked_add :: "nat \<Rightarrow> nat \<Rightarrow> nat option" where
  "checked_add a b = (if a + b < u64_limit then Some (a + b) else None)"

definition checked_sub :: "nat \<Rightarrow> nat \<Rightarrow> nat option" where
  "checked_sub a b = (if b \<le> a then Some (a - b) else None)"

definition checked_mul :: "nat \<Rightarrow> nat \<Rightarrow> nat option" where
  "checked_mul a b = (if a * b < u64_limit then Some (a * b) else None)"

definition saturating_add :: "nat \<Rightarrow> nat \<Rightarrow> nat" where
  "saturating_add a b = min (a + b) (u64_limit - 1)"

lemma checked_add_Some [simp]:
  "checked_add a b = Some c \<longleftrightarrow> c = a + b \<and> a + b < u64_limit"
  by (auto simp: checked_add_def)

lemma checked_add_None [simp]: "checked_add a b = None \<longleftrightarrow> u64_limit \<le> a + b"
  by (auto simp: checked_add_def)

lemma checked_sub_Some [simp]:
  "checked_sub a b = Some c \<longleftrightarrow> c + b = a"
  by (auto simp: checked_sub_def)

lemma checked_sub_None [simp]: "checked_sub a b = None \<longleftrightarrow> a < b"
  by (auto simp: checked_sub_def)

lemma checked_mul_Some [simp]:
  "checked_mul a b = Some c \<longleftrightarrow> c = a * b \<and> a * b < u64_limit"
  by (auto simp: checked_mul_def)

lemma checked_mul_None [simp]: "checked_mul a b = None \<longleftrightarrow> u64_limit \<le> a * b"
  by (auto simp: checked_mul_def)

section \<open>Results\<close>

text \<open>A Rust \<open>Result<A, E>\<close> is \<open>'e + 'a\<close>. \<open>bind_res\<close> is the operator \<open>?\<close>, \<open>ok_or\<close> and \<open>map_err\<close>
  are the methods of those names, and \<open>try_each\<close> is a \<open>for\<close> loop whose body may return early
  with an error.\<close>

definition bind_res :: "'e + 'a \<Rightarrow> ('a \<Rightarrow> 'e + 'b) \<Rightarrow> 'e + 'b" where
  "bind_res r f = (case r of Inl e \<Rightarrow> Inl e | Inr a \<Rightarrow> f a)"

definition ok_or :: "'e \<Rightarrow> 'a option \<Rightarrow> 'e + 'a" where
  "ok_or e x = (case x of None \<Rightarrow> Inl e | Some a \<Rightarrow> Inr a)"

definition map_err :: "('e \<Rightarrow> 'f) \<Rightarrow> 'e + 'a \<Rightarrow> 'f + 'a" where
  "map_err f r = (case r of Inl e \<Rightarrow> Inl (f e) | Inr a \<Rightarrow> Inr a)"

primrec try_each :: "('a \<Rightarrow> 'e + unit) \<Rightarrow> 'a list \<Rightarrow> 'e + unit" where
  "try_each f [] = Inr ()"
| "try_each f (x # xs) = bind_res (f x) (\<lambda>_. try_each f xs)"

lemma bind_res_simps [simp]: "bind_res (Inl e) f = Inl e" "bind_res (Inr a) f = f a"
  by (simp_all add: bind_res_def)

lemma ok_or_simps [simp]: "ok_or e None = Inl e" "ok_or e (Some a) = Inr a"
  by (simp_all add: ok_or_def)

lemma map_err_simps [simp]: "map_err f (Inl e) = Inl (f e)" "map_err f (Inr a) = Inr a"
  by (simp_all add: map_err_def)

lemma bind_res_Inr [simp]: "bind_res r f = Inr b \<longleftrightarrow> (\<exists>a. r = Inr a \<and> f a = Inr b)"
  by (cases r) auto

lemma ok_or_Inr [simp]: "ok_or e x = Inr a \<longleftrightarrow> x = Some a"
  by (cases x) auto

lemma map_err_Inr [simp]: "map_err f r = Inr a \<longleftrightarrow> r = Inr a"
  by (cases r) auto

lemma try_each_Inr [simp]: "try_each f xs = Inr u \<longleftrightarrow> (\<forall>x \<in> set xs. f x = Inr ())"
  by (induction xs) (auto simp: unit_eq)

section \<open>Iterators\<close>

text \<open>\<open>Iterator::position\<close>: the index of the first element that satisfies a predicate.\<close>

fun position :: "('a \<Rightarrow> bool) \<Rightarrow> 'a list \<Rightarrow> nat option" where
  "position P [] = None"
| "position P (x # xs) = (if P x then Some 0 else map_option Suc (position P xs))"

lemma position_Some:
  "position P xs = Some i \<longleftrightarrow> i < length xs \<and> P (xs ! i) \<and> (\<forall>j < i. \<not> P (xs ! j))"
proof (induction xs arbitrary: i)
  case (Cons x xs)
  show ?case
    by (cases i) (auto simp: Cons.IH less_Suc_eq_0_disj)
qed simp

lemma position_None: "position P xs = None \<longleftrightarrow> (\<forall>x \<in> set xs. \<not> P x)"
  by (induction xs) auto

lemma find_SomeD: "List.find P xs = Some x \<Longrightarrow> x \<in> set xs \<and> P x"
  by (induction xs) (auto split: if_splits)

lemma find_NoneD: "List.find P xs = None \<longleftrightarrow> (\<forall>x \<in> set xs. \<not> P x)"
  by (induction xs) auto

section \<open>Byte strings\<close>

text \<open>The value of a little-endian byte sequence.\<close>

primrec le_nat :: "byte list \<Rightarrow> nat" where
  "le_nat [] = 0"
| "le_nat (b # bs) = unat b + 256 * le_nat bs"

lemma le_nat_less: "le_nat bs < 256 ^ length bs"
proof (induction bs)
  case (Cons b bs)
  have "unat b < 256" using unsigned_less [of b] by simp
  with Cons show ?case by simp
qed simp

text \<open>The bytes of an ASCII literal \<open>b"..."\<close>.\<close>

definition ascii :: "string \<Rightarrow> byte list" where
  "ascii s = map of_char s"

lemma ascii_Nil [simp]: "ascii [] = []"
  by (simp add: ascii_def)

lemma ascii_Cons [simp]: "ascii (c # s) = of_char c # ascii s"
  by (simp add: ascii_def)

text \<open>The check of \<open>core::str::from_utf8\<close>: well-formed UTF-8 (shortest encodings, no
  surrogates, nothing above \<open>U+10FFFF\<close>).\<close>

definition utf8_cont :: "byte \<Rightarrow> bool" where
  "utf8_cont b \<longleftrightarrow> 0x80 \<le> b \<and> b \<le> 0xBF"

fun utf8_valid :: "byte list \<Rightarrow> bool" where
  "utf8_valid [] = True"
| "utf8_valid (a # rest) =
    (if a < 0x80 then utf8_valid rest
     else case rest of
       [] \<Rightarrow> False
     | b # rest1 \<Rightarrow>
         if 0xC2 \<le> a \<and> a \<le> 0xDF then utf8_cont b \<and> utf8_valid rest1
         else case rest1 of
           [] \<Rightarrow> False
         | c # rest2 \<Rightarrow>
             if a = 0xE0 then 0xA0 \<le> b \<and> b \<le> 0xBF \<and> utf8_cont c \<and> utf8_valid rest2
             else if a = 0xED then 0x80 \<le> b \<and> b \<le> 0x9F \<and> utf8_cont c \<and> utf8_valid rest2
             else if 0xE1 \<le> a \<and> a \<le> 0xEF then utf8_cont b \<and> utf8_cont c \<and> utf8_valid rest2
             else case rest2 of
               [] \<Rightarrow> False
             | d # rest3 \<Rightarrow>
                 (if a = 0xF0 then 0x90 \<le> b \<and> b \<le> 0xBF
                  else if a = 0xF4 then 0x80 \<le> b \<and> b \<le> 0x8F
                  else 0xF1 \<le> a \<and> a \<le> 0xF3 \<and> utf8_cont b)
                 \<and> utf8_cont c \<and> utf8_cont d \<and> utf8_valid rest3)"

declare utf8_valid.simps [simp del]

lemma utf8_valid_Nil [simp]: "utf8_valid []"
  by (simp add: utf8_valid.simps)

lemma utf8_valid_ascii_Cons [simp]: "a < 0x80 \<Longrightarrow> utf8_valid (a # s) = utf8_valid s"
  by (simp add: utf8_valid.simps)

section \<open>Ring buffers\<close>

text \<open>The bytes a ring buffer holds, oldest first: \<open>n\<close> cells from \<open>h\<close>, wrapping at the
  end of the array.\<close>

definition ring_contents :: "'a list \<Rightarrow> nat \<Rightarrow> nat \<Rightarrow> 'a list" where
  "ring_contents cells h n = map (\<lambda>i. cells ! ((h + i) mod length cells)) [0..<n]"

lemma length_ring_contents [simp]: "length (ring_contents cells h n) = n"
  by (simp add: ring_contents_def)

lemma ring_contents_0 [simp]: "ring_contents cells h 0 = []"
  by (simp add: ring_contents_def)

lemma ring_index_inj:
  fixes h i j N :: nat
  assumes "i < N" "j < N" "(h + i) mod N = (h + j) mod N"
  shows "i = j"
proof (rule ccontr)
  assume "i \<noteq> j"
  have cong: "N dvd (h + b) - (h + a)" if "(h + a) mod N = (h + b) mod N" "a \<le> b" for a b
    using that by (metis add_le_cancel_left mod_eq_dvd_iff_nat)
  have "\<not> N dvd b - a" if "a < b" "b < N" for a b
    using that by (meson diff_le_self dvd_imp_le le_less_trans not_less zero_less_diff)
  then show False
    using assms cong [of i j] cong [of j i] \<open>i \<noteq> j\<close> by (cases i j rule: linorder_cases) auto
qed

lemma ring_contents_push [ring_simps]:
  assumes "n < length cells"
  shows "ring_contents (cells[(h + n) mod length cells := x]) h (Suc n)
    = ring_contents cells h n @ [x]"
proof -
  have "(h + n) mod length cells < length cells"
    using assms by (intro mod_less_divisor) auto
  moreover have "(h + i) mod length cells \<noteq> (h + n) mod length cells" if "i < n" for i
    using that assms ring_index_inj [of i "length cells" n h] by auto
  ultimately show ?thesis
    by (fastforce simp: ring_contents_def nth_list_update)
qed

lemma ring_contents_pop [ring_simps]:
  assumes "0 < n" "h < length cells"
  shows "ring_contents cells h n
    = cells ! h # ring_contents cells ((h + 1) mod length cells) (n - 1)"
proof -
  obtain m where n: "n = Suc m"
    using assms by (cases n) auto
  have "(h + Suc i) mod length cells = ((h + 1) mod length cells + i) mod length cells" for i
    by (simp add: mod_simps)
  then show ?thesis
    using assms by (simp add: ring_contents_def n upt_conv_Cons map_Suc_upt [symmetric]
        del: upt_Suc)
qed

end
