(* ===== verification/Fifo_Spec.thy ===== *)
theory Fifo_Spec
  imports LeafOS_Prelude
begin

text \<open>
  The contract of the kernel's bounded byte queues: a queue holds a list of at most
  \<open>capacity\<close> elements, a push appends unless the queue is full (then it drops the
  element), a pop removes the oldest element. The clients' loops (push a whole slice,
  drain up to \<open>n\<close> elements) and arbitrary interleavings of the two operations are
  treated once, here; the keyboard input buffer, the pipe and the shell's key queue
  interpret the contract.
\<close>

text \<open>The loop that removes up to \<open>n\<close> elements, oldest first.\<close>

primrec drain :: "('q \<Rightarrow> ('a \<times> 'q) option) \<Rightarrow> nat \<Rightarrow> 'q \<Rightarrow> 'a list \<times> 'q" where
  "drain pop 0 q = ([], q)"
| "drain pop (Suc n) q = (case pop q of
      None \<Rightarrow> ([], q)
    | Some (a, q') \<Rightarrow> (let (as, q'') = drain pop n q' in (a # as, q'')))"

text \<open>One operation of a producer or of a consumer, and the run of a sequence of them.
  The run returns the elements the queue took in, those it gave out, and its last
  state.\<close>

datatype 'a queue_op = Push 'a | Pop

fun queue_run :: "('a \<Rightarrow> 'q \<Rightarrow> 'q) \<Rightarrow> ('q \<Rightarrow> ('a \<times> 'q) option) \<Rightarrow> ('q \<Rightarrow> bool)
    \<Rightarrow> 'a queue_op list \<Rightarrow> 'q \<Rightarrow> 'a list \<times> 'a list \<times> 'q" where
  "queue_run push pop full [] q = ([], [], q)"
| "queue_run push pop full (Push a # ops) q =
    (let (ins, outs, q') = queue_run push pop full ops (push a q)
     in (if full q then ins else a # ins, outs, q'))"
| "queue_run push pop full (Pop # ops) q = (case pop q of
      None \<Rightarrow> queue_run push pop full ops q
    | Some (a, q1) \<Rightarrow> (let (ins, outs, q') = queue_run push pop full ops q1
        in (ins, a # outs, q')))"

locale bounded_fifo =
  fixes push :: "'a \<Rightarrow> 'q \<Rightarrow> 'q"
    and pop :: "'q \<Rightarrow> ('a \<times> 'q) option"
    and contents :: "'q \<Rightarrow> 'a list"
    and invar :: "'q \<Rightarrow> bool"
    and capacity :: nat
  assumes invar_push: "invar q \<Longrightarrow> invar (push a q)"
    and contents_push: "invar q \<Longrightarrow> contents (push a q)
      = (if length (contents q) < capacity then contents q @ [a] else contents q)"
    and pop_None: "invar q \<Longrightarrow> pop q = None \<longleftrightarrow> contents q = []"
    and pop_Some: "invar q \<Longrightarrow> pop q = Some (a, q') \<Longrightarrow> contents q = a # contents q'"
    and invar_pop: "invar q \<Longrightarrow> pop q = Some (a, q') \<Longrightarrow> invar q'"
    and bounded: "invar q \<Longrightarrow> length (contents q) \<le> capacity"
begin

lemma invar_fold_push: "invar q \<Longrightarrow> invar (fold push as q)"
  by (induction as arbitrary: q) (auto simp: invar_push)

lemma contents_fold_push:
  "invar q \<Longrightarrow> contents (fold push as q)
    = contents q @ take (capacity - length (contents q)) as"
proof (induction as arbitrary: q)
  case Nil
  then show ?case by simp
next
  case (Cons a as)
  show ?case
  proof (cases "length (contents q) < capacity")
    case True
    then obtain k where "capacity - length (contents q) = Suc k"
      by (metis Suc_diff_Suc)
    moreover from this have "capacity - Suc (length (contents q)) = k" by simp
    ultimately show ?thesis
      using Cons True by (simp add: invar_push contents_push)
  next
    case False
    then show ?thesis
      using Cons by (simp add: invar_push contents_push)
  qed
qed

lemma drain_contents:
  "invar q \<Longrightarrow> drain pop n q = (out, q') \<Longrightarrow>
    out = take n (contents q) \<and> contents q' = drop n (contents q) \<and> invar q'"
proof (induction n arbitrary: q out q')
  case (Suc n)
  show ?case
  proof (cases "pop q")
    case None
    then show ?thesis using Suc.prems pop_None [of q] by simp
  next
    case (Some aq)
    obtain a q1 where aq: "aq = (a, q1)" by fastforce
    obtain as q2 where d: "drain pop n q1 = (as, q2)" by fastforce
    show ?thesis
      using Suc.IH [OF _ d] Suc.prems Some aq d pop_Some [of q a q1] invar_pop [of q a q1]
      by auto
  qed
qed simp

lemma run_fifo:
  "invar q \<Longrightarrow> queue_run push pop (\<lambda>q. length (contents q) = capacity) ops q = (ins, outs, q')
    \<Longrightarrow> contents q @ ins = outs @ contents q' \<and> invar q'"
proof (induction ops arbitrary: q ins outs q')
  case (Cons op ops)
  show ?case
  proof (cases op)
    case (Push a)
    obtain i os q1 where r: "queue_run push pop (\<lambda>q. length (contents q) = capacity) ops (push a q)
      = (i, os, q1)" by (metis prod_cases3)
    show ?thesis
      using Cons.IH [OF _ r] Cons.prems Push r bounded [of q]
      by (auto simp: invar_push contents_push split: if_splits)
  next
    case Pop
    show ?thesis
    proof (cases "pop q")
      case None
      then show ?thesis using Cons Pop by simp
    next
      case (Some aq)
      obtain a q1 where aq: "aq = (a, q1)" by fastforce
      obtain i os q2 where r: "queue_run push pop (\<lambda>q. length (contents q) = capacity) ops q1
        = (i, os, q2)" by (metis prod_cases3)
      show ?thesis
        using Cons.IH [OF _ r] Cons.prems Pop Some aq r pop_Some [of q a q1]
          invar_pop [of q a q1]
        by auto
    qed
  qed
qed simp

end

end
