(* ===== verification/Input_Queue.thy ===== *)
theory Input_Queue
  imports Fifo_Spec
begin

text \<open>
  The console input queue of \<open>drivers/input.rs\<close>: \<open>InputBuffer\<close> with \<open>new\<close>, \<open>push\<close> and
  \<open>read\<close>. The buffer's abstraction is the list of unread bytes; the operations refine
  the bounded queue contract with capacity 256.
\<close>

definition INPUT_CAPACITY :: nat where
  "INPUT_CAPACITY = 256"

record InputBuffer =
  ib_bytes :: "byte list"
  ib_head :: nat
  ib_length :: nat

definition InputBuffer_new :: InputBuffer where
  "InputBuffer_new = \<lparr>ib_bytes = replicate INPUT_CAPACITY 0, ib_head = 0, ib_length = 0\<rparr>"

definition InputBuffer_push :: "byte \<Rightarrow> InputBuffer \<Rightarrow> InputBuffer" where
  "InputBuffer_push b s =
    (if ib_length s = INPUT_CAPACITY then s
     else let tail = (ib_head s + ib_length s) mod INPUT_CAPACITY
       in s\<lparr>ib_bytes := (ib_bytes s)[tail := b], ib_length := ib_length s + 1\<rparr>)"

text \<open>The body of the loop of \<open>read\<close>: one byte leaves the buffer.\<close>

definition InputBuffer_take :: "InputBuffer \<Rightarrow> byte \<times> InputBuffer" where
  "InputBuffer_take s =
    (ib_bytes s ! ib_head s,
     s\<lparr>ib_head := (ib_head s + 1) mod INPUT_CAPACITY, ib_length := ib_length s - 1\<rparr>)"

primrec InputBuffer_fill :: "byte list \<Rightarrow> InputBuffer \<Rightarrow> byte list \<times> InputBuffer" where
  "InputBuffer_fill [] s = ([], s)"
| "InputBuffer_fill (slot # slots) s =
    (let (b, s1) = InputBuffer_take s; (bs, s2) = InputBuffer_fill slots s1 in (b # bs, s2))"

text \<open>\<open>read\<close> returns the count, the output slice after the call and the buffer.\<close>

definition InputBuffer_read :: "byte list \<Rightarrow> InputBuffer \<Rightarrow> nat \<times> byte list \<times> InputBuffer" where
  "InputBuffer_read output s =
    (let count = min (length output) (ib_length s);
         (written, s') = InputBuffer_fill (take count output) s
     in (count, written @ drop count output, s'))"

section \<open>Abstraction and invariant\<close>

definition ib_invar :: "InputBuffer \<Rightarrow> bool" where
  "ib_invar s \<longleftrightarrow> length (ib_bytes s) = INPUT_CAPACITY \<and> ib_head s < INPUT_CAPACITY
    \<and> ib_length s \<le> INPUT_CAPACITY"

definition ib_contents :: "InputBuffer \<Rightarrow> byte list" where
  "ib_contents s = ring_contents (ib_bytes s) (ib_head s) (ib_length s)"

definition ib_pop :: "InputBuffer \<Rightarrow> (byte \<times> InputBuffer) option" where
  "ib_pop s = (if ib_length s = 0 then None else Some (InputBuffer_take s))"

lemma length_ib_contents [simp]: "length (ib_contents s) = ib_length s"
  by (simp add: ib_contents_def)

lemma ib_new: "ib_invar InputBuffer_new" "ib_contents InputBuffer_new = []"
  by (simp_all add: ib_invar_def ib_contents_def InputBuffer_new_def INPUT_CAPACITY_def)

lemma ib_invar_push: "ib_invar s \<Longrightarrow> ib_invar (InputBuffer_push b s)"
  by (auto simp: ib_invar_def InputBuffer_push_def Let_def)

lemma ib_contents_push:
  assumes "ib_invar s"
  shows "ib_contents (InputBuffer_push b s)
    = (if ib_length s < INPUT_CAPACITY then ib_contents s @ [b] else ib_contents s)"
  using assms ring_contents_push [of "ib_length s" "ib_bytes s" "ib_head s" b]
  by (auto simp: ib_invar_def ib_contents_def InputBuffer_push_def Let_def)

lemma ib_take:
  assumes "ib_invar s" "ib_length s \<noteq> 0" "InputBuffer_take s = (b, s')"
  shows "ib_contents s = b # ib_contents s'" "ib_invar s'" "ib_length s' = ib_length s - 1"
  using assms ring_contents_pop [of "ib_length s" "ib_head s" "ib_bytes s"]
  by (auto simp: ib_invar_def ib_contents_def InputBuffer_take_def)

interpretation ib: bounded_fifo InputBuffer_push ib_pop ib_contents ib_invar INPUT_CAPACITY
proof unfold_locales
  fix s b s'
  assume s: "ib_invar s"
  show "ib_pop s = None \<longleftrightarrow> ib_contents s = []"
    by (auto simp: ib_pop_def simp flip: length_0_conv)
  show "length (ib_contents s) \<le> INPUT_CAPACITY"
    using s by (simp add: ib_invar_def)
  assume "ib_pop s = Some (b, s')"
  then have "ib_length s \<noteq> 0" "InputBuffer_take s = (b, s')"
    by (auto simp: ib_pop_def split: if_splits)
  then show "ib_contents s = b # ib_contents s'" "ib_invar s'"
    using s ib_take by blast+
qed (auto simp: ib_invar_push ib_contents_push)

text \<open>The loop of \<open>read\<close> is the drain of the contract, since it never runs past the bytes
  the buffer holds.\<close>

lemma InputBuffer_fill_drain:
  "ib_invar s \<Longrightarrow> length slots \<le> ib_length s \<Longrightarrow>
    InputBuffer_fill slots s = drain ib_pop (length slots) s"
proof (induction slots arbitrary: s)
  case (Cons slot slots)
  obtain b s1 where t: "InputBuffer_take s = (b, s1)" by fastforce
  have s: "ib_length s \<noteq> 0" using Cons.prems by auto
  have "InputBuffer_fill slots s1 = drain ib_pop (length slots) s1"
    using Cons.IH [of s1] Cons.prems ib_take (2,3) [OF _ s t] by simp
  moreover have "ib_pop s = Some (b, s1)"
    using s t by (simp add: ib_pop_def)
  ultimately show ?case
    using t by simp
qed simp

lemma ib_read_spec:
  assumes "ib_invar s" "InputBuffer_read output s = (count, output', s')"
  shows "count = min (length output) (ib_length s)"
    "output' = take count (ib_contents s) @ drop count output"
    "ib_contents s' = drop count (ib_contents s)" "ib_invar s'"
proof -
  let ?n = "min (length output) (ib_length s)"
  obtain w s1 where d: "drain ib_pop ?n s = (w, s1)" by fastforce
  have "InputBuffer_fill (take ?n output) s = (w, s1)"
    using d assms(1) by (subst InputBuffer_fill_drain) (auto simp: min_def)
  with assms(2) ib.drain_contents [OF assms(1) d]
  show "count = min (length output) (ib_length s)"
    "output' = take count (ib_contents s) @ drop count output"
    "ib_contents s' = drop count (ib_contents s)" "ib_invar s'"
    by (auto simp: InputBuffer_read_def Let_def)
qed

text \<open>\<open>InputBuffer::read\<close> copies the oldest \<open>min(output.len(), length)\<close> unread bytes, in
  the order in which they were pushed, to the front of the output slice, leaves the rest of
  the slice as it was, returns that count, and keeps exactly the remaining bytes.\<close>

theorem InputBuffer_read_correct:
  assumes "ib_invar s" and "InputBuffer_read output s = (count, output', s')"
  shows "count = min (length output) (length (ib_contents s))
    \<and> output' = take count (ib_contents s) @ drop count output
    \<and> ib_contents s' = drop count (ib_contents s)
    \<and> ib_invar s'"
  using ib_read_spec [OF assms] by simp

theorem InputBuffer_read_correct_witness:
  "ib_contents (snd (snd (InputBuffer_read [9, 9, 9]
      (InputBuffer_push 66 (InputBuffer_push 65 InputBuffer_new))))) = []"
proof -
  let ?s = "InputBuffer_push 66 (InputBuffer_push 65 InputBuffer_new)"
  obtain c out s' where r: "InputBuffer_read [9, 9, 9] ?s = (c, out, s')"
    by (metis prod_cases3)
  have "ib_invar ?s" by (simp add: ib_invar_push ib_new)
  moreover have "ib_contents ?s = [65, 66]"
    by code_simp
  ultimately show ?thesis
    using InputBuffer_read_correct [OF _ r] r by simp
qed

text \<open>Whatever the interleaving of pushes and single-byte reads, the console input queue
  is first in, first out and loses only bytes pushed while it is full: the accepted bytes are
  the bytes read followed by those still held.\<close>

theorem input_queue_fifo:
  assumes "queue_run InputBuffer_push ib_pop (\<lambda>s. ib_length s = INPUT_CAPACITY) ops
    InputBuffer_new = (accepted, delivered, s')"
  shows "accepted = delivered @ ib_contents s' \<and> ib_length s' \<le> INPUT_CAPACITY"
  using ib.run_fifo [of InputBuffer_new ops accepted delivered s'] ib_new assms
  by (simp add: ib_invar_def)

theorem input_queue_fifo_witness:
  "ib_contents (snd (snd (queue_run InputBuffer_push ib_pop (\<lambda>s. ib_length s = INPUT_CAPACITY)
     [Push 7, Push 8, Pop, Pop, Pop, Push 9] InputBuffer_new))) = [9]"
proof -
  let ?r = "queue_run InputBuffer_push ib_pop (\<lambda>s. ib_length s = INPUT_CAPACITY)
     [Push 7, Push 8, Pop, Pop, Pop, Push 9] InputBuffer_new"
  have "?r = ([7, 8, 9], [7, 8], snd (snd ?r))"
    by code_simp
  from input_queue_fifo [OF this] show ?thesis
    by (simp del: queue_run.simps)
qed

end
