(* ===== verification/Pipe_Fd.thy ===== *)
theory Pipe_Fd
  imports Input_Queue "HOL-Library.Multiset"
begin

text \<open>
  Pipes and file descriptors, \<open>tasking/fd.rs\<close>. The objects that descriptors share through
  \<open>Arc<Mutex<..>>\<close> live in an explicit store (\<open>World\<close>), and a descriptor holds the index of
  its object, so that two clones of a descriptor alias the same pipe or file. The ext2
  operations that file descriptors call are the fields of an operations record over an
  arbitrary disk state.
\<close>

definition STDIN :: nat where "STDIN = 0"
definition STDOUT :: nat where "STDOUT = 1"
definition STDERR :: nat where "STDERR = 2"
definition MAX_FDS :: nat where "MAX_FDS = 16"
definition PIPE_CAPACITY :: nat where "PIPE_CAPACITY = 4096"

datatype ReadError = RInvalid | RWouldBlock | RIo
datatype WriteError = WInvalid | WWouldBlock | WBrokenPipe | WIo

section \<open>The pipe\<close>

record Pipe =
  p_bytes :: "byte list"
  p_head :: nat
  p_length :: nat
  p_readers :: nat
  p_writers :: nat

definition Pipe_new :: Pipe where
  "Pipe_new = \<lparr>p_bytes = replicate PIPE_CAPACITY 0, p_head = 0, p_length = 0,
    p_readers = 0, p_writers = 1\<rparr>"

definition Pipe_take :: "Pipe \<Rightarrow> byte \<times> Pipe" where
  "Pipe_take p =
    (p_bytes p ! p_head p,
     p\<lparr>p_head := (p_head p + 1) mod PIPE_CAPACITY, p_length := p_length p - 1\<rparr>)"

primrec Pipe_fill :: "byte list \<Rightarrow> Pipe \<Rightarrow> byte list \<times> Pipe" where
  "Pipe_fill [] p = ([], p)"
| "Pipe_fill (slot # slots) p =
    (let (b, p1) = Pipe_take p; (bs, p2) = Pipe_fill slots p1 in (b # bs, p2))"

definition Pipe_read :: "byte list \<Rightarrow> Pipe \<Rightarrow> nat \<times> byte list \<times> Pipe" where
  "Pipe_read output p =
    (let count = min (length output) (p_length p);
         (written, p') = Pipe_fill (take count output) p
     in (count, written @ drop count output, p'))"

definition Pipe_put :: "byte \<Rightarrow> Pipe \<Rightarrow> Pipe" where
  "Pipe_put b p =
    (let tail = (p_head p + p_length p) mod PIPE_CAPACITY
     in p\<lparr>p_bytes := (p_bytes p)[tail := b], p_length := p_length p + 1\<rparr>)"

definition Pipe_write :: "byte list \<Rightarrow> Pipe \<Rightarrow> nat \<times> Pipe" where
  "Pipe_write input p =
    (let count = min (length input) (PIPE_CAPACITY - p_length p)
     in (count, fold Pipe_put (take count input) p))"

section \<open>Descriptors and the objects they share\<close>

record FileWrite =
  fw_path :: "byte list"
  fw_path_len :: nat
  fw_contents :: "byte list"

record FileRead =
  fr_contents :: "byte list"
  fr_offset :: nat

datatype FileDescriptor =
    Stdin
  | Console
  | PipeRead nat
  | PipeWrite nat
  | FdFileWrite nat
  | FdFileRead nat

text \<open>The state a descriptor operation can touch. \<open>w_console\<close> is the output written to the
  console so far.\<close>

record 'd World =
  w_input :: InputBuffer
  w_console :: "byte list"
  w_pipes :: "Pipe list"
  w_writes :: "FileWrite list"
  w_reads :: "FileRead list"
  w_disk :: 'd

text \<open>The two operations of \<open>fs::ext2\<close> that descriptors use: \<open>write_file\<close> (its success and the
  disk afterwards) and \<open>read_file_vec\<close> (\<open>None\<close> an error, \<open>Some None\<close> no such file).\<close>

record 'd DiskOps =
  op_write_file :: "byte list \<Rightarrow> byte list \<Rightarrow> 'd \<Rightarrow> bool \<times> 'd"
  op_read_file_vec :: "byte list \<Rightarrow> nat \<Rightarrow> 'd \<Rightarrow> byte list option option"

definition upd_pipe :: "nat \<Rightarrow> (Pipe \<Rightarrow> Pipe) \<Rightarrow> 'd World \<Rightarrow> 'd World" where
  "upd_pipe i f w = w\<lparr>w_pipes := (w_pipes w)[i := f (w_pipes w ! i)]\<rparr>"

definition fd_clone :: "FileDescriptor \<Rightarrow> 'd World \<Rightarrow> FileDescriptor \<times> 'd World" where
  "fd_clone d w = (case d of
      PipeRead i \<Rightarrow> (PipeRead i, upd_pipe i (\<lambda>p. p\<lparr>p_readers := p_readers p + 1\<rparr>) w)
    | PipeWrite i \<Rightarrow> (PipeWrite i, upd_pipe i (\<lambda>p. p\<lparr>p_writers := p_writers p + 1\<rparr>) w)
    | _ \<Rightarrow> (d, w))"

definition fd_drop :: "FileDescriptor \<Rightarrow> 'd World \<Rightarrow> 'd World" where
  "fd_drop d w = (case d of
      PipeRead i \<Rightarrow> upd_pipe i (\<lambda>p. p\<lparr>p_readers := p_readers p - 1\<rparr>) w
    | PipeWrite i \<Rightarrow> upd_pipe i (\<lambda>p. p\<lparr>p_writers := p_writers p - 1\<rparr>) w
    | _ \<Rightarrow> w)"

definition fd_close :: "FileDescriptor \<Rightarrow> 'd World \<Rightarrow> 'd World" where
  "fd_close d w = fd_drop d w"

definition initial_table :: "FileDescriptor option list" where
  "initial_table = (((replicate MAX_FDS None)[STDIN := Some Stdin])[STDOUT := Some Console])
    [STDERR := Some Console]"

definition create_pipe :: "'d World \<Rightarrow> (FileDescriptor \<times> FileDescriptor) option \<times> 'd World" where
  "create_pipe w =
    (let i = length (w_pipes w)
     in (Some (PipeRead i, PipeWrite i), w\<lparr>w_pipes := w_pipes w @ [Pipe_new\<lparr>p_readers := 1\<rparr>]\<rparr>))"

definition create_file_write ::
    "'d DiskOps \<Rightarrow> byte list \<Rightarrow> 'd World \<Rightarrow> FileDescriptor option \<times> 'd World" where
  "create_file_write ops path w =
    (if path = [] \<or> 255 < length path then (None, w)
     else case op_write_file ops path [] (w_disk w) of
       (False, disk) \<Rightarrow> (None, w\<lparr>w_disk := disk\<rparr>)
     | (True, disk) \<Rightarrow>
         (Some (FdFileWrite (length (w_writes w))),
          w\<lparr>w_disk := disk,
            w_writes := w_writes w @ [\<lparr>fw_path = path @ replicate (255 - length path) 0,
              fw_path_len = length path, fw_contents = []\<rparr>]\<rparr>))"

definition create_file_read ::
    "'d DiskOps \<Rightarrow> byte list \<Rightarrow> 'd World \<Rightarrow> FileDescriptor option \<times> 'd World" where
  "create_file_read ops path w =
    (case op_read_file_vec ops path (1024 * 1024) (w_disk w) of
       None \<Rightarrow> (None, w)
     | Some None \<Rightarrow> (None, w)
     | Some (Some contents) \<Rightarrow>
         (Some (FdFileRead (length (w_reads w))),
          w\<lparr>w_reads := w_reads w @ [\<lparr>fr_contents = contents, fr_offset = 0\<rparr>]\<rparr>))"

text \<open>\<open>read\<close> returns its result, the output slice after the call, and the state.\<close>

fun fd_read :: "FileDescriptor \<Rightarrow> byte list \<Rightarrow> 'd World
    \<Rightarrow> (ReadError + nat) \<times> byte list \<times> 'd World" where
  "fd_read Stdin output w =
    (let (count, output', buf) = InputBuffer_read output (w_input w)
     in (if count = 0 then Inl RWouldBlock else Inr count, output', w\<lparr>w_input := buf\<rparr>))"
| "fd_read (PipeRead i) output w =
    (let p = w_pipes w ! i
     in if p_length p = 0 \<and> p_writers p \<noteq> 0 then (Inl RWouldBlock, output, w)
        else let (count, output', p') = Pipe_read output p
             in (Inr count, output', upd_pipe i (\<lambda>_. p') w))"
| "fd_read (FdFileRead i) output w =
    (let f = w_reads w ! i;
         remaining = drop (fr_offset f) (fr_contents f);
         count = min (length output) (length remaining)
     in (Inr count, take count remaining @ drop count output,
         w\<lparr>w_reads := (w_reads w)[i := f\<lparr>fr_offset := fr_offset f + count\<rparr>]\<rparr>))"
| "fd_read Console output w = (Inl RInvalid, output, w)"
| "fd_read (PipeWrite i) output w = (Inl RInvalid, output, w)"
| "fd_read (FdFileWrite i) output w = (Inl RInvalid, output, w)"

fun fd_write :: "'d DiskOps \<Rightarrow> FileDescriptor \<Rightarrow> byte list \<Rightarrow> 'd World
    \<Rightarrow> (WriteError + nat) \<times> 'd World" where
  "fd_write ops Console input w = (Inr (length input), w\<lparr>w_console := w_console w @ input\<rparr>)"
| "fd_write ops (PipeWrite i) input w =
    (let p = w_pipes w ! i
     in if p_readers p = 0 then (Inl WBrokenPipe, w)
        else let (count, p') = Pipe_write input p
             in (if count = 0 \<and> input \<noteq> [] then Inl WWouldBlock else Inr count,
                 upd_pipe i (\<lambda>_. p') w))"
| "fd_write ops (FdFileWrite i) input w =
    (let f = w_writes w ! i;
         f' = f\<lparr>fw_contents := fw_contents f @ input\<rparr>;
         w1 = w\<lparr>w_writes := (w_writes w)[i := f']\<rparr>;
         path = take (fw_path_len f') (fw_path f')
     in if \<not> utf8_valid path then (Inl WIo, w1)
        else case op_write_file ops path (fw_contents f') (w_disk w1) of
          (False, disk) \<Rightarrow> (Inl WIo, w1\<lparr>w_disk := disk\<rparr>)
        | (True, disk) \<Rightarrow> (Inr (length input), w1\<lparr>w_disk := disk\<rparr>))"
| "fd_write ops Stdin input w = (Inl WInvalid, w)"
| "fd_write ops (PipeRead i) input w = (Inl WInvalid, w)"
| "fd_write ops (FdFileRead i) input w = (Inl WInvalid, w)"

section \<open>The pipe as a bounded queue\<close>

definition pipe_invar :: "Pipe \<Rightarrow> bool" where
  "pipe_invar p \<longleftrightarrow> length (p_bytes p) = PIPE_CAPACITY \<and> p_head p < PIPE_CAPACITY
    \<and> p_length p \<le> PIPE_CAPACITY"

definition pipe_contents :: "Pipe \<Rightarrow> byte list" where
  "pipe_contents p = ring_contents (p_bytes p) (p_head p) (p_length p)"

definition pipe_pop :: "Pipe \<Rightarrow> (byte \<times> Pipe) option" where
  "pipe_pop p = (if p_length p = 0 then None else Some (Pipe_take p))"

definition pipe_push :: "byte \<Rightarrow> Pipe \<Rightarrow> Pipe" where
  "pipe_push b p = (if p_length p = PIPE_CAPACITY then p else Pipe_put b p)"

lemma length_pipe_contents [simp]: "length (pipe_contents p) = p_length p"
  by (simp add: pipe_contents_def)

lemma pipe_contents_Nil [simp]: "pipe_contents p = [] \<longleftrightarrow> p_length p = 0"
  by (simp flip: length_0_conv)

lemma pipe_new [simp]: "pipe_invar Pipe_new" "p_length Pipe_new = 0" "p_writers Pipe_new = 1"
  by (simp_all add: pipe_invar_def Pipe_new_def PIPE_CAPACITY_def)

lemma pipe_contents_new [simp]: "pipe_contents Pipe_new = []"
  by simp

lemma pipe_invar_counts [simp]:
  "pipe_invar (p\<lparr>p_readers := n\<rparr>) = pipe_invar p" "pipe_invar (p\<lparr>p_writers := n\<rparr>) = pipe_invar p"
  "pipe_contents (p\<lparr>p_readers := n\<rparr>) = pipe_contents p"
  "pipe_contents (p\<lparr>p_writers := n\<rparr>) = pipe_contents p"
  by (simp_all add: pipe_invar_def pipe_contents_def)

lemma pipe_put:
  assumes "pipe_invar p" "p_length p < PIPE_CAPACITY"
  shows "pipe_invar (Pipe_put b p)" "pipe_contents (Pipe_put b p) = pipe_contents p @ [b]"
    "p_length (Pipe_put b p) = Suc (p_length p)"
  using assms ring_contents_push [of "p_length p" "p_bytes p" "p_head p" b]
  by (auto simp: pipe_invar_def pipe_contents_def Pipe_put_def Let_def)

lemma pipe_take:
  assumes "pipe_invar p" "p_length p \<noteq> 0" "Pipe_take p = (b, p')"
  shows "pipe_contents p = b # pipe_contents p'" "pipe_invar p'" "p_length p' = p_length p - 1"
  using assms ring_contents_pop [of "p_length p" "p_head p" "p_bytes p"]
  by (auto simp: pipe_invar_def pipe_contents_def Pipe_take_def)

interpretation pq: bounded_fifo pipe_push pipe_pop pipe_contents pipe_invar PIPE_CAPACITY
proof unfold_locales
  fix p b p'
  assume p: "pipe_invar p"
  show "pipe_pop p = None \<longleftrightarrow> pipe_contents p = []"
    by (simp add: pipe_pop_def)
  show le: "length (pipe_contents p) \<le> PIPE_CAPACITY"
    using p by (simp add: pipe_invar_def)
  show "pipe_invar (pipe_push b p)"
    using p le pipe_put [of p b] by (simp add: pipe_push_def)
  show "pipe_contents (pipe_push b p) = (if length (pipe_contents p) < PIPE_CAPACITY
      then pipe_contents p @ [b] else pipe_contents p)"
    using p le pipe_put [of p b] by (simp add: pipe_push_def)
  assume "pipe_pop p = Some (b, p')"
  then have "p_length p \<noteq> 0" "Pipe_take p = (b, p')"
    by (auto simp: pipe_pop_def split: if_splits)
  then show "pipe_contents p = b # pipe_contents p'" "pipe_invar p'"
    using p pipe_take by blast+
qed

lemma Pipe_fill_drain:
  "pipe_invar p \<Longrightarrow> length slots \<le> p_length p \<Longrightarrow>
    Pipe_fill slots p = drain pipe_pop (length slots) p"
proof (induction slots arbitrary: p)
  case (Cons slot slots)
  obtain b p1 where t: "Pipe_take p = (b, p1)" by fastforce
  have p: "p_length p \<noteq> 0" using Cons.prems by auto
  have "Pipe_fill slots p1 = drain pipe_pop (length slots) p1"
    using Cons.IH [of p1] Cons.prems pipe_take (2,3) [OF _ p t] by simp
  moreover have "pipe_pop p = Some (b, p1)"
    using p t by (simp add: pipe_pop_def)
  ultimately show ?case
    using t by simp
qed simp

lemma fold_put_push:
  "pipe_invar p \<Longrightarrow> length bs \<le> PIPE_CAPACITY - p_length p \<Longrightarrow>
    fold Pipe_put bs p = fold pipe_push bs p"
proof (induction bs arbitrary: p)
  case (Cons b bs)
  then have "p_length p < PIPE_CAPACITY" by auto
  with Cons pipe_put [of p b] show ?case
    by (simp add: pipe_push_def)
qed simp

lemma Pipe_take_counts [simp]:
  "p_readers (snd (Pipe_take p)) = p_readers p" "p_writers (snd (Pipe_take p)) = p_writers p"
  by (simp_all add: Pipe_take_def)

lemma Pipe_fill_counts:
  "p_readers (snd (Pipe_fill bs p)) = p_readers p \<and> p_writers (snd (Pipe_fill bs p)) = p_writers p"
proof (induction bs arbitrary: p)
  case (Cons b bs)
  show ?case
    using Cons.IH [of "snd (Pipe_take p)"] by (simp add: Let_def split: prod.splits)
      (metis Pipe_take_counts snd_conv)
qed simp

lemma fold_put_counts [simp]:
  "p_readers (fold Pipe_put bs p) = p_readers p" "p_writers (fold Pipe_put bs p) = p_writers p"
  by (induction bs arbitrary: p) (simp_all add: Pipe_put_def Let_def)

lemma fold_push_counts [simp]:
  "p_readers (fold pipe_push bs p) = p_readers p" "p_writers (fold pipe_push bs p) = p_writers p"
  by (induction bs arbitrary: p) (simp_all add: pipe_push_def Pipe_put_def Let_def)

lemma Pipe_read_spec:
  assumes "pipe_invar p" "Pipe_read output p = (n, output', p')"
  shows "n = min (length output) (p_length p)"
    "output' = take n (pipe_contents p) @ drop n output"
    "pipe_contents p' = drop n (pipe_contents p)" "pipe_invar p'"
    "p_readers p' = p_readers p" "p_writers p' = p_writers p"
proof -
  let ?n = "min (length output) (p_length p)"
  obtain bs p1 where d: "drain pipe_pop ?n p = (bs, p1)" by fastforce
  have "Pipe_fill (take ?n output) p = (bs, p1)"
    using d assms(1) by (subst Pipe_fill_drain) (auto simp: min_def)
  with assms(2) pq.drain_contents [OF assms(1) d] Pipe_fill_counts [of "take ?n output" p]
  show "n = min (length output) (p_length p)"
    "output' = take n (pipe_contents p) @ drop n output"
    "pipe_contents p' = drop n (pipe_contents p)" "pipe_invar p'"
    "p_readers p' = p_readers p" "p_writers p' = p_writers p"
    by (auto simp: Pipe_read_def Let_def)
qed

lemma Pipe_write_spec:
  assumes "pipe_invar p" "Pipe_write input p = (n, p')"
  shows "n = min (length input) (PIPE_CAPACITY - p_length p)"
    "pipe_contents p' = pipe_contents p @ take n input" "pipe_invar p'"
    "p_readers p' = p_readers p" "p_writers p' = p_writers p"
  using assms fold_put_push [of p "take n input"] pq.invar_fold_push [of p "take n input"]
    pq.contents_fold_push [of p "take n input"]
  by (auto simp: Pipe_write_def Let_def min_def split: if_splits)

section \<open>Reference counts\<close>

text \<open>\<open>fd_object\<close> says that a descriptor refers to an object of the store. \<open>world_ok ds w\<close> is
  the invariant of the store when \<open>ds\<close> is the multiset of all live descriptors: every pipe is a
  well-formed ring, its two counters are the numbers of live read and write descriptors of it,
  and no file offset is past the end of its contents.\<close>

fun fd_object :: "'d World \<Rightarrow> FileDescriptor \<Rightarrow> bool" where
  "fd_object w (PipeRead i) = (i < length (w_pipes w))"
| "fd_object w (PipeWrite i) = (i < length (w_pipes w))"
| "fd_object w (FdFileWrite i) = (i < length (w_writes w))"
| "fd_object w (FdFileRead i) = (i < length (w_reads w))"
| "fd_object w _ = True"

definition pipe_counts_ok :: "FileDescriptor multiset \<Rightarrow> 'd World \<Rightarrow> bool" where
  "pipe_counts_ok ds w \<longleftrightarrow> (\<forall>i < length (w_pipes w). pipe_invar (w_pipes w ! i)
    \<and> p_readers (w_pipes w ! i) = count ds (PipeRead i)
    \<and> p_writers (w_pipes w ! i) = count ds (PipeWrite i))"

definition offsets_ok :: "'d World \<Rightarrow> bool" where
  "offsets_ok w \<longleftrightarrow> (\<forall>f \<in> set (w_reads w). fr_offset f \<le> length (fr_contents f))"

definition world_ok :: "FileDescriptor multiset \<Rightarrow> 'd World \<Rightarrow> bool" where
  "world_ok ds w \<longleftrightarrow> ib_invar (w_input w) \<and> pipe_counts_ok ds w \<and> offsets_ok w
    \<and> (\<forall>d \<in># ds. fd_object w d)"

lemma upd_pipe_simps [simp]:
  "length (w_pipes (upd_pipe i f w)) = length (w_pipes w)"
  "w_writes (upd_pipe i f w) = w_writes w" "w_reads (upd_pipe i f w) = w_reads w"
  "w_input (upd_pipe i f w) = w_input w" "w_disk (upd_pipe i f w) = w_disk w"
  "w_console (upd_pipe i f w) = w_console w"
  by (simp_all add: upd_pipe_def)

lemma nth_upd_pipe:
  "j < length (w_pipes w) \<Longrightarrow>
    w_pipes (upd_pipe i f w) ! j = (if i = j then f (w_pipes w ! j) else w_pipes w ! j)"
  by (simp add: upd_pipe_def nth_list_update)

lemma offsets_ok_upd_pipe [simp]: "offsets_ok (upd_pipe i f w) = offsets_ok w"
  by (simp add: offsets_ok_def)

lemma fd_object_cong:
  "length (w_pipes w') = length (w_pipes w) \<Longrightarrow> length (w_writes w') = length (w_writes w) \<Longrightarrow>
   length (w_reads w') = length (w_reads w) \<Longrightarrow> fd_object w' d = fd_object w d"
  by (cases d) auto

lemma fd_object_upd_pipe [simp]: "fd_object (upd_pipe i f w) d = fd_object w d"
  by (rule fd_object_cong) simp_all

lemma world_ok_clone:
  assumes "world_ok ds w" "d \<in># ds" "fd_clone d w = (d', w')"
  shows "d' = d" "world_ok (add_mset d ds) w'"
  using assms
  by (auto simp: world_ok_def fd_clone_def pipe_counts_ok_def nth_upd_pipe
      split: FileDescriptor.splits)

lemma world_ok_drop:
  assumes "world_ok (add_mset d ds) w"
  shows "world_ok ds (fd_drop d w)"
  using assms
  by (auto simp: world_ok_def fd_drop_def pipe_counts_ok_def nth_upd_pipe
      split: FileDescriptor.splits)

lemma fd_object_append:
  "fd_object w d \<Longrightarrow> fd_object (w\<lparr>w_pipes := w_pipes w @ ps\<rparr>) d"
  "fd_object w d \<Longrightarrow> fd_object (w\<lparr>w_disk := k, w_writes := w_writes w @ ws\<rparr>) d"
  "fd_object w d \<Longrightarrow> fd_object (w\<lparr>w_reads := w_reads w @ rs\<rparr>) d"
  "fd_object (w\<lparr>w_disk := k\<rparr>) d = fd_object w d"
  by (cases d; auto)+

lemma no_fd_above:
  "\<forall>d \<in># ds. fd_object w d \<Longrightarrow> count ds (PipeRead (length (w_pipes w))) = 0"
  "\<forall>d \<in># ds. fd_object w d \<Longrightarrow> count ds (PipeWrite (length (w_pipes w))) = 0"
  by (auto simp: not_in_iff [symmetric])

lemma world_ok_create_pipe:
  assumes "world_ok ds w" "create_pipe w = (Some (r, t), w')"
  shows "world_ok (add_mset r (add_mset t ds)) w'"
proof -
  have "\<forall>d \<in># ds. fd_object w d" using assms(1) by (simp add: world_ok_def)
  note fresh = no_fd_above [OF this]
  show ?thesis
    using assms fresh
    by (auto simp: world_ok_def create_pipe_def pipe_counts_ok_def offsets_ok_def nth_append
        Let_def fd_object_append less_Suc_eq)
qed

lemma world_ok_create_file_write:
  assumes "world_ok ds w" "create_file_write ops path w = (res, w')"
  shows "world_ok (case res of None \<Rightarrow> ds | Some d \<Rightarrow> add_mset d ds) w'"
  using assms
  by (auto simp: world_ok_def create_file_write_def pipe_counts_ok_def offsets_ok_def
      fd_object_append split: if_splits prod.splits bool.splits)

lemma world_ok_create_file_read:
  assumes "world_ok ds w" "create_file_read ops path w = (res, w')"
  shows "world_ok (case res of None \<Rightarrow> ds | Some d \<Rightarrow> add_mset d ds) w'"
  using assms
  by (auto simp: world_ok_def create_file_read_def pipe_counts_ok_def offsets_ok_def
      fd_object_append split: option.splits)

text \<open>The two ways a read or a write changes the store: it replaces one pipe by another with
  the same counters, or it leaves the pipes alone and adds no object.\<close>

lemma world_ok_upd_pipe:
  assumes "world_ok ds w" "i < length (w_pipes w)" "pipe_invar p"
    "p_readers p = p_readers (w_pipes w ! i)" "p_writers p = p_writers (w_pipes w ! i)"
  shows "world_ok ds (upd_pipe i (\<lambda>_. p) w)"
  using assms by (simp add: world_ok_def pipe_counts_ok_def nth_upd_pipe)

lemma world_ok_other:
  assumes "world_ok ds w" "ib_invar (w_input w')" "w_pipes w' = w_pipes w" "offsets_ok w'"
    "length (w_writes w') = length (w_writes w)" "length (w_reads w') = length (w_reads w)"
  shows "world_ok ds w'"
proof -
  have "fd_object w' d = fd_object w d" for d
    using assms by (intro fd_object_cong) simp_all
  with assms show ?thesis by (simp add: world_ok_def pipe_counts_ok_def)
qed

lemma offsets_ok_update:
  "offsets_ok w \<Longrightarrow> fr_offset f \<le> length (fr_contents f) \<Longrightarrow>
    offsets_ok (w\<lparr>w_reads := (w_reads w)[i := f]\<rparr>)"
  by (auto simp: offsets_ok_def dest: set_update_subset_insert [THEN subsetD])

lemma world_okD:
  assumes "world_ok ds w"
  shows "ib_invar (w_input w)" "offsets_ok w" "d \<in># ds \<Longrightarrow> fd_object w d"
    "i < length (w_pipes w) \<Longrightarrow> pipe_invar (w_pipes w ! i)"
    "i < length (w_pipes w) \<Longrightarrow> p_readers (w_pipes w ! i) = count ds (PipeRead i)"
    "i < length (w_pipes w) \<Longrightarrow> p_writers (w_pipes w ! i) = count ds (PipeWrite i)"
  using assms by (simp_all add: world_ok_def pipe_counts_ok_def)

lemma world_ok_read:
  assumes w: "world_ok ds w" and d: "d \<in># ds" and r: "fd_read d output w = (res, output', w')"
  shows "world_ok ds w'"
proof (cases d)
  case Stdin
  obtain n out b where b: "InputBuffer_read output (w_input w) = (n, out, b)"
    by (metis prod_cases3)
  have "w' = w\<lparr>w_input := b\<rparr>" using r Stdin b by simp
  then show ?thesis
    using world_ok_other [OF w, of w'] ib_read_spec [OF world_okD(1) [OF w] b] world_okD(2) [OF w]
    by (simp add: offsets_ok_def)
next
  case (PipeRead i)
  have i: "i < length (w_pipes w)" using world_okD(3) [OF w d] PipeRead by simp
  obtain n out p where p: "Pipe_read output (w_pipes w ! i) = (n, out, p)"
    by (metis prod_cases3)
  have "w' = w \<or> w' = upd_pipe i (\<lambda>_. p) w"
    using r PipeRead p by (simp add: Let_def split: if_splits)
  then show ?thesis
    using w world_ok_upd_pipe [OF w i] Pipe_read_spec [OF world_okD(4) [OF w i] p] by auto
next
  case (FdFileRead i)
  let ?f = "w_reads w ! i"
  let ?g = "?f\<lparr>fr_offset := fr_offset ?f
    + min (length output) (length (drop (fr_offset ?f) (fr_contents ?f)))\<rparr>"
  have "?f \<in> set (w_reads w)" using world_okD(3) [OF w d] FdFileRead by simp
  then have "fr_offset ?g \<le> length (fr_contents ?g)"
    using world_okD(2) [OF w] by (auto simp: offsets_ok_def)
  moreover have "w' = w\<lparr>w_reads := (w_reads w)[i := ?g]\<rparr>"
    using r FdFileRead by (simp add: Let_def)
  ultimately show ?thesis
    using world_ok_other [OF w, of w'] offsets_ok_update [of w ?g i] world_okD(1,2) [OF w] by simp
qed (use assms in auto)

lemma fd_write_file_frame:
  assumes "fd_write ops (FdFileWrite i) input w = (res, w')"
  shows "w_input w' = w_input w" "w_pipes w' = w_pipes w" "w_reads w' = w_reads w"
    "length (w_writes w') = length (w_writes w)"
proof -
  let ?r = "snd (fd_write ops (FdFileWrite i) input w)"
  have "w_input ?r = w_input w \<and> w_pipes ?r = w_pipes w \<and> w_reads ?r = w_reads w
    \<and> length (w_writes ?r) = length (w_writes w)"
    by (simp add: Let_def split: prod.split bool.split)
  then show "w_input w' = w_input w" "w_pipes w' = w_pipes w" "w_reads w' = w_reads w"
    "length (w_writes w') = length (w_writes w)"
    unfolding assms by simp_all
qed

lemma world_ok_write:
  assumes w: "world_ok ds w" and d: "d \<in># ds" and r: "fd_write ops d input w = (res, w')"
  shows "world_ok ds w'"
proof (cases d)
  case Console
  then have "w' = w\<lparr>w_console := w_console w @ input\<rparr>" using r by simp
  then show ?thesis
    using world_ok_other [OF w, of w'] world_okD(1,2) [OF w] by (simp add: offsets_ok_def)
next
  case (PipeWrite i)
  have i: "i < length (w_pipes w)" using world_okD(3) [OF w d] PipeWrite by simp
  obtain n p where p: "Pipe_write input (w_pipes w ! i) = (n, p)" by fastforce
  have "w' = w \<or> w' = upd_pipe i (\<lambda>_. p) w"
    using r PipeWrite p by (simp add: Let_def split: if_splits)
  then show ?thesis
    using w world_ok_upd_pipe [OF w i] Pipe_write_spec [OF world_okD(4) [OF w i] p] by auto
next
  case (FdFileWrite i)
  then show ?thesis
    using fd_write_file_frame [of ops i input w res w'] r world_ok_other [OF w, of w'] world_okD(1,2) [OF w] by (simp add: offsets_ok_def)
qed (use assms in auto)

section \<open>The descriptor layer as a state machine\<close>

text \<open>A state is the multiset of live descriptors and the store. A step is one descriptor
  operation by some task, or a key press; its label records the bytes a pipe took in or gave
  out.\<close>

datatype fd_event = Quiet | Accepted nat "byte list" | Delivered nat "byte list"

definition read_event :: "FileDescriptor \<Rightarrow> ReadError + nat \<Rightarrow> byte list \<Rightarrow> fd_event" where
  "read_event d res output = (case (d, res) of
      (PipeRead i, Inr n) \<Rightarrow> Delivered i (take n output) | _ \<Rightarrow> Quiet)"

definition write_event :: "FileDescriptor \<Rightarrow> WriteError + nat \<Rightarrow> byte list \<Rightarrow> fd_event" where
  "write_event d res input = (case (d, res) of
      (PipeWrite i, Inr n) \<Rightarrow> Accepted i (take n input) | _ \<Rightarrow> Quiet)"

type_synonym 'd fd_state = "FileDescriptor multiset \<times> 'd World"

inductive fd_step :: "'d DiskOps \<Rightarrow> 'd fd_state \<Rightarrow> fd_event \<Rightarrow> 'd fd_state \<Rightarrow> bool"
  for ops where
  std: "d \<in> {Stdin, Console} \<Longrightarrow> fd_step ops (ds, w) Quiet (add_mset d ds, w)"
| clone: "d \<in># ds \<Longrightarrow> fd_clone d w = (d', w') \<Longrightarrow>
    fd_step ops (ds, w) Quiet (add_mset d' ds, w')"
| close: "fd_step ops (add_mset d ds, w) Quiet (ds, fd_close d w)"
| pipe: "create_pipe w = (Some (r, t), w') \<Longrightarrow>
    fd_step ops (ds, w) Quiet (add_mset r (add_mset t ds), w')"
| open_write: "create_file_write ops path w = (res, w') \<Longrightarrow>
    fd_step ops (ds, w) Quiet (case res of None \<Rightarrow> ds | Some d \<Rightarrow> add_mset d ds, w')"
| open_read: "create_file_read ops path w = (res, w') \<Longrightarrow>
    fd_step ops (ds, w) Quiet (case res of None \<Rightarrow> ds | Some d \<Rightarrow> add_mset d ds, w')"
| fdread: "d \<in># ds \<Longrightarrow> fd_read d buf w = (res, output', w') \<Longrightarrow>
    fd_step ops (ds, w) (read_event d res output') (ds, w')"
| fdwrite: "d \<in># ds \<Longrightarrow> fd_write ops d input w = (res, w') \<Longrightarrow>
    fd_step ops (ds, w) (write_event d res input) (ds, w')"
| key: "fd_step ops (ds, w) Quiet (ds, w\<lparr>w_input := InputBuffer_push b (w_input w)\<rparr>)"

inductive fd_trace :: "'d DiskOps \<Rightarrow> 'd fd_state \<Rightarrow> fd_event list \<Rightarrow> 'd fd_state \<Rightarrow> bool"
  for ops s where
  start: "fd_trace ops s [] s"
| snoc: "fd_trace ops s evs s' \<Longrightarrow> fd_step ops s' ev s'' \<Longrightarrow> fd_trace ops s (evs @ [ev]) s''"

definition world_init :: "'d \<Rightarrow> 'd World" where
  "world_init disk = \<lparr>w_input = InputBuffer_new, w_console = [], w_pipes = [], w_writes = [],
    w_reads = [], w_disk = disk\<rparr>"

fun accepted :: "nat \<Rightarrow> fd_event list \<Rightarrow> byte list" where
  "accepted i [] = []"
| "accepted i (Accepted j bs # evs) = (if j = i then bs @ accepted i evs else accepted i evs)"
| "accepted i (_ # evs) = accepted i evs"

fun delivered :: "nat \<Rightarrow> fd_event list \<Rightarrow> byte list" where
  "delivered i [] = []"
| "delivered i (Delivered j bs # evs) = (if j = i then bs @ delivered i evs else delivered i evs)"
| "delivered i (_ # evs) = delivered i evs"

definition held :: "'d World \<Rightarrow> nat \<Rightarrow> byte list" where
  "held w i = (if i < length (w_pipes w) then pipe_contents (w_pipes w ! i) else [])"

lemma accepted_append [simp]: "accepted i (xs @ ys) = accepted i xs @ accepted i ys"
  by (induction i xs rule: accepted.induct) auto

lemma delivered_append [simp]: "delivered i (xs @ ys) = delivered i xs @ delivered i ys"
  by (induction i xs rule: delivered.induct) auto

lemma world_ok_init: "world_ok {#} (world_init disk)"
  by (simp add: world_ok_def world_init_def pipe_counts_ok_def offsets_ok_def ib_new)

lemma world_ok_step:
  assumes "fd_step ops s ev s'" "world_ok (fst s) (snd s)"
  shows "world_ok (fst s') (snd s')"
  using assms
proof (induction rule: fd_step.induct)
  case (std d ds w)
  then show ?case by (auto simp: world_ok_def pipe_counts_ok_def)
next
  case (clone d ds w d' w')
  then show ?case using world_ok_clone [of ds w d d' w'] by simp
next
  case (close d ds w)
  then show ?case using world_ok_drop [of d ds w] by (simp add: fd_close_def)
next
  case (pipe w r t w' ds)
  then show ?case using world_ok_create_pipe [of ds w r t w'] by simp
next
  case (open_write path w res w' ds)
  then show ?case using world_ok_create_file_write [of ds w ops path res w'] by simp
next
  case (open_read path w res w' ds)
  then show ?case using world_ok_create_file_read [of ds w ops path res w'] by simp
next
  case (fdread d ds buf w res output' w')
  then show ?case using world_ok_read [of ds w d buf res output' w'] by simp
next
  case (fdwrite d ds input w res w')
  then show ?case using world_ok_write [of ds w d ops input res w'] by simp
next
  case (key ds w b)
  then show ?case
    using world_ok_other [of ds w "w\<lparr>w_input := InputBuffer_push b (w_input w)\<rparr>"]
    by (simp add: world_ok_def ib_invar_push offsets_ok_def)
qed

lemma held_upd_counter:
  "(\<And>p. pipe_contents (f p) = pipe_contents p) \<Longrightarrow> held (upd_pipe j f w) i = held w i"
  by (simp add: held_def nth_upd_pipe)

lemma held_same_pipes: "w_pipes w' = w_pipes w \<Longrightarrow> held w' i = held w i"
  by (simp add: held_def)

lemma held_read:
  assumes w: "world_ok ds w" and d: "d \<in># ds" and r: "fd_read d output w = (res, output', w')"
  shows "held w i = delivered i [read_event d res output'] @ held w' i"
proof (cases d)
  case (PipeRead j)
  have j: "j < length (w_pipes w)" using world_okD(3) [OF w d] PipeRead by simp
  obtain n out p where p: "Pipe_read output (w_pipes w ! j) = (n, out, p)"
    by (metis prod_cases3)
  note spec = Pipe_read_spec [OF world_okD(4) [OF w j] p]
  have keep: "pipe_contents (w_pipes w ! j) = take n out @ pipe_contents p"
    using spec(1-3) by (simp add: min_def)
  show ?thesis
  proof (cases "p_length (w_pipes w ! j) = 0 \<and> p_writers (w_pipes w ! j) \<noteq> 0")
    case True
    then show ?thesis
      using r PipeRead by (auto simp: read_event_def)
  next
    case False
    then have "res = Inr n" "output' = out" "w' = upd_pipe j (\<lambda>_. p) w"
      using r PipeRead p by (auto simp: Let_def)
    then show ?thesis
      using PipeRead j keep by (auto simp: read_event_def held_def nth_upd_pipe)
  qed
qed (use r in \<open>auto simp: read_event_def Let_def intro!: held_same_pipes split: prod.splits\<close>)

lemma held_write:
  assumes w: "world_ok ds w" and d: "d \<in># ds" and r: "fd_write ops d input w = (res, w')"
  shows "held w i @ accepted i [write_event d res input] = held w' i"
proof (cases d)
  case (PipeWrite j)
  have j: "j < length (w_pipes w)" using world_okD(3) [OF w d] PipeWrite by simp
  obtain n p where p: "Pipe_write input (w_pipes w ! j) = (n, p)" by fastforce
  show ?thesis
    using r PipeWrite p j Pipe_write_spec [OF world_okD(4) [OF w j] p]
    by (auto simp: Let_def write_event_def held_def nth_upd_pipe split: if_splits)
next
  case (FdFileWrite j)
  have "w_pipes w' = w_pipes w"
    by (rule fd_write_file_frame(2) [OF r [unfolded FdFileWrite]])
  then show ?thesis using FdFileWrite by (simp add: write_event_def held_def)
qed (use r in \<open>auto simp: write_event_def intro!: held_same_pipes\<close>)

lemma read_event_accepted [simp]: "accepted i [read_event d res out] = []"
  by (simp add: read_event_def split: FileDescriptor.split sum.split)

lemma write_event_delivered [simp]: "delivered i [write_event d res inp] = []"
  by (simp add: write_event_def split: FileDescriptor.split sum.split)

lemma held_step:
  assumes "fd_step ops s ev s'" "world_ok (fst s) (snd s)"
  shows "held (snd s) i @ accepted i [ev] = delivered i [ev] @ held (snd s') i"
  using assms(1)
proof cases
  case (clone d ds w d' w')
  then show ?thesis
    by (auto simp: fd_clone_def held_upd_counter split: FileDescriptor.splits)
next
  case (close d ds w)
  then show ?thesis
    by (auto simp: fd_close_def fd_drop_def held_upd_counter split: FileDescriptor.splits)
next
  case (pipe w r t w' ds)
  then show ?thesis
    by (auto simp: create_pipe_def Let_def held_def nth_append)
next
  case (open_write path w res w' ds)
  then have "w_pipes w' = w_pipes w"
    by (auto simp: create_file_write_def split: if_splits prod.splits bool.splits)
  then show ?thesis using open_write by (simp add: held_def)
next
  case (open_read path w res w' ds)
  then have "w_pipes w' = w_pipes w"
    by (auto simp: create_file_read_def split: option.splits)
  then show ?thesis using open_read by (simp add: held_def)
next
  case (fdread d ds buf w res output' w')
  then show ?thesis using assms(2) held_read [of ds w d buf res output' w'] by simp
next
  case (fdwrite d ds input w res w')
  then show ?thesis using assms(2) held_write [of ds w d ops input res w'] by simp
qed (auto intro: held_same_pipes)

lemma fd_trace_inv:
  "fd_trace ops ({#}, world_init disk) evs s \<Longrightarrow>
    world_ok (fst s) (snd s) \<and> (\<forall>i. accepted i evs = delivered i evs @ held (snd s) i)"
proof (induction rule: fd_trace.induct)
  case start
  then show ?case
    using world_ok_init by (simp add: held_def) (simp add: world_init_def)
next
  case (snoc evs s' ev s'')
  then show ?case
    using world_ok_step [of ops s' ev s''] held_step [of ops s' ev s''] by simp
qed

section \<open>Properties\<close>

text \<open>C13. Pipes are reliable byte streams: in every run of the descriptor layer (any interleaving
  of opening, cloning, closing, reading and writing descriptors by any number of tasks), the
  bytes a pipe accepted are exactly the bytes it delivered, in the same order, followed by the
  bytes it still holds.\<close>

theorem pipe_stream:
  assumes "fd_trace ops ({#}, world_init disk) evs (ds, w)" and "i < length (w_pipes w)"
  shows "accepted i evs = delivered i evs @ pipe_contents (w_pipes w ! i)"
  using fd_trace_inv [OF assms(1)] assms(2) by (simp add: held_def)

text \<open>A concrete run for the witnesses: a pipe is created, two bytes are written and one is
  read, over a disk without files.\<close>

definition no_files :: "unit DiskOps" where
  "no_files = \<lparr>op_write_file = (\<lambda>path contents disk. (False, disk)),
    op_read_file_vec = (\<lambda>path limit disk. Some None)\<rparr>"

definition run1 :: "unit World" where
  "run1 = snd (create_pipe (world_init ()))"

definition run2 :: "unit World" where
  "run2 = snd (fd_write no_files (PipeWrite 0) [1, 2] run1)"

definition run3 :: "unit World" where
  "run3 = snd (snd (fd_read (PipeRead 0) [0] run2))"

lemma run1: "create_pipe (world_init ()) = (Some (PipeRead 0, PipeWrite 0), run1)"
  "w_pipes run1 = [Pipe_new\<lparr>p_readers := 1\<rparr>]"
  by (simp_all add: run1_def create_pipe_def Let_def world_init_def)

lemma run2: "fd_write no_files (PipeWrite 0) [1, 2] run1 = (Inr 2, run2)"
  "\<exists>p. w_pipes run2 = [p] \<and> pipe_invar p \<and> pipe_contents p = [1, 2]"
proof -
  obtain n p where p: "Pipe_write [1, 2] (Pipe_new\<lparr>p_readers := 1\<rparr>) = (n, p)"
    by fastforce
  note spec = Pipe_write_spec [OF _ p]
  have "n = 2" "pipe_invar p" "pipe_contents p = [1, 2]"
    using spec by (simp_all add: PIPE_CAPACITY_def)
  then show "fd_write no_files (PipeWrite 0) [1, 2] run1 = (Inr 2, run2)"
    "\<exists>p. w_pipes run2 = [p] \<and> pipe_invar p \<and> pipe_contents p = [1, 2]"
    using p by (simp_all add: run2_def run1 upd_pipe_def)
qed

lemma run3: "fd_read (PipeRead 0) [0] run2 = (Inr 1, [1], run3)"
  "\<exists>p. w_pipes run3 = [p] \<and> pipe_contents p = [2]"
proof -
  obtain q where q: "w_pipes run2 = [q]" "pipe_invar q" "pipe_contents q = [1, 2]"
    using run2(2) by blast
  have len: "p_length q = 2"
    using q(3) length_pipe_contents [of q] by simp
  obtain n out p where p: "Pipe_read [0] q = (n, out, p)"
    by (metis prod_cases3)
  have "n = 1" "out = [1]" "pipe_contents p = [2]"
    using Pipe_read_spec [OF q(2) p] q(3) len by simp_all
  then show "fd_read (PipeRead 0) [0] run2 = (Inr 1, [1], run3)"
    "\<exists>p. w_pipes run3 = [p] \<and> pipe_contents p = [2]"
    using p q(1) len by (simp_all add: run3_def upd_pipe_def)
qed

lemma run_trace:
  "fd_trace no_files ({#}, world_init ()) [Quiet, Accepted 0 [1, 2], Delivered 0 [1]]
    ({#PipeRead 0, PipeWrite 0#}, run3)"
proof -
  let ?ds = "{#PipeRead 0, PipeWrite 0#}"
  have "fd_step no_files ({#}, world_init ()) Quiet (?ds, run1)"
    using fd_step.pipe [OF run1(1)] by simp
  then have 1: "fd_trace no_files ({#}, world_init ()) [Quiet] (?ds, run1)"
    using fd_trace.snoc [OF fd_trace.start] by fastforce
  have "fd_step no_files (?ds, run1) (Accepted 0 [1, 2]) (?ds, run2)"
    using fd_step.fdwrite [OF _ run2(1), of ?ds] by (simp add: write_event_def)
  from fd_trace.snoc [OF 1 this]
  have 2: "fd_trace no_files ({#}, world_init ()) [Quiet, Accepted 0 [1, 2]] (?ds, run2)"
    by simp
  have "fd_step no_files (?ds, run2) (Delivered 0 [1]) (?ds, run3)"
    using fd_step.fdread [OF _ run3(1), of ?ds] by (simp add: read_event_def)
  from fd_trace.snoc [OF 2 this] show ?thesis
    by simp
qed

theorem pipe_stream_witness:
  "fd_trace no_files ({#}, world_init ()) [Quiet, Accepted 0 [1, 2], Delivered 0 [1]]
    ({#PipeRead 0, PipeWrite 0#}, run3)
   \<and> pipe_contents (w_pipes run3 ! 0) = [2]"
  using pipe_stream [OF run_trace, of 0] run_trace run3(2) by auto

text \<open>C21. In every run, a read from a pipe blocks exactly when the pipe is empty and a write
  descriptor of it is alive; when it is empty and every writer is closed it returns 0 (end of
  file); otherwise it returns the oldest bytes that fit the output slice.\<close>

theorem pipe_read_outcome:
  assumes "fd_trace ops ({#}, world_init disk) evs (ds, w)" and "PipeRead i \<in># ds"
    and "fd_read (PipeRead i) output w = (res, output', w')"
  shows "(res = Inl RWouldBlock \<longleftrightarrow> pipe_contents (w_pipes w ! i) = [] \<and> PipeWrite i \<in># ds)
    \<and> (res \<noteq> Inl RWouldBlock \<longrightarrow>
        res = Inr (min (length output) (length (pipe_contents (w_pipes w ! i))))
        \<and> output' = take (length output) (pipe_contents (w_pipes w ! i))
            @ drop (length (pipe_contents (w_pipes w ! i))) output)"
proof -
  have ok: "world_ok ds w" using fd_trace_inv [OF assms(1)] by simp
  have i: "i < length (w_pipes w)" using world_okD(3) [OF ok assms(2)] by simp
  obtain n out p where p: "Pipe_read output (w_pipes w ! i) = (n, out, p)"
    by (metis prod_cases3)
  note spec = Pipe_read_spec [OF world_okD(4) [OF ok i] p]
  have "p_writers (w_pipes w ! i) = 0 \<longleftrightarrow> PipeWrite i \<notin># ds"
    using world_okD(6) [OF ok i] by (simp add: not_in_iff)
  with assms(3) p spec(1,2) show ?thesis
    by (auto simp: Let_def min_def split: if_splits)
qed

theorem pipe_read_outcome_witness:
  "\<exists>output' w'. fd_read (PipeRead 0) [0, 0] run3 = (Inr 1, output', w')"
proof -
  obtain res out w' where r: "fd_read (PipeRead 0) [0, 0] run3 = (res, out, w')"
    by (metis prod_cases3)
  have "pipe_contents (w_pipes run3 ! 0) = [2]"
    using run3(2) by auto
  then show ?thesis
    using pipe_read_outcome [OF run_trace _ r] r by simp
qed

text \<open>C23. In every run, a write to a pipe fails as broken exactly when no read descriptor of it
  is alive; otherwise it blocks exactly when the pipe is full and there is something to write,
  and else it appends the longest prefix of the input that fits, and returns its length.\<close>

theorem pipe_write_outcome:
  assumes "fd_trace ops ({#}, world_init disk) evs (ds, w)" and "PipeWrite i \<in># ds"
    and "fd_write ops (PipeWrite i) input w = (res, w')"
  shows "(res = Inl WBrokenPipe \<longleftrightarrow> PipeRead i \<notin># ds)
    \<and> (res = Inl WWouldBlock \<longleftrightarrow> PipeRead i \<in># ds \<and> input \<noteq> []
        \<and> length (pipe_contents (w_pipes w ! i)) = PIPE_CAPACITY)
    \<and> (res \<noteq> Inl WBrokenPipe \<and> res \<noteq> Inl WWouldBlock \<longrightarrow> (\<exists>n. res = Inr n
        \<and> n = min (length input) (PIPE_CAPACITY - length (pipe_contents (w_pipes w ! i)))
        \<and> pipe_contents (w_pipes w' ! i) = pipe_contents (w_pipes w ! i) @ take n input))"
proof -
  have ok: "world_ok ds w" using fd_trace_inv [OF assms(1)] by simp
  have i: "i < length (w_pipes w)" using world_okD(3) [OF ok assms(2)] by simp
  obtain n p where p: "Pipe_write input (w_pipes w ! i) = (n, p)" by fastforce
  note spec = Pipe_write_spec [OF world_okD(4) [OF ok i] p]
  have "p_readers (w_pipes w ! i) = 0 \<longleftrightarrow> PipeRead i \<notin># ds"
    using world_okD(5) [OF ok i] by (simp add: not_in_iff)
  moreover have "p_length (w_pipes w ! i) \<le> PIPE_CAPACITY"
    using world_okD(4) [OF ok i] by (simp add: pipe_invar_def)
  ultimately show ?thesis
    using assms(3) p spec(1,2) i
    by (cases "input = []") (auto simp: Let_def nth_upd_pipe min_def split: if_splits)
qed

theorem pipe_write_outcome_witness:
  "\<exists>w'. fd_write no_files (PipeWrite 0) [3] run3 = (Inr 1, w')"
proof -
  obtain res w' where r: "fd_write no_files (PipeWrite 0) [3] run3 = (res, w')"
    by fastforce
  have c: "pipe_contents (w_pipes run3 ! 0) = [2]"
    using run3(2) by auto
  show ?thesis
    using pipe_write_outcome [OF run_trace _ r] r c by (auto simp: PIPE_CAPACITY_def)
qed

end
