(* ===== verification/Frame_Alloc.thy ===== *)
theory Frame_Alloc
  imports LeafOS_Prelude
begin

text \<open>
  The boot information block (\<open>boot_info.rs\<close>) and the physical frame allocator of
  \<open>memory/mod.rs\<close>: the validation of the UEFI memory map, the reserved ranges, and
  \<open>BootInfoFrameAllocator\<close>. A physical frame is its start address. The allocator refines a
  stack of free frames (\<open>free_frames\<close>): an allocation pops it, a reclaim pushes on it, and the
  frame count the heap relies on is its exact length.
\<close>

section \<open>Boot information\<close>

definition BOOT_INFO_MAGIC :: nat where "BOOT_INFO_MAGIC = 0x52555354424F4F54"

record BootInfo =
  bi_magic :: nat
  bi_version :: nat
  bi_system_table :: nat
  bi_memory_map :: nat
  bi_memory_map_size :: nat
  bi_descriptor_size :: nat
  bi_descriptor_version :: nat
  bi_kernel_base :: nat
  bi_kernel_file_size :: nat
  bi_kernel_reserved_size :: nat
  bi_page_table_root :: nat
  bi_physical_memory_offset :: nat
  bi_framebuffer_base :: nat
  bi_framebuffer_size :: nat
  bi_framebuffer_width :: nat
  bi_framebuffer_height :: nat
  bi_framebuffer_pixels_per_scan_line :: nat
  bi_framebuffer_pixel_format :: nat
  bi_initrd_base :: nat
  bi_initrd_size :: nat

text \<open>\<open>size_of::<BootInfo>()\<close> for the C layout above.\<close>

definition size_of_BootInfo :: nat where "size_of_BootInfo = 144"

definition BootInfo_from_ptr :: "(nat \<Rightarrow> BootInfo) \<Rightarrow> nat \<Rightarrow> BootInfo option" where
  "BootInfo_from_ptr deref ptr =
    (if ptr = 0 then None
     else let info = deref ptr
       in if bi_magic info \<noteq> BOOT_INFO_MAGIC then None else Some info)"

section \<open>The memory map\<close>

definition EFI_CONVENTIONAL_MEMORY :: nat where "EFI_CONVENTIONAL_MEMORY = 7"
definition PAGE_SIZE :: nat where "PAGE_SIZE = 4096"
definition EFI_DESCRIPTOR_MIN_SIZE :: nat where "EFI_DESCRIPTOR_MIN_SIZE = 40"
definition RECLAIMED_FRAME_CAPACITY :: nat where "RECLAIMED_FRAME_CAPACITY = 260"

datatype MemoryError =
    MissingMemoryMap
  | InvalidMemoryMap
  | InvalidPhysicalAddressWidth
  | InvalidBootInfo
  | InvalidPageTableRoot
  | InvalidPhysicalMemoryOffset
  | PhysicalAddressOutOfRange
  | FrameReclaimCapacityExceeded
  | NotInitialized
  | FrameAllocationFailed
  | NoUserAddressSpaceSlot

record PhysicalRange =
  pr_start :: nat
  pr_end :: nat

definition range_empty :: PhysicalRange where
  "range_empty = \<lparr>pr_start = 0, pr_end = 0\<rparr>"

definition overlaps :: "PhysicalRange \<Rightarrow> PhysicalRange \<Rightarrow> bool" where
  "overlaps r s \<longleftrightarrow> pr_start r < pr_end s \<and> pr_start s < pr_end r"

definition range_contains :: "PhysicalRange \<Rightarrow> nat \<Rightarrow> bool" where
  "range_contains r address \<longleftrightarrow> pr_start r \<le> address \<and> address < pr_end r"

record EfiMemoryDescriptor =
  md_type :: nat
  md_physical_start :: nat
  md_number_of_pages :: nat

definition physical_address_limit :: "nat option \<Rightarrow> MemoryError + nat" where
  "physical_address_limit cpuid_bits = (case cpuid_bits of
      None \<Rightarrow> Inl InvalidPhysicalAddressWidth
    | Some bits \<Rightarrow> if 32 \<le> bits \<and> bits \<le> 52 then Inr (2 ^ bits)
        else Inl InvalidPhysicalAddressWidth)"

definition size_of_descriptor :: nat where "size_of_descriptor = 40"

text \<open>\<open>bytes.get(a..b)\<close>.\<close>

definition slice_get :: "nat \<Rightarrow> nat \<Rightarrow> 'a list \<Rightarrow> 'a list option" where
  "slice_get a b xs = (if a \<le> b \<and> b \<le> length xs then Some (take (b - a) (drop a xs)) else None)"

definition parse_descriptor :: "byte list \<Rightarrow> EfiMemoryDescriptor" where
  "parse_descriptor bs = \<lparr>md_type = le_nat (take 4 bs),
    md_physical_start = le_nat (take 8 (drop 8 bs)),
    md_number_of_pages = le_nat (take 8 (drop 24 bs))\<rparr>"

definition read_descriptor :: "byte list \<Rightarrow> nat \<Rightarrow> nat \<Rightarrow> EfiMemoryDescriptor option" where
  "read_descriptor memory_map descriptor_size index =
    (case checked_mul index descriptor_size of None \<Rightarrow> None | Some offset \<Rightarrow>
     case checked_add offset size_of_descriptor of None \<Rightarrow> None | Some stop \<Rightarrow>
       map_option parse_descriptor (slice_get offset stop memory_map))"

definition region_end :: "EfiMemoryDescriptor \<Rightarrow> MemoryError + nat" where
  "region_end d =
    bind_res (ok_or InvalidMemoryMap (checked_mul (md_number_of_pages d) PAGE_SIZE))
      (\<lambda>size. ok_or InvalidMemoryMap (checked_add (md_physical_start d) size))"

definition check_disjoint :: "byte list \<Rightarrow> nat \<Rightarrow> PhysicalRange \<Rightarrow> nat \<Rightarrow> MemoryError + unit" where
  "check_disjoint memory_map descriptor_size current other_index =
    bind_res (ok_or InvalidMemoryMap (read_descriptor memory_map descriptor_size other_index))
      (\<lambda>other. bind_res (region_end other) (\<lambda>other_end.
        if overlaps current \<lparr>pr_start = md_physical_start other, pr_end = other_end\<rparr>
        then Inl InvalidMemoryMap else Inr ()))"

definition check_descriptor :: "byte list \<Rightarrow> nat \<Rightarrow> nat \<Rightarrow> nat \<Rightarrow> MemoryError + unit" where
  "check_descriptor memory_map descriptor_size physical_limit index =
    bind_res (ok_or InvalidMemoryMap (read_descriptor memory_map descriptor_size index))
      (\<lambda>d. bind_res (region_end d) (\<lambda>stop.
        if md_number_of_pages d = 0 \<or> md_physical_start d mod PAGE_SIZE \<noteq> 0
          \<or> physical_limit \<le> md_physical_start d \<or> physical_limit < stop
        then Inl InvalidMemoryMap
        else try_each (check_disjoint memory_map descriptor_size
               \<lparr>pr_start = md_physical_start d, pr_end = stop\<rparr>) [0..<index]))"

definition validate_memory_map :: "byte list \<Rightarrow> nat \<Rightarrow> nat \<Rightarrow> MemoryError + nat" where
  "validate_memory_map memory_map descriptor_size physical_limit =
    (if descriptor_size < EFI_DESCRIPTOR_MIN_SIZE \<or> memory_map = []
        \<or> length memory_map mod descriptor_size \<noteq> 0 \<or> physical_limit \<le> PAGE_SIZE
     then Inl InvalidMemoryMap
     else let descriptor_count = length memory_map div descriptor_size
       in bind_res (try_each (check_descriptor memory_map descriptor_size physical_limit)
            [0..<descriptor_count]) (\<lambda>_. Inr descriptor_count))"

text \<open>\<open>address & !PAGE_MASK\<close>.\<close>

definition page_floor :: "nat \<Rightarrow> nat" where
  "page_floor address = address - address mod PAGE_SIZE"

definition page_covering_range :: "nat \<Rightarrow> nat \<Rightarrow> nat \<Rightarrow> MemoryError + PhysicalRange" where
  "page_covering_range address len physical_limit =
    (if len = 0 then Inr range_empty
     else bind_res (ok_or InvalidBootInfo (checked_add address len)) (\<lambda>stop.
       let aligned_start = page_floor address
       in bind_res (ok_or InvalidBootInfo (checked_add stop (PAGE_SIZE - 1))) (\<lambda>e.
         let aligned_end = page_floor e
         in if physical_limit < aligned_end \<or> aligned_end \<le> aligned_start
            then Inl InvalidBootInfo
            else Inr \<lparr>pr_start = aligned_start, pr_end = aligned_end\<rparr>)))"

definition reserved_ranges :: "BootInfo \<Rightarrow> nat \<Rightarrow> nat \<Rightarrow> MemoryError + PhysicalRange list" where
  "reserved_ranges b boot_info_address limit =
    bind_res (page_covering_range (bi_kernel_base b) (bi_kernel_reserved_size b) limit) (\<lambda>r1.
    bind_res (page_covering_range boot_info_address size_of_BootInfo limit) (\<lambda>r2.
    bind_res (page_covering_range (bi_memory_map b) (bi_memory_map_size b) limit) (\<lambda>r3.
    bind_res (page_covering_range (bi_page_table_root b) PAGE_SIZE limit) (\<lambda>r4.
    bind_res (page_covering_range (bi_system_table b) PAGE_SIZE limit) (\<lambda>r5.
    bind_res (page_covering_range (bi_framebuffer_base b) (bi_framebuffer_size b) limit) (\<lambda>r6.
      Inr [r1, r2, r3, r4, r5, r6]))))))"

section \<open>The frame allocator\<close>

record FrameAllocator =
  fa_memory_map :: "byte list"
  fa_descriptor_size :: nat
  fa_descriptor_count :: nat
  fa_descriptor_index :: nat
  fa_page_index :: nat
  fa_physical_limit :: nat
  fa_reserved_ranges :: "PhysicalRange list"
  fa_reclaimed_frames :: "nat option list"
  fa_reclaimed_count :: nat

text \<open>\<open>core::slice::from_raw_parts\<close> over the physical memory \<open>mem\<close>.\<close>

definition from_raw_parts :: "(nat \<Rightarrow> byte) \<Rightarrow> nat \<Rightarrow> nat \<Rightarrow> byte list" where
  "from_raw_parts mem address len = map (\<lambda>i. mem (address + i)) [0..<len]"

definition check_reserved :: "byte list \<Rightarrow> nat \<Rightarrow> PhysicalRange list \<Rightarrow> nat \<Rightarrow> MemoryError + unit" where
  "check_reserved memory_map descriptor_size reserved index =
    bind_res (ok_or InvalidMemoryMap (read_descriptor memory_map descriptor_size index)) (\<lambda>d.
      if md_type d = EFI_CONVENTIONAL_MEMORY
        \<and> (\<exists>r \<in> set reserved. overlaps \<lparr>pr_start = md_physical_start d,
              pr_end = md_physical_start d + md_number_of_pages d * PAGE_SIZE\<rparr> r)
      then Inl InvalidMemoryMap else Inr ())"

definition FrameAllocator_new ::
    "(nat \<Rightarrow> byte) \<Rightarrow> BootInfo \<Rightarrow> nat \<Rightarrow> nat \<Rightarrow> MemoryError + FrameAllocator" where
  "FrameAllocator_new mem b boot_info_address physical_limit =
    (if bi_memory_map b = 0 \<or> bi_memory_map_size b = 0 then Inl MissingMemoryMap
     else if bi_descriptor_size b < EFI_DESCRIPTOR_MIN_SIZE \<or> 2 ^ 63 - 1 < bi_memory_map_size b
        \<or> bi_memory_map_size b mod bi_descriptor_size b \<noteq> 0 then Inl InvalidMemoryMap
     else let memory_map = from_raw_parts mem (bi_memory_map b) (bi_memory_map_size b)
       in bind_res (validate_memory_map memory_map (bi_descriptor_size b) physical_limit) (\<lambda>count.
          bind_res (reserved_ranges b boot_info_address physical_limit) (\<lambda>reserved.
          bind_res (try_each (check_reserved memory_map (bi_descriptor_size b) reserved) [0..<count])
          (\<lambda>_. Inr \<lparr>fa_memory_map = memory_map, fa_descriptor_size = bi_descriptor_size b,
            fa_descriptor_count = count, fa_descriptor_index = 0, fa_page_index = 0,
            fa_physical_limit = physical_limit, fa_reserved_ranges = reserved,
            fa_reclaimed_frames = replicate RECLAIMED_FRAME_CAPACITY None,
            fa_reclaimed_count = 0\<rparr>))))"

abbreviation fa_read :: "FrameAllocator \<Rightarrow> nat \<Rightarrow> EfiMemoryDescriptor option" where
  "fa_read a \<equiv> read_descriptor (fa_memory_map a) (fa_descriptor_size a)"

definition fa_excluded :: "FrameAllocator \<Rightarrow> nat \<Rightarrow> bool" where
  "fa_excluded a address \<longleftrightarrow> fa_physical_limit a \<le> address
    \<or> (\<exists>r \<in> set (fa_reserved_ranges a). range_contains r address)"

text \<open>The cursor loop of \<open>next_usable_frame\<close>. The result \<open>None\<close> stands for the panic of the
  \<open>expect\<close> on a descriptor that cannot be read.\<close>

function (sequential) next_frame_loop ::
    "FrameAllocator \<Rightarrow> (nat option \<times> FrameAllocator) option" where
  "next_frame_loop a =
    (if fa_descriptor_index a < fa_descriptor_count a then
       case fa_read a (fa_descriptor_index a) of
         None \<Rightarrow> None
       | Some d \<Rightarrow>
           if md_type d \<noteq> EFI_CONVENTIONAL_MEMORY \<or> md_number_of_pages d \<le> fa_page_index a
           then next_frame_loop
             (a\<lparr>fa_descriptor_index := fa_descriptor_index a + 1, fa_page_index := 0\<rparr>)
           else let address = md_physical_start d + fa_page_index a * PAGE_SIZE;
                    a' = a\<lparr>fa_page_index := fa_page_index a + 1\<rparr>
             in if fa_excluded a address \<or> address mod PAGE_SIZE \<noteq> 0 then next_frame_loop a'
                else Some (Some address, a')
     else Some (None, a))"
  by pat_completeness auto
termination
  by (relation "measures [\<lambda>a. fa_descriptor_count a - fa_descriptor_index a,
      \<lambda>a. (case fa_read a (fa_descriptor_index a) of None \<Rightarrow> 0 | Some d \<Rightarrow> md_number_of_pages d)
        - fa_page_index a]") auto

declare next_frame_loop.simps [simp del]

definition next_usable_frame :: "FrameAllocator \<Rightarrow> (nat option \<times> FrameAllocator) option" where
  "next_usable_frame a =
    (if fa_reclaimed_count a \<noteq> 0 then
       let k = fa_reclaimed_count a - 1
       in Some (fa_reclaimed_frames a ! k,
            a\<lparr>fa_reclaimed_count := k, fa_reclaimed_frames := (fa_reclaimed_frames a)[k := None]\<rparr>)
     else next_frame_loop a)"

definition reclaim_frame :: "nat \<Rightarrow> FrameAllocator \<Rightarrow> bool \<times> FrameAllocator" where
  "reclaim_frame frame a =
    (if fa_reclaimed_count a < RECLAIMED_FRAME_CAPACITY
     then (True, a\<lparr>fa_reclaimed_frames := (fa_reclaimed_frames a)[fa_reclaimed_count a := Some frame],
        fa_reclaimed_count := fa_reclaimed_count a + 1\<rparr>)
     else (False, a))"

text \<open>The loop of \<open>available_frame_count\<close> over the reserved ranges, sorted by start, and the
  contribution of one descriptor.\<close>

primrec subtract_reserved :: "PhysicalRange \<Rightarrow> PhysicalRange list \<Rightarrow> nat \<Rightarrow> nat \<Rightarrow> nat" where
  "subtract_reserved region [] pages cursor = pages"
| "subtract_reserved region (r # rs) pages cursor =
    (let overlap_start = max (pr_start region) (pr_start r);
         overlap_end = min (pr_end region) (pr_end r)
     in if overlap_start < overlap_end then
          let unique_start = max overlap_start cursor
          in subtract_reserved region rs
               (if unique_start < overlap_end
                then pages - (overlap_end - unique_start) div PAGE_SIZE else pages)
               (max cursor overlap_end)
        else subtract_reserved region rs pages cursor)"

definition descriptor_frames :: "FrameAllocator \<Rightarrow> PhysicalRange list \<Rightarrow> nat \<Rightarrow> nat option" where
  "descriptor_frames a sorted_ranges index = (case fa_read a index of
      None \<Rightarrow> None
    | Some d \<Rightarrow>
        if md_type d \<noteq> EFI_CONVENTIONAL_MEMORY then Some 0
        else let first_page = if index = fa_descriptor_index a then fa_page_index a else 0
          in if md_number_of_pages d \<le> first_page then Some 0
             else let start = md_physical_start d + first_page * PAGE_SIZE;
                      stop = md_physical_start d + md_number_of_pages d * PAGE_SIZE
               in Some (subtract_reserved \<lparr>pr_start = start, pr_end = stop\<rparr> sorted_ranges
                    (md_number_of_pages d - first_page) start))"

primrec sum_frames :: "(nat \<Rightarrow> nat option) \<Rightarrow> nat list \<Rightarrow> nat \<Rightarrow> nat option" where
  "sum_frames f [] acc = Some acc"
| "sum_frames f (i # is) acc = (case f i of
      None \<Rightarrow> None | Some pages \<Rightarrow> sum_frames f is (saturating_add acc pages))"

definition available_frame_count :: "FrameAllocator \<Rightarrow> nat option" where
  "available_frame_count a =
    sum_frames (descriptor_frames a (sort_key pr_start (fa_reserved_ranges a)))
      [fa_descriptor_index a..<fa_descriptor_count a] (fa_reclaimed_count a)"

definition is_allocatable_frame :: "FrameAllocator \<Rightarrow> nat \<Rightarrow> bool" where
  "is_allocatable_frame a address \<longleftrightarrow> \<not> fa_excluded a address
    \<and> (\<exists>index \<in> set [0..<fa_descriptor_count a]. case fa_read a index of
          None \<Rightarrow> False
        | Some d \<Rightarrow> md_type d = EFI_CONVENTIONAL_MEMORY \<and> md_physical_start d \<le> address
            \<and> address < md_physical_start d + md_number_of_pages d * PAGE_SIZE)"

section \<open>What a validated memory map guarantees\<close>

definition desc :: "FrameAllocator \<Rightarrow> nat \<Rightarrow> EfiMemoryDescriptor" where
  "desc a i = the (fa_read a i)"

definition md_end :: "EfiMemoryDescriptor \<Rightarrow> nat" where
  "md_end d = md_physical_start d + md_number_of_pages d * PAGE_SIZE"

definition page_aligned :: "nat \<Rightarrow> bool" where
  "page_aligned x \<longleftrightarrow> x mod PAGE_SIZE = 0"

text \<open>Well-formedness of the map: every descriptor can be read, covers a non-empty page-aligned
  region below the physical limit, and no two regions overlap.\<close>

definition map_wf :: "byte list \<Rightarrow> nat \<Rightarrow> nat \<Rightarrow> nat \<Rightarrow> bool" where
  "map_wf m sz count limit \<longleftrightarrow>
    (\<forall>i < count. \<exists>d. read_descriptor m sz i = Some d \<and> 0 < md_number_of_pages d
      \<and> page_aligned (md_physical_start d) \<and> md_end d \<le> limit
      \<and> (\<forall>j < i. \<exists>e. read_descriptor m sz j = Some e
          \<and> (md_end d \<le> md_physical_start e \<or> md_end e \<le> md_physical_start d)))"

lemma region_end_Inr [simp]:
  "region_end d = Inr e \<longleftrightarrow> e = md_end d \<and> md_end d < u64_limit"
  by (auto simp: region_end_def md_end_def)

lemma check_disjoint_Inr:
  "check_disjoint m sz r j = Inr u \<longleftrightarrow> (\<exists>e. read_descriptor m sz j = Some e
    \<and> md_end e < u64_limit
    \<and> (pr_end r \<le> md_physical_start e \<or> md_end e \<le> pr_start r))"
  by (auto simp: check_disjoint_def overlaps_def not_less unit_eq)

lemma check_descriptor_InrD:
  assumes "check_descriptor m sz limit i = Inr u"
  shows "\<exists>d. read_descriptor m sz i = Some d
    \<and> 0 < md_number_of_pages d \<and> page_aligned (md_physical_start d) \<and> md_end d \<le> limit
    \<and> (\<forall>j < i. \<exists>e. read_descriptor m sz j = Some e
        \<and> (md_end d \<le> md_physical_start e \<or> md_end e \<le> md_physical_start d))"
proof -
  obtain d where d: "read_descriptor m sz i = Some d" "md_end d < u64_limit"
    and ok: "\<not> (md_number_of_pages d = 0 \<or> md_physical_start d mod PAGE_SIZE \<noteq> 0
      \<or> limit \<le> md_physical_start d \<or> limit < md_end d)"
    and each: "try_each (check_disjoint m sz
      \<lparr>pr_start = md_physical_start d, pr_end = md_end d\<rparr>) [0..<i] = Inr u"
    using assms by (auto simp: check_descriptor_def split: if_splits)
  have "\<exists>e. read_descriptor m sz j = Some e
      \<and> (md_end d \<le> md_physical_start e \<or> md_end e \<le> md_physical_start d)" if "j < i" for j
    using each that by (auto simp: check_disjoint_Inr)
  with d ok show ?thesis
    by (auto simp: page_aligned_def not_less)
qed

lemma validate_memory_map_Inr:
  assumes "validate_memory_map m sz limit = Inr count"
  shows "map_wf m sz count limit" "count * sz = length m" "40 \<le> sz"
proof -
  have sz: "\<not> sz < EFI_DESCRIPTOR_MIN_SIZE" "length m mod sz = 0" "count = length m div sz"
    and each: "try_each (check_descriptor m sz limit) [0..<count] = Inr ()"
    using assms by (auto simp: validate_memory_map_def Let_def simp del: try_each_Inr
        split: if_splits)
  show "40 \<le> sz" "count * sz = length m"
    using sz by (auto simp: EFI_DESCRIPTOR_MIN_SIZE_def)
  show "map_wf m sz count limit"
    unfolding map_wf_def using each by (auto dest!: check_descriptor_InrD)
qed

lemma page_floor_aligned [simp]: "page_aligned (page_floor x)"
  by (simp add: page_floor_def page_aligned_def minus_mod_eq_mult_div)

lemma page_covering_range_Inr:
  assumes "page_covering_range address len limit = Inr r"
  shows "page_aligned (pr_start r)" "page_aligned (pr_end r)" "pr_end r \<le> limit"
    "\<And>x. address \<le> x \<Longrightarrow> x < address + len \<Longrightarrow> range_contains r x"
proof -
  have floor: "page_floor address \<le> address"
    by (simp add: page_floor_def)
  have ceil: "stop \<le> page_floor (stop + (PAGE_SIZE - 1))" for stop
  proof -
    have "(stop + (PAGE_SIZE - 1)) mod PAGE_SIZE \<le> PAGE_SIZE - 1"
      by (metis PAGE_SIZE_def Suc_diff_1 less_Suc_eq_le mod_less_divisor zero_less_numeral)
    then show ?thesis by (simp add: page_floor_def)
  qed
  show "page_aligned (pr_start r)" "page_aligned (pr_end r)" "pr_end r \<le> limit"
    using assms by (auto simp: page_covering_range_def Let_def range_empty_def page_aligned_def
        split: if_splits) (simp_all add: page_aligned_def [symmetric])
  show "range_contains r x" if "address \<le> x" "x < address + len" for x
    using assms that floor ceil [of "address + len"]
    by (auto simp: page_covering_range_def Let_def range_contains_def split: if_splits)
qed

lemma reserved_ranges_aligned:
  assumes "reserved_ranges b addr limit = Inr rs" "r \<in> set rs"
  shows "page_aligned (pr_start r)" "page_aligned (pr_end r)"
  using assms by (auto simp: reserved_ranges_def dest: page_covering_range_Inr)

section \<open>The allocator as a stack of free frames\<close>

text \<open>The frames of a region from page \<open>k\<close> on that the allocator may hand out, the frames its
  cursor has not reached yet, and all free frames in the order of allocation: the reclaimed ones
  (last in, first out), then the unvisited ones.\<close>

definition region_frames :: "FrameAllocator \<Rightarrow> EfiMemoryDescriptor \<Rightarrow> nat \<Rightarrow> nat list" where
  "region_frames a d k =
    (if md_type d = EFI_CONVENTIONAL_MEMORY
     then filter (\<lambda>x. \<not> fa_excluded a x)
       (map (\<lambda>p. md_physical_start d + p * PAGE_SIZE) [k..<md_number_of_pages d])
     else [])"

definition later_frames :: "FrameAllocator \<Rightarrow> nat \<Rightarrow> nat list" where
  "later_frames a i = concat (map (\<lambda>j. region_frames a (desc a j) 0) [i..<fa_descriptor_count a])"

definition pending_frames :: "FrameAllocator \<Rightarrow> nat list" where
  "pending_frames a =
    (if fa_descriptor_index a < fa_descriptor_count a
     then region_frames a (desc a (fa_descriptor_index a)) (fa_page_index a)
       @ later_frames a (fa_descriptor_index a + 1)
     else [])"

definition reclaimed :: "FrameAllocator \<Rightarrow> nat list" where
  "reclaimed a = map the (take (fa_reclaimed_count a) (fa_reclaimed_frames a))"

definition free_frames :: "FrameAllocator \<Rightarrow> nat list" where
  "free_frames a = rev (reclaimed a) @ pending_frames a"

definition fa_wf :: "FrameAllocator \<Rightarrow> bool" where
  "fa_wf a \<longleftrightarrow> map_wf (fa_memory_map a) (fa_descriptor_size a) (fa_descriptor_count a) (fa_physical_limit a)
    \<and> (\<forall>r \<in> set (fa_reserved_ranges a). page_aligned (pr_start r) \<and> page_aligned (pr_end r))
    \<and> fa_physical_limit a \<le> 2 ^ 52
    \<and> length (fa_reclaimed_frames a) = RECLAIMED_FRAME_CAPACITY
    \<and> fa_reclaimed_count a \<le> RECLAIMED_FRAME_CAPACITY
    \<and> (\<forall>k < fa_reclaimed_count a. fa_reclaimed_frames a ! k \<noteq> None)"

text \<open>The allocator with another cursor or another reclaim stack looks at the same map.\<close>

lemma fa_cursor_simps [simp]:
  "desc (a\<lparr>fa_descriptor_index := i\<rparr>) = desc a" "desc (a\<lparr>fa_page_index := p\<rparr>) = desc a"
  "desc (a\<lparr>fa_reclaimed_count := c\<rparr>) = desc a" "desc (a\<lparr>fa_reclaimed_frames := fs\<rparr>) = desc a"
  "fa_excluded (a\<lparr>fa_descriptor_index := i\<rparr>) = fa_excluded a"
  "fa_excluded (a\<lparr>fa_page_index := p\<rparr>) = fa_excluded a"
  "fa_excluded (a\<lparr>fa_reclaimed_count := c\<rparr>) = fa_excluded a"
  "fa_excluded (a\<lparr>fa_reclaimed_frames := fs\<rparr>) = fa_excluded a"
  by (simp_all add: desc_def fa_excluded_def fun_eq_iff)

lemma region_frames_cursor [simp]:
  "region_frames (a\<lparr>fa_descriptor_index := i\<rparr>) = region_frames a"
  "region_frames (a\<lparr>fa_page_index := p\<rparr>) = region_frames a"
  "region_frames (a\<lparr>fa_reclaimed_count := c\<rparr>) = region_frames a"
  "region_frames (a\<lparr>fa_reclaimed_frames := fs\<rparr>) = region_frames a"
  by (simp_all add: region_frames_def fun_eq_iff)

lemma later_frames_cursor [simp]:
  "later_frames (a\<lparr>fa_descriptor_index := i\<rparr>) = later_frames a"
  "later_frames (a\<lparr>fa_page_index := p\<rparr>) = later_frames a"
  "later_frames (a\<lparr>fa_reclaimed_count := c\<rparr>) = later_frames a"
  "later_frames (a\<lparr>fa_reclaimed_frames := fs\<rparr>) = later_frames a"
  by (simp_all add: later_frames_def fun_eq_iff)

lemma pending_frames_reclaim [simp]:
  "pending_frames (a\<lparr>fa_reclaimed_count := c\<rparr>) = pending_frames a"
  "pending_frames (a\<lparr>fa_reclaimed_frames := fs\<rparr>) = pending_frames a"
  by (simp_all add: pending_frames_def)

lemma fa_wf_cursor [simp]:
  "fa_wf (a\<lparr>fa_descriptor_index := i\<rparr>) = fa_wf a" "fa_wf (a\<lparr>fa_page_index := p\<rparr>) = fa_wf a"
  by (simp_all add: fa_wf_def)

lemma reclaimed_cursor [simp]:
  "reclaimed (a\<lparr>fa_descriptor_index := i\<rparr>) = reclaimed a"
  "reclaimed (a\<lparr>fa_page_index := p\<rparr>) = reclaimed a"
  by (simp_all add: reclaimed_def)

lemma length_reclaimed: "fa_wf a \<Longrightarrow> length (reclaimed a) = fa_reclaimed_count a"
  by (simp add: reclaimed_def fa_wf_def)

lemma fa_read_wf:
  assumes "fa_wf a" "i < fa_descriptor_count a"
  shows "fa_read a i = Some (desc a i)" "page_aligned (md_physical_start (desc a i))"
    "md_end (desc a i) \<le> fa_physical_limit a" "0 < md_number_of_pages (desc a i)"
  using assms by (auto simp: fa_wf_def map_wf_def desc_def)

lemma page_aligned_page [simp]:
  "page_aligned x \<Longrightarrow> page_aligned (x + p * PAGE_SIZE)"
  by (simp add: page_aligned_def)

lemma region_frames_beyond [simp]:
  "md_number_of_pages d \<le> k \<Longrightarrow> region_frames a d k = []"
  by (simp add: region_frames_def)

lemma region_frames_step:
  "md_type d = EFI_CONVENTIONAL_MEMORY \<Longrightarrow> k < md_number_of_pages d \<Longrightarrow>
    region_frames a d k =
      (if fa_excluded a (md_physical_start d + k * PAGE_SIZE) then []
       else [md_physical_start d + k * PAGE_SIZE]) @ region_frames a d (Suc k)"
  by (simp add: region_frames_def upt_conv_Cons)

lemma later_frames_step:
  "i < fa_descriptor_count a \<Longrightarrow>
    later_frames a i = region_frames a (desc a i) 0 @ later_frames a (Suc i)"
  by (simp add: later_frames_def upt_conv_Cons)

lemma pending_next_descriptor:
  "fa_descriptor_index a < fa_descriptor_count a \<Longrightarrow>
    pending_frames (a\<lparr>fa_descriptor_index := Suc (fa_descriptor_index a), fa_page_index := 0\<rparr>)
      = later_frames a (Suc (fa_descriptor_index a))"
  by (auto simp: pending_frames_def later_frames_step) (simp add: later_frames_def)

lemma next_frame_loop_spec:
  "fa_wf a \<Longrightarrow> \<exists>a'. next_frame_loop a
      = Some (case pending_frames a of [] \<Rightarrow> None | f # _ \<Rightarrow> Some f, a')
    \<and> pending_frames a' = tl (pending_frames a) \<and> (\<exists>i p. a' = a\<lparr>fa_descriptor_index := i, fa_page_index := p\<rparr>)"
proof (induction a rule: next_frame_loop.induct)
  case (1 a)
  let ?i = "fa_descriptor_index a"
  let ?d = "desc a ?i"
  let ?next = "a\<lparr>fa_descriptor_index := ?i + 1, fa_page_index := 0\<rparr>"
  let ?x = "md_physical_start ?d + fa_page_index a * PAGE_SIZE"
  let ?b = "a\<lparr>fa_page_index := fa_page_index a + 1\<rparr>"
  show ?case
  proof (cases "?i < fa_descriptor_count a")
    case False
    then have "next_frame_loop a = Some (None, a)" "pending_frames a = []"
      by (subst next_frame_loop.simps, simp, simp add: pending_frames_def)
    moreover have "\<exists>i p. a = a\<lparr>fa_descriptor_index := i, fa_page_index := p\<rparr>"
      by (rule exI [of _ ?i], rule exI [of _ "fa_page_index a"]) simp
    ultimately show ?thesis
      by (metis list.case(1) list.sel(2))
  next
    case i: True
    note d = fa_read_wf [OF 1(3) i]
    consider (skip) "md_type ?d \<noteq> EFI_CONVENTIONAL_MEMORY \<or> md_number_of_pages ?d \<le> fa_page_index a"
      | (bad) "md_type ?d = EFI_CONVENTIONAL_MEMORY" "fa_page_index a < md_number_of_pages ?d"
          "fa_excluded a ?x"
      | (good) "md_type ?d = EFI_CONVENTIONAL_MEMORY" "fa_page_index a < md_number_of_pages ?d"
          "\<not> fa_excluded a ?x"
      by linarith
    then show ?thesis
    proof cases
      case skip
      then have "region_frames a ?d (fa_page_index a) = []"
        by (auto simp: region_frames_def)
      then have "pending_frames ?next = pending_frames a"
        using i by (simp add: pending_next_descriptor) (simp add: pending_frames_def)
      moreover have "next_frame_loop a = next_frame_loop ?next"
        using i d(1) skip by (subst next_frame_loop.simps) simp
      ultimately show ?thesis
        using 1(1) [OF i d(1) skip] 1(3) by auto
    next
      case bad
      have "pending_frames ?b = pending_frames a"
        using i bad by (simp add: pending_frames_def region_frames_step [of ?d "fa_page_index a"])
      moreover have "next_frame_loop a = next_frame_loop ?b"
        using i d(1) bad by (subst next_frame_loop.simps) simp
      ultimately show ?thesis
        using 1(2) [OF i d(1) _ refl refl] bad 1(3) by auto
    next
      case good
      have "pending_frames a = ?x # pending_frames ?b"
        using i good by (simp add: pending_frames_def region_frames_step [of ?d "fa_page_index a"])
      moreover have "?x mod PAGE_SIZE = 0"
        using d(2) by (simp add: page_aligned_def)
      ultimately have "next_frame_loop a = Some (case pending_frames a of [] \<Rightarrow> None | f # _ \<Rightarrow> Some f, ?b)"
          "pending_frames ?b = tl (pending_frames a)"
        using i d(1) good by (subst next_frame_loop.simps, simp, simp)
      moreover have "\<exists>i p. ?b = a\<lparr>fa_descriptor_index := i, fa_page_index := p\<rparr>"
        by (rule exI [of _ ?i], rule exI [of _ "fa_page_index a + 1"]) simp
      ultimately show ?thesis
        by blast
    qed
  qed
qed

lemma next_usable_frame_spec:
  assumes "fa_wf a"
  shows "\<exists>a'. next_usable_frame a = Some (case free_frames a of [] \<Rightarrow> None | f # _ \<Rightarrow> Some f, a')
    \<and> free_frames a' = tl (free_frames a) \<and> fa_wf a'
    \<and> fa_excluded a' = fa_excluded a \<and> is_allocatable_frame a' = is_allocatable_frame a"
proof (cases "fa_reclaimed_count a = 0")
  case True
  obtain i p where l: "next_frame_loop a
      = Some (case pending_frames a of [] \<Rightarrow> None | f # _ \<Rightarrow> Some f,
          a\<lparr>fa_descriptor_index := i, fa_page_index := p\<rparr>)"
    "pending_frames (a\<lparr>fa_descriptor_index := i, fa_page_index := p\<rparr>) = tl (pending_frames a)"
    using next_frame_loop_spec [OF assms] by blast
  have "reclaimed a = []" using True by (simp add: reclaimed_def)
  then show ?thesis
    using True l assms
    by (auto simp: next_usable_frame_def free_frames_def is_allocatable_frame_def fun_eq_iff)
next
  case False
  let ?k = "fa_reclaimed_count a - 1"
  let ?fs = "fa_reclaimed_frames a"
  let ?b = "a\<lparr>fa_reclaimed_count := ?k, fa_reclaimed_frames := ?fs[?k := None]\<rparr>"
  have k: "?k < length ?fs" "Suc ?k = fa_reclaimed_count a"
    using assms False by (auto simp: fa_wf_def)
  have "?fs ! ?k \<noteq> None"
    using assms False k by (simp add: fa_wf_def)
  then obtain f where f: "?fs ! ?k = Some f" by blast
  have "take (fa_reclaimed_count a) ?fs = take ?k ?fs @ [Some f]"
    using k f take_Suc_conv_app_nth [of ?k ?fs] by simp
  then have "reclaimed a = reclaimed ?b @ [f]"
    by (simp add: reclaimed_def)
  then have "free_frames a = f # free_frames ?b"
    by (simp add: free_frames_def)
  moreover have "fa_wf ?b"
    using assms k by (auto simp: fa_wf_def)
  ultimately show ?thesis
    using False f by (auto simp: next_usable_frame_def is_allocatable_frame_def fun_eq_iff Let_def)
qed

lemma reclaim_frame_spec:
  assumes "fa_wf a" "reclaim_frame f a = (ok, a')"
  shows "ok \<longleftrightarrow> fa_reclaimed_count a < RECLAIMED_FRAME_CAPACITY"
    "free_frames a' = (if ok then f # free_frames a else free_frames a)" "fa_wf a'"
    "is_allocatable_frame a' = is_allocatable_frame a"
proof -
  let ?fs = "fa_reclaimed_frames a"
  have "take (Suc k) (?fs[k := Some f]) = take k ?fs @ [Some f]" if "k < length ?fs" for k
    using that by (simp add: take_Suc_conv_app_nth)
  then show "ok \<longleftrightarrow> fa_reclaimed_count a < RECLAIMED_FRAME_CAPACITY"
    "free_frames a' = (if ok then f # free_frames a else free_frames a)" "fa_wf a'"
    "is_allocatable_frame a' = is_allocatable_frame a"
    using assms by (auto simp: reclaim_frame_def fa_wf_def free_frames_def reclaimed_def
        is_allocatable_frame_def fun_eq_iff less_Suc_eq split: if_splits)
qed

section \<open>The frame count is exact\<close>

definition pages_in :: "nat \<Rightarrow> nat \<Rightarrow> nat set" where
  "pages_in lo hi = {x. lo \<le> x \<and> x < hi \<and> page_aligned x}"

lemma finite_pages_in [simp]: "finite (pages_in lo hi)"
  by (rule finite_subset [of _ "{lo..<hi}"]) (auto simp: pages_in_def)

lemma pages_in_image:
  assumes "page_aligned lo"
  shows "pages_in lo (lo + n * PAGE_SIZE) = (\<lambda>p. lo + p * PAGE_SIZE) ` {0..<n}"
proof
  show "pages_in lo (lo + n * PAGE_SIZE) \<subseteq> (\<lambda>p. lo + p * PAGE_SIZE) ` {0..<n}"
  proof
    fix x assume x: "x \<in> pages_in lo (lo + n * PAGE_SIZE)"
    then obtain q where q: "x - lo = q * PAGE_SIZE"
      using assms by (auto simp: pages_in_def page_aligned_def mod_eq_0_iff_dvd elim!: dvdE)
        (metis diff_mult_distrib2 mult.commute)
    then have "x = lo + q * PAGE_SIZE" "q < n"
      using x by (auto simp: pages_in_def PAGE_SIZE_def)
    then show "x \<in> (\<lambda>p. lo + p * PAGE_SIZE) ` {0..<n}" by auto
  qed
  show "(\<lambda>p. lo + p * PAGE_SIZE) ` {0..<n} \<subseteq> pages_in lo (lo + n * PAGE_SIZE)"
    using assms by (auto simp: pages_in_def PAGE_SIZE_def page_aligned_def)
qed

lemma card_pages_in:
  assumes "page_aligned lo" "page_aligned hi" "lo \<le> hi"
  shows "card (pages_in lo hi) = (hi - lo) div PAGE_SIZE"
proof -
  obtain n where n: "hi - lo = n * PAGE_SIZE"
    using assms by (auto simp: page_aligned_def mod_eq_0_iff_dvd elim!: dvdE)
      (metis diff_mult_distrib2 mult.commute)
  then have "hi = lo + n * PAGE_SIZE"
    using assms by simp
  then have "pages_in lo hi = (\<lambda>p. lo + p * PAGE_SIZE) ` {0..<n}"
    using assms pages_in_image [of lo n] by simp
  moreover have "inj_on (\<lambda>p. lo + p * PAGE_SIZE) {0..<n}"
    by (auto simp: inj_on_def PAGE_SIZE_def)
  ultimately show ?thesis
    using n by (simp add: card_image PAGE_SIZE_def)
qed

text \<open>The pages of a region from \<open>cursor\<close> on that some reserved range covers.\<close>

definition covered :: "PhysicalRange \<Rightarrow> PhysicalRange list \<Rightarrow> nat \<Rightarrow> nat set" where
  "covered region rs cursor = {x \<in> pages_in (max (pr_start region) cursor) (pr_end region).
    \<exists>r \<in> set rs. range_contains r x}"

lemma finite_covered [simp]: "finite (covered region rs cursor)"
  by (simp add: covered_def)

lemma covered_Cons_overlap:
  assumes "\<forall>s \<in> set rs. pr_start r \<le> pr_start s"
    and "max (pr_start region) (pr_start r) < min (pr_end region) (pr_end r)"
  shows "covered region (r # rs) cursor
    = pages_in (max (max (pr_start region) (pr_start r)) cursor) (min (pr_end region) (pr_end r))
      \<union> covered region rs (max cursor (min (pr_end region) (pr_end r)))"
proof (rule set_eqI)
  fix x
  have "pr_start r \<le> x" if "s \<in> set rs" "range_contains s x" for s
    using assms(1) that by (auto simp: range_contains_def)
  then show "x \<in> covered region (r # rs) cursor \<longleftrightarrow>
    x \<in> pages_in (max (max (pr_start region) (pr_start r)) cursor) (min (pr_end region) (pr_end r))
      \<union> covered region rs (max cursor (min (pr_end region) (pr_end r)))"
    by (cases "x < min (pr_end region) (pr_end r)")
      (auto simp: covered_def pages_in_def range_contains_def)
qed

lemma covered_Cons_apart:
  assumes "\<not> max (pr_start region) (pr_start r) < min (pr_end region) (pr_end r)"
  shows "covered region (r # rs) cursor = covered region rs cursor"
  using assms by (auto simp: covered_def pages_in_def range_contains_def)

lemma page_aligned_max_min [simp]:
  "page_aligned x \<Longrightarrow> page_aligned y \<Longrightarrow> page_aligned (max x y)"
  "page_aligned x \<Longrightarrow> page_aligned y \<Longrightarrow> page_aligned (min x y)"
  by (simp_all add: max_def min_def)

lemma subtract_reserved_spec:
  assumes "sorted (map pr_start rs)"
    and "\<forall>r \<in> set rs. page_aligned (pr_start r) \<and> page_aligned (pr_end r)"
    and "page_aligned (pr_start region)" "page_aligned (pr_end region)" "page_aligned cursor"
  shows "subtract_reserved region rs pages cursor = pages - card (covered region rs cursor)"
  using assms
proof (induction rs arbitrary: pages cursor)
  case Nil
  then show ?case by (simp add: covered_def)
next
  case (Cons r rs)
  let ?lo = "max (pr_start region) (pr_start r)"
  let ?hi = "min (pr_end region) (pr_end r)"
  show ?case
  proof (cases "?lo < ?hi")
    case True
    let ?u = "max ?lo cursor"
    have "covered region (r # rs) cursor = pages_in ?u ?hi \<union> covered region rs (max cursor ?hi)"
      using Cons.prems(1) True by (intro covered_Cons_overlap) auto
    moreover have "pages_in ?u ?hi \<inter> covered region rs (max cursor ?hi) = {}"
      by (auto simp: covered_def pages_in_def)
    ultimately have "card (covered region (r # rs) cursor)
        = card (pages_in ?u ?hi) + card (covered region rs (max cursor ?hi))"
      by (simp add: card_Un_disjoint)
    moreover have "card (pages_in ?u ?hi) = (if ?u < ?hi then (?hi - ?u) div PAGE_SIZE else 0)"
      using Cons.prems card_pages_in [of ?u ?hi] by (auto simp: pages_in_def)
    ultimately have card: "card (covered region (r # rs) cursor)
        = (if ?u < ?hi then (?hi - ?u) div PAGE_SIZE else 0)
          + card (covered region rs (max cursor ?hi))"
      by (simp only:)
    have "page_aligned (max cursor ?hi)"
      using Cons.prems by simp
    then have IH: "subtract_reserved region rs p (max cursor ?hi)
        = p - card (covered region rs (max cursor ?hi))" for p
      using Cons.IH Cons.prems by simp
    have "subtract_reserved region (r # rs) pages cursor
      = subtract_reserved region rs
          (if ?u < ?hi then pages - (?hi - ?u) div PAGE_SIZE else pages) (max cursor ?hi)"
      by (simp only: subtract_reserved.simps Let_def if_P [OF True])
    then show ?thesis
      unfolding IH card by (simp only: diff_diff_left add_0 split: if_split) blast
  next
    case False
    have "subtract_reserved region (r # rs) pages cursor = subtract_reserved region rs pages cursor"
      by (simp only: subtract_reserved.simps Let_def if_not_P [OF False])
    then show ?thesis
      using Cons.IH [of cursor pages] Cons.prems covered_Cons_apart [OF False] by simp
  qed
qed

lemma length_region_frames:
  assumes "fa_wf a" "page_aligned (md_physical_start d)" "md_end d \<le> fa_physical_limit a"
    and "md_type d = EFI_CONVENTIONAL_MEMORY" "k \<le> md_number_of_pages d"
  defines "lo \<equiv> md_physical_start d + k * PAGE_SIZE"
  shows "length (region_frames a d k) = md_number_of_pages d - k
    - card (covered \<lparr>pr_start = lo, pr_end = md_end d\<rparr> (sort_key pr_start (fa_reserved_ranges a)) lo)"
proof -
  let ?xs = "map (\<lambda>p. md_physical_start d + p * PAGE_SIZE) [k..<md_number_of_pages d]"
  let ?C = "covered \<lparr>pr_start = lo, pr_end = md_end d\<rparr> (sort_key pr_start (fa_reserved_ranges a)) lo"
  have stop: "md_end d = lo + (md_number_of_pages d - k) * PAGE_SIZE"
    using assms(5) by (simp add: lo_def md_end_def diff_mult_distrib)
  have dist: "distinct ?xs"
    by (auto simp: distinct_map inj_on_def PAGE_SIZE_def)
  have "?xs = map (\<lambda>p. lo + p * PAGE_SIZE) [0..<md_number_of_pages d - k]"
    by (rule nth_equalityI) (auto simp: lo_def algebra_simps)
  then have set_xs: "set ?xs = pages_in lo (md_end d)"
    using pages_in_image [of lo "md_number_of_pages d - k"] assms(2) stop by (simp add: lo_def)
  have "set (region_frames a d k) = pages_in lo (md_end d) - ?C"
    using assms(3,4) set_xs
    by (auto simp: region_frames_def covered_def fa_excluded_def pages_in_def)
  moreover have "?C \<subseteq> pages_in lo (md_end d)"
    by (auto simp: covered_def)
  moreover have "card (pages_in lo (md_end d)) = md_number_of_pages d - k"
    using dist set_xs by (metis distinct_card length_map length_upt)
  moreover have "distinct (region_frames a d k)"
    using dist by (simp add: region_frames_def)
  ultimately show ?thesis
    by (metis card_Diff_subset distinct_card finite_covered)
qed

lemma region_frames_bounds:
  "x \<in> set (region_frames a d k) \<Longrightarrow>
    md_type d = EFI_CONVENTIONAL_MEMORY \<and> md_physical_start d \<le> x \<and> x < md_end d
    \<and> \<not> fa_excluded a x \<and> x mod PAGE_SIZE = md_physical_start d mod PAGE_SIZE"
  by (auto simp: region_frames_def md_end_def PAGE_SIZE_def split: if_splits)

lemma distinct_region_frames [simp]: "distinct (region_frames a d k)"
  by (auto simp: region_frames_def distinct_map inj_on_def PAGE_SIZE_def)

lemma distinct_concat_upt:
  assumes "\<And>j. i \<le> j \<Longrightarrow> j < n \<Longrightarrow> distinct (f j)"
    and "\<And>j k. i \<le> j \<Longrightarrow> j < k \<Longrightarrow> k < n \<Longrightarrow> set (f j) \<inter> set (f k) = {}"
  shows "distinct (concat (map f [i..<n]))"
  using assms
proof (induction n)
  case (Suc n)
  show ?case
  proof (cases "i \<le> n")
    case True
    have "distinct (concat (map f [i..<n]))"
      using Suc by simp
    moreover have "set (concat (map f [i..<n])) \<inter> set (f n) = {}"
      using Suc.prems(2) [of _ n] by fastforce
    ultimately show ?thesis
      using True Suc.prems(1) [of n] by auto
  qed simp
qed simp

lemma regions_disjoint:
  assumes "fa_wf a" "i < fa_descriptor_count a" "j < fa_descriptor_count a" "i \<noteq> j"
  shows "set (region_frames a (desc a i) k) \<inter> set (region_frames a (desc a j) l) = {}"
proof -
  have "md_end (desc a i) \<le> md_physical_start (desc a j)
      \<or> md_end (desc a j) \<le> md_physical_start (desc a i)"
    using assms by (cases i j rule: linorder_cases) (fastforce simp: fa_wf_def map_wf_def desc_def)+
  then show ?thesis
    by (auto dest!: region_frames_bounds)
qed

lemma distinct_pending:
  assumes "fa_wf a"
  shows "distinct (pending_frames a)"
proof (cases "fa_descriptor_index a < fa_descriptor_count a")
  case True
  let ?i = "fa_descriptor_index a"
  have "distinct (later_frames a (?i + 1))"
    unfolding later_frames_def using regions_disjoint [OF assms]
    by (intro distinct_concat_upt) auto
  moreover have "set (region_frames a (desc a ?i) k) \<inter> set (later_frames a (?i + 1)) = {}" for k
    using regions_disjoint [OF assms True, of _ k 0] by (fastforce simp: later_frames_def)
  ultimately show ?thesis
    by (simp add: pending_frames_def)
qed (simp add: pending_frames_def)

lemma pending_allocatable:
  assumes "fa_wf a" "x \<in> set (pending_frames a)"
  shows "is_allocatable_frame a x" "page_aligned x"
proof -
  obtain j k where j: "j < fa_descriptor_count a" "x \<in> set (region_frames a (desc a j) k)"
    using assms(2) by (auto simp: pending_frames_def later_frames_def split: if_splits)
  note r = region_frames_bounds [OF j(2)]
  note d = fa_read_wf [OF assms(1) j(1)]
  show "page_aligned x"
    using r d by (simp add: page_aligned_def)
  show "is_allocatable_frame a x"
    using r d j(1) unfolding is_allocatable_frame_def md_end_def by (auto intro!: bexI [of _ j])
qed

lemma length_pending_le:
  assumes "fa_wf a"
  shows "length (pending_frames a) \<le> fa_physical_limit a"
proof -
  have "set (pending_frames a) \<subseteq> {..<fa_physical_limit a}"
    using pending_allocatable(1) [OF assms]
    by (force simp: is_allocatable_frame_def fa_excluded_def)
  then have "card (set (pending_frames a)) \<le> fa_physical_limit a"
    using subset_eq_atLeast0_lessThan_card by (metis atLeast0LessThan)
  then show ?thesis
    using distinct_pending [OF assms] by (simp add: distinct_card)
qed

lemma sum_frames_eq:
  assumes "\<forall>i \<in> set is. f i = Some (g i)" "acc < u64_limit"
  shows "sum_frames f is acc = Some (min (acc + sum_list (map g is)) (u64_limit - 1))"
  using assms
proof (induction "is" arbitrary: acc)
  case (Cons i "is")
  have "saturating_add acc (g i) < u64_limit"
    by (simp add: saturating_add_def u64_limit_def)
  then have "sum_frames f (i # is) acc
      = Some (min (saturating_add acc (g i) + sum_list (map g is)) (u64_limit - 1))"
    using Cons by simp
  also have "min (saturating_add acc (g i) + sum_list (map g is)) (u64_limit - 1)
      = min (acc + sum_list (map g (i # is))) (u64_limit - 1)"
    by (auto simp: saturating_add_def min_def)
  finally show ?case .
qed auto

lemma descriptor_frames_eq:
  assumes "fa_wf a" "i < fa_descriptor_count a"
  shows "descriptor_frames a (sort_key pr_start (fa_reserved_ranges a)) i
    = Some (length (region_frames a (desc a i)
        (if i = fa_descriptor_index a then fa_page_index a else 0)))"
proof -
  let ?d = "desc a i"
  let ?k = "if i = fa_descriptor_index a then fa_page_index a else 0"
  let ?lo = "md_physical_start ?d + ?k * PAGE_SIZE"
  let ?rs = "sort_key pr_start (fa_reserved_ranges a)"
  let ?R = "\<lparr>pr_start = ?lo, pr_end = md_end ?d\<rparr>"
  note d = fa_read_wf [OF assms]
  consider (other) "md_type ?d \<noteq> EFI_CONVENTIONAL_MEMORY"
    | (past) "md_type ?d = EFI_CONVENTIONAL_MEMORY" "md_number_of_pages ?d \<le> ?k"
    | (here) "md_type ?d = EFI_CONVENTIONAL_MEMORY" "?k < md_number_of_pages ?d"
    by linarith
  then show ?thesis
  proof cases
    case here
    have "subtract_reserved ?R ?rs (md_number_of_pages ?d - ?k) ?lo
        = md_number_of_pages ?d - ?k - card (covered ?R ?rs ?lo)"
      using assms(1) d(2) by (intro subtract_reserved_spec) (auto simp: fa_wf_def md_end_def)
    then show ?thesis
      using here d length_region_frames [OF assms(1) d(2,3) here(1), of ?k]
      unfolding descriptor_frames_def Let_def md_end_def by simp
  qed (use d in \<open>simp_all add: descriptor_frames_def region_frames_def Let_def\<close>)
qed

lemma available_frame_count_exact:
  assumes "fa_wf a"
  shows "available_frame_count a = Some (length (free_frames a))"
proof -
  let ?i = "fa_descriptor_index a"
  let ?g = "\<lambda>j. length (region_frames a (desc a j) (if j = ?i then fa_page_index a else 0))"
  let ?is = "[?i..<fa_descriptor_count a]"
  have sum: "sum_list (map ?g ?is) = length (pending_frames a)"
  proof (cases "?i < fa_descriptor_count a")
    case True
    have tl: "map ?g [Suc ?i..<fa_descriptor_count a]
        = map (\<lambda>j. length (region_frames a (desc a j) 0)) [Suc ?i..<fa_descriptor_count a]"
      by (rule map_cong) auto
    show ?thesis
      using True unfolding upt_conv_Cons [OF True] list.map sum_list.Cons tl
      by (simp add: pending_frames_def later_frames_def length_concat comp_def)
  qed (simp add: pending_frames_def)
  have wf: "fa_reclaimed_count a \<le> RECLAIMED_FRAME_CAPACITY" "fa_physical_limit a \<le> 2 ^ 52"
    using assms by (auto simp: fa_wf_def)
  have "available_frame_count a
      = Some (min (fa_reclaimed_count a + sum_list (map ?g ?is)) (u64_limit - 1))"
    unfolding available_frame_count_def using descriptor_frames_eq [OF assms] wf(1)
    by (intro sum_frames_eq) (auto simp: RECLAIMED_FRAME_CAPACITY_def u64_limit_def)
  also have "fa_reclaimed_count a + sum_list (map ?g ?is) = length (free_frames a)"
    using sum length_reclaimed [OF assms] by (simp add: free_frames_def)
  also have "min (length (free_frames a)) (u64_limit - 1) = length (free_frames a)"
    using length_pending_le [OF assms] wf length_reclaimed [OF assms]
    by (simp add: free_frames_def u64_limit_def RECLAIMED_FRAME_CAPACITY_def)
  finally show ?thesis .
qed

section \<open>Runs of the allocator\<close>

text \<open>A state is the allocator and the set of frames its clients own. Clients allocate frames
  and give back frames they own.\<close>

inductive frame_step :: "FrameAllocator \<times> nat set \<Rightarrow> FrameAllocator \<times> nat set \<Rightarrow> bool" where
  take_frame: "next_usable_frame a = Some (Some f, a') \<Longrightarrow> frame_step (a, own) (a', insert f own)"
| no_frame: "next_usable_frame a = Some (None, a') \<Longrightarrow> frame_step (a, own) (a', own)"
| give_back: "f \<in> own \<Longrightarrow> reclaim_frame f a = (ok, a') \<Longrightarrow> frame_step (a, own) (a', own - {f})"

definition frames_inv :: "(nat \<Rightarrow> bool) \<Rightarrow> FrameAllocator \<times> nat set \<Rightarrow> bool" where
  "frames_inv ok s \<longleftrightarrow> fa_wf (fst s) \<and> is_allocatable_frame (fst s) = ok
    \<and> distinct (free_frames (fst s)) \<and> set (free_frames (fst s)) \<inter> snd s = {}
    \<and> (\<forall>x \<in> set (free_frames (fst s)) \<union> snd s. ok x \<and> page_aligned x)"

lemma allocate_cases:
  assumes "fa_wf a" "next_usable_frame a = Some (r, a')"
  shows "r = None \<and> free_frames a = [] \<and> free_frames a' = []
    \<or> (\<exists>f. r = Some f \<and> free_frames a = f # free_frames a')"
  using next_usable_frame_spec [OF assms(1)] assms(2) by (cases "free_frames a") auto

lemma frames_inv_step:
  assumes "frame_step s s'" "frames_inv ok s"
  shows "frames_inv ok s'"
  using assms
proof (induction rule: frame_step.induct)
  case (take_frame a f a' own)
  then have "fa_wf a" by (simp add: frames_inv_def)
  with take_frame allocate_cases [of a "Some f" a'] next_usable_frame_spec [of a] show ?case
    by (auto simp: frames_inv_def)
next
  case (no_frame a a' own)
  then have "fa_wf a" by (simp add: frames_inv_def)
  with no_frame allocate_cases [of a None a'] next_usable_frame_spec [of a] show ?case
    by (auto simp: frames_inv_def)
next
  case (give_back f own a taken a')
  then have "fa_wf a" by (simp add: frames_inv_def)
  with give_back reclaim_frame_spec [of a f taken a'] show ?case
    by (auto simp: frames_inv_def split: if_splits)
qed

lemma FrameAllocator_new_wf:
  assumes "FrameAllocator_new mem b addr limit = Inr a" "physical_address_limit bits = Inr limit"
  shows "fa_wf a" "free_frames a = pending_frames a" "fa_physical_limit a = limit"
    "reserved_ranges b addr limit = Inr (fa_reserved_ranges a)"
proof -
  let ?m = "from_raw_parts mem (bi_memory_map b) (bi_memory_map_size b)"
  obtain count reserved where
    v: "validate_memory_map ?m (bi_descriptor_size b) limit = Inr count"
    and r: "reserved_ranges b addr limit = Inr reserved"
    and a: "a = \<lparr>fa_memory_map = ?m, fa_descriptor_size = bi_descriptor_size b,
            fa_descriptor_count = count, fa_descriptor_index = 0, fa_page_index = 0,
            fa_physical_limit = limit, fa_reserved_ranges = reserved,
            fa_reclaimed_frames = replicate RECLAIMED_FRAME_CAPACITY None,
            fa_reclaimed_count = 0\<rparr>"
    using assms(1) by (auto simp: FrameAllocator_new_def Let_def split: if_splits)
  obtain n where n: "limit = 2 ^ n" "n \<le> 52"
    using assms(2) by (auto simp: physical_address_limit_def split: option.splits if_splits)
  have "(2::nat) ^ n \<le> 2 ^ 52"
    using n(2) by (rule power_increasing) simp
  then show "fa_wf a"
    using validate_memory_map_Inr(1) [OF v] reserved_ranges_aligned [OF r]
    by (simp add: a fa_wf_def n(1))
  show "free_frames a = pending_frames a" "fa_physical_limit a = limit"
    "reserved_ranges b addr limit = Inr (fa_reserved_ranges a)"
    using r by (simp_all add: free_frames_def reclaimed_def a)
qed

lemma frames_inv_reachable:
  assumes "FrameAllocator_new mem b addr limit = Inr a0" "physical_address_limit bits = Inr limit"
    and "frame_step\<^sup>*\<^sup>* (a0, {}) s"
  shows "frames_inv (is_allocatable_frame a0) s"
  using assms(3)
proof (induction rule: rtranclp_induct)
  case base
  note new = FrameAllocator_new_wf [OF assms(1,2)]
  show ?case
    using new pending_allocatable [OF new(1)] distinct_pending [OF new(1)]
    by (simp add: frames_inv_def)
next
  case (step y z)
  then show ?case using frames_inv_step by blast
qed

section \<open>Properties\<close>

text \<open>C1. No physical frame is ever owned twice. In every run of the allocator built from the boot
  information (allocations and returns of owned frames in any order), an allocation does not
  panic, and a frame it returns is not owned by anybody, is page aligned, lies in conventional
  memory and outside every reserved range.\<close>

theorem frames_never_shared:
  assumes "FrameAllocator_new mem b addr limit = Inr a0" and "physical_address_limit bits = Inr limit"
    and "frame_step\<^sup>*\<^sup>* (a0, {}) (a, own)"
  shows "\<exists>r a'. next_usable_frame a = Some (r, a')
    \<and> (\<forall>f. r = Some f \<longrightarrow> f \<notin> own \<and> f mod PAGE_SIZE = 0 \<and> is_allocatable_frame a0 f)"
proof -
  have inv: "frames_inv (is_allocatable_frame a0) (a, own)"
    by (rule frames_inv_reachable [OF assms])
  then have "fa_wf a" by (simp add: frames_inv_def)
  then obtain r a' where r: "next_usable_frame a = Some (r, a')"
    using next_usable_frame_spec by blast
  then show ?thesis
    using allocate_cases [OF \<open>fa_wf a\<close> r] inv
    by (auto simp: frames_inv_def page_aligned_def)
qed

text \<open>C2. The frame count on which heap growth bases its decision is exact in every run: it never
  panics, allocation fails exactly when it is 0, and otherwise an allocation lowers it by one.\<close>

theorem frame_count_exact:
  assumes "FrameAllocator_new mem b addr limit = Inr a0" and "physical_address_limit bits = Inr limit"
    and "frame_step\<^sup>*\<^sup>* (a0, {}) (a, own)"
  shows "\<exists>n r a'. available_frame_count a = Some n \<and> next_usable_frame a = Some (r, a')
    \<and> (r = None \<longleftrightarrow> n = 0) \<and> available_frame_count a' = Some (n - 1)"
proof -
  have "fa_wf a"
    using frames_inv_reachable [OF assms] by (simp add: frames_inv_def)
  then obtain r a' where r: "next_usable_frame a = Some (r, a')" "fa_wf a'"
    using next_usable_frame_spec by blast
  then show ?thesis
    using allocate_cases [OF \<open>fa_wf a\<close> r(1)] available_frame_count_exact [OF \<open>fa_wf a\<close>]
      available_frame_count_exact [OF r(2)]
    by auto
qed

text \<open>A page-aligned frame outside a page-aligned range has no byte in it.\<close>

lemma frame_outside_range:
  assumes "page_aligned f" "page_aligned (pr_start r)" "page_aligned (pr_end r)"
    and "\<not> range_contains r f" "f \<le> x" "x < f + PAGE_SIZE"
  shows "\<not> range_contains r x"
proof -
  obtain k where k: "f = k * PAGE_SIZE"
    using assms(1) unfolding page_aligned_def by (metis add.right_neutral div_mult_mod_eq)
  obtain l where l: "pr_start r = l * PAGE_SIZE"
    using assms(2) unfolding page_aligned_def by (metis add.right_neutral div_mult_mod_eq)
  have "pr_start r \<le> x \<Longrightarrow> pr_start r \<le> f"
    using assms(6) k l by (simp add: PAGE_SIZE_def)
  then show ?thesis
    using assms(4,5) by (auto simp: range_contains_def)
qed

text \<open>C15. No allocated frame holds a byte of the kernel image, of the boot information block, of
  the memory map itself, of the boot page table or of the frame buffer.\<close>

theorem frames_avoid_boot_objects:
  assumes "FrameAllocator_new mem b addr limit = Inr a0" and "physical_address_limit bits = Inr limit"
    and "frame_step\<^sup>*\<^sup>* (a0, {}) (a, own)" and "f \<in> own" and "f \<le> x" and "x < f + PAGE_SIZE"
  shows "\<not> (bi_kernel_base b \<le> x \<and> x < bi_kernel_base b + bi_kernel_reserved_size b)
    \<and> \<not> (addr \<le> x \<and> x < addr + size_of_BootInfo)
    \<and> \<not> (bi_memory_map b \<le> x \<and> x < bi_memory_map b + bi_memory_map_size b)
    \<and> \<not> (bi_page_table_root b \<le> x \<and> x < bi_page_table_root b + PAGE_SIZE)
    \<and> \<not> (bi_framebuffer_base b \<le> x \<and> x < bi_framebuffer_base b + bi_framebuffer_size b)"
proof -
  have f: "is_allocatable_frame a0 f" "page_aligned f"
    using frames_inv_reachable [OF assms(1-3)] assms(4) by (auto simp: frames_inv_def)
  note rs = FrameAllocator_new_wf(4) [OF assms(1,2)]
  have out: "\<not> range_contains r x" if "r \<in> set (fa_reserved_ranges a0)" for r
    using frame_outside_range [OF f(2) reserved_ranges_aligned [OF rs that] _ assms(5,6)] f(1) that
    by (auto simp: is_allocatable_frame_def fa_excluded_def)
  have avoid: "\<not> (base \<le> x \<and> x < base + len)"
    if "page_covering_range base len limit = Inr r" "r \<in> set (fa_reserved_ranges a0)" for base len r
    using page_covering_range_Inr(4) [OF that(1)] out [OF that(2)] by blast
  obtain r1 r2 r3 r4 r5 r6 where set: "[r1, r2, r3, r4, r5, r6] = fa_reserved_ranges a0"
    and r: "page_covering_range (bi_kernel_base b) (bi_kernel_reserved_size b) limit = Inr r1"
      "page_covering_range addr size_of_BootInfo limit = Inr r2"
      "page_covering_range (bi_memory_map b) (bi_memory_map_size b) limit = Inr r3"
      "page_covering_range (bi_page_table_root b) PAGE_SIZE limit = Inr r4"
      "page_covering_range (bi_framebuffer_base b) (bi_framebuffer_size b) limit = Inr r6"
    using rs by (auto simp: reserved_ranges_def)
  show ?thesis
    using avoid [OF r(1)] avoid [OF r(2)] avoid [OF r(3)] avoid [OF r(4)] avoid [OF r(5)]
    by (simp flip: set)
qed

section \<open>A concrete boot\<close>

text \<open>One descriptor: sixteen conventional pages at 1 MiB; everything else lies elsewhere.\<close>

definition sample_map :: "byte list" where
  "sample_map = [7, 0, 0, 0, 0, 0, 0, 0, 0, 0, 16, 0, 0, 0, 0, 0, 0, 0, 0, 0, 0, 0, 0, 0,
    16, 0, 0, 0, 0, 0, 0, 0, 0, 0, 0, 0, 0, 0, 0, 0]"

definition sample_mem :: "nat \<Rightarrow> byte" where
  "sample_mem x = (if 20480 \<le> x \<and> x < 20520 then sample_map ! (x - 20480) else 0)"

definition sample_boot :: BootInfo where
  "sample_boot = \<lparr>bi_magic = BOOT_INFO_MAGIC, bi_version = 2, bi_system_table = 32768,
    bi_memory_map = 20480, bi_memory_map_size = 40, bi_descriptor_size = 40,
    bi_descriptor_version = 1, bi_kernel_base = 2097152, bi_kernel_file_size = 4096,
    bi_kernel_reserved_size = 4096, bi_page_table_root = 28672, bi_physical_memory_offset = 0,
    bi_framebuffer_base = 0, bi_framebuffer_size = 0, bi_framebuffer_width = 0,
    bi_framebuffer_height = 0, bi_framebuffer_pixels_per_scan_line = 0,
    bi_framebuffer_pixel_format = 0, bi_initrd_base = 0, bi_initrd_size = 0\<rparr>"

definition sample_alloc :: FrameAllocator where
  "sample_alloc = \<lparr>fa_memory_map = sample_map, fa_descriptor_size = 40, fa_descriptor_count = 1,
    fa_descriptor_index = 0, fa_page_index = 0, fa_physical_limit = 2 ^ 32,
    fa_reserved_ranges = [\<lparr>pr_start = 2097152, pr_end = 2101248\<rparr>,
      \<lparr>pr_start = 24576, pr_end = 28672\<rparr>, \<lparr>pr_start = 20480, pr_end = 24576\<rparr>,
      \<lparr>pr_start = 28672, pr_end = 32768\<rparr>, \<lparr>pr_start = 32768, pr_end = 36864\<rparr>, range_empty],
    fa_reclaimed_frames = replicate RECLAIMED_FRAME_CAPACITY None, fa_reclaimed_count = 0\<rparr>"

lemma sample_descriptor:
  "read_descriptor sample_map 40 0
    = Some \<lparr>md_type = 7, md_physical_start = 1048576, md_number_of_pages = 16\<rparr>"
  by (simp add: read_descriptor_def checked_mul_def checked_add_def u64_limit_def slice_get_def
      size_of_descriptor_def sample_map_def parse_descriptor_def)

lemma sample_new: "FrameAllocator_new sample_mem sample_boot 24576 (2 ^ 32) = Inr sample_alloc"
proof -
  have len: "length sample_map = 40" "sample_map \<noteq> []"
    by (simp_all add: sample_map_def)
  have m: "from_raw_parts sample_mem 20480 40 = sample_map"
    using len(1) by (intro nth_equalityI) (simp_all add: from_raw_parts_def sample_mem_def)
  have v: "validate_memory_map sample_map 40 (2 ^ 32) = Inr 1"
    using len by (simp add: validate_memory_map_def EFI_DESCRIPTOR_MIN_SIZE_def PAGE_SIZE_def
        check_descriptor_def sample_descriptor region_end_def u64_limit_def checked_add_def
        checked_mul_def)
  have r: "reserved_ranges sample_boot 24576 (2 ^ 32) = Inr (fa_reserved_ranges sample_alloc)"
    by (simp add: reserved_ranges_def sample_boot_def page_covering_range_def page_floor_def
        PAGE_SIZE_def size_of_BootInfo_def checked_add_def u64_limit_def sample_alloc_def)
  have c: "try_each (check_reserved sample_map 40 (fa_reserved_ranges sample_alloc)) [0..<1] = Inr ()"
    by (simp add: check_reserved_def sample_descriptor sample_alloc_def overlaps_def range_empty_def
        PAGE_SIZE_def)
  show ?thesis
    unfolding FrameAllocator_new_def using m v r c
    by (simp add: sample_boot_def EFI_DESCRIPTOR_MIN_SIZE_def) (simp add: sample_alloc_def)
qed

lemma sample_limit: "physical_address_limit (Some 32) = Inr (2 ^ 32)"
  by (simp add: physical_address_limit_def)

lemma sample_first: "\<exists>a. next_usable_frame sample_alloc = Some (Some 1048576, a)"
  by (simp add: next_usable_frame_def sample_alloc_def next_frame_loop.simps sample_descriptor
      EFI_CONVENTIONAL_MEMORY_def fa_excluded_def range_contains_def range_empty_def PAGE_SIZE_def)

lemma sample_count: "available_frame_count sample_alloc = Some 16"
  by (simp add: available_frame_count_def sample_alloc_def descriptor_frames_def sample_descriptor
      EFI_CONVENTIONAL_MEMORY_def PAGE_SIZE_def range_empty_def saturating_add_def u64_limit_def)

theorem frames_never_shared_witness:
  "\<exists>r a'. next_usable_frame sample_alloc = Some (r, a')
    \<and> (\<forall>f. r = Some f \<longrightarrow> f \<notin> {} \<and> f mod PAGE_SIZE = 0 \<and> is_allocatable_frame sample_alloc f)"
  using frames_never_shared [OF sample_new sample_limit, of sample_alloc "{}"] by simp

theorem frame_count_exact_witness:
  "\<exists>n r a'. available_frame_count sample_alloc = Some n
    \<and> next_usable_frame sample_alloc = Some (r, a')
    \<and> (r = None \<longleftrightarrow> n = 0) \<and> available_frame_count a' = Some (n - 1)"
  using frame_count_exact [OF sample_new sample_limit, of sample_alloc "{}"] by simp

theorem frames_avoid_boot_objects_witness:
  "\<exists>a. frame_step\<^sup>*\<^sup>* (sample_alloc, {}) (a, {1048576})
    \<and> \<not> (bi_kernel_base sample_boot \<le> 1048577
      \<and> 1048577 < bi_kernel_base sample_boot + bi_kernel_reserved_size sample_boot)"
proof -
  obtain a where "next_usable_frame sample_alloc = Some (Some 1048576, a)"
    using sample_first by blast
  then have s: "frame_step\<^sup>*\<^sup>* (sample_alloc, {}) (a, {1048576})"
    using take_frame by blast
  show ?thesis
    using frames_avoid_boot_objects [OF sample_new sample_limit s, of 1048576 1048577] s
    by (auto simp: PAGE_SIZE_def)
qed

end
