(* ===== verification/Address_Space.thy ===== *)
theory Address_Space
  imports Frame_Alloc
begin

text \<open>
  Address spaces and the memory manager of \<open>memory/mod.rs\<close>, and the user contexts of
  \<open>arch/user.rs\<close>. A page is its start address, a frame its start address. The page-table
  library (\<open>OffsetPageTable\<close> of the \<open>x86_64\<close> crate) is a record of operations over an abstract
  page-table memory \<open>'pt\<close>; what the kernel relies on of it appears as a hypothesis where it is
  used. The register CR3 is an argument or a field of the machine state.
\<close>

unbundle bit_operations_syntax

definition USER_PML4_INDEX :: nat where "USER_PML4_INDEX = 255"
definition USER_SPACE_START :: nat where "USER_SPACE_START = USER_PML4_INDEX * 2 ^ 39"
definition USER_SPACE_END :: nat where "USER_SPACE_END = USER_SPACE_START + 2 ^ 39"
definition MAX_FRAMES_RECLAIMED_PER_UNMAP :: nat where "MAX_FRAMES_RECLAIMED_PER_UNMAP = 4"

datatype UserPageAccess = ReadOnly | ReadWrite | ReadExecute

datatype UserMemoryError = InvalidAddress | Unmapped | NotWritable | InactiveAddressSpace

datatype 'e MappingError = MapPhysicalOutOfRange | MapInvalidRoot | MapMapper 'e

datatype 'e UnmappingError =
    PageNotMapped
  | FrameNotAllocatorOwned
  | ReclaimCapacityExceeded
  | UnmapMapper 'e

datatype 'e AddressSpaceError =
    AS_Memory MemoryError
  | AS_Mapping "'e MappingError"
  | AS_Unmapping "'e UnmappingError"
  | InvalidUserPage
  | DuplicateUserPage
  | UserPageNotMapped
  | AllocationFailed
  | Released
  | ActiveAddressSpace

record AddressSpace =
  as_root :: "nat option"
  as_user_pages :: "(nat \<times> UserPageAccess) list"

section \<open>Virtual addresses\<close>

text \<open>\<open>VirtAddr::try_new\<close> accepts the canonical addresses: bits 47 to 63 all equal.\<close>

definition canonical :: "nat \<Rightarrow> bool" where
  "canonical address \<longleftrightarrow> address < 2 ^ 47 \<or> 2 ^ 64 - 2 ^ 47 \<le> address \<and> address < 2 ^ 64"

definition try_new_virt :: "nat \<Rightarrow> nat option" where
  "try_new_virt address = (if canonical address then Some address else None)"

definition p4_index :: "nat \<Rightarrow> nat" where
  "p4_index page = page div 2 ^ 39 mod 512"

definition contains_user_address :: "nat \<Rightarrow> bool" where
  "contains_user_address address \<longleftrightarrow> USER_SPACE_START \<le> address \<and> address < USER_SPACE_END"

section \<open>Checking and copying user memory\<close>

definition user_page_access :: "AddressSpace \<Rightarrow> nat \<Rightarrow> UserPageAccess option" where
  "user_page_access s page = map_of (as_user_pages s) page"

function (sequential) check_pages ::
    "AddressSpace \<Rightarrow> bool \<Rightarrow> nat \<Rightarrow> nat \<Rightarrow> UserMemoryError + unit" where
  "check_pages s writable page_address stop =
    (if page_address < stop then
       case user_page_access s (page_floor page_address) of
         None \<Rightarrow> Inl Unmapped
       | Some access \<Rightarrow>
           if writable \<and> access \<noteq> ReadWrite then Inl NotWritable
           else (case checked_add page_address PAGE_SIZE of
               None \<Rightarrow> Inl InvalidAddress
             | Some next \<Rightarrow> check_pages s writable next stop)
     else Inr ())"
  by pat_completeness auto
termination
  by (relation "measure (\<lambda>(s, writable, page_address, stop). stop - page_address)")
    (auto simp: PAGE_SIZE_def)

declare check_pages.simps [simp del]

definition validate_user_range ::
    "nat \<Rightarrow> AddressSpace \<Rightarrow> nat \<Rightarrow> nat \<Rightarrow> bool \<Rightarrow> UserMemoryError + unit" where
  "validate_user_range cr3 s address len writable =
    (if len = 0 then Inr ()
     else bind_res (ok_or InvalidAddress (try_new_virt address)) (\<lambda>start.
       bind_res (ok_or InvalidAddress (checked_add start len)) (\<lambda>stop.
         if start < USER_SPACE_START \<or> USER_SPACE_END < stop \<or> stop \<le> start then Inl InvalidAddress
         else bind_res (check_pages s writable (page_floor start) stop) (\<lambda>_.
           if as_root s \<noteq> Some cr3 then Inl InactiveAddressSpace else Inr ()))))"

text \<open>The copies, over the memory \<open>umem\<close> that the active address space shows.\<close>

definition copy_from_user ::
    "nat \<Rightarrow> AddressSpace \<Rightarrow> (nat \<Rightarrow> byte) \<Rightarrow> nat \<Rightarrow> nat \<Rightarrow> UserMemoryError + byte list" where
  "copy_from_user cr3 s umem address len =
    bind_res (validate_user_range cr3 s address len False)
      (\<lambda>_. Inr (map (\<lambda>i. umem (address + i)) [0..<len]))"

definition copy_to_user ::
    "nat \<Rightarrow> AddressSpace \<Rightarrow> (nat \<Rightarrow> byte) \<Rightarrow> nat \<Rightarrow> byte list \<Rightarrow> UserMemoryError + (nat \<Rightarrow> byte)" where
  "copy_to_user cr3 s umem address input =
    bind_res (validate_user_range cr3 s address (length input) True)
      (\<lambda>_. Inr (\<lambda>x. if address \<le> x \<and> x < address + length input then input ! (x - address)
        else umem x))"

section \<open>User contexts\<close>

datatype UserContextError = InvalidEntry | InvalidStack | EntryNotExecutable | StackNotWritable

record UserContext =
  uc_entry :: nat
  uc_stack :: nat
  uc_argument_count :: nat
  uc_argument_vector :: nat

definition UserContext_with_arguments ::
    "nat \<Rightarrow> nat \<Rightarrow> nat \<Rightarrow> nat \<Rightarrow> UserContextError + UserContext" where
  "UserContext_with_arguments entry stack argc argv =
    (if \<not> contains_user_address entry then Inl InvalidEntry
     else if \<not> contains_user_address stack \<or> stack mod 16 \<noteq> 0 then Inl InvalidStack
     else if argc \<noteq> 0 \<and> \<not> contains_user_address argv then Inl InvalidStack
     else Inr \<lparr>uc_entry = entry, uc_stack = stack, uc_argument_count = argc,
       uc_argument_vector = argv\<rparr>)"

definition UserContext_new :: "nat \<Rightarrow> nat \<Rightarrow> UserContextError + UserContext" where
  "UserContext_new entry stack = UserContext_with_arguments entry stack 0 0"

definition for_address_space_with_arguments ::
    "AddressSpace \<Rightarrow> nat \<Rightarrow> nat \<Rightarrow> nat \<Rightarrow> nat \<Rightarrow> UserContextError + UserContext" where
  "for_address_space_with_arguments s entry stack argc argv =
    bind_res (UserContext_with_arguments entry stack argc argv) (\<lambda>context.
      if user_page_access s (page_floor entry) \<noteq> Some ReadExecute then Inl EntryNotExecutable
      else if user_page_access s (page_floor (stack - 1)) \<noteq> Some ReadWrite then Inl StackNotWritable
      else if argc \<noteq> 0 \<and> user_page_access s (page_floor argv) \<noteq> Some ReadWrite
        then Inl StackNotWritable
      else Inr context)"

section \<open>Validation is exact\<close>

definition page_ok :: "AddressSpace \<Rightarrow> bool \<Rightarrow> nat \<Rightarrow> bool" where
  "page_ok s writable page \<longleftrightarrow> (case user_page_access s page of
      None \<Rightarrow> False | Some access \<Rightarrow> writable \<longrightarrow> access = ReadWrite)"

lemma page_floor_id [simp]: "page_aligned p \<Longrightarrow> page_floor p = p"
  by (simp add: page_floor_def page_aligned_def)

lemma page_floor_le [simp]: "page_floor x \<le> x"
  by (simp add: page_floor_def)

lemma page_floor_gt: "x < page_floor x + PAGE_SIZE"
  using mod_less_divisor [of PAGE_SIZE x] by (simp add: page_floor_def PAGE_SIZE_def)

lemma page_floor_mono: "x \<le> y \<Longrightarrow> page_floor x \<le> page_floor y"
  by (simp add: page_floor_def minus_mod_eq_mult_div div_le_mono)

lemma page_aligned_next [simp]: "page_aligned (p + PAGE_SIZE) = page_aligned p"
  by (simp add: page_aligned_def)

lemma page_aligned_between:
  assumes "page_aligned p" "page_aligned q" "p \<le> q" "q < p + PAGE_SIZE"
  shows "q = p"
proof -
  obtain k where "p = 4096 * k"
    using assms(1) unfolding page_aligned_def PAGE_SIZE_def by (metis mod_0_imp_dvd dvdE)
  moreover obtain l where "q = 4096 * l"
    using assms(2) unfolding page_aligned_def PAGE_SIZE_def by (metis mod_0_imp_dvd dvdE)
  ultimately show ?thesis
    using assms(3,4) by (simp add: PAGE_SIZE_def)
qed

lemma check_pages_Inr:
  assumes "page_aligned p" "stop + PAGE_SIZE < u64_limit"
  shows "check_pages s w p stop = Inr u \<longleftrightarrow>
    (\<forall>q. page_aligned q \<longrightarrow> p \<le> q \<longrightarrow> q < stop \<longrightarrow> page_ok s w q)"
  using assms
proof (induction s w p stop rule: check_pages.induct)
  case (1 s w p stop)
  show ?case
  proof (cases "p < stop")
    case False
    then show ?thesis
      by (subst check_pages.simps) (simp add: unit_eq)
  next
    case True
    have "p = q \<or> p + PAGE_SIZE \<le> q" if "page_aligned q" "p \<le> q" for q
      using page_aligned_between [OF 1(2) that] by (cases "q < p + PAGE_SIZE") auto
    then have split: "(\<forall>q. page_aligned q \<longrightarrow> p \<le> q \<longrightarrow> q < stop \<longrightarrow> page_ok s w q)
      \<longleftrightarrow> page_ok s w p \<and> (\<forall>q. page_aligned q \<longrightarrow> p + PAGE_SIZE \<le> q \<longrightarrow> q < stop \<longrightarrow> page_ok s w q)"
      using True 1(2) by (auto dest: add_leD1)
    have add: "checked_add p PAGE_SIZE = Some (p + PAGE_SIZE)"
      using True 1(3) by simp
    show ?thesis
    proof (cases "user_page_access s p")
      case None
      then show ?thesis
        using True 1(2) by (subst check_pages.simps) (auto simp: page_ok_def)
    next
      case (Some access)
      show ?thesis
      proof (cases "w \<and> access \<noteq> ReadWrite")
        case True
        then show ?thesis
          using Some \<open>p < stop\<close> 1(2) by (subst check_pages.simps) (auto simp: page_ok_def)
      next
        case False
        then have "page_ok s w p"
          using Some by (simp add: page_ok_def)
        moreover have "check_pages s w p stop = check_pages s w (p + PAGE_SIZE) stop"
          using Some False \<open>p < stop\<close> 1(2) add by (subst check_pages.simps) (auto simp del: checked_add_Some)
        moreover have "check_pages s w (p + PAGE_SIZE) stop = Inr u \<longleftrightarrow>
            (\<forall>q. page_aligned q \<longrightarrow> p + PAGE_SIZE \<le> q \<longrightarrow> q < stop \<longrightarrow> page_ok s w q)"
          using 1(1) [OF \<open>p < stop\<close> _ False add] Some 1(2,3) by simp
        ultimately show ?thesis
          using split by simp
      qed
    qed
  qed
qed

lemma user_space_bounds:
  "USER_SPACE_END = 2 ^ 47" "USER_SPACE_START < USER_SPACE_END" "USER_SPACE_END + PAGE_SIZE < u64_limit"
  by (simp_all add: USER_SPACE_END_def USER_SPACE_START_def USER_PML4_INDEX_def PAGE_SIZE_def
      u64_limit_def)

lemma pages_of_range:
  assumes "start < stop"
  shows "(\<forall>q. page_aligned q \<longrightarrow> page_floor start \<le> q \<longrightarrow> q < stop \<longrightarrow> P q)
    \<longleftrightarrow> (\<forall>x. start \<le> x \<longrightarrow> x < stop \<longrightarrow> P (page_floor x))"
proof (intro iffI allI impI)
  fix q
  assume all: "\<forall>x. start \<le> x \<longrightarrow> x < stop \<longrightarrow> P (page_floor x)"
    and q: "page_aligned q" "page_floor start \<le> q" "q < stop"
  show "P q"
  proof (cases "start \<le> q")
    case True
    then show ?thesis using all q by (metis page_floor_id)
  next
    case False
    then have "page_floor start = q"
      using q page_floor_mono [of q start] by simp
    then show ?thesis using all assms by auto
  qed
next
  fix x
  assume "\<forall>q. page_aligned q \<longrightarrow> page_floor start \<le> q \<longrightarrow> q < stop \<longrightarrow> P q" "start \<le> x" "x < stop"
  then show "P (page_floor x)"
    using page_floor_mono [of start x] le_less_trans [OF page_floor_le, of x stop] by auto
qed

lemma validate_user_range_Inr:
  "validate_user_range cr3 s address len w = Inr u \<longleftrightarrow>
    len = 0 \<or> USER_SPACE_START \<le> address \<and> address + len \<le> USER_SPACE_END
      \<and> (\<forall>x. address \<le> x \<longrightarrow> x < address + len \<longrightarrow> page_ok s w (page_floor x))
      \<and> as_root s = Some cr3"
proof (cases "len = 0")
  case True
  then show ?thesis by (simp add: validate_user_range_def unit_eq)
next
  case False
  show ?thesis
  proof (cases "USER_SPACE_START \<le> address \<and> address + len \<le> USER_SPACE_END")
    case True
    have canon: "try_new_virt address = Some address"
      using True False user_space_bounds by (simp add: try_new_virt_def canonical_def)
    have add: "checked_add address len = Some (address + len)"
      using True user_space_bounds by simp
    have bound: "address + len + PAGE_SIZE < u64_limit"
      using True user_space_bounds by linarith
    have "check_pages s w (page_floor address) (address + len) = Inr v \<longleftrightarrow>
        (\<forall>x. address \<le> x \<longrightarrow> x < address + len \<longrightarrow> page_ok s w (page_floor x))" for v
      using check_pages_Inr [OF page_floor_aligned bound, of s w address] False
        pages_of_range [of address "address + len"] by simp
    then show ?thesis
      using True False by (auto simp: validate_user_range_def canon add unit_eq simp del: checked_add_Some)
  next
    case outside: False
    then show ?thesis
      using False by (auto simp: validate_user_range_def try_new_virt_def)
  qed
qed

section \<open>Properties\<close>

text \<open>A two-page address space for the witnesses: a code page and a data page.\<close>

definition sample_space :: AddressSpace where
  "sample_space = \<lparr>as_root = Some 8192,
    as_user_pages = [(USER_SPACE_START, ReadExecute), (USER_SPACE_START + 4096, ReadWrite)]\<rparr>"

lemma sample_pages:
  "page_floor (USER_SPACE_START + 4100) = USER_SPACE_START + 4096"
  "page_floor (USER_SPACE_START + 4101) = USER_SPACE_START + 4096"
  "page_floor (USER_SPACE_START + 8191) = USER_SPACE_START + 4096"
  "page_floor (USER_SPACE_START + 16) = USER_SPACE_START"
  by (simp_all add: page_floor_def USER_SPACE_START_def USER_PML4_INDEX_def PAGE_SIZE_def)

lemma sample_range:
  assumes "USER_SPACE_START + 4100 \<le> x" "x < USER_SPACE_START + 4100 + 2"
  shows "page_floor x = USER_SPACE_START + 4096"
proof -
  have "x = USER_SPACE_START + 4100 \<or> x = USER_SPACE_START + 4101"
    using assms by linarith
  then show ?thesis using sample_pages by auto
qed

text \<open>C5. The check of a user buffer is exact. A non-empty range is accepted if and only if it lies
  in the user half of the address space, every single byte of it is on a mapped user page, with
  write access where writing is asked for, and the address space is the active one.\<close>

theorem validate_user_range_exact:
  "validate_user_range cr3 s address len writable = Inr () \<longleftrightarrow>
    len = 0 \<or> USER_SPACE_START \<le> address \<and> address + len \<le> USER_SPACE_END
      \<and> (\<forall>x. address \<le> x \<longrightarrow> x < address + len \<longrightarrow>
          (\<exists>access. user_page_access s (page_floor x) = Some access
            \<and> (writable \<longrightarrow> access = ReadWrite)))
      \<and> as_root s = Some cr3"
  unfolding validate_user_range_Inr page_ok_def by (auto split: option.splits) 

theorem validate_user_range_exact_witness:
  "validate_user_range 8192 sample_space (USER_SPACE_START + 4100) 2 True = Inr ()
    \<and> validate_user_range 8192 sample_space (USER_SPACE_START + 16) 2 True \<noteq> Inr ()"
proof
  show "validate_user_range 8192 sample_space (USER_SPACE_START + 4100) 2 True = Inr ()"
    unfolding validate_user_range_exact using sample_range
    by (simp add: user_page_access_def sample_space_def USER_SPACE_END_def)
  have "user_page_access sample_space (page_floor (USER_SPACE_START + 16)) = Some ReadExecute"
    by (simp add: sample_pages user_page_access_def sample_space_def)
  then show "validate_user_range 8192 sample_space (USER_SPACE_START + 16) 2 True \<noteq> Inr ()"
    unfolding validate_user_range_exact
    by (metis UserPageAccess.distinct(5) less_add_same_cancel1 option.inject order_refl
        zero_less_numeral zero_neq_numeral)
qed

text \<open>C34. Copying bytes to user memory and reading them back gives the same bytes, and the copy
  changes no byte outside the buffer.\<close>

theorem copy_round_trip:
  assumes "copy_to_user cr3 s umem address input = Inr umem'"
  shows "copy_from_user cr3 s umem' address (length input) = Inr input
    \<and> (\<forall>x. x < address \<or> address + length input \<le> x \<longrightarrow> umem' x = umem x)"
proof -
  have "validate_user_range cr3 s address (length input) True = Inr ()"
    and u: "umem' = (\<lambda>x. if address \<le> x \<and> x < address + length input then input ! (x - address)
        else umem x)"
    using assms by (auto simp: copy_to_user_def)
  then have "validate_user_range cr3 s address (length input) False = Inr ()"
    by (auto simp: validate_user_range_Inr page_ok_def split: option.splits)
  moreover have "map (\<lambda>i. umem' (address + i)) [0..<length input] = input"
    by (rule nth_equalityI) (simp_all add: u)
  ultimately show ?thesis
    by (auto simp: copy_from_user_def u)
qed

theorem copy_round_trip_witness:
  "\<exists>umem'. copy_to_user 8192 sample_space (\<lambda>_. 0) (USER_SPACE_START + 4100) [5, 6] = Inr umem'
    \<and> copy_from_user 8192 sample_space umem' (USER_SPACE_START + 4100) 2 = Inr [5, 6]"
proof -
  have "validate_user_range 8192 sample_space (USER_SPACE_START + 4100) 2 True = Inr ()"
    unfolding validate_user_range_Inr page_ok_def using sample_range
    by (simp add: user_page_access_def sample_space_def USER_SPACE_END_def)
  then obtain umem' where
    u: "copy_to_user 8192 sample_space (\<lambda>_. 0) (USER_SPACE_START + 4100) [5, 6] = Inr umem'"
    by (simp add: copy_to_user_def numeral_2_eq_2)
  then show ?thesis
    using copy_round_trip [OF u] by (auto simp: numeral_2_eq_2)
qed

text \<open>A task can enter user mode only at an address inside the user half on an executable page
  that is not writable, with a 16-byte aligned stack pointer whose byte below lies on a writable
  page; with arguments, the argument vector lies on a writable page too.\<close>

theorem user_context_safe:
  assumes "for_address_space_with_arguments s entry stack argc argv = Inr context"
  shows "contains_user_address (uc_entry context)
    \<and> user_page_access s (page_floor (uc_entry context)) = Some ReadExecute
    \<and> contains_user_address (uc_stack context) \<and> uc_stack context mod 16 = 0
    \<and> user_page_access s (page_floor (uc_stack context - 1)) = Some ReadWrite
    \<and> (uc_argument_count context \<noteq> 0 \<longrightarrow> contains_user_address (uc_argument_vector context)
        \<and> user_page_access s (page_floor (uc_argument_vector context)) = Some ReadWrite)"
  using assms
  by (auto simp: for_address_space_with_arguments_def UserContext_with_arguments_def
      split: if_splits)

theorem user_context_safe_witness:
  "\<exists>context. for_address_space_with_arguments sample_space (USER_SPACE_START + 16)
      (USER_SPACE_START + 8192) 1 (USER_SPACE_START + 4100) = Inr context
    \<and> uc_stack context mod 16 = 0"
proof -
  have "\<exists>context. for_address_space_with_arguments sample_space (USER_SPACE_START + 16)
      (USER_SPACE_START + 8192) 1 (USER_SPACE_START + 4100) = Inr context"
    by (simp add: for_address_space_with_arguments_def UserContext_with_arguments_def
        contains_user_address_def USER_SPACE_END_def sample_pages user_page_access_def
        sample_space_def)
      (simp add: USER_SPACE_START_def USER_PML4_INDEX_def page_floor_def PAGE_SIZE_def)
  then show ?thesis
    using user_context_safe by blast
qed

end
