(* ===== verification/Memory_Manager.thy ===== *)
theory Memory_Manager
  imports Address_Space
begin

text \<open>
  The memory manager of \<open>memory/mod.rs\<close> and the operations of an address space that go through
  it. A result \<open>None\<close> of an operation is a panic (a failed \<open>assert!\<close> or \<open>expect\<close>); the manager's
  state is passed explicitly.
\<close>

text \<open>The page-table library over a page-table memory \<open>'pt\<close>: the level-4 table stored in a frame
  (512 entries of an address and flags), translation, mapping (which calls the frame allocator
  for missing tables), unmapping, and the clean-up of empty tables, which returns the frames it
  gives to the deallocator, in order.\<close>

record ('pt, 'e) PageTables =
  pt_level_4 :: "nat \<Rightarrow> 'pt \<Rightarrow> (nat \<times> 64 word) list"
  pt_write_level_4 :: "nat \<Rightarrow> (nat \<times> 64 word) list \<Rightarrow> 'pt \<Rightarrow> 'pt"
  pt_zero_frame :: "nat \<Rightarrow> 'pt \<Rightarrow> 'pt"
  pt_translate :: "nat \<Rightarrow> nat \<Rightarrow> 'pt \<Rightarrow> nat option"
  pt_map_to :: "nat \<Rightarrow> nat \<Rightarrow> nat \<Rightarrow> 64 word \<Rightarrow> FrameAllocator \<times> 'pt \<Rightarrow> ('e + unit) \<times> FrameAllocator \<times> 'pt"
  pt_unmap :: "nat \<Rightarrow> nat \<Rightarrow> 'pt \<Rightarrow> ('e + nat) \<times> 'pt"
  pt_clean_up :: "nat \<Rightarrow> nat \<Rightarrow> 'pt \<Rightarrow> nat list \<times> 'pt"
  pt_out_of_frames :: 'e

record 'pt MemoryManager =
  mm_pt :: 'pt
  mm_phys_offset :: nat
  mm_alloc :: FrameAllocator
  mm_physical_limit :: nat
  mm_kernel_root :: nat

definition PRESENT :: "64 word" where "PRESENT = 1"
definition WRITABLE :: "64 word" where "WRITABLE = 2"
definition USER_ACCESSIBLE :: "64 word" where "USER_ACCESSIBLE = 4"
definition NO_EXECUTE :: "64 word" where "NO_EXECUTE = push_bit 63 1"

definition entry_unused :: "nat \<times> 64 word \<Rightarrow> bool" where
  "entry_unused e \<longleftrightarrow> e = (0, 0)"

definition physical_to_virtual :: "'pt MemoryManager \<Rightarrow> nat \<Rightarrow> nat option" where
  "physical_to_virtual m frame = (case checked_add (mm_phys_offset m) frame of
      None \<Rightarrow> None | Some address \<Rightarrow> try_new_virt address)"

text \<open>\<open>FrameDeallocator::deallocate_frame\<close> asserts that the reclaim stack has room.\<close>

primrec dealloc_tables :: "nat list \<Rightarrow> FrameAllocator \<Rightarrow> FrameAllocator option" where
  "dealloc_tables [] a = Some a"
| "dealloc_tables (f # fs) a = (case reclaim_frame f a of
      (True, a') \<Rightarrow> dealloc_tables fs a' | (False, _) \<Rightarrow> None)"

definition clean_up_page :: "('pt, 'e) PageTables \<Rightarrow> nat \<Rightarrow> nat \<Rightarrow> 'pt MemoryManager
    \<Rightarrow> 'pt MemoryManager option" where
  "clean_up_page T root page m =
    (let (tables, pt) = pt_clean_up T root page (mm_pt m)
     in map_option (\<lambda>a. m\<lparr>mm_pt := pt, mm_alloc := a\<rparr>) (dealloc_tables tables (mm_alloc m)))"

text \<open>\<open>assert!(self.frame_allocator.reclaim_frame(frame))\<close>.\<close>

definition must_reclaim :: "nat \<Rightarrow> 'pt MemoryManager \<Rightarrow> 'pt MemoryManager option" where
  "must_reclaim frame m = (case reclaim_frame frame (mm_alloc m) of
      (True, a) \<Rightarrow> Some (m\<lparr>mm_alloc := a\<rparr>) | (False, _) \<Rightarrow> None)"

definition mm_deallocate_frame :: "nat \<Rightarrow> 'pt MemoryManager
    \<Rightarrow> (MemoryError + unit) \<times> 'pt MemoryManager" where
  "mm_deallocate_frame frame m =
    (if \<not> is_allocatable_frame (mm_alloc m) frame then (Inl InvalidMemoryMap, m)
     else case reclaim_frame frame (mm_alloc m) of
       (False, a) \<Rightarrow> (Inl FrameReclaimCapacityExceeded, m\<lparr>mm_alloc := a\<rparr>)
     | (True, a) \<Rightarrow> (Inr (), m\<lparr>mm_alloc := a\<rparr>))"

definition first_unused_low_half_page :: "(nat \<times> 64 word) list \<Rightarrow> nat option" where
  "first_unused_low_half_page table =
    map_option (\<lambda>index. index * 2 ^ 39)
      (List.find (\<lambda>index. entry_unused (table ! index))
        (filter (\<lambda>index. index \<noteq> USER_PML4_INDEX) (drop 1 (take 256 [0..<length table]))))"

text \<open>The root table of a new address space: the kernel's entries without the user flag, and an
  unused entry in the user slot.\<close>

definition new_root_table :: "(nat \<times> 64 word) list \<Rightarrow> (nat \<times> 64 word) list" where
  "new_root_table kernel_table = map (\<lambda>index.
    if index = USER_PML4_INDEX \<or> entry_unused (kernel_table ! index) then (0, 0)
    else (fst (kernel_table ! index), snd (kernel_table ! index) AND NOT USER_ACCESSIBLE)) [0..<512]"

definition create_address_space :: "('pt, 'e) PageTables \<Rightarrow> 'pt MemoryManager
    \<Rightarrow> ((MemoryError + AddressSpace) \<times> 'pt MemoryManager) option" where
  "create_address_space T m =
    (let kernel_table = pt_level_4 T (mm_kernel_root m) (mm_pt m)
     in if \<not> entry_unused (kernel_table ! USER_PML4_INDEX) then Some (Inl NoUserAddressSpaceSlot, m)
        else case next_usable_frame (mm_alloc m) of
          None \<Rightarrow> None
        | Some (None, a) \<Rightarrow> Some (Inl FrameAllocationFailed, m\<lparr>mm_alloc := a\<rparr>)
        | Some (Some root, a) \<Rightarrow>
            let m1 = m\<lparr>mm_alloc := a\<rparr>
            in case physical_to_virtual m1 root of
                 None \<Rightarrow> map_option (\<lambda>m2. (Inl InvalidPhysicalMemoryOffset, m2)) (must_reclaim root m1)
               | Some _ \<Rightarrow>
                   Some (Inr \<lparr>as_root = Some root, as_user_pages = []\<rparr>,
                     m1\<lparr>mm_pt := pt_write_level_4 T root (new_root_table kernel_table) (mm_pt m1)\<rparr>))"

definition access_flags :: "UserPageAccess \<Rightarrow> 64 word" where
  "access_flags access = (case access of
      ReadOnly \<Rightarrow> PRESENT OR USER_ACCESSIBLE OR NO_EXECUTE
    | ReadWrite \<Rightarrow> PRESENT OR WRITABLE OR USER_ACCESSIBLE OR NO_EXECUTE
    | ReadExecute \<Rightarrow> PRESENT OR USER_ACCESSIBLE)"

definition mm_map_user_page :: "('pt, 'e) PageTables \<Rightarrow> nat \<Rightarrow> nat \<Rightarrow> UserPageAccess
    \<Rightarrow> 'pt MemoryManager \<Rightarrow> (('e MappingError + nat) \<times> 'pt MemoryManager) option" where
  "mm_map_user_page T root page access m =
    (case next_usable_frame (mm_alloc m) of
       None \<Rightarrow> None
     | Some (None, a) \<Rightarrow> Some (Inl (MapMapper (pt_out_of_frames T)), m\<lparr>mm_alloc := a\<rparr>)
     | Some (Some frame, a) \<Rightarrow>
         let m1 = m\<lparr>mm_alloc := a\<rparr>
         in case physical_to_virtual m1 frame of
              None \<Rightarrow> map_option (\<lambda>m2. (Inl MapPhysicalOutOfRange, m2)) (must_reclaim frame m1)
            | Some _ \<Rightarrow>
                let m2 = m1\<lparr>mm_pt := pt_zero_frame T frame (mm_pt m1)\<rparr>
                in case physical_to_virtual m2 root of
                     None \<Rightarrow> map_option (\<lambda>m3. (Inl MapInvalidRoot, m3)) (must_reclaim frame m2)
                   | Some _ \<Rightarrow>
                       case pt_map_to T root page frame (access_flags access) (mm_alloc m2, mm_pt m2) of
                         (Inr _, a', pt') \<Rightarrow> Some (Inr frame, m2\<lparr>mm_alloc := a', mm_pt := pt'\<rparr>)
                       | (Inl error, a', pt') \<Rightarrow>
                           case clean_up_page T root page (m2\<lparr>mm_alloc := a', mm_pt := pt'\<rparr>) of
                             None \<Rightarrow> None
                           | Some m3 \<Rightarrow> map_option (\<lambda>m4. (Inl (MapMapper error), m4))
                               (must_reclaim frame m3))"

text \<open>\<open>unmap_page\<close> for a root, and \<open>unmap_and_deallocate\<close>, which is the same operation on the
  kernel's own root.\<close>

definition unmap_from :: "('pt, 'e) PageTables \<Rightarrow> nat \<Rightarrow> nat \<Rightarrow> 'pt MemoryManager
    \<Rightarrow> (('e UnmappingError + unit) \<times> 'pt MemoryManager) option" where
  "unmap_from T root page m =
    (case pt_translate T root page (mm_pt m) of
       None \<Rightarrow> Some (Inl PageNotMapped, m)
     | Some mapped_address \<Rightarrow>
         let frame = page_floor mapped_address
         in if \<not> is_allocatable_frame (mm_alloc m) frame then Some (Inl FrameNotAllocatorOwned, m)
            else case pt_unmap T root page (mm_pt m) of
              (Inl error, pt) \<Rightarrow> Some (Inl (UnmapMapper error), m\<lparr>mm_pt := pt\<rparr>)
            | (Inr unmapped_frame, pt) \<Rightarrow>
                if unmapped_frame \<noteq> frame then None
                else case must_reclaim frame (m\<lparr>mm_pt := pt\<rparr>) of
                  None \<Rightarrow> None
                | Some m1 \<Rightarrow> map_option (\<lambda>m2. (Inr (), m2)) (clean_up_page T root page m1))"

definition reclaim_room :: "'pt MemoryManager \<Rightarrow> bool" where
  "reclaim_room m \<longleftrightarrow>
    fa_reclaimed_count (mm_alloc m) \<le> RECLAIMED_FRAME_CAPACITY - MAX_FRAMES_RECLAIMED_PER_UNMAP"

definition unmap_page :: "('pt, 'e) PageTables \<Rightarrow> nat \<Rightarrow> nat \<Rightarrow> 'pt MemoryManager
    \<Rightarrow> (('e UnmappingError + unit) \<times> 'pt MemoryManager) option" where
  "unmap_page T root page m =
    (if \<not> reclaim_room m then Some (Inl ReclaimCapacityExceeded, m)
     else case physical_to_virtual m root of
       None \<Rightarrow> Some (Inl PageNotMapped, m)
     | Some _ \<Rightarrow> unmap_from T root page m)"

definition unmap_and_deallocate :: "('pt, 'e) PageTables \<Rightarrow> nat \<Rightarrow> 'pt MemoryManager
    \<Rightarrow> (('e UnmappingError + unit) \<times> 'pt MemoryManager) option" where
  "unmap_and_deallocate T page m =
    (if \<not> reclaim_room m then Some (Inl ReclaimCapacityExceeded, m)
     else unmap_from T (mm_kernel_root m) page m)"

definition mm_map_to :: "('pt, 'e) PageTables \<Rightarrow> nat \<Rightarrow> nat \<Rightarrow> 64 word
    \<Rightarrow> 'pt MemoryManager \<Rightarrow> (('e MappingError + unit) \<times> 'pt MemoryManager) option" where
  "mm_map_to T page frame flags m =
    (if mm_physical_limit m \<le> frame \<or> mm_physical_limit m < frame + PAGE_SIZE
     then Some (Inl MapPhysicalOutOfRange, m)
     else case pt_map_to T (mm_kernel_root m) page frame flags (mm_alloc m, mm_pt m) of
       (Inr _, a, pt) \<Rightarrow> Some (Inr (), m\<lparr>mm_alloc := a, mm_pt := pt\<rparr>)
     | (Inl error, a, pt) \<Rightarrow>
         map_option (\<lambda>m1. (Inl (MapMapper error), m1))
           (clean_up_page T (mm_kernel_root m) page (m\<lparr>mm_alloc := a, mm_pt := pt\<rparr>)))"

definition allocate_and_map :: "('pt, 'e) PageTables \<Rightarrow> nat \<Rightarrow> 64 word
    \<Rightarrow> 'pt MemoryManager \<Rightarrow> (('e MappingError + nat) \<times> 'pt MemoryManager) option" where
  "allocate_and_map T page flags m =
    (case next_usable_frame (mm_alloc m) of
       None \<Rightarrow> None
     | Some (None, a) \<Rightarrow> Some (Inl (MapMapper (pt_out_of_frames T)), m\<lparr>mm_alloc := a\<rparr>)
     | Some (Some frame, a) \<Rightarrow>
         case mm_map_to T page frame flags (m\<lparr>mm_alloc := a\<rparr>) of
           None \<Rightarrow> None
         | Some (Inr _, m1) \<Rightarrow> Some (Inr frame, m1)
         | Some (Inl error, m1) \<Rightarrow> map_option (\<lambda>m2. (Inl error, m2)) (must_reclaim frame m1))"

section \<open>Initialisation\<close>

definition EFI_MEMORY_MAP_VERSION :: nat where "EFI_MEMORY_MAP_VERSION = 2"
definition EFI_MEMORY_DESCRIPTOR_VERSION :: nat where "EFI_MEMORY_DESCRIPTOR_VERSION = 1"

definition active_level_4_table :: "nat \<Rightarrow> nat \<Rightarrow> MemoryError + nat" where
  "active_level_4_table cr3 physical_memory_offset =
    bind_res (ok_or InvalidPhysicalMemoryOffset
        (case checked_add physical_memory_offset cr3 of None \<Rightarrow> None | Some a \<Rightarrow> try_new_virt a))
      (\<lambda>virtual_address.
        if cr3 mod PAGE_SIZE \<noteq> 0 \<or> virtual_address mod PAGE_SIZE \<noteq> 0 then Inl InvalidPageTableRoot
        else Inr virtual_address)"

definition manager_create :: "('pt, 'e) PageTables \<Rightarrow> 'pt \<Rightarrow> (nat \<Rightarrow> byte) \<Rightarrow> nat option \<Rightarrow> nat
    \<Rightarrow> BootInfo \<Rightarrow> nat \<Rightarrow> MemoryError + 'pt MemoryManager" where
  "manager_create T pt mem cpuid_bits cr3 b boot_info_address =
    (if bi_version b \<noteq> EFI_MEMORY_MAP_VERSION
        \<or> bi_descriptor_version b \<noteq> EFI_MEMORY_DESCRIPTOR_VERSION
        \<or> bi_page_table_root b mod PAGE_SIZE \<noteq> 0 then Inl InvalidBootInfo
     else if cr3 \<noteq> bi_page_table_root b then Inl InvalidPageTableRoot
     else bind_res (physical_address_limit cpuid_bits) (\<lambda>limit.
       if 2 ^ 52 \<le> bi_page_table_root b then Inl InvalidPageTableRoot
       else if limit \<le> bi_page_table_root b then Inl InvalidPageTableRoot
       else bind_res (ok_or InvalidPhysicalMemoryOffset (try_new_virt (bi_physical_memory_offset b)))
         (\<lambda>offset. bind_res (ok_or InvalidPhysicalMemoryOffset
           (case checked_add (bi_physical_memory_offset b) (bi_page_table_root b) of
              None \<Rightarrow> None | Some a \<Rightarrow> try_new_virt a)) (\<lambda>root_virtual.
         bind_res (FrameAllocator_new mem b boot_info_address limit) (\<lambda>a.
         bind_res (active_level_4_table cr3 offset) (\<lambda>_.
           if pt_translate T cr3 root_virtual pt \<noteq> Some (bi_page_table_root b)
           then Inl InvalidPhysicalMemoryOffset
           else Inr \<lparr>mm_pt = pt, mm_phys_offset = offset, mm_alloc = a, mm_physical_limit = limit,
             mm_kernel_root = cr3\<rparr>))))))"

text \<open>The static \<open>MEMORY_MANAGER: Once<Result<..>>\<close>, \<open>initialize\<close> and \<open>with_manager\<close>.\<close>

type_synonym 'pt manager_cell = "(MemoryError + 'pt MemoryManager) option"

definition memory_initialize :: "MemoryError + 'pt MemoryManager \<Rightarrow> 'pt manager_cell
    \<Rightarrow> (MemoryError + unit) \<times> 'pt manager_cell" where
  "memory_initialize created cell =
    (let r = (case cell of None \<Rightarrow> created | Some r \<Rightarrow> r)
     in (bind_res r (\<lambda>_. Inr ()), Some r))"

definition with_manager :: "('pt MemoryManager \<Rightarrow> ('a \<times> 'pt MemoryManager) option)
    \<Rightarrow> 'pt manager_cell \<Rightarrow> ((MemoryError + 'a) \<times> 'pt manager_cell) option" where
  "with_manager operation cell = (case cell of
      None \<Rightarrow> Some (Inl NotInitialized, cell)
    | Some (Inl error) \<Rightarrow> Some (Inl error, cell)
    | Some (Inr m) \<Rightarrow> map_option (\<lambda>(r, m'). (Inr r, Some (Inr m'))) (operation m))"

section \<open>Operations of an address space\<close>

text \<open>\<open>can_reserve\<close> is the outcome of \<open>Vec::try_reserve\<close>.\<close>

definition as_map_user_page :: "('pt, 'e) PageTables \<Rightarrow> bool \<Rightarrow> nat \<Rightarrow> UserPageAccess
    \<Rightarrow> AddressSpace \<Rightarrow> 'pt manager_cell
    \<Rightarrow> (('e AddressSpaceError + nat) \<times> AddressSpace \<times> 'pt manager_cell) option" where
  "as_map_user_page T can_reserve page access s cell =
    (case as_root s of
       None \<Rightarrow> Some (Inl Released, s, cell)
     | Some root \<Rightarrow>
         if p4_index page \<noteq> USER_PML4_INDEX then Some (Inl InvalidUserPage, s, cell)
         else if page \<in> set (map fst (as_user_pages s)) then Some (Inl DuplicateUserPage, s, cell)
         else if \<not> can_reserve then Some (Inl AllocationFailed, s, cell)
         else case with_manager (mm_map_user_page T root page access) cell of
           None \<Rightarrow> None
         | Some (Inl e, cell') \<Rightarrow> Some (Inl (AS_Memory e), s, cell')
         | Some (Inr (Inl e), cell') \<Rightarrow> Some (Inl (AS_Mapping e), s, cell')
         | Some (Inr (Inr frame), cell') \<Rightarrow>
             Some (Inr frame, s\<lparr>as_user_pages := as_user_pages s @ [(page, access)]\<rparr>, cell'))"

text \<open>\<open>Vec::remove\<close> at the position of a page.\<close>

fun remove_page :: "nat \<Rightarrow> (nat \<times> UserPageAccess) list \<Rightarrow> (nat \<times> UserPageAccess) list" where
  "remove_page page [] = []"
| "remove_page page (e # es) = (if fst e = page then es else e # remove_page page es)"

definition as_unmap_user_page :: "('pt, 'e) PageTables \<Rightarrow> nat \<Rightarrow> AddressSpace \<Rightarrow> 'pt manager_cell
    \<Rightarrow> (('e AddressSpaceError + unit) \<times> AddressSpace \<times> 'pt manager_cell) option" where
  "as_unmap_user_page T page s cell =
    (case as_root s of
       None \<Rightarrow> Some (Inl Released, s, cell)
     | Some root \<Rightarrow>
         if page \<notin> set (map fst (as_user_pages s)) then Some (Inl UserPageNotMapped, s, cell)
         else case with_manager (unmap_page T root page) cell of
           None \<Rightarrow> None
         | Some (Inl e, cell') \<Rightarrow> Some (Inl (AS_Memory e), s, cell')
         | Some (Inr (Inl e), cell') \<Rightarrow> Some (Inl (AS_Unmapping e), s, cell')
         | Some (Inr (Inr _), cell') \<Rightarrow>
             Some (Inr (), s\<lparr>as_user_pages := remove_page page (as_user_pages s)\<rparr>, cell'))"

definition as_activate :: "AddressSpace \<Rightarrow> nat \<Rightarrow> ('e AddressSpaceError + unit) \<times> nat" where
  "as_activate s cr3 = (case as_root s of
      None \<Rightarrow> (Inl Released, cr3)
    | Some root \<Rightarrow> (Inr (), if cr3 \<noteq> root then root else cr3))"

text \<open>The loop of \<open>destroy\<close> unmaps the last page of the list until it is empty; it returns the
  pages still mapped.\<close>

function (sequential) destroy_pages :: "('pt, 'e) PageTables \<Rightarrow> nat \<Rightarrow> (nat \<times> UserPageAccess) list
    \<Rightarrow> 'pt manager_cell
    \<Rightarrow> (('e AddressSpaceError + unit) \<times> (nat \<times> UserPageAccess) list \<times> 'pt manager_cell) option" where
  "destroy_pages T root pages cell =
    (if pages = [] then Some (Inr (), [], cell)
     else case with_manager (unmap_page T root (fst (last pages))) cell of
       None \<Rightarrow> None
     | Some (Inl e, cell') \<Rightarrow> Some (Inl (AS_Memory e), pages, cell')
     | Some (Inr (Inl e), cell') \<Rightarrow> Some (Inl (AS_Unmapping e), pages, cell')
     | Some (Inr (Inr _), cell') \<Rightarrow> destroy_pages T root (butlast pages) cell')"
  by pat_completeness auto
termination
  by (relation "measure (\<lambda>(T, root, pages, cell). length pages)") auto

declare destroy_pages.simps [simp del]

definition as_destroy :: "('pt, 'e) PageTables \<Rightarrow> nat \<Rightarrow> AddressSpace \<Rightarrow> 'pt manager_cell
    \<Rightarrow> (('e AddressSpaceError + unit) \<times> AddressSpace \<times> 'pt manager_cell) option" where
  "as_destroy T cr3 s cell =
    (case as_root s of
       None \<Rightarrow> Some (Inl Released, s, cell)
     | Some root \<Rightarrow>
         if cr3 = root then Some (Inl ActiveAddressSpace, s, cell)
         else case destroy_pages T root (as_user_pages s) cell of
           None \<Rightarrow> None
         | Some (Inl e, pages, cell') \<Rightarrow> Some (Inl e, s\<lparr>as_user_pages := pages\<rparr>, cell')
         | Some (Inr _, pages, cell') \<Rightarrow>
             let s' = s\<lparr>as_user_pages := pages\<rparr>
             in case with_manager (\<lambda>m. Some (mm_deallocate_frame root m)) cell' of
                  None \<Rightarrow> None
                | Some (Inl e, cell2) \<Rightarrow> Some (Inl (AS_Memory e), s', cell2)
                | Some (Inr (Inl e), cell2) \<Rightarrow> Some (Inl (AS_Memory e), s', cell2)
                | Some (Inr (Inr _), cell2) \<Rightarrow> Some (Inr (), s'\<lparr>as_root := None\<rparr>, cell2))"

section \<open>Unmapping never overruns the reclaim stack\<close>

lemma reclaim_frame_count:
  "reclaim_frame f a = (True, a') \<longleftrightarrow> fa_reclaimed_count a < RECLAIMED_FRAME_CAPACITY
    \<and> a' = a\<lparr>fa_reclaimed_frames := (fa_reclaimed_frames a)[fa_reclaimed_count a := Some f],
        fa_reclaimed_count := fa_reclaimed_count a + 1\<rparr>"
  by (auto simp: reclaim_frame_def)

lemma dealloc_tables_Some:
  assumes "fa_wf a" "fa_reclaimed_count a + length fs \<le> RECLAIMED_FRAME_CAPACITY"
  shows "\<exists>a'. dealloc_tables fs a = Some a' \<and> fa_wf a'
    \<and> fa_reclaimed_count a' = fa_reclaimed_count a + length fs
    \<and> free_frames a' = rev fs @ free_frames a"
  using assms
proof (induction fs arbitrary: a)
  case (Cons f fs)
  obtain ok a1 where r: "reclaim_frame f a = (ok, a1)" by fastforce
  note spec = reclaim_frame_spec [OF Cons.prems(1) r]
  have ok: "ok" using Cons.prems spec(1) by simp
  then have "fa_reclaimed_count a1 = fa_reclaimed_count a + 1"
    using r by (simp add: reclaim_frame_count)
  with Cons.IH [of a1] Cons.prems spec ok r show ?case
    by auto
qed simp

lemma must_reclaim_Some:
  assumes "fa_wf (mm_alloc m)" "fa_reclaimed_count (mm_alloc m) < RECLAIMED_FRAME_CAPACITY"
  shows "\<exists>m'. must_reclaim f m = Some m' \<and> fa_wf (mm_alloc m')
    \<and> fa_reclaimed_count (mm_alloc m') = fa_reclaimed_count (mm_alloc m) + 1
    \<and> mm_pt m' = mm_pt m \<and> free_frames (mm_alloc m') = f # free_frames (mm_alloc m)"
proof -
  obtain ok a where r: "reclaim_frame f (mm_alloc m) = (ok, a)" by fastforce
  note spec = reclaim_frame_spec [OF assms(1) r]
  have ok: "ok" using assms spec(1) by simp
  then have "fa_reclaimed_count a = fa_reclaimed_count (mm_alloc m) + 1"
    using r by (simp add: reclaim_frame_count)
  then show ?thesis
    using r spec ok by (simp add: must_reclaim_def)
qed

lemma clean_up_page_Some:
  assumes "fa_wf (mm_alloc m)"
    and "fa_reclaimed_count (mm_alloc m) + length (fst (pt_clean_up T root page (mm_pt m)))
      \<le> RECLAIMED_FRAME_CAPACITY"
  shows "\<exists>m'. clean_up_page T root page m = Some m' \<and> fa_wf (mm_alloc m')"
  using dealloc_tables_Some [OF assms] by (auto simp: clean_up_page_def split: prod.splits)

lemma unmap_from_no_panic:
  assumes "fa_wf (mm_alloc m)" "reclaim_room m"
    and unmap: "\<And>pt f pt'. pt_unmap T root page pt = (Inr f, pt') \<Longrightarrow>
      \<exists>x. pt_translate T root page pt = Some x \<and> page_floor x = f"
    and tables: "\<And>pt. length (fst (pt_clean_up T root page pt)) \<le> 3"
  shows "\<exists>r m'. unmap_from T root page m = Some (r, m') \<and> fa_wf (mm_alloc m')"
proof (cases "pt_translate T root page (mm_pt m)")
  case None
  then show ?thesis using assms by (simp add: unmap_from_def)
next
  case (Some x)
  let ?f = "page_floor x"
  obtain res pt where u: "pt_unmap T root page (mm_pt m) = (res, pt)" by fastforce
  show ?thesis
  proof (cases "is_allocatable_frame (mm_alloc m) ?f")
    case False
    then show ?thesis using assms Some by (simp add: unmap_from_def)
  next
    case alloc: True
    show ?thesis
    proof (cases res)
      case (Inl e)
      then show ?thesis using assms Some alloc u by (simp add: unmap_from_def Let_def)
    next
      case (Inr f)
      then have f: "f = ?f" using unmap u Some by fastforce
      have room: "fa_reclaimed_count (mm_alloc m) \<le> 256"
        using assms(2) by (simp add: reclaim_room_def RECLAIMED_FRAME_CAPACITY_def
            MAX_FRAMES_RECLAIMED_PER_UNMAP_def)
      then obtain m1 where m1: "must_reclaim ?f (m\<lparr>mm_pt := pt\<rparr>) = Some m1" "fa_wf (mm_alloc m1)"
        "fa_reclaimed_count (mm_alloc m1) = fa_reclaimed_count (mm_alloc m) + 1"
        using must_reclaim_Some [of "m\<lparr>mm_pt := pt\<rparr>" ?f] assms(1)
        by (auto simp: RECLAIMED_FRAME_CAPACITY_def)
      then obtain m2 where "clean_up_page T root page m1 = Some m2" "fa_wf (mm_alloc m2)"
        using clean_up_page_Some [of m1 T root page] tables [of "mm_pt m1"] room
        by (auto simp: RECLAIMED_FRAME_CAPACITY_def)
      then show ?thesis
        using Some alloc u Inr f m1 by (simp add: unmap_from_def Let_def)
    qed
  qed
qed

section \<open>The pages of an address space\<close>

definition as_ok :: "AddressSpace \<Rightarrow> bool" where
  "as_ok s \<longleftrightarrow> distinct (map fst (as_user_pages s))
    \<and> (\<forall>e \<in> set (as_user_pages s). p4_index (fst e) = USER_PML4_INDEX)"

lemma remove_page_set: "set (remove_page page es) \<subseteq> set es"
  by (induction es) auto

lemma remove_page_fst:
  "distinct (map fst es) \<Longrightarrow>
    distinct (map fst (remove_page page es))
    \<and> set (map fst (remove_page page es)) = set (map fst es) - {page}"
  by (induction es) (force split: if_splits)+

lemma remove_page_map_of:
  "distinct (map fst es) \<Longrightarrow> map_of (remove_page page es) = (map_of es)(page := None)"
proof (induction es)
  case (Cons e es)
  obtain k v where e: "e = (k, v)" by fastforce
  show ?case
  proof (cases "k = page")
    case True
    then have "map_of es page = None"
      using Cons.prems e by (simp add: map_of_eq_None_iff)
    then show ?thesis using True e by (intro ext) simp
  next
    case False
    then show ?thesis using Cons e by (intro ext) simp
  qed
qed simp

lemma as_map_cases:
  assumes "as_map_user_page T can_reserve page access s cell = Some (res, s', cell')"
  shows "(\<exists>e. res = Inl e) \<and> s' = s
    \<or> (\<exists>frame. res = Inr frame) \<and> page \<notin> set (map fst (as_user_pages s))
      \<and> p4_index page = USER_PML4_INDEX
      \<and> s' = s\<lparr>as_user_pages := as_user_pages s @ [(page, access)]\<rparr>"
  using assms unfolding as_map_user_page_def
  by (simp split: option.split_asm if_split_asm prod.split_asm sum.split_asm) blast+

lemma as_unmap_cases:
  assumes "as_unmap_user_page T page s cell = Some (res, s', cell')"
  shows "(\<exists>e. res = Inl e) \<and> s' = s
    \<or> res = Inr () \<and> s' = s\<lparr>as_user_pages := remove_page page (as_user_pages s)\<rparr>"
  using assms unfolding as_unmap_user_page_def
  by (simp split: option.split_asm if_split_asm prod.split_asm sum.split_asm) blast+

lemma as_ok_map:
  assumes "as_ok s" "as_map_user_page T can_reserve page access s cell = Some (res, s', cell')"
  shows "as_ok s' \<and> as_root s' = as_root s \<and> user_page_access s' =
    (case res of Inl _ \<Rightarrow> user_page_access s | Inr _ \<Rightarrow> (user_page_access s)(page \<mapsto> access))
    \<and> (\<forall>frame. res = Inr frame \<longrightarrow> user_page_access s page = None)"
proof -
  consider e where "s' = s" "res = Inl e"
    | frame where "res = Inr frame" "page \<notin> set (map fst (as_user_pages s))"
      "p4_index page = USER_PML4_INDEX"
      "s' = s\<lparr>as_user_pages := as_user_pages s @ [(page, access)]\<rparr>"
    using as_map_cases [OF assms(2)] by blast
  then show ?thesis
  proof cases
    case 1
    then show ?thesis using assms(1) by auto
  next
    case 2
    then have "map_of (as_user_pages s) page = None"
      by (simp add: map_of_eq_None_iff)
    then show ?thesis
      using 2 assms(1) by (auto simp: as_ok_def user_page_access_def fun_eq_iff map_add_def
          split: option.splits)
  qed
qed

lemma as_ok_unmap:
  assumes "as_ok s" "as_unmap_user_page T page s cell = Some (res, s', cell')"
  shows "as_ok s' \<and> as_root s' = as_root s \<and> user_page_access s' =
    (case res of Inl _ \<Rightarrow> user_page_access s | Inr _ \<Rightarrow> (user_page_access s)(page := None))"
proof -
  consider e where "s' = s" "res = Inl e"
    | "res = Inr ()" "s' = s\<lparr>as_user_pages := remove_page page (as_user_pages s)\<rparr>"
    using as_unmap_cases [OF assms(2)] by blast
  then show ?thesis
  proof cases
    case 1
    then show ?thesis using assms(1) by auto
  next
    case 2
    then show ?thesis
      using assms(1) remove_page_fst [of "as_user_pages s" page]
        remove_page_map_of [of "as_user_pages s" page] remove_page_set [of page "as_user_pages s"]
      by (auto simp: as_ok_def user_page_access_def)
  qed
qed

lemma destroy_pages_Inr:
  "destroy_pages T root pages cell = Some (Inr u, pages', cell') \<Longrightarrow> pages' = []"
proof (induction T root pages cell rule: destroy_pages.induct)
  case (1 T root pages cell)
  show ?case
  proof (cases "pages = []")
    case True
    then show ?thesis using 1(2) by (subst (asm) destroy_pages.simps) simp
  next
    case False
    obtain r cell1 where w: "with_manager (unmap_page T root (fst (last pages))) cell
        = Some (Inr (Inr r), cell1)" "destroy_pages T root (butlast pages) cell1
        = Some (Inr u, pages', cell')"
      using 1(2) False by (subst (asm) destroy_pages.simps)
        (auto split: option.splits sum.splits prod.splits)
    then show ?thesis using 1(1) [OF False w(1)] by simp
  qed
qed

lemma destroy_pages_prefix:
  "destroy_pages T root pages cell = Some (r, pages', cell') \<Longrightarrow> \<exists>k. pages' = take k pages"
proof (induction T root pages cell rule: destroy_pages.induct)
  case (1 T root pages cell)
  show ?case
  proof (cases "pages = []")
    case True
    then show ?thesis using 1(2) by (subst (asm) destroy_pages.simps) simp
  next
    case False
    consider "pages' = pages"
      | u cell1 where "with_manager (unmap_page T root (fst (last pages))) cell
          = Some (Inr (Inr u), cell1)" "destroy_pages T root (butlast pages) cell1
          = Some (r, pages', cell')"
      using 1(2) False by (subst (asm) destroy_pages.simps)
        (auto split: option.splits sum.splits prod.splits)
    then show ?thesis
    proof cases
      case 1
      then show ?thesis by (metis take_all_iff order_refl)
    next
      case 2
      have "\<exists>k. pages' = take k (butlast pages)"
        using 1(1) [OF False 2(1) refl refl refl 2(2)] .
      then show ?thesis
        unfolding butlast_conv_take take_take by blast
    qed
  qed
qed

section \<open>Properties\<close>

text \<open>C17. The guard in front of every unmapping is sufficient: with at most 256 frames on the
  reclaim stack, unmapping a page never runs into the assertions that a frame can be reclaimed.
  The page-table library is assumed to unmap the frame that it translates the page to, and to
  free at most the three lower-level tables of a page.\<close>

theorem unmap_page_no_panic:
  assumes "fa_wf (mm_alloc m)"
    and "\<And>pt f pt'. pt_unmap T root page pt = (Inr f, pt') \<Longrightarrow>
      \<exists>x. pt_translate T root page pt = Some x \<and> page_floor x = f"
    and "\<And>pt. length (fst (pt_clean_up T root page pt)) \<le> 3"
  shows "\<exists>r m'. unmap_page T root page m = Some (r, m') \<and> fa_wf (mm_alloc m')"
  using unmap_from_no_panic [OF assms(1) _ assms(2,3)] assms(1)
  by (auto simp: unmap_page_def split: option.split)

text \<open>A page-table memory for the witnesses: a partial map from pages to frames, whose tables are
  never freed.\<close>

definition flat_tables :: "(nat \<rightharpoonup> nat, unit) PageTables" where
  "flat_tables = \<lparr>pt_level_4 = (\<lambda>r pt. replicate 512 (0, 0)), pt_write_level_4 = (\<lambda>r t pt. pt),
    pt_zero_frame = (\<lambda>f pt. pt), pt_translate = (\<lambda>r p pt. pt p),
    pt_map_to = (\<lambda>r p f fl (a, pt). (Inr (), a, pt(p \<mapsto> f))),
    pt_unmap = (\<lambda>r p pt. case pt p of None \<Rightarrow> (Inl (), pt)
      | Some x \<Rightarrow> (Inr (page_floor x), pt(p := None))),
    pt_clean_up = (\<lambda>r p pt. ([], pt)), pt_out_of_frames = ()\<rparr>"

definition sample_manager :: "(nat \<rightharpoonup> nat) MemoryManager" where
  "sample_manager = \<lparr>mm_pt = [USER_SPACE_START \<mapsto> 1048576], mm_phys_offset = 0,
    mm_alloc = sample_alloc, mm_physical_limit = 2 ^ 32, mm_kernel_root = 28672\<rparr>"

lemma sample_manager_wf: "fa_wf (mm_alloc sample_manager)"
  using FrameAllocator_new_wf(1) [OF sample_new sample_limit] by (simp add: sample_manager_def)

theorem unmap_page_no_panic_witness:
  "\<exists>r m'. unmap_page flat_tables 8192 USER_SPACE_START sample_manager = Some (r, m')
    \<and> fa_wf (mm_alloc m')"
  by (rule unmap_page_no_panic [OF sample_manager_wf])
    (auto simp: flat_tables_def split: option.splits)

text \<open>C8. Address spaces are isolated from birth: the root table of a new address space has an
  unused user slot, no entry through which user mode could reach kernel memory (the user flag is
  cleared everywhere), and otherwise the kernel's own mappings. The page-table memory is assumed
  to return what was written to it.\<close>

theorem create_address_space_isolated:
  assumes "create_address_space T m = Some (Inr s, m')"
    and "\<And>r t pt. pt_level_4 T r (pt_write_level_4 T r t pt) = t"
  shows "as_user_pages s = [] \<and> (\<exists>root. as_root s = Some root \<and>
    (let table = pt_level_4 T root (mm_pt m'); kernel = pt_level_4 T (mm_kernel_root m) (mm_pt m)
     in length table = 512 \<and> entry_unused (table ! USER_PML4_INDEX)
      \<and> (\<forall>i < 512. snd (table ! i) AND USER_ACCESSIBLE = 0)
      \<and> (\<forall>i < 512. i \<noteq> USER_PML4_INDEX \<longrightarrow> fst (table ! i) = fst (kernel ! i)
          \<and> snd (table ! i) = snd (kernel ! i) AND NOT USER_ACCESSIBLE)))"
proof -
  let ?k = "pt_level_4 T (mm_kernel_root m) (mm_pt m)"
  obtain root where "as_root s = Some root" "as_user_pages s = []"
    "pt_level_4 T root (mm_pt m') = new_root_table ?k"
    using assms(1) unfolding create_address_space_def Let_def
    by (auto simp: assms(2) split: if_splits option.splits prod.splits)
  moreover have "(x AND NOT y) AND y = 0" for x y :: "64 word"
    by (simp add: and.assoc)
  ultimately show ?thesis
    by (auto simp: new_root_table_def entry_unused_def USER_PML4_INDEX_def Let_def)
qed

text \<open>A page-table memory that stores root tables, and a manager over it.\<close>

definition root_tables :: "(nat \<Rightarrow> (nat \<times> 64 word) list, unit) PageTables" where
  "root_tables = \<lparr>pt_level_4 = (\<lambda>r pt. pt r), pt_write_level_4 = (\<lambda>r t pt. pt(r := t)),
    pt_zero_frame = (\<lambda>f pt. pt), pt_translate = (\<lambda>r p pt. None),
    pt_map_to = (\<lambda>r p f fl (a, pt). (Inl (), a, pt)), pt_unmap = (\<lambda>r p pt. (Inl (), pt)),
    pt_clean_up = (\<lambda>r p pt. ([], pt)), pt_out_of_frames = ()\<rparr>"

definition root_manager :: "(nat \<Rightarrow> (nat \<times> 64 word) list) MemoryManager" where
  "root_manager = \<lparr>mm_pt = (\<lambda>_. (4096, 7) # replicate 511 (0, 0)), mm_phys_offset = 0,
    mm_alloc = sample_alloc, mm_physical_limit = 2 ^ 32, mm_kernel_root = 28672\<rparr>"

theorem create_address_space_isolated_witness:
  "\<exists>s m'. create_address_space root_tables root_manager = Some (Inr s, m')
    \<and> snd (pt_level_4 root_tables 1048576 (mm_pt m') ! 0) AND USER_ACCESSIBLE = 0"
proof -
  obtain a where a: "next_usable_frame sample_alloc = Some (Some 1048576, a)"
    using sample_first by blast
  have "\<exists>s m'. create_address_space root_tables root_manager = Some (Inr s, m')
      \<and> as_root s = Some 1048576"
    by (simp add: create_address_space_def root_manager_def a physical_to_virtual_def
        checked_add_def u64_limit_def try_new_virt_def canonical_def root_tables_def
        USER_PML4_INDEX_def entry_unused_def Let_def)
  then obtain s m' where c: "create_address_space root_tables root_manager = Some (Inr s, m')"
    and r: "as_root s = Some 1048576"
    by blast
  have "pt_level_4 root_tables r (pt_write_level_4 root_tables r t pt) = t" for r t pt
    by (simp add: root_tables_def)
  from create_address_space_isolated [OF c this] r show ?thesis
    using c by (auto simp: Let_def)
qed

text \<open>The life of an address space between its creation and its destruction.\<close>

inductive as_step :: "('pt, 'e) PageTables \<Rightarrow> AddressSpace \<times> 'pt manager_cell
    \<Rightarrow> AddressSpace \<times> 'pt manager_cell \<Rightarrow> bool" for T where
  map_page: "as_map_user_page T can_reserve page access s cell = Some (res, s', cell')
    \<Longrightarrow> as_step T (s, cell) (s', cell')"
| unmap_page: "as_unmap_user_page T page s cell = Some (res, s', cell')
    \<Longrightarrow> as_step T (s, cell) (s', cell')"

lemma as_ok_steps:
  assumes "(as_step T)\<^sup>*\<^sup>* (s0, c0) x" "as_ok s0"
  shows "as_ok (fst x)"
  using assms(1)
proof (induction rule: rtranclp_induct)
  case base
  then show ?case using assms(2) by simp
next
  case (step y z)
  from step(2) step(3) show ?case
  proof (induction rule: as_step.induct)
    case (map_page can_reserve page access s cell res s' cell')
    then show ?case using as_ok_map by (metis fst_conv)
  next
    case (unmap_page page s cell res s' cell')
    then show ?case using as_ok_unmap by (metis fst_conv)
  qed
qed



end
