(* ===== verification/Heap_Growth.thy ===== *)
theory Heap_Growth
  imports Memory_Manager
begin

text \<open>
  The kernel heap of \<open>memory/heap.rs\<close>: the arithmetic that sizes a growth step, the growth step
  itself with its rollback, and the allocator's retry loop. The free-list heap
  (\<open>linked_list_allocator\<close>) is a record of operations over an abstract heap \<open>'h\<close>.
\<close>

definition HEAP_SIZE :: nat where "HEAP_SIZE = 1024 * 1024"
definition HEAP_PAGES :: nat where "HEAP_PAGES = HEAP_SIZE div PAGE_SIZE"
definition HEAP_GROWTH_PAGES :: nat where "HEAP_GROWTH_PAGES = HEAP_PAGES"
definition PML4_SLOT_SIZE :: nat where "PML4_SLOT_SIZE = 2 ^ 39"
definition LOWER_HALF_PML4_ENTRIES :: nat where "LOWER_HALF_PML4_ENTRIES = 256"
definition PML4_SLOT_PAGES :: nat where "PML4_SLOT_PAGES = PML4_SLOT_SIZE div PAGE_SIZE"
definition MIN_HOLE_SIZE :: nat where "MIN_HOLE_SIZE = 2 * 8"
definition PAGES_PER_PAGE_TABLE :: nat where "PAGES_PER_PAGE_TABLE = 512"
definition PAGES_PER_PAGE_DIRECTORY :: nat where "PAGES_PER_PAGE_DIRECTORY = 2 ^ 18"

datatype 'e HeapError =
    HeapMemory MemoryError
  | HeapMapping "'e MappingError"
  | AlreadyInitialized
  | NoVirtualRange
  | InsufficientPhysicalMemory
  | RollbackFailed

record Layout =
  layout_size :: nat
  layout_align :: nat

record 'h HeapState =
  hs_heap :: 'h
  hs_initialized :: bool
  hs_poisoned :: bool
  hs_start :: "nat option"
  hs_mapped_pages :: nat

record 'h HeapOps =
  heap_allocate_first_fit :: "Layout \<Rightarrow> 'h \<Rightarrow> nat option \<times> 'h"
  heap_deallocate :: "nat \<Rightarrow> Layout \<Rightarrow> 'h \<Rightarrow> 'h"
  heap_extend :: "nat \<Rightarrow> 'h \<Rightarrow> 'h"
  heap_init :: "nat \<Rightarrow> nat \<Rightarrow> 'h \<Rightarrow> 'h"

section \<open>Sizing a growth step\<close>

definition growth_pages_for_layout :: "Layout \<Rightarrow> (nat \<times> nat) option" where
  "growth_pages_for_layout layout =
    (let allocation_bytes = max (layout_size layout) MIN_HOLE_SIZE
     in Option.bind (checked_add allocation_bytes (PAGE_SIZE - 1)) (\<lambda>minimum_bytes.
        Option.bind (checked_sub (layout_align layout) 1) (\<lambda>slack.
        Option.bind (checked_add allocation_bytes slack) (\<lambda>aligned_bytes.
        Option.bind (checked_add aligned_bytes (PAGE_SIZE - 1)) (\<lambda>rounded_aligned_bytes.
          Some (minimum_bytes div PAGE_SIZE, rounded_aligned_bytes div PAGE_SIZE))))))"

definition ceil_div :: "nat \<Rightarrow> nat \<Rightarrow> nat option" where
  "ceil_div n divisor =
    Option.bind (checked_sub divisor 1) (\<lambda>d.
    Option.bind (checked_add n d) (\<lambda>s. if divisor = 0 then None else Some (s div divisor)))"

definition added_table_pages :: "nat \<Rightarrow> nat \<Rightarrow> nat \<Rightarrow> nat option" where
  "added_table_pages previous_pages growth_pages pages_per_table =
    Option.bind (checked_add previous_pages growth_pages) (\<lambda>end_pages.
    Option.bind (ceil_div end_pages pages_per_table) (\<lambda>a.
    Option.bind (ceil_div previous_pages pages_per_table) (\<lambda>b. checked_sub a b)))"

definition required_frames_for_growth :: "nat \<Rightarrow> nat \<Rightarrow> nat option" where
  "required_frames_for_growth previous_pages growth_pages =
    (if growth_pages = 0 then None
     else Option.bind (added_table_pages previous_pages growth_pages PAGES_PER_PAGE_TABLE) (\<lambda>t.
       Option.bind (checked_add growth_pages t) (\<lambda>leaf_and_pt.
       Option.bind (added_table_pages previous_pages growth_pages PAGES_PER_PAGE_DIRECTORY) (\<lambda>d.
       Option.bind (checked_add leaf_and_pt d) (\<lambda>with_pd.
         checked_add with_pd (if previous_pages = 0 then 1 else 0))))))"

definition growth_chunk_pages :: "nat \<Rightarrow> nat \<Rightarrow> nat \<Rightarrow> nat" where
  "growth_chunk_pages target_total_pages already_mapped_pages available_pages =
    (let desired_pages = (if already_mapped_pages < target_total_pages
           then target_total_pages - already_mapped_pages else HEAP_GROWTH_PAGES)
     in min (min desired_pages HEAP_GROWTH_PAGES) available_pages)"

definition available_pages_in_slot :: "nat \<Rightarrow> nat \<Rightarrow> nat option" where
  "available_pages_in_slot start_address mapped_pages =
    (if start_address mod PML4_SLOT_SIZE \<noteq> 0 then None
     else let slot_index = start_address div PML4_SLOT_SIZE
       in if slot_index = 0 \<or> LOWER_HALF_PML4_ENTRIES \<le> slot_index then None
          else checked_sub (PML4_SLOT_SIZE div PAGE_SIZE) mapped_pages)"

definition checked_growth_start :: "nat \<Rightarrow> nat \<Rightarrow> nat \<Rightarrow> nat option" where
  "checked_growth_start start_address mapped_pages additional_pages =
    (if additional_pages = 0 then None
     else if start_address mod PML4_SLOT_SIZE \<noteq> 0 then None
     else let slot_index = start_address div PML4_SLOT_SIZE
       in if slot_index = 0 \<or> LOWER_HALF_PML4_ENTRIES \<le> slot_index then None
          else Option.bind (checked_add mapped_pages additional_pages) (\<lambda>total_pages.
            Option.bind (checked_mul total_pages PAGE_SIZE) (\<lambda>total_bytes.
            Option.bind (checked_add start_address total_bytes) (\<lambda>end_exclusive.
            Option.bind (checked_add slot_index 1) (\<lambda>next_slot.
            Option.bind (checked_mul next_slot PML4_SLOT_SIZE) (\<lambda>slot_end.
              if slot_end < end_exclusive then None
              else Option.bind (checked_sub end_exclusive 1) (\<lambda>last_byte.
                if try_new_virt last_byte = None then None
                else Option.bind (checked_mul mapped_pages PAGE_SIZE) (\<lambda>offset.
                  Option.bind (checked_add start_address offset) try_new_virt)))))))) "

section \<open>Growing the heap\<close>

definition HEAP_FLAGS :: "64 word" where
  "HEAP_FLAGS = PRESENT OR WRITABLE OR NO_EXECUTE"

text \<open>The rollback after a failed mapping: unmap the pages mapped so far, last first, and report
  whether one of them could not be unmapped.\<close>

fun rollback :: "('pt, 'e) PageTables \<Rightarrow> nat \<Rightarrow> nat \<Rightarrow> bool \<Rightarrow> 'pt MemoryManager
    \<Rightarrow> (bool \<times> 'pt MemoryManager) option" where
  "rollback T growth_start 0 failed m = Some (failed, m)"
| "rollback T growth_start (Suc n) failed m =
    (case unmap_and_deallocate T (growth_start + n * PAGE_SIZE) m of
       None \<Rightarrow> None
     | Some (Inr _, m') \<Rightarrow> rollback T growth_start n failed m'
     | Some (Inl _, m') \<Rightarrow> rollback T growth_start n True m')"

function (sequential) map_pages :: "('pt, 'e) PageTables \<Rightarrow> nat \<Rightarrow> nat \<Rightarrow> nat \<Rightarrow> 'pt MemoryManager
    \<Rightarrow> (('e HeapError + unit) \<times> 'pt MemoryManager) option" where
  "map_pages T growth_start pages mapped m =
    (if mapped < pages then
       case allocate_and_map T (growth_start + mapped * PAGE_SIZE) HEAP_FLAGS m of
         None \<Rightarrow> None
       | Some (Inr _, m') \<Rightarrow> map_pages T growth_start pages (mapped + 1) m'
       | Some (Inl error, m') \<Rightarrow>
           (case rollback T growth_start mapped False m' of
              None \<Rightarrow> None
            | Some (failed, m2) \<Rightarrow>
                Some (Inl (if failed then RollbackFailed else HeapMapping error), m2))
     else Some (Inr (), m))"
  by pat_completeness auto
termination
  by (relation "measure (\<lambda>(T, g, pages, mapped, m). pages - mapped)") auto

declare map_pages.simps [simp del]

text \<open>The closure that \<open>grow\<close> runs on the manager; it returns the start and the number of pages.\<close>

definition grow_mapping :: "('pt, 'e) PageTables \<Rightarrow> nat option \<Rightarrow> nat \<Rightarrow> nat \<Rightarrow> 'pt MemoryManager
    \<Rightarrow> (('e HeapError + nat \<times> nat) \<times> 'pt MemoryManager) option" where
  "grow_mapping T heap_start already_mapped_pages target_total_pages m =
    (let base = (case heap_start of Some start \<Rightarrow> Some start
       | None \<Rightarrow> first_unused_low_half_page (pt_level_4 T (mm_kernel_root m) (mm_pt m)))
     in case base of
       None \<Rightarrow> Some (Inl NoVirtualRange, m)
     | Some b \<Rightarrow>
       case available_pages_in_slot b already_mapped_pages of
         None \<Rightarrow> Some (Inl NoVirtualRange, m)
       | Some available_pages \<Rightarrow>
         let pages = growth_chunk_pages target_total_pages already_mapped_pages available_pages
         in if pages = 0 then Some (Inl NoVirtualRange, m)
         else case checked_growth_start b already_mapped_pages pages of
           None \<Rightarrow> Some (Inl NoVirtualRange, m)
         | Some growth_start \<Rightarrow>
           case required_frames_for_growth already_mapped_pages pages of
             None \<Rightarrow> Some (Inl InsufficientPhysicalMemory, m)
           | Some required_frames \<Rightarrow>
             case available_frame_count (mm_alloc m) of
               None \<Rightarrow> None
             | Some available \<Rightarrow>
               if available < required_frames then Some (Inl InsufficientPhysicalMemory, m)
               else case map_pages T growth_start pages 0 m of
                 None \<Rightarrow> None
               | Some (Inl error, m') \<Rightarrow> Some (Inl error, m')
               | Some (Inr _, m') \<Rightarrow> Some (Inr (growth_start, pages), m'))"

definition grow :: "('pt, 'e) PageTables \<Rightarrow> 'h HeapOps \<Rightarrow> nat \<Rightarrow> 'h HeapState \<Rightarrow> 'pt manager_cell
    \<Rightarrow> (('e HeapError + unit) \<times> 'h HeapState \<times> 'pt manager_cell) option" where
  "grow T H target_total_pages st cell =
    (if hs_poisoned st then Some (Inl RollbackFailed, st, cell)
     else case with_manager (grow_mapping T (hs_start st) (hs_mapped_pages st) target_total_pages) cell of
       None \<Rightarrow> None
     | Some (Inl error, cell') \<Rightarrow> Some (Inl (HeapMemory error), st, cell')
     | Some (Inr (Inl RollbackFailed), cell') \<Rightarrow>
         Some (Inl RollbackFailed, st\<lparr>hs_poisoned := True\<rparr>, cell')
     | Some (Inr (Inl error), cell') \<Rightarrow> Some (Inl error, st, cell')
     | Some (Inr (Inr (growth_start, pages)), cell') \<Rightarrow>
         let st1 = (case hs_start st of
               Some _ \<Rightarrow> st\<lparr>hs_heap := heap_extend H (pages * PAGE_SIZE) (hs_heap st)\<rparr>
             | None \<Rightarrow> st\<lparr>hs_heap := heap_init H growth_start (pages * PAGE_SIZE) (hs_heap st),
                 hs_start := Some growth_start\<rparr>)
         in Some (Inr (), st1\<lparr>hs_mapped_pages := hs_mapped_pages st + pages\<rparr>, cell'))"

section \<open>A growth step stays in its slot\<close>

lemma heap_numbers:
  "HEAP_GROWTH_PAGES = 256" "PML4_SLOT_PAGES = 2 ^ 27" "PML4_SLOT_SIZE = 2 ^ 39"
  "LOWER_HALF_PML4_ENTRIES = 256" "PML4_SLOT_SIZE = PML4_SLOT_PAGES * PAGE_SIZE"
  by (simp_all add: HEAP_GROWTH_PAGES_def HEAP_PAGES_def HEAP_SIZE_def PAGE_SIZE_def
      PML4_SLOT_PAGES_def PML4_SLOT_SIZE_def LOWER_HALF_PML4_ENTRIES_def)

text \<open>\<open>in_slot b n\<close>: \<open>b\<close> is the base of one of the slots 1 to 255 and \<open>n\<close> pages fit in it.\<close>

definition in_slot :: "nat \<Rightarrow> nat \<Rightarrow> bool" where
  "in_slot b n \<longleftrightarrow> (\<exists>i. 0 < i \<and> i < 256 \<and> b = i * PML4_SLOT_SIZE) \<and> n \<le> PML4_SLOT_PAGES"

lemma available_pages_in_slot_Some:
  "available_pages_in_slot b n = Some k \<longleftrightarrow> in_slot b n \<and> k = PML4_SLOT_PAGES - n"
proof -
  have "b mod PML4_SLOT_SIZE = 0 \<and> b div PML4_SLOT_SIZE \<noteq> 0 \<and> b div PML4_SLOT_SIZE < 256
      \<longleftrightarrow> (\<exists>i. 0 < i \<and> i < 256 \<and> b = i * PML4_SLOT_SIZE)"
    by (auto simp: heap_numbers(3) intro!: exI [of _ "b div 549755813888"])
  then show ?thesis
    unfolding available_pages_in_slot_def in_slot_def
    by (auto simp: Let_def heap_numbers(4) PML4_SLOT_PAGES_def)
qed

lemma checked_growth_start_Some:
  assumes "checked_growth_start b mapped extra = Some g"
  shows "g = b + mapped * PAGE_SIZE" "in_slot b (mapped + extra)" "0 < extra" "g mod PAGE_SIZE = 0"
proof -
  have i: "b mod PML4_SLOT_SIZE = 0" "b div PML4_SLOT_SIZE \<noteq> 0" "b div PML4_SLOT_SIZE < 256"
    and e: "0 < extra" "b + (mapped + extra) * PAGE_SIZE \<le> (b div PML4_SLOT_SIZE + 1) * PML4_SLOT_SIZE"
    and g: "g = b + mapped * PAGE_SIZE"
    using assms by (auto simp: checked_growth_start_def Let_def heap_numbers(4) try_new_virt_def
        bind_eq_Some_conv split: if_splits)
  let ?i = "b div PML4_SLOT_SIZE"
  have b: "b = ?i * PML4_SLOT_SIZE" using i(1) by auto
  then have "(mapped + extra) * PAGE_SIZE \<le> PML4_SLOT_PAGES * PAGE_SIZE"
    using e(2) heap_numbers(5) by simp
  then have "mapped + extra \<le> PML4_SLOT_PAGES"
    by (simp add: PAGE_SIZE_def)
  then show "in_slot b (mapped + extra)"
    using b i by (auto simp: in_slot_def)
  show "g = b + mapped * PAGE_SIZE" "0 < extra" using g e by auto
  have "b mod PAGE_SIZE = 0"
    using b by (metis heap_numbers(5) mod_mult_self2_is_0 mult.assoc)
  then show "g mod PAGE_SIZE = 0" using g by simp
qed

lemma growth_chunk_le: "growth_chunk_pages t n k \<le> 256" "growth_chunk_pages t n k \<le> k"
  by (simp_all add: growth_chunk_pages_def Let_def heap_numbers(1))

lemma first_unused_in_slot:
  assumes "first_unused_low_half_page table = Some b"
  shows "in_slot b 0" "b \<noteq> USER_SPACE_START"
proof -
  obtain i where i: "b = i * 2 ^ 39" "List.find (\<lambda>index. entry_unused (table ! index))
        (filter (\<lambda>index. index \<noteq> USER_PML4_INDEX) (drop 1 (take 256 [0..<length table]))) = Some i"
    using assms by (auto simp: first_unused_low_half_page_def)
  obtain k where "k < length (filter (\<lambda>index. index \<noteq> USER_PML4_INDEX)
      (drop 1 (take 256 [0..<length table])))"
    "i = filter (\<lambda>index. index \<noteq> USER_PML4_INDEX) (drop 1 (take 256 [0..<length table])) ! k"
    using find_Some_iff [THEN iffD1, OF i(2)] by blast
  then have "i \<in> set (filter (\<lambda>index. index \<noteq> USER_PML4_INDEX) (drop 1 (take 256 [0..<length table])))"
    by (simp only: nth_mem)
  then have "i \<in> set (drop 1 (take 256 [0..<length table]))" "i \<noteq> USER_PML4_INDEX"
    by (auto simp only: set_filter)
  moreover from this have "0 < i" "i < 256"
    by (auto simp: in_set_conv_nth)
  ultimately show "in_slot b 0" "b \<noteq> USER_SPACE_START"
    using i(1) by (auto simp: in_slot_def heap_numbers(3) USER_SPACE_START_def)
qed

lemma grow_mapping_Inr:
  assumes "grow_mapping T heap_start n target m = Some (Inr (g, pages), m')"
  shows "\<exists>b. (case heap_start of Some start \<Rightarrow> b = start
      | None \<Rightarrow> first_unused_low_half_page (pt_level_4 T (mm_kernel_root m) (mm_pt m)) = Some b)
    \<and> g = b + n * PAGE_SIZE \<and> in_slot b (n + pages) \<and> 0 < pages \<and> pages \<le> 256"
proof -
  define base where "base = (case heap_start of Some start \<Rightarrow> Some start
       | None \<Rightarrow> first_unused_low_half_page (pt_level_4 T (mm_kernel_root m) (mm_pt m)))"
  obtain b k where b: "base = Some b" "checked_growth_start b n pages = Some g"
      "pages = growth_chunk_pages target n k"
    using assms unfolding grow_mapping_def base_def [symmetric] Let_def
    by (simp split: option.split_asm if_split_asm prod.split_asm sum.split_asm) blast
  then show ?thesis
    using checked_growth_start_Some [OF b(2)] growth_chunk_le(1) [of target n k]
    by (auto simp: base_def split: option.splits)
qed

text \<open>The state of the heap: nothing is mapped before the first growth, and afterwards the heap
  is one contiguous extent at the base of one slot.\<close>

definition heap_ok :: "'h HeapState \<Rightarrow> bool" where
  "heap_ok st \<longleftrightarrow> (case hs_start st of
      None \<Rightarrow> hs_mapped_pages st = 0
    | Some b \<Rightarrow> in_slot b (hs_mapped_pages st) \<and> b \<noteq> USER_SPACE_START)"

lemma grow_cases:
  assumes "grow T H target st cell = Some (res, st', cell')"
  shows "(\<exists>e. res = Inl e) \<and> (st' = st \<or> st' = st\<lparr>hs_poisoned := True\<rparr>)
    \<or> res = Inr () \<and> \<not> hs_poisoned st \<and> hs_poisoned st' = hs_poisoned st
      \<and> hs_initialized st' = hs_initialized st
      \<and> (\<exists>pages b. 0 < pages \<and> pages \<le> 256 \<and> hs_mapped_pages st' = hs_mapped_pages st + pages
        \<and> in_slot b (hs_mapped_pages st + pages)
        \<and> (case hs_start st of
             Some start \<Rightarrow> b = start \<and> hs_start st' = Some start
               \<and> hs_heap st' = heap_extend H (pages * PAGE_SIZE) (hs_heap st)
           | None \<Rightarrow> b \<noteq> USER_SPACE_START \<and> hs_start st' = Some (b + hs_mapped_pages st * PAGE_SIZE)
               \<and> hs_heap st' = heap_init H (b + hs_mapped_pages st * PAGE_SIZE) (pages * PAGE_SIZE) (hs_heap st)))"
proof (cases "hs_poisoned st")
  case True
  then show ?thesis using assms by (auto simp: grow_def)
next
  case False
  let ?op = "grow_mapping T (hs_start st) (hs_mapped_pages st) target"
  show ?thesis
  proof (cases "\<exists>g pages cell1. with_manager ?op cell = Some (Inr (Inr (g, pages)), cell1)")
    case True
    then obtain g pages cell1 where w: "with_manager ?op cell = Some (Inr (Inr (g, pages)), cell1)"
      by blast
    then obtain m m' where "?op m = Some (Inr (g, pages), m')"
      by (auto simp: with_manager_def split: option.split_asm sum.split_asm)
    note gm = grow_mapping_Inr [OF this]
    show ?thesis
      using assms False w gm first_unused_in_slot(2)
      by (cases "hs_start st") (auto simp: grow_def Let_def)
  next
    case no: False
    then show ?thesis
      using assms False unfolding grow_def
      by (auto split: option.split_asm sum.split_asm prod.split_asm HeapError.split_asm)
  qed
qed

lemma grow_progress:
  assumes "grow T H target st cell = Some (Inr u, st', cell')"
  shows "hs_mapped_pages st < hs_mapped_pages st'" "hs_mapped_pages st' \<le> PML4_SLOT_PAGES"
  using grow_cases [OF assms] by (auto simp: in_slot_def)

lemma grow_measure:
  assumes "grow T H target st cell = Some (Inr u, st', cell')"
  shows "PML4_SLOT_PAGES - hs_mapped_pages st' < PML4_SLOT_PAGES - hs_mapped_pages st"
  using grow_progress [OF assms] by linarith

lemma grow_heap_ok:
  assumes "heap_ok st" "grow T H target st cell = Some (res, st', cell')"
  shows "heap_ok st'"
  using grow_cases [OF assms(2)] assms(1) by (auto simp: heap_ok_def split: option.splits)

section \<open>The allocator\<close>

text \<open>The retry loop of \<open>alloc\<close> ends because each successful growth maps at least one more page
  of a slot that has finitely many. A null pointer is \<open>None\<close> inside; the outer option is a panic.\<close>

function (sequential) alloc_loop :: "('pt, 'e) PageTables \<Rightarrow> 'h HeapOps \<Rightarrow> Layout \<Rightarrow> nat \<Rightarrow> bool
    \<Rightarrow> 'h HeapState \<Rightarrow> 'pt manager_cell
    \<Rightarrow> (nat option \<times> 'h HeapState \<times> 'pt manager_cell) option" where
  "alloc_loop T H layout target_total_pages target_requires_growth st cell =
    (case grow T H target_total_pages st cell of
       None \<Rightarrow> None
     | Some (Inl _, st', cell') \<Rightarrow> Some (None, st', cell')
     | Some (Inr _, st', cell') \<Rightarrow>
         (case heap_allocate_first_fit H layout (hs_heap st') of
            (Some allocation, h) \<Rightarrow> Some (Some allocation, st'\<lparr>hs_heap := h\<rparr>, cell')
          | (None, h) \<Rightarrow>
              if target_requires_growth \<and> target_total_pages \<le> hs_mapped_pages st'
              then Some (None, st'\<lparr>hs_heap := h\<rparr>, cell')
              else alloc_loop T H layout target_total_pages target_requires_growth
                     (st'\<lparr>hs_heap := h\<rparr>) cell'))"
  by pat_completeness auto
termination
  by (relation "measure (\<lambda>(T, H, layout, target, requires, st, cell).
      PML4_SLOT_PAGES - hs_mapped_pages st)")
    (auto intro: grow_measure)

declare alloc_loop.simps [simp del]

definition kernel_alloc :: "('pt, 'e) PageTables \<Rightarrow> 'h HeapOps \<Rightarrow> Layout \<Rightarrow> 'h HeapState
    \<Rightarrow> 'pt manager_cell \<Rightarrow> (nat option \<times> 'h HeapState \<times> 'pt manager_cell) option" where
  "kernel_alloc T H layout st cell =
    (if \<not> hs_initialized st \<or> hs_poisoned st then Some (None, st, cell)
     else case heap_allocate_first_fit H layout (hs_heap st) of
       (Some allocation, h) \<Rightarrow> Some (Some allocation, st\<lparr>hs_heap := h\<rparr>, cell)
     | (None, h) \<Rightarrow>
         let st1 = st\<lparr>hs_heap := h\<rparr>
         in case growth_pages_for_layout layout of
              None \<Rightarrow> Some (None, st1, cell)
            | Some (minimum_total_pages, target_total_pages) \<Rightarrow>
                if PML4_SLOT_PAGES < target_total_pages then Some (None, st1, cell)
                else let minimum_additional_pages = minimum_total_pages - hs_mapped_pages st1;
                         loop = alloc_loop T H layout target_total_pages
                           (hs_mapped_pages st1 < target_total_pages)
                  in if minimum_additional_pages = 0 then loop st1 cell
                     else case required_frames_for_growth (hs_mapped_pages st1) minimum_additional_pages of
                       None \<Rightarrow> Some (None, st1, cell)
                     | Some required_frames \<Rightarrow>
                         case with_manager (\<lambda>m. map_option (\<lambda>n. (n, m))
                             (available_frame_count (mm_alloc m))) cell of
                           None \<Rightarrow> None
                         | Some (Inl _, cell') \<Rightarrow> Some (None, st1, cell')
                         | Some (Inr available_frames, cell') \<Rightarrow>
                             if available_frames < required_frames then Some (None, st1, cell')
                             else loop st1 cell')"

text \<open>\<open>dealloc\<close> asserts that the heap is initialised and the pointer is not null.\<close>

definition kernel_dealloc :: "'h HeapOps \<Rightarrow> nat \<Rightarrow> Layout \<Rightarrow> 'h HeapState \<Rightarrow> 'h HeapState option" where
  "kernel_dealloc H pointer layout st =
    (if \<not> hs_initialized st \<or> pointer = 0 then None
     else Some (st\<lparr>hs_heap := heap_deallocate H pointer layout (hs_heap st)\<rparr>))"

definition heap_initialize :: "('pt, 'e) PageTables \<Rightarrow> 'h HeapOps \<Rightarrow> 'h HeapState \<Rightarrow> 'pt manager_cell
    \<Rightarrow> (('e HeapError + unit) \<times> 'h HeapState \<times> 'pt manager_cell) option" where
  "heap_initialize T H st cell =
    (if hs_initialized st then Some (Inl AlreadyInitialized, st, cell)
     else if hs_poisoned st then Some (Inl RollbackFailed, st, cell)
     else case grow T H HEAP_GROWTH_PAGES st cell of
       None \<Rightarrow> None
     | Some (Inl error, st', cell') \<Rightarrow> Some (Inl error, st', cell')
     | Some (Inr _, st', cell') \<Rightarrow> Some (Inr (), st'\<lparr>hs_initialized := True\<rparr>, cell'))"

definition mapped_bytes :: "'h HeapState \<Rightarrow> nat" where
  "mapped_bytes st = hs_mapped_pages st * PAGE_SIZE"

lemma alloc_loop_heap_ok:
  "heap_ok st \<Longrightarrow> alloc_loop T H layout target requires st cell = Some (r, st', cell') \<Longrightarrow> heap_ok st'"
proof (induction T H layout target requires st cell rule: alloc_loop.induct)
  case (1 T H layout target requires st cell)
  obtain res st1 cell1 where g: "grow T H target st cell = Some (res, st1, cell1)"
    using 1(3) by (subst (asm) alloc_loop.simps) (auto split: option.split_asm)
  have ok1: "heap_ok st1" by (rule grow_heap_ok [OF 1(2) g])
  have upd: "heap_ok (st1\<lparr>hs_heap := h\<rparr>)" for h
    using ok1 by (simp add: heap_ok_def split: option.splits)
  show ?case
  proof (cases res)
    case (Inl e)
    then show ?thesis using 1(3) g ok1 by (subst (asm) alloc_loop.simps) simp
  next
    case (Inr u)
    obtain al h where al: "heap_allocate_first_fit H layout (hs_heap st1) = (al, h)" by fastforce
    have step: "(case al of Some allocation \<Rightarrow> Some (Some allocation, st1\<lparr>hs_heap := h\<rparr>, cell1)
        | None \<Rightarrow> if requires \<and> target \<le> hs_mapped_pages st1 then Some (None, st1\<lparr>hs_heap := h\<rparr>, cell1)
            else alloc_loop T H layout target requires (st1\<lparr>hs_heap := h\<rparr>) cell1) = Some (r, st', cell')"
      using 1(3) g Inr al by (subst (asm) alloc_loop.simps) (simp split: option.splits)
    show ?thesis
    proof (cases "al = None \<and> \<not> (requires \<and> target \<le> hs_mapped_pages st1)")
      case True
      then show ?thesis
        using 1(1) [OF g refl Inr refl al [symmetric]] step upd by auto
    next
      case False
      then show ?thesis
        using step upd by (auto split: option.splits if_splits)
    qed
  qed
qed

section \<open>The number of frames a growth needs\<close>

text \<open>The page tables (\<open>k\<close> pages each) that the first \<open>n\<close> pages of a slot touch.\<close>

definition tables_of :: "nat \<Rightarrow> nat \<Rightarrow> nat set" where
  "tables_of k n = (\<lambda>p. p div k) ` {..<n}"

lemma tables_of_eq:
  assumes "0 < k"
  shows "tables_of k n = {..<(n + (k - 1)) div k}"
proof
  show "tables_of k n \<subseteq> {..<(n + (k - 1)) div k}"
  proof
    fix t assume "t \<in> tables_of k n"
    then obtain p where p: "p < n" "t = p div k" by (auto simp: tables_of_def)
    have "p + k \<le> n + (k - 1)" using assms p(1) by simp
    then have "(p + k) div k \<le> (n + (k - 1)) div k" by (rule div_le_mono)
    then have "p div k < (n + (k - 1)) div k" using assms div_add_self2 [of k p] by simp
    then show "t \<in> {..<(n + (k - 1)) div k}" using p by simp
  qed
  show "{..<(n + (k - 1)) div k} \<subseteq> tables_of k n"
  proof
    fix t assume "t \<in> {..<(n + (k - 1)) div k}"
    then have "Suc t \<le> (n + (k - 1)) div k" by simp
    then have "Suc t * k \<le> n + (k - 1)"
      using assms by (simp add: less_eq_div_iff_mult_less_eq)
    then have "t * k < n" using assms by simp
    then show "t \<in> tables_of k n"
      using assms by (auto simp: tables_of_def intro!: image_eqI [of _ _ "t * k"])
  qed
qed

lemma added_table_pages_eq:
  assumes "0 < k" "previous + growth + k \<le> 2 ^ 40"
  shows "added_table_pages previous growth k
    = Some (card (tables_of k (previous + growth) - tables_of k previous))"
proof -
  have le: "(previous + (k - 1)) div k \<le> (previous + growth + (k - 1)) div k"
    by (rule div_le_mono) simp
  have "ceil_div n k = Some ((n + (k - 1)) div k)" if "n + k \<le> 2 ^ 40" for n
    using that assms(1) by (auto simp: ceil_div_def checked_sub_def checked_add_def u64_limit_def)
  moreover have "checked_add previous growth = Some (previous + growth)"
    using assms(2) by (simp add: u64_limit_def)
  ultimately have "added_table_pages previous growth k
      = Some ((previous + growth + (k - 1)) div k - (previous + (k - 1)) div k)"
    using assms le by (simp add: added_table_pages_def checked_sub_def del: checked_add_Some)
  moreover have "tables_of k (previous + growth) - tables_of k previous
      = {(previous + (k - 1)) div k ..< (previous + growth + (k - 1)) div k}"
    using assms(1) by (auto simp: tables_of_eq)
  ultimately show ?thesis by simp
qed

section \<open>Properties\<close>

text \<open>The number of frames that a growth step reserves before it maps anything is exactly the
  number it can consume: one frame per new page, one per page table and per page directory that
  the new pages touch and the old ones do not, and one for the directory-pointer table of an
  empty slot. Page \<open>p\<close> of the slot is in page table \<open>p div 512\<close> and directory \<open>p div 2^18\<close>.\<close>

theorem required_frames_exact:
  assumes "0 < growth" and "previous + growth \<le> PML4_SLOT_PAGES"
  shows "required_frames_for_growth previous growth = Some (growth
    + card ((\<lambda>p. p div 512) ` {..<previous + growth} - (\<lambda>p. p div 512) ` {..<previous})
    + card ((\<lambda>p. p div 2 ^ 18) ` {..<previous + growth} - (\<lambda>p. p div 2 ^ 18) ` {..<previous})
    + (if previous = 0 then 1 else 0))"
proof -
  have small: "previous + growth \<le> 2 ^ 27" using assms(2) heap_numbers(2) by simp
  let ?t = "\<lambda>k. tables_of k (previous + growth) - tables_of k previous"
  have card: "card (?t k) \<le> 2 ^ 27" for k
  proof -
    have "card (?t k) \<le> card (tables_of k (previous + growth))"
      by (rule card_mono) (auto simp: tables_of_def)
    also have "\<dots> \<le> previous + growth"
      by (metis card_image_le card_lessThan finite_lessThan tables_of_def)
    finally show ?thesis using small by simp
  qed
  have a: "added_table_pages previous growth PAGES_PER_PAGE_TABLE = Some (card (?t 512))"
    "added_table_pages previous growth PAGES_PER_PAGE_DIRECTORY = Some (card (?t (2 ^ 18)))"
    using small by (auto simp: PAGES_PER_PAGE_TABLE_def PAGES_PER_PAGE_DIRECTORY_def
        intro!: added_table_pages_eq)
  have "required_frames_for_growth previous growth = Some (growth + card (?t 512)
      + card (?t (2 ^ 18)) + (if previous = 0 then 1 else 0))"
    using assms(1) a small card [of 512] card [of "2 ^ 18"]
    by (cases "previous = 0") (simp_all add: required_frames_for_growth_def checked_add_def
        u64_limit_def)
  then show ?thesis
    unfolding tables_of_def .
qed

theorem required_frames_exact_witness:
  "required_frames_for_growth 0 256 = Some (256
    + card ((\<lambda>p. p div 512) ` {..<0 + 256} - (\<lambda>p. p div 512) ` {..<(0::nat)})
    + card ((\<lambda>p. p div 2 ^ 18) ` {..<0 + 256} - (\<lambda>p. p div 2 ^ 18) ` {..<(0::nat)})
    + (if (0::nat) = 0 then 1 else 0))"
  by (rule required_frames_exact) (simp_all add: heap_numbers(2))


text \<open>A heap whose allocator never finds room, for the witnesses.\<close>

definition full_heap :: "unit HeapOps" where
  "full_heap = \<lparr>heap_allocate_first_fit = (\<lambda>l h. (None, h)), heap_deallocate = (\<lambda>p l h. h),
    heap_extend = (\<lambda>n h. h), heap_init = (\<lambda>b n h. h)\<rparr>"

definition new_heap :: "unit HeapState" where
  "new_heap = \<lparr>hs_heap = (), hs_initialized = False, hs_poisoned = False, hs_start = None,
    hs_mapped_pages = 0\<rparr>"


text \<open>The heap's life: initialisation, allocations and deallocations.\<close>

inductive heap_step :: "('pt, 'e) PageTables \<Rightarrow> 'h HeapOps \<Rightarrow> 'h HeapState \<times> 'pt manager_cell
    \<Rightarrow> 'h HeapState \<times> 'pt manager_cell \<Rightarrow> bool" for T H where
  heap_boot: "heap_initialize T H st cell = Some (res, st', cell') \<Longrightarrow> heap_step T H (st, cell) (st', cell')"
| heap_alloc: "kernel_alloc T H layout st cell = Some (p, st', cell')
    \<Longrightarrow> heap_step T H (st, cell) (st', cell')"
| heap_dealloc: "kernel_dealloc H p layout st = Some st' \<Longrightarrow> heap_step T H (st, cell) (st', cell)"

lemma kernel_alloc_heap_ok:
  assumes "heap_ok st" "kernel_alloc T H layout st cell = Some (p, st', cell')"
  shows "heap_ok st'"
proof -
  obtain al h where al: "heap_allocate_first_fit H layout (hs_heap st) = (al, h)" by fastforce
  let ?s = "st\<lparr>hs_heap := h\<rparr>"
  have s1: "heap_ok ?s"
    using assms(1) by (simp add: heap_ok_def split: option.splits)
  consider "st' = st" | "st' = ?s"
    | target requires c where "alloc_loop T H layout target requires ?s c = Some (p, st', cell')"
    using assms(2) al unfolding kernel_alloc_def Let_def
    by (auto split: option.split_asm if_split_asm prod.split_asm sum.split_asm)
  then show ?thesis
    by cases (use assms(1) s1 alloc_loop_heap_ok in auto)
qed

lemma heap_ok_initialized [simp]: "heap_ok (st\<lparr>hs_initialized := i\<rparr>) = heap_ok st"
  by (simp add: heap_ok_def split: option.split)

lemma heap_step_ok:
  assumes "heap_step T H x y" "heap_ok (fst x)"
  shows "heap_ok (fst y)"
  using assms
proof (induction rule: heap_step.induct)
  case (heap_boot st cell res st' cell')
  then show ?case
    unfolding heap_initialize_def
    by (auto split: option.split_asm if_split_asm prod.split_asm sum.split_asm dest: grow_heap_ok)
next
  case (heap_alloc layout st cell p st' cell')
  then show ?case using kernel_alloc_heap_ok by (metis fst_conv)
next
  case (heap_dealloc p layout st st' cell)
  then show ?case by (auto simp: kernel_dealloc_def heap_ok_def split: if_splits option.splits)
qed

lemma heap_run_ok:
  assumes "(heap_step T H)\<^sup>*\<^sup>* x y" "heap_ok (fst x)"
  shows "heap_ok (fst y)"
  using assms(1) by (induction rule: rtranclp_induct) (auto intro: assms(2) heap_step_ok)

text \<open>C10. Whatever sequence of initialisations, allocations and deallocations the kernel performs,
  every byte of the mapped heap extent lies in the canonical lower half, outside the first
  512 GiB (where the null page is) and outside the user half: heap growth never runs into another
  slot of the root table.\<close>

theorem heap_extent_safe:
  assumes "(heap_step T H)\<^sup>*\<^sup>* (st0, cell0) (st, cell)"
    and "hs_start st0 = None" and "hs_mapped_pages st0 = 0"
    and "hs_start st = Some b" and "b \<le> x" and "x < b + mapped_bytes st"
  shows "PML4_SLOT_SIZE \<le> x \<and> x < 2 ^ 47 \<and> \<not> contains_user_address x
    \<and> x div PML4_SLOT_SIZE = b div PML4_SLOT_SIZE"
proof -
  have "heap_ok st"
    using heap_run_ok [OF assms(1)] assms(2,3) by (simp add: heap_ok_def)
  then have slot: "in_slot b (hs_mapped_pages st)" and user: "b \<noteq> USER_SPACE_START"
    using assms(4) by (auto simp: heap_ok_def)
  then obtain i where i: "0 < i" "i < 256" "b = i * 2 ^ 39" "hs_mapped_pages st \<le> 2 ^ 27"
    by (auto simp: in_slot_def heap_numbers(2,3))
  have x: "i * 2 ^ 39 \<le> x" "x < i * 2 ^ 39 + 2 ^ 39"
    using assms(5,6) i by (auto simp: mapped_bytes_def PAGE_SIZE_def)
  have "x div 2 ^ 39 = i"
    using x by (intro div_nat_eqI) auto
  moreover have "i \<noteq> 255"
    using user i by (auto simp: USER_SPACE_START_def USER_PML4_INDEX_def)
  ultimately show ?thesis
    using x i by (auto simp: heap_numbers(3) contains_user_address_def USER_SPACE_START_def
        USER_SPACE_END_def USER_PML4_INDEX_def)
qed

definition small_layout :: Layout where
  "small_layout = \<lparr>layout_size = 16, layout_align = 8\<rparr>"

lemma small_growth:
  "\<exists>c. grow flat_tables full_heap 1 (new_heap\<lparr>hs_initialized := True\<rparr>) (Some (Inr sample_manager))
    = Some (Inr (), new_heap\<lparr>hs_initialized := True, hs_start := Some (2 ^ 39), hs_mapped_pages := 1\<rparr>, c)"
proof -
  obtain a where a: "next_usable_frame sample_alloc = Some (Some 1048576, a)"
    using sample_first by blast
  have table: "first_unused_low_half_page (replicate 512 (0, 0)) = Some (2 ^ 39)"
  proof -
    have "take 256 [0..<512] = [0..<256]" by (simp add: take_upt)
    moreover have "[0..<256] = 0 # 1 # [2..<256]"
      using upt_conv_Cons [of 0 256] upt_conv_Cons [of 1 256]
      by (simp del: upt_rec_numeral add: numeral_2_eq_2)
    ultimately show ?thesis
      by (simp add: first_unused_low_half_page_def USER_PML4_INDEX_def entry_unused_def
          del: upt_rec_numeral)
  qed
  have "available_pages_in_slot (2 ^ 39) 0 = Some (2 ^ 27)"
    by (simp add: available_pages_in_slot_def PML4_SLOT_SIZE_def LOWER_HALF_PML4_ENTRIES_def
        PAGE_SIZE_def checked_sub_def)
  moreover have "growth_chunk_pages 1 0 (2 ^ 27) = 1"
    by (simp add: growth_chunk_pages_def heap_numbers(1))
  moreover have "checked_growth_start (2 ^ 39) 0 1 = Some (2 ^ 39)"
    by (simp add: checked_growth_start_def PML4_SLOT_SIZE_def LOWER_HALF_PML4_ENTRIES_def
        PAGE_SIZE_def checked_add_def checked_mul_def checked_sub_def u64_limit_def
        try_new_virt_def canonical_def)
  moreover have "required_frames_for_growth 0 1 = Some 4"
    by (simp add: required_frames_for_growth_def added_table_pages_def ceil_div_def checked_add_def
        checked_sub_def u64_limit_def PAGES_PER_PAGE_TABLE_def PAGES_PER_PAGE_DIRECTORY_def)
  moreover have "\<exists>m. map_pages flat_tables (2 ^ 39) 1 0 sample_manager = Some (Inr (), m)"
    by (simp add: map_pages.simps allocate_and_map_def sample_manager_def a mm_map_to_def
        flat_tables_def PAGE_SIZE_def)
  ultimately have "\<exists>m. grow_mapping flat_tables None 0 1 sample_manager
      = Some (Inr (2 ^ 39, 1), m)"
    using sample_count table
    by (auto simp: grow_mapping_def Let_def) (simp_all add: flat_tables_def sample_manager_def)
  then show ?thesis
    by (auto simp: grow_def new_heap_def with_manager_def full_heap_def)
qed

theorem heap_extent_safe_witness:
  "\<exists>st cell. (heap_step flat_tables full_heap)\<^sup>*\<^sup>*
      (new_heap\<lparr>hs_initialized := True\<rparr>, Some (Inr sample_manager)) (st, cell)
    \<and> hs_start st = Some (2 ^ 39) \<and> \<not> contains_user_address (2 ^ 39 + 4095)"
proof -
  let ?init = "new_heap\<lparr>hs_initialized := True\<rparr>"
  let ?grown = "new_heap\<lparr>hs_initialized := True, hs_start := Some (2 ^ 39), hs_mapped_pages := 1\<rparr>"
  obtain c where g: "grow flat_tables full_heap 1 ?init (Some (Inr sample_manager))
      = Some (Inr (), ?grown, c)"
    using small_growth by blast
  have pages: "growth_pages_for_layout small_layout = Some (1, 1)"
    by (simp add: growth_pages_for_layout_def small_layout_def MIN_HOLE_SIZE_def PAGE_SIZE_def
        checked_add_def checked_sub_def u64_limit_def)
  have "alloc_loop flat_tables full_heap small_layout 1 True ?init (Some (Inr sample_manager))
      = Some (None, ?grown, c)"
    using g by (subst alloc_loop.simps) (simp add: full_heap_def new_heap_def)
  moreover have "required_frames_for_growth 0 1 = Some 4"
    by (simp add: required_frames_for_growth_def added_table_pages_def ceil_div_def checked_add_def
        checked_sub_def u64_limit_def PAGES_PER_PAGE_TABLE_def PAGES_PER_PAGE_DIRECTORY_def)
  ultimately have "kernel_alloc flat_tables full_heap small_layout ?init (Some (Inr sample_manager))
      = Some (None, ?grown, c)"
    using pages sample_count
    by (simp add: kernel_alloc_def new_heap_def full_heap_def with_manager_def
        sample_manager_def heap_numbers(2))
  then have run: "(heap_step flat_tables full_heap)\<^sup>*\<^sup>* (?init, Some (Inr sample_manager)) (?grown, c)"
    by (intro r_into_rtranclp heap_alloc)
  have "\<not> contains_user_address (2 ^ 39 + 4095)"
    using heap_extent_safe [OF run, of "2 ^ 39" "2 ^ 39 + 4095"]
    by (simp add: new_heap_def mapped_bytes_def PAGE_SIZE_def)
  then show ?thesis
    using run by fastforce
qed

end
