(* ===== verification/Scheduler.thy ===== *)
theory Scheduler
  imports Memory_Manager Pipe_Fd
begin

text \<open>
  The scheduler's data structure, \<open>struct Scheduler\<close> of \<open>tasking/scheduler.rs\<close>: the task table,
  the state machine of a task, round-robin selection with an idle task, sleeping and waking,
  termination, reaping and the parent/child relation. The operations that create user tasks or
  release descriptors also pass the descriptor store. The kernel functions that switch contexts
  are in the theory \<open>Task_Ops\<close>.
\<close>

definition MAX_TASKS :: nat where "MAX_TASKS = 16"
definition KERNEL_STACK_SIZE :: nat where "KERNEL_STACK_SIZE = 64 * 1024"

record FdMapping =
  fm_source :: nat
  fm_target :: nat

datatype TaskState = Ready | Running | Blocked | Sleeping | Terminated

record CpuContext =
  cx_stack_pointer :: nat
  cx_rbx :: nat
  cx_rbp :: nat
  cx_r12 :: nat
  cx_r13 :: nat
  cx_r14 :: nat
  cx_r15 :: nat
  cx_rflags :: nat

definition CpuContext_empty :: CpuContext where
  "CpuContext_empty = \<lparr>cx_stack_pointer = 0, cx_rbx = 0, cx_rbp = 0, cx_r12 = 0, cx_r13 = 0,
    cx_r14 = 0, cx_r15 = 0, cx_rflags = 0\<rparr>"

record UserTask =
  ut_address_space :: AddressSpace
  ut_context :: UserContext
  ut_syscall_user_rsp :: nat

record Task =
  t_id :: nat
  t_parent :: "nat option"
  t_state :: TaskState
  t_exit_code :: "nat option"
  t_context :: CpuContext
  t_entry :: "nat option"
  t_user :: "UserTask option"
  t_stack :: "nat list option"
  t_stack_top :: "nat option"
  t_wake_at :: "64 word option"
  t_is_idle :: bool
  t_fds :: "FileDescriptor option list"

record TaskInfo =
  ti_id :: nat
  ti_parent :: "nat option"
  ti_state :: TaskState
  ti_exit_code :: "nat option"
  ti_is_idle :: bool
  ti_is_user :: bool

datatype SchedulerError =
    Full
  | AlreadyStarted
  | NotStarted
  | NoRunnableTasks
  | UnknownTask
  | InvalidState
  | InvalidContext
  | InvalidUserContext UserContextError
  | AddressSpaceCleanup
  | TaskIdExhausted
  | InvalidFd
  | SchedWouldBlock
  | SchedBrokenPipe
  | SchedIo
  | NoChild
  | ChildRunning
  | NotChild

record Scheduler =
  s_tasks :: "Task option list"
  s_current :: "nat option"
  s_next_id :: nat
  s_idle_index :: "nat option"

definition Scheduler_new :: Scheduler where
  "Scheduler_new = \<lparr>s_tasks = replicate MAX_TASKS None, s_current = None, s_next_id = 1,
    s_idle_index = None\<rparr>"

section \<open>Creating tasks\<close>

definition find_free_fd_pair :: "'a option list \<Rightarrow> (nat \<times> nat) option" where
  "find_free_fd_pair fds =
    (case filter (\<lambda>i. fds ! i = None) [0..<length fds] of
       i # j # _ \<Rightarrow> Some (i, j) | _ \<Rightarrow> None)"

definition find_free_fd :: "'a option list \<Rightarrow> nat option" where
  "find_free_fd fds = position (\<lambda>d. d = None) fds"

definition check_task_capacity :: "Scheduler \<Rightarrow> SchedulerError + nat" where
  "check_task_capacity s = ok_or Full (position (\<lambda>t. t = None) (s_tasks s))"

definition insert_task :: "CpuContext \<Rightarrow> nat option \<Rightarrow> nat option \<Rightarrow> UserTask option
    \<Rightarrow> nat list option \<Rightarrow> nat option \<Rightarrow> Scheduler \<Rightarrow> (SchedulerError + nat) \<times> Scheduler" where
  "insert_task context parent entry user stack stack_top s =
    (case check_task_capacity s of
       Inl e \<Rightarrow> (Inl e, s)
     | Inr slot \<Rightarrow>
         case checked_add (s_next_id s) 1 of
           None \<Rightarrow> (Inl TaskIdExhausted, s)
         | Some next \<Rightarrow>
             (Inr (s_next_id s),
              s\<lparr>s_next_id := next, s_tasks := (s_tasks s)[slot := Some
                \<lparr>t_id = s_next_id s, t_parent = parent, t_state = Ready, t_exit_code = None,
                 t_context = context, t_entry = entry, t_user = user, t_stack = stack,
                 t_stack_top = stack_top, t_wake_at = None, t_is_idle = False,
                 t_fds = initial_table\<rparr>]\<rparr>))"

definition create_task :: "CpuContext \<Rightarrow> Scheduler \<Rightarrow> (SchedulerError + nat) \<times> Scheduler" where
  "create_task context s = insert_task context None None None None None s"

text \<open>\<open>create_task_stack\<close>, for a stack that the allocator placed at \<open>stack_base\<close>; \<open>trampoline\<close> is
  the address of \<open>task_trampoline\<close>. The result is the context, the stack and its aligned top.\<close>

definition create_task_stack :: "nat \<Rightarrow> nat \<Rightarrow> SchedulerError + CpuContext \<times> nat list \<times> nat" where
  "create_task_stack trampoline stack_base =
    (let stack = replicate (KERNEL_STACK_SIZE div 8) 0
     in bind_res (ok_or InvalidContext (checked_add stack_base (length stack * 8))) (\<lambda>stack_top.
        let aligned_top = stack_top - stack_top mod 16
        in bind_res (ok_or InvalidContext (checked_sub aligned_top (2 * 8))) (\<lambda>initial_stack.
           bind_res (ok_or InvalidContext (case checked_sub initial_stack stack_base of
               None \<Rightarrow> None
             | Some offset \<Rightarrow> if offset mod 8 = 0 \<and> offset div 8 < length stack
                 then Some (offset div 8) else None)) (\<lambda>stack_index.
             Inr (CpuContext_empty\<lparr>cx_stack_pointer := initial_stack, cx_rflags := 0x202\<rparr>,
               stack[stack_index := trampoline], aligned_top)))))"

definition create_kernel_task :: "nat \<Rightarrow> nat \<Rightarrow> nat \<Rightarrow> nat option \<Rightarrow> Scheduler
    \<Rightarrow> (SchedulerError + nat) \<times> Scheduler" where
  "create_kernel_task trampoline stack_base entry parent s =
    (case check_task_capacity s of
       Inl e \<Rightarrow> (Inl e, s)
     | Inr _ \<Rightarrow>
         case checked_add (s_next_id s) 1 of
           None \<Rightarrow> (Inl TaskIdExhausted, s)
         | Some _ \<Rightarrow>
             case create_task_stack trampoline stack_base of
               Inl e \<Rightarrow> (Inl e, s)
             | Inr (context, stack, stack_top) \<Rightarrow>
                 insert_task context parent (Some entry) None (Some stack) (Some stack_top) s)"

text \<open>Cloning and dropping a whole descriptor table.\<close>

fun clone_table :: "FileDescriptor option list \<Rightarrow> 'd World \<Rightarrow> FileDescriptor option list \<times> 'd World" where
  "clone_table [] w = ([], w)"
| "clone_table (None # ds) w = (let (ds', w') = clone_table ds w in (None # ds', w'))"
| "clone_table (Some d # ds) w =
    (let (d', w1) = fd_clone d w; (ds', w') = clone_table ds w1 in (Some d' # ds', w'))"

fun drop_table :: "FileDescriptor option list \<Rightarrow> 'd World \<Rightarrow> 'd World" where
  "drop_table [] w = w"
| "drop_table (None # ds) w = drop_table ds w"
| "drop_table (Some d # ds) w = drop_table ds (fd_drop d w)"

text \<open>\<open>fds[i].take()\<close> followed by \<open>fd::close\<close>.\<close>

definition close_slot :: "nat \<Rightarrow> FileDescriptor option list \<times> 'd World
    \<Rightarrow> FileDescriptor option list \<times> 'd World" where
  "close_slot i = (\<lambda>(fds, w). case fds ! i of
      None \<Rightarrow> (fds, w) | Some d \<Rightarrow> (fds[i := None], fd_close d w))"

fun apply_mappings :: "FdMapping list \<Rightarrow> FileDescriptor option list \<times> 'd World
    \<Rightarrow> (SchedulerError + unit) \<times> FileDescriptor option list \<times> 'd World" where
  "apply_mappings [] (fds, w) = (Inr (), fds, w)"
| "apply_mappings (m # ms) (fds, w) =
    (if MAX_FDS \<le> fm_source m \<or> MAX_FDS \<le> fm_target m then (Inl InvalidFd, fds, w)
     else case fds ! fm_source m of
       None \<Rightarrow> (Inl InvalidFd, fds, w)
     | Some source \<Rightarrow>
         let (descriptor, w1) = fd_clone source w;
             (fds1, w2) = close_slot (fm_target m) (fds, w1)
         in apply_mappings ms (fds1[fm_target m := Some descriptor], w2))"

fun close_sources :: "FdMapping list \<Rightarrow> FileDescriptor option list \<times> 'd World
    \<Rightarrow> FileDescriptor option list \<times> 'd World" where
  "close_sources [] x = x"
| "close_sources (m # ms) x =
    close_sources ms (if fm_source m \<noteq> fm_target m then close_slot (fm_source m) x else x)"

fun apply_closes :: "nat list \<Rightarrow> FileDescriptor option list \<times> 'd World
    \<Rightarrow> (SchedulerError + unit) \<times> FileDescriptor option list \<times> 'd World" where
  "apply_closes [] (fds, w) = (Inr (), fds, w)"
| "apply_closes (i # is) (fds, w) =
    (if MAX_FDS \<le> i then (Inl InvalidFd, fds, w) else apply_closes is (close_slot i (fds, w)))"

definition task_with_id :: "nat \<Rightarrow> Task option \<Rightarrow> bool" where
  "task_with_id i t \<longleftrightarrow> (case t of None \<Rightarrow> False | Some task \<Rightarrow> t_id task = i)"

definition find_task :: "nat \<Rightarrow> Scheduler \<Rightarrow> nat option" where
  "find_task i s = position (task_with_id i) (s_tasks s)"

text \<open>\<open>create_user_task\<close> takes the address space out of its argument before it looks at the
  descriptors; the last component of the result is what is left in the argument.\<close>

definition create_user_task :: "nat \<Rightarrow> nat \<Rightarrow> AddressSpace option \<Rightarrow> UserContext \<Rightarrow> nat option
    \<Rightarrow> FdMapping list \<Rightarrow> nat list \<Rightarrow> Scheduler \<Rightarrow> 'd World
    \<Rightarrow> (SchedulerError + nat) \<times> Scheduler \<times> 'd World \<times> AddressSpace option" where
  "create_user_task trampoline stack_base address_space context parent fd_mappings fd_closes s w =
    (case check_task_capacity s of
       Inl e \<Rightarrow> (Inl e, s, w, address_space)
     | Inr slot \<Rightarrow>
       case checked_add (s_next_id s) 1 of
         None \<Rightarrow> (Inl TaskIdExhausted, s, w, address_space)
       | Some next_id \<Rightarrow>
         case create_task_stack trampoline stack_base of
           Inl e \<Rightarrow> (Inl e, s, w, address_space)
         | Inr (cpu_context, stack, stack_top) \<Rightarrow>
           case address_space of
             None \<Rightarrow> (Inl InvalidContext, s, w, None)
           | Some space \<Rightarrow>
             let (fds, w1) = (case Option.bind parent (\<lambda>p. find_task p s) of
                   Some i \<Rightarrow> (case s_tasks s ! i of
                       Some task \<Rightarrow> clone_table (t_fds task) w | None \<Rightarrow> (initial_table, w))
                 | None \<Rightarrow> (initial_table, w))
             in case apply_mappings fd_mappings (fds, w1) of
                  (Inl e, fds2, w2) \<Rightarrow> (Inl e, s, drop_table fds2 w2, None)
                | (Inr _, fds2, w2) \<Rightarrow>
                  case apply_closes fd_closes (close_sources fd_mappings (fds2, w2)) of
                    (Inl e, fds3, w3) \<Rightarrow> (Inl e, s, drop_table fds3 w3, None)
                  | (Inr _, fds3, w3) \<Rightarrow>
                    (Inr (s_next_id s),
                     s\<lparr>s_next_id := next_id, s_tasks := (s_tasks s)[slot := Some
                       \<lparr>t_id = s_next_id s, t_parent = parent, t_state = Ready, t_exit_code = None,
                        t_context = cpu_context, t_entry = None,
                        t_user = Some \<lparr>ut_address_space = space, ut_context = context,
                          ut_syscall_user_rsp = 0\<rparr>,
                        t_stack = Some stack, t_stack_top = Some stack_top, t_wake_at = None,
                        t_is_idle = False, t_fds = fds3\<rparr>]\<rparr>, w3, None))"

section \<open>Selecting the next task\<close>

definition upd_task :: "nat \<Rightarrow> (Task \<Rightarrow> Task) \<Rightarrow> Scheduler \<Rightarrow> Scheduler" where
  "upd_task i f s = s\<lparr>s_tasks := (s_tasks s)[i := map_option f (s_tasks s ! i)]\<rparr>"

definition scan_order :: "nat \<Rightarrow> nat list" where
  "scan_order start = map (\<lambda>offset. (start + offset) mod MAX_TASKS) [0..<MAX_TASKS]"

text \<open>The condition of the inner loop in the pass for ordinary tasks (\<open>idle = False\<close>) and in the
  pass for the idle task.\<close>

definition selectable :: "bool \<Rightarrow> Scheduler \<Rightarrow> nat \<Rightarrow> bool" where
  "selectable idle s i \<longleftrightarrow> (case s_tasks s ! i of
      None \<Rightarrow> False | Some task \<Rightarrow> t_state task = Ready \<and> t_is_idle task = idle)"

definition run_slot :: "nat \<Rightarrow> Scheduler \<Rightarrow> (SchedulerError + nat) \<times> Scheduler" where
  "run_slot i s = (case s_tasks s ! i of
      None \<Rightarrow> (Inl NoRunnableTasks, s)
    | Some task \<Rightarrow> (Inr (t_id task),
        (upd_task i (\<lambda>t. t\<lparr>t_state := Running\<rparr>) s)\<lparr>s_current := Some i\<rparr>))"

definition select_next :: "nat \<Rightarrow> Scheduler \<Rightarrow> (SchedulerError + nat) \<times> Scheduler" where
  "select_next start s =
    (let s0 = s\<lparr>s_current := None\<rparr>
     in case List.find (selectable False s0) (scan_order start) of
          Some i \<Rightarrow> run_slot i s0
        | None \<Rightarrow>
            (case List.find (selectable True s0) (scan_order start) of
               Some i \<Rightarrow> run_slot i s0
             | None \<Rightarrow> (Inl NoRunnableTasks, s0)))"

definition scheduler_start :: "Scheduler \<Rightarrow> (SchedulerError + nat) \<times> Scheduler" where
  "scheduler_start s = (if s_current s \<noteq> None then (Inl AlreadyStarted, s) else select_next 0 s)"

section \<open>Transitions of the running task\<close>

definition transition_current :: "TaskState \<Rightarrow> Scheduler \<Rightarrow> (SchedulerError + nat) \<times> Scheduler" where
  "transition_current next_state s = (case s_current s of
      None \<Rightarrow> (Inl NotStarted, s)
    | Some current \<Rightarrow>
        case s_tasks s ! current of
          None \<Rightarrow> (Inl UnknownTask, s)
        | Some task \<Rightarrow>
            if t_state task \<noteq> Running then (Inl InvalidState, s)
            else if t_is_idle task \<and> next_state \<noteq> Ready then (Inl InvalidState, s)
            else select_next ((current + 1) mod MAX_TASKS)
              ((upd_task current (\<lambda>t. t\<lparr>t_state := next_state,
                  t_wake_at := if next_state \<noteq> Sleeping then None else t_wake_at t\<rparr>) s)
                \<lparr>s_current := None\<rparr>))"

definition yield_current :: "Scheduler \<Rightarrow> (SchedulerError + nat) \<times> Scheduler" where
  "yield_current s = transition_current Ready s"

definition block_current :: "Scheduler \<Rightarrow> (SchedulerError + nat) \<times> Scheduler" where
  "block_current s = transition_current Blocked s"

definition terminate_current :: "Scheduler \<Rightarrow> (SchedulerError + nat) \<times> Scheduler" where
  "terminate_current s = transition_current Terminated s"

definition sleep_current_until :: "64 word \<Rightarrow> Scheduler \<Rightarrow> (SchedulerError + nat) \<times> Scheduler" where
  "sleep_current_until deadline s = (case s_current s of
      None \<Rightarrow> (Inl NotStarted, s)
    | Some current \<Rightarrow>
        case s_tasks s ! current of
          None \<Rightarrow> (Inl UnknownTask, s)
        | Some task \<Rightarrow>
            if t_state task \<noteq> Running \<or> t_is_idle task then (Inl InvalidState, s)
            else select_next ((current + 1) mod MAX_TASKS)
              ((upd_task current (\<lambda>t. t\<lparr>t_state := Sleeping, t_wake_at := Some deadline\<rparr>) s)
                \<lparr>s_current := None\<rparr>))"

section \<open>Changes of other tasks\<close>

definition upd_tasks :: "(Task \<Rightarrow> Task) \<Rightarrow> Scheduler \<Rightarrow> Scheduler" where
  "upd_tasks f s = s\<lparr>s_tasks := map (map_option f) (s_tasks s)\<rparr>"

text \<open>A deadline has passed when \<open>now - deadline\<close>, modulo 2^64, is below 2^63.\<close>

definition deadline_passed :: "64 word \<Rightarrow> 64 word \<Rightarrow> bool" where
  "deadline_passed now deadline \<longleftrightarrow> now - deadline < push_bit 63 1"

definition wake_if_expired :: "64 word \<Rightarrow> Task \<Rightarrow> Task" where
  "wake_if_expired now t =
    (if t_state t = Sleeping \<and> (case t_wake_at t of None \<Rightarrow> False | Some d \<Rightarrow> deadline_passed now d)
     then t\<lparr>t_state := Ready, t_wake_at := None\<rparr> else t)"

definition wake_expired_sleepers :: "64 word \<Rightarrow> Scheduler \<Rightarrow> Scheduler" where
  "wake_expired_sleepers now s = upd_tasks (wake_if_expired now) s"

definition live_non_idle :: "Task option \<Rightarrow> bool" where
  "live_non_idle t \<longleftrightarrow> (case t of None \<Rightarrow> False
    | Some task \<Rightarrow> \<not> t_is_idle task \<and> t_state task \<noteq> Terminated)"

definition has_live_non_idle_tasks :: "Scheduler \<Rightarrow> bool" where
  "has_live_non_idle_tasks s \<longleftrightarrow> (\<exists>t \<in> set (s_tasks s). live_non_idle t)"

definition wake :: "nat \<Rightarrow> Scheduler \<Rightarrow> (SchedulerError + unit) \<times> Scheduler" where
  "wake i s = (case find_task i s of
      None \<Rightarrow> (Inl UnknownTask, s)
    | Some index \<Rightarrow>
        if map_option t_state (s_tasks s ! index) \<noteq> Some Blocked then (Inl InvalidState, s)
        else (Inr (), upd_task index (\<lambda>t. t\<lparr>t_state := Ready\<rparr>) s))"

definition wake_parent :: "nat \<Rightarrow> Scheduler \<Rightarrow> Scheduler" where
  "wake_parent child_index s =
    (case Option.bind (s_tasks s ! child_index) t_parent of
       None \<Rightarrow> s
     | Some parent \<Rightarrow>
         (case find_task parent s of
            None \<Rightarrow> s
          | Some index \<Rightarrow>
              if map_option t_state (s_tasks s ! index) = Some Blocked
              then upd_task index (\<lambda>t. t\<lparr>t_state := Ready\<rparr>) s else s))"

definition terminate_task :: "nat \<Rightarrow> nat \<Rightarrow> Scheduler \<Rightarrow> (SchedulerError + unit) \<times> Scheduler" where
  "terminate_task i exit_code s = (case find_task i s of
      None \<Rightarrow> (Inl UnknownTask, s)
    | Some index \<Rightarrow>
        if s_current s = Some index then (Inl InvalidState, s)
        else case s_tasks s ! index of
          None \<Rightarrow> (Inl UnknownTask, s)
        | Some task \<Rightarrow>
            if t_is_idle task \<or> t_state task = Terminated then (Inl InvalidState, s)
            else (Inr (), wake_parent index
              (upd_task index (\<lambda>t. t\<lparr>t_exit_code := Some exit_code, t_state := Terminated\<rparr>) s)))"

definition wake_all_blocked :: "Scheduler \<Rightarrow> Scheduler" where
  "wake_all_blocked s =
    upd_tasks (\<lambda>t. if t_state t = Blocked then t\<lparr>t_state := Ready\<rparr> else t) s"

definition save_current_context :: "CpuContext \<Rightarrow> Scheduler \<Rightarrow> (SchedulerError + unit) \<times> Scheduler" where
  "save_current_context context s = (case s_current s of
      None \<Rightarrow> (Inl NotStarted, s)
    | Some current \<Rightarrow>
        case s_tasks s ! current of
          None \<Rightarrow> (Inl UnknownTask, s)
        | Some _ \<Rightarrow> (Inr (), upd_task current (\<lambda>t. t\<lparr>t_context := context\<rparr>) s))"

text \<open>\<open>reap_terminated\<close> destroys the address space of a user task and frees the slot, which drops
  the task's descriptors. The result \<open>None\<close> is a panic inside \<open>destroy\<close>.\<close>

definition reap_terminated :: "('pt, 'e) PageTables \<Rightarrow> nat \<Rightarrow> nat \<Rightarrow> Scheduler \<Rightarrow> 'd World
    \<Rightarrow> 'pt manager_cell
    \<Rightarrow> ((SchedulerError + unit) \<times> Scheduler \<times> 'd World \<times> 'pt manager_cell) option" where
  "reap_terminated T cr3 i s w cell = (case find_task i s of
      None \<Rightarrow> Some (Inl UnknownTask, s, w, cell)
    | Some index \<Rightarrow>
        case s_tasks s ! index of
          None \<Rightarrow> Some (Inl InvalidState, s, w, cell)
        | Some task \<Rightarrow>
            if s_current s = Some index \<or> t_state task \<noteq> Terminated
            then Some (Inl InvalidState, s, w, cell)
            else case t_user task of
              None \<Rightarrow> Some (Inr (), s\<lparr>s_tasks := (s_tasks s)[index := None]\<rparr>,
                drop_table (t_fds task) w, cell)
            | Some user \<Rightarrow>
                case as_destroy T cr3 (ut_address_space user) cell of
                  None \<Rightarrow> None
                | Some (Inl _, space, cell') \<Rightarrow> Some (Inl AddressSpaceCleanup,
                    upd_task index (\<lambda>t. t\<lparr>t_user := Some (user\<lparr>ut_address_space := space\<rparr>)\<rparr>) s, w, cell')
                | Some (Inr _, _, cell') \<Rightarrow>
                    Some (Inr (), s\<lparr>s_tasks := (s_tasks s)[index := None]\<rparr>,
                      drop_table (t_fds task) w, cell'))"

section \<open>Queries\<close>

definition tasks_of :: "Scheduler \<Rightarrow> Task list" where
  "tasks_of s = map the (filter (\<lambda>t. t \<noteq> None) (s_tasks s))"

definition terminated_child :: "nat \<Rightarrow> nat option \<Rightarrow> Scheduler \<Rightarrow> SchedulerError + nat" where
  "terminated_child parent child s =
    (let matching = filter (\<lambda>t. t_parent t = Some parent
           \<and> (case child of None \<Rightarrow> True | Some c \<Rightarrow> t_id t = c)) (tasks_of s)
     in case List.find (\<lambda>t. t_state t = Terminated) matching of
          Some task \<Rightarrow> Inr (t_id task)
        | None \<Rightarrow>
            if matching \<noteq> [] then Inl ChildRunning
            else Inl (if child \<noteq> None then UnknownTask else NoChild))"

definition current_task :: "Scheduler \<Rightarrow> nat option" where
  "current_task s = Option.bind (s_current s) (\<lambda>i. map_option t_id (s_tasks s ! i))"

definition get_task :: "nat \<Rightarrow> Scheduler \<Rightarrow> SchedulerError + Task" where
  "get_task i s = ok_or UnknownTask (List.find (\<lambda>t. t_id t = i) (tasks_of s))"

definition task_state :: "nat \<Rightarrow> Scheduler \<Rightarrow> SchedulerError + TaskState" where
  "task_state i s = bind_res (get_task i s) (\<lambda>t. Inr (t_state t))"

definition task_context :: "nat \<Rightarrow> Scheduler \<Rightarrow> SchedulerError + CpuContext" where
  "task_context i s = bind_res (get_task i s) (\<lambda>t. Inr (t_context t))"

definition task_snapshot :: "Scheduler \<Rightarrow> TaskInfo option list" where
  "task_snapshot s = map (map_option (\<lambda>t. \<lparr>ti_id = t_id t, ti_parent = t_parent t,
    ti_state = t_state t, ti_exit_code = t_exit_code t, ti_is_idle = t_is_idle t,
    ti_is_user = (t_user t \<noteq> None)\<rparr>)) (s_tasks s)"

section \<open>The invariant of the task table\<close>

text \<open>A task in slot \<open>i\<close> is consistent with the scheduler: it is running exactly when the slot is
  the current one, its identifier has been handed out, a sleeping task has a deadline, the idle
  task is never blocked, asleep or terminated, and a user task owns a root table and a stack.\<close>

definition task_ok :: "Scheduler \<Rightarrow> nat \<Rightarrow> Task \<Rightarrow> bool" where
  "task_ok s i t \<longleftrightarrow>
    (t_state t = Running \<longleftrightarrow> s_current s = Some i)
    \<and> 0 < t_id t \<and> t_id t < s_next_id s
    \<and> (t_state t = Sleeping \<longrightarrow> t_wake_at t \<noteq> None)
    \<and> (t_is_idle t \<longleftrightarrow> s_idle_index s = Some i)
    \<and> (t_is_idle t \<longrightarrow> t_state t \<in> {Ready, Running} \<and> t_parent t = None \<and> t_user t = None)
    \<and> (\<forall>u. t_user t = Some u \<longrightarrow> t_stack_top t \<noteq> None \<and> as_root (ut_address_space u) \<noteq> None)
    \<and> length (t_fds t) = MAX_FDS"

lemma task_ok_tasks [simp]: "task_ok (s\<lparr>s_tasks := ts\<rparr>) = task_ok s"
  by (intro ext) (simp add: task_ok_def)

definition sched_ok :: "Scheduler \<Rightarrow> bool" where
  "sched_ok s \<longleftrightarrow>
    length (s_tasks s) = MAX_TASKS \<and> s_next_id s < u64_limit \<and> 0 < s_next_id s
    \<and> (\<forall>i. s_current s = Some i \<longrightarrow> i < MAX_TASKS \<and> s_tasks s ! i \<noteq> None)
    \<and> (\<forall>i. s_idle_index s = Some i \<longrightarrow> i < MAX_TASKS \<and> s_tasks s ! i \<noteq> None)
    \<and> (\<forall>i t. i < MAX_TASKS \<longrightarrow> s_tasks s ! i = Some t \<longrightarrow> task_ok s i t)
    \<and> (\<forall>i j t u. i < MAX_TASKS \<longrightarrow> j < MAX_TASKS \<longrightarrow> s_tasks s ! i = Some t
        \<longrightarrow> s_tasks s ! j = Some u \<longrightarrow> t_id t = t_id u \<longrightarrow> i = j)"

lemma sched_okD:
  assumes "sched_ok s"
  shows "length (s_tasks s) = MAX_TASKS" "0 < s_next_id s" "s_next_id s < u64_limit"
    "s_current s = Some i \<Longrightarrow> i < MAX_TASKS"
    "s_current s = Some i \<Longrightarrow> \<exists>t. s_tasks s ! i = Some t \<and> t_state t = Running"
    "s_idle_index s = Some i \<Longrightarrow> i < MAX_TASKS"
    "s_idle_index s = Some i \<Longrightarrow> \<exists>t. s_tasks s ! i = Some t \<and> t_is_idle t"
    "i < MAX_TASKS \<Longrightarrow> s_tasks s ! i = Some t \<Longrightarrow> task_ok s i t"
    "i < MAX_TASKS \<Longrightarrow> j < MAX_TASKS \<Longrightarrow> s_tasks s ! i = Some t \<Longrightarrow> s_tasks s ! j = Some u
      \<Longrightarrow> t_id t = t_id u \<Longrightarrow> i = j"
proof -
  have ok: "task_ok s i t" if "i < MAX_TASKS" "s_tasks s ! i = Some t" for i t
    using assms that unfolding sched_ok_def by blast
  show "length (s_tasks s) = MAX_TASKS" "0 < s_next_id s" "s_next_id s < u64_limit"
    using assms unfolding sched_ok_def by blast+
  show cur: "s_current s = Some i \<Longrightarrow> i < MAX_TASKS" and idle: "s_idle_index s = Some i \<Longrightarrow> i < MAX_TASKS"
    using assms unfolding sched_ok_def by blast+
  show "\<exists>t. s_tasks s ! i = Some t \<and> t_state t = Running" if c: "s_current s = Some i"
  proof -
    have "s_tasks s ! i \<noteq> None" using assms c unfolding sched_ok_def by blast
    then obtain t where "s_tasks s ! i = Some t" by auto
    with ok [OF cur [OF c]] c show ?thesis by (auto simp: task_ok_def)
  qed
  show "\<exists>t. s_tasks s ! i = Some t \<and> t_is_idle t" if c: "s_idle_index s = Some i"
  proof -
    have "s_tasks s ! i \<noteq> None" using assms c unfolding sched_ok_def by blast
    then obtain t where "s_tasks s ! i = Some t" by auto
    with ok [OF idle [OF c]] c show ?thesis by (auto simp: task_ok_def)
  qed
  show "i < MAX_TASKS \<Longrightarrow> s_tasks s ! i = Some t \<Longrightarrow> task_ok s i t" by (rule ok)
  show "i < MAX_TASKS \<Longrightarrow> j < MAX_TASKS \<Longrightarrow> s_tasks s ! i = Some t \<Longrightarrow> s_tasks s ! j = Some u
      \<Longrightarrow> t_id t = t_id u \<Longrightarrow> i = j"
    using assms unfolding sched_ok_def by blast
qed

lemma sched_ok_new: "sched_ok Scheduler_new"
  by (simp add: sched_ok_def Scheduler_new_def MAX_TASKS_def u64_limit_def)

text \<open>Changing one task, all tasks, or filling a slot.\<close>

lemma sched_okI:
  assumes "length (s_tasks s) = MAX_TASKS" "0 < s_next_id s" "s_next_id s < u64_limit"
    and "\<And>i. s_current s = Some i \<or> s_idle_index s = Some i \<Longrightarrow> i < MAX_TASKS \<and> s_tasks s ! i \<noteq> None"
    and "\<And>i t. i < MAX_TASKS \<Longrightarrow> s_tasks s ! i = Some t \<Longrightarrow> task_ok s i t"
    and "\<And>i j t u. i < MAX_TASKS \<Longrightarrow> j < MAX_TASKS \<Longrightarrow> s_tasks s ! i = Some t
      \<Longrightarrow> s_tasks s ! j = Some u \<Longrightarrow> t_id t = t_id u \<Longrightarrow> i = j"
  shows "sched_ok s"
  unfolding sched_ok_def using assms by blast

lemma sched_ok_slot:
  assumes s: "sched_ok s" and i: "i < MAX_TASKS" "s_tasks s ! i = Some t"
    and new: "s' = s\<lparr>s_tasks := (s_tasks s)[i := Some t'], s_current := c\<rparr>"
    and t': "t_id t' = t_id t" "task_ok s' i t'"
    and c: "c = s_current s \<or> (s_current s = None \<or> s_current s = Some i) \<and> (c = None \<or> c = Some i)"
  shows "sched_ok s'"
proof (rule sched_okI)
  have len: "length (s_tasks s) = MAX_TASKS" by (rule sched_okD(1) [OF s])
  then show "length (s_tasks s') = MAX_TASKS" "0 < s_next_id s'" "s_next_id s' < u64_limit"
    using sched_okD [OF s] by (simp_all add: new)
  have orig: "\<exists>v. s_tasks s ! j = Some v \<and> t_id v = t_id u"
    if "j < MAX_TASKS" "s_tasks s' ! j = Some u" for j u
    using that i t' len by (cases "j = i") (auto simp: new)
  show "j = k" if "j < MAX_TASKS" "k < MAX_TASKS" "s_tasks s' ! j = Some u" "s_tasks s' ! k = Some v"
    "t_id u = t_id v" for j k u v
    using orig [OF that(1,3)] orig [OF that(2,4)] sched_okD(9) [OF s that(1,2)] that(5) by force
  show "k < MAX_TASKS \<and> s_tasks s' ! k \<noteq> None" if "s_current s' = Some k \<or> s_idle_index s' = Some k" for k
  proof (cases "k = i")
    case True
    then show ?thesis using i len by (simp add: new)
  next
    case False
    then have "s_current s = Some k \<or> s_idle_index s = Some k"
      using that c by (auto simp: new)
    then show ?thesis using s False by (auto simp: new sched_ok_def)
  qed
  show "task_ok s' j u" if "j < MAX_TASKS" "s_tasks s' ! j = Some u" for j u
  proof (cases "j = i")
    case True
    then show ?thesis using that t' i len by (simp add: new)
  next
    case False
    then have "task_ok s j u" using that sched_okD [OF s] by (simp add: new)
    then show ?thesis using c False by (auto simp: task_ok_def new)
  qed
qed

lemma sched_ok_upd:
  assumes "sched_ok s" "i < MAX_TASKS" "s_tasks s ! i = Some t"
    and "t_id (f t) = t_id t" "task_ok s i (f t)"
  shows "sched_ok (upd_task i f s)"
  by (rule sched_ok_slot [OF assms(1-3), where t' = "f t" and c = "s_current s"])
    (use assms in \<open>simp_all add: upd_task_def\<close>)

lemma sched_ok_map:
  assumes s: "sched_ok s" and len: "length ts = MAX_TASKS"
    and some: "\<And>i t. i < MAX_TASKS \<Longrightarrow> s_tasks s ! i = Some t \<Longrightarrow>
      \<exists>t'. ts ! i = Some t' \<and> t_id t' = t_id t \<and> task_ok s i t'"
    and none: "\<And>i. i < MAX_TASKS \<Longrightarrow> s_tasks s ! i = None \<Longrightarrow> ts ! i = None"
  shows "sched_ok (s\<lparr>s_tasks := ts\<rparr>)" (is "sched_ok ?s'")
proof (rule sched_okI)
  have orig: "\<exists>t. s_tasks s ! i = Some t \<and> t_id t = t_id t' \<and> task_ok s i t'"
    if "i < MAX_TASKS" "ts ! i = Some t'" for i t'
    using some [OF that(1)] none [OF that(1)] that(2) by (cases "s_tasks s ! i") auto
  show "length (s_tasks ?s') = MAX_TASKS" "0 < s_next_id ?s'" "s_next_id ?s' < u64_limit"
    using sched_okD [OF s] len by simp_all
  show "task_ok ?s' i t" if "i < MAX_TASKS" "s_tasks ?s' ! i = Some t" for i t
    using orig [of i t] that by auto
  show "j = k" if "j < MAX_TASKS" "k < MAX_TASKS" "s_tasks ?s' ! j = Some u" "s_tasks ?s' ! k = Some v"
    "t_id u = t_id v" for j k u v
    using orig [of j u] orig [of k v] sched_okD(9) [OF s that(1,2)] that by force
  show "i < MAX_TASKS \<and> s_tasks ?s' ! i \<noteq> None" if "s_current ?s' = Some i \<or> s_idle_index ?s' = Some i" for i
  proof -
    have "i < MAX_TASKS \<and> s_tasks s ! i \<noteq> None" using that s unfolding sched_ok_def by simp blast
    then show ?thesis using some [of i] by auto
  qed
qed

lemma nth_list_update':
  "j < length xs \<Longrightarrow> xs[i := x] ! j = (if i = j then x else xs ! j)"
  by simp

lemma upd_task_simps [simp]:
  "s_current (upd_task i f s) = s_current s" "s_next_id (upd_task i f s) = s_next_id s"
  "s_idle_index (upd_task i f s) = s_idle_index s" "length (s_tasks (upd_task i f s)) = length (s_tasks s)"
  by (simp_all add: upd_task_def)

lemma nth_upd_task:
  "j < length (s_tasks s) \<Longrightarrow> s_tasks (upd_task i f s) ! j =
    (if j = i then map_option f (s_tasks s ! i) else s_tasks s ! j)"
  by (simp add: upd_task_def)

lemma nth_upd_tasks [simp]:
  "i < length (s_tasks s) \<Longrightarrow> s_tasks (upd_tasks f s) ! i = map_option f (s_tasks s ! i)"
  by (simp add: upd_tasks_def)

lemma sched_ok_upd_tasks:
  assumes s: "sched_ok s"
    and f: "\<And>i t. i < MAX_TASKS \<Longrightarrow> s_tasks s ! i = Some t \<Longrightarrow> task_ok s i t
      \<Longrightarrow> t_id (f t) = t_id t \<and> task_ok s i (f t)"
  shows "sched_ok (upd_tasks f s)"
  unfolding upd_tasks_def
  by (rule sched_ok_map [OF s]) (simp_all add: sched_okD(1) [OF s] f sched_okD(8) [OF s])

lemma sched_ok_change:
  assumes s: "sched_ok s"
    and f: "\<And>t. task_ok s i t \<Longrightarrow> t_id (f t) = t_id t \<and> task_ok s i (f t)"
  shows "sched_ok (upd_task i f s)"
  unfolding upd_task_def
  by (rule sched_ok_map [OF s])
    (use sched_okD(1,8) [OF s] f in \<open>auto simp: nth_list_update'\<close>)

lemma sched_ok_fresh:
  assumes s: "sched_ok s" and slot: "i < MAX_TASKS" "s_tasks s ! i = None"
    and next_ok: "s_next_id s + 1 < u64_limit"
    and t: "t_id t = s_next_id s" "t_state t = Ready" "\<not> t_is_idle t" "length (t_fds t) = MAX_FDS"
      "\<And>u. t_user t = Some u \<Longrightarrow> t_stack_top t \<noteq> None \<and> as_root (ut_address_space u) \<noteq> None"
  shows "sched_ok (s\<lparr>s_next_id := s_next_id s + 1, s_tasks := (s_tasks s)[i := Some t]\<rparr>)"
    (is "sched_ok ?s'")
proof -
  have len: "length (s_tasks s) = MAX_TASKS" by (rule sched_okD(1) [OF s])
  have free: "s_current s \<noteq> Some i" "s_idle_index s \<noteq> Some i"
    using sched_okD(5,7) [OF s, of i] slot by auto
  have old: "task_ok ?s' j u" if "task_ok s j u" for j u
    using that by (auto simp: task_ok_def)
  have new: "task_ok ?s' i t"
    using t free sched_okD(2) [OF s] by (auto simp: task_ok_def)
  have id: "t_id u < s_next_id s" if "j < MAX_TASKS" "s_tasks s ! j = Some u" for j u
    using sched_okD(8) [OF s that] by (simp add: task_ok_def)
  have all: "task_ok ?s' j u" if "j < MAX_TASKS" "s_tasks ?s' ! j = Some u" for j u
    using that new old slot len sched_okD(8) [OF s] by (cases "j = i") auto
  have inj: "j = k" if "j < MAX_TASKS" "k < MAX_TASKS" "s_tasks ?s' ! j = Some u"
    "s_tasks ?s' ! k = Some v" "t_id u = t_id v" for j k u v
    using that slot len id t(1) sched_okD(9) [OF s]
    by (cases "j = i"; cases "k = i") (simp_all, (metis id less_irrefl)+)
  have cur: "k < MAX_TASKS \<and> s_tasks ?s' ! k \<noteq> None" if "s_current s = Some k \<or> s_idle_index s = Some k" for k
    using that s slot len unfolding sched_ok_def by (auto simp: nth_list_update)
  show ?thesis
    by (rule sched_okI) (use len next_ok all inj cur in auto)
qed

section \<open>Selection\<close>

lemma find_map_upt:
  "List.find P (map f [0..<n]) = Some x \<longleftrightarrow> (\<exists>k < n. x = f k \<and> P (f k) \<and> (\<forall>l < k. \<not> P (f l)))"
proof (induction n)
  case (Suc n)
  have "List.find P (xs @ ys) = (case List.find P xs of None \<Rightarrow> List.find P ys | Some y \<Rightarrow> Some y)" for xs ys
    by (induction xs) auto
  moreover have "List.find P (map f [0..<n]) = None \<longleftrightarrow> (\<forall>k < n. \<not> P (f k))"
    by (auto simp: find_NoneD)
  ultimately show ?case
    using Suc.IH by (auto simp: less_Suc_eq split: option.splits)
qed simp

lemma scan_order_range: "set (scan_order start) = {..<MAX_TASKS}"
proof -
  have "\<exists>k < MAX_TASKS. (start + k) mod MAX_TASKS = i" if "i < MAX_TASKS" for i
  proof (intro exI conjI)
    let ?k = "(i + MAX_TASKS - start mod MAX_TASKS) mod MAX_TASKS"
    show "?k < MAX_TASKS" by (simp add: MAX_TASKS_def)
    have "(start + ?k) mod MAX_TASKS = (start mod MAX_TASKS + (i + MAX_TASKS - start mod MAX_TASKS)) mod MAX_TASKS"
      by (simp add: mod_simps)
    also have "\<dots> = (i + MAX_TASKS) mod MAX_TASKS"
      by (intro arg_cong [where f = "\<lambda>x. x mod MAX_TASKS"])
        (metis MAX_TASKS_def add_diff_inverse_nat add.commute less_imp_le_nat mod_less_divisor
          not_less trans_le_add2 zero_less_numeral)
    finally show "(start + ?k) mod MAX_TASKS = i" using that by simp
  qed
  then show ?thesis by (force simp: scan_order_def MAX_TASKS_def)
qed

text \<open>What \<open>select_next\<close> does when no task is running: it runs the first ready ordinary task from
  \<open>start\<close> on, cyclically; the idle task only when there is none; and it fails only when no task
  at all is ready.\<close>

definition runs :: "nat \<Rightarrow> Scheduler \<Rightarrow> Scheduler" where
  "runs i s = (upd_task i (\<lambda>t. t\<lparr>t_state := Running\<rparr>) s)\<lparr>s_current := Some i\<rparr>"

lemma selectable_current [simp]: "selectable b (s\<lparr>s_current := c\<rparr>) = selectable b s"
  by (intro ext) (simp add: selectable_def)

lemma select_next_cases:
  assumes "s_current s = None"
  obtains (run) i t where "i < MAX_TASKS" "s_tasks s ! i = Some t" "t_state t = Ready"
      "select_next start s = (Inr (t_id t), runs i s)"
      "t_is_idle t \<Longrightarrow> (\<forall>j < MAX_TASKS. \<not> selectable False s j)"
      "\<not> t_is_idle t \<Longrightarrow> (\<exists>k < MAX_TASKS. i = (start + k) mod MAX_TASKS
         \<and> (\<forall>l < k. \<not> selectable False s ((start + l) mod MAX_TASKS)))"
  | (none) "select_next start s = (Inl NoRunnableTasks, s)"
      "\<forall>j < MAX_TASKS. \<not> selectable False s j \<and> \<not> selectable True s j"
proof -
  have s0: "s\<lparr>s_current := None\<rparr> = s" using assms by simp
  consider (ord) i where "List.find (selectable False s) (scan_order start) = Some i"
    | (idle) i where "List.find (selectable False s) (scan_order start) = None"
        "List.find (selectable True s) (scan_order start) = Some i"
    | (no) "List.find (selectable False s) (scan_order start) = None"
        "List.find (selectable True s) (scan_order start) = None"
    by (metis not_None_eq)
  then show thesis
  proof cases
    case ord
    then have i: "i < MAX_TASKS" "selectable False s i"
      using find_SomeD [OF ord] scan_order_range by auto
    then obtain t where t: "s_tasks s ! i = Some t" "t_state t = Ready" "\<not> t_is_idle t"
      by (auto simp: selectable_def split: option.splits)
    have "select_next start s = (Inr (t_id t), runs i s)"
      by (simp only: select_next_def s0 Let_def ord option.case) (simp add: run_slot_def t runs_def)
    moreover have "\<exists>k < MAX_TASKS. i = (start + k) mod MAX_TASKS
         \<and> (\<forall>l < k. \<not> selectable False s ((start + l) mod MAX_TASKS))"
      using ord unfolding scan_order_def find_map_upt by auto
    ultimately show thesis using run i t by blast
  next
    case idle
    then have i: "i < MAX_TASKS" "selectable True s i"
      using find_SomeD [OF idle(2)] scan_order_range by auto
    then obtain t where t: "s_tasks s ! i = Some t" "t_state t = Ready" "t_is_idle t"
      by (auto simp: selectable_def split: option.splits)
    have "select_next start s = (Inr (t_id t), runs i s)"
      by (simp only: select_next_def s0 Let_def idle option.case) (simp add: run_slot_def t runs_def)
    moreover have "\<forall>j < MAX_TASKS. \<not> selectable False s j"
      using idle(1) unfolding find_NoneD scan_order_range by simp
    ultimately show thesis using run i t by blast
  next
    case no
    then have "select_next start s = (Inl NoRunnableTasks, s)"
      by (simp only: select_next_def s0 Let_def option.case)
    moreover have "\<forall>j < MAX_TASKS. \<not> selectable False s j \<and> \<not> selectable True s j"
      using no unfolding find_NoneD scan_order_range by simp
    ultimately show thesis using none by blast
  qed
qed

lemma runs_simps [simp]:
  "s_current (runs i s) = Some i" "s_idle_index (runs i s) = s_idle_index s"
  "s_next_id (runs i s) = s_next_id s" "length (s_tasks (runs i s)) = length (s_tasks s)"
  by (simp_all add: runs_def upd_task_def)

lemma nth_runs:
  "i < length (s_tasks s) \<Longrightarrow> s_tasks (runs i s) ! j =
    (if j = i then map_option (\<lambda>t. t\<lparr>t_state := Running\<rparr>) (s_tasks s ! i) else s_tasks s ! j)"
  by (simp add: runs_def upd_task_def)

lemma sched_ok_runs:
  assumes s: "sched_ok s" and "s_current s = None" "i < MAX_TASKS" "s_tasks s ! i = Some t"
  shows "sched_ok (runs i s)"
  by (rule sched_ok_slot [OF s assms(3,4), where t' = "t\<lparr>t_state := Running\<rparr>" and c = "Some i"])
    (use assms sched_okD(8) [OF s assms(3,4)] in
      \<open>auto simp: runs_def upd_task_def task_ok_def\<close>)

lemma select_next_ok:
  assumes s: "sched_ok s" and none: "s_current s = None"
  shows "sched_ok (snd (select_next start s))"
  using select_next_cases [OF none, of start] by cases (auto simp: s sched_ok_runs none)

text \<open>With an idle task there always is a task to run.\<close>

lemma select_next_total:
  assumes s: "sched_ok s" and none: "s_current s = None" and idle: "s_idle_index s \<noteq> None"
  shows "\<exists>i t. i < MAX_TASKS \<and> s_tasks s ! i = Some t \<and> t_state t = Ready
    \<and> select_next start s = (Inr (t_id t), runs i s)"
proof (cases rule: select_next_cases [OF none, of start])
  case none': 2
  obtain i where i: "s_idle_index s = Some i" using idle by auto
  obtain t where t: "s_tasks s ! i = Some t" "t_is_idle t" using sched_okD(7) [OF s i] by auto
  have "task_ok s i t" by (rule sched_okD(8) [OF s sched_okD(6) [OF s i] t(1)])
  then have "selectable True s i"
    using t none by (auto simp: task_ok_def selectable_def)
  then show ?thesis using none'(2) sched_okD(6) [OF s i] by auto
qed blast

lemma select_next_run:
  assumes s: "sched_ok s" and none: "s_current s = None" and idle: "s_idle_index s \<noteq> None"
  obtains i t where "i < MAX_TASKS" "s_tasks s ! i = Some t" "t_state t = Ready"
      "select_next start s = (Inr (t_id t), runs i s)"
      "t_is_idle t \<Longrightarrow> (\<forall>j < MAX_TASKS. \<not> selectable False s j)"
      "\<not> t_is_idle t \<Longrightarrow> (\<exists>k < MAX_TASKS. i = (start + k) mod MAX_TASKS
         \<and> (\<forall>l < k. \<not> selectable False s ((start + l) mod MAX_TASKS)))"
proof (rule select_next_cases [OF none, of start])
  assume "select_next start s = (Inl NoRunnableTasks, s)"
  then show thesis using select_next_total [OF s none idle, of start] by simp
qed (rule that)

section \<open>Every operation keeps the invariant\<close>

lemma sched_ok_vacate:
  assumes s: "sched_ok s" and c: "s_current s = Some c" "s_tasks s ! c = Some t"
    and f: "t_id (f t) = t_id t" "task_ok (s\<lparr>s_current := None\<rparr>) c (f t)"
  shows "sched_ok ((upd_task c f s)\<lparr>s_current := None\<rparr>)"
  by (rule sched_ok_slot [OF s sched_okD(4) [OF s c(1)] c(2), where t' = "f t" and c = None])
    (use c f in \<open>auto simp: upd_task_def task_ok_def\<close>)

lemma transition_current_ok:
  assumes s: "sched_ok s" and st: "st \<noteq> Running" "st \<noteq> Sleeping"
  shows "sched_ok (snd (transition_current st s))"
proof (cases "s_current s")
  case (Some c)
  obtain t where t: "s_tasks s ! c = Some t" "t_state t = Running" using sched_okD(5) [OF s Some] by auto
  have ok: "task_ok s c t" by (rule sched_okD(8) [OF s sched_okD(4) [OF s Some] t(1)])
  show ?thesis
  proof (cases "t_is_idle t \<and> st \<noteq> Ready")
    case False
    have "sched_ok ((upd_task c (\<lambda>t. t\<lparr>t_state := st,
        t_wake_at := if st \<noteq> Sleeping then None else t_wake_at t\<rparr>) s)\<lparr>s_current := None\<rparr>)"
      by (rule sched_ok_vacate [OF s Some t(1)]) (use ok st False in \<open>auto simp: task_ok_def\<close>)
    then show ?thesis
      using False t by (auto simp: transition_current_def Some intro!: select_next_ok)
  qed (use t s in \<open>auto simp: transition_current_def Some\<close>)
qed (simp add: transition_current_def s)

lemma sleep_current_until_ok:
  assumes s: "sched_ok s"
  shows "sched_ok (snd (sleep_current_until d s))"
proof (cases "s_current s")
  case (Some c)
  obtain t where t: "s_tasks s ! c = Some t" "t_state t = Running" using sched_okD(5) [OF s Some] by auto
  have ok: "task_ok s c t" by (rule sched_okD(8) [OF s sched_okD(4) [OF s Some] t(1)])
  show ?thesis
  proof (cases "t_is_idle t")
    case False
    have "sched_ok ((upd_task c (\<lambda>t. t\<lparr>t_state := Sleeping, t_wake_at := Some d\<rparr>) s)\<lparr>s_current := None\<rparr>)"
      by (rule sched_ok_vacate [OF s Some t(1)]) (use ok False in \<open>auto simp: task_ok_def\<close>)
    then show ?thesis
      using False t by (auto simp: sleep_current_until_def Some intro!: select_next_ok)
  qed (use t s in \<open>auto simp: sleep_current_until_def Some\<close>)
qed (simp add: sleep_current_until_def s)

lemma scheduler_start_ok: "sched_ok s \<Longrightarrow> sched_ok (snd (scheduler_start s))"
  by (auto simp: scheduler_start_def intro: select_next_ok)

lemma wake_expired_sleepers_ok:
  assumes "sched_ok s"
  shows "sched_ok (wake_expired_sleepers now s)"
  unfolding wake_expired_sleepers_def
  by (rule sched_ok_upd_tasks [OF assms])
    (auto simp: wake_if_expired_def task_ok_def split: option.splits)

lemma wake_all_blocked_ok:
  assumes "sched_ok s"
  shows "sched_ok (wake_all_blocked s)"
  unfolding wake_all_blocked_def
  by (rule sched_ok_upd_tasks [OF assms]) (auto simp: task_ok_def)

lemma find_task_SomeD:
  assumes "find_task i s = Some k"
  shows "k < length (s_tasks s)" "\<exists>t. s_tasks s ! k = Some t \<and> t_id t = i"
  using assms by (auto simp: find_task_def position_Some task_with_id_def split: option.splits)

lemma sched_ok_wake_slot:
  assumes s: "sched_ok s" and k: "k < MAX_TASKS" "s_tasks s ! k = Some t" "t_state t = Blocked"
  shows "sched_ok (upd_task k (\<lambda>t. t\<lparr>t_state := Ready\<rparr>) s)"
  by (rule sched_ok_upd [OF s k(1,2)])
    (use sched_okD(8) [OF s k(1,2)] k in \<open>auto simp: task_ok_def\<close>)

lemma wake_ok: "sched_ok s \<Longrightarrow> sched_ok (snd (wake i s))"
  using find_task_SomeD [of i s]
  by (auto simp: wake_def sched_okD(1) intro!: sched_ok_wake_slot split: option.split)

lemma wake_parent_ok: "sched_ok s \<Longrightarrow> sched_ok (wake_parent k s)"
  by (auto simp: wake_parent_def sched_okD(1) dest!: find_task_SomeD(1)
      intro!: sched_ok_wake_slot split: option.split)

lemma terminate_task_ok:
  assumes s: "sched_ok s"
  shows "sched_ok (snd (terminate_task i code s))"
proof (cases "find_task i s")
  case (Some k)
  note k = find_task_SomeD [OF Some]
  then obtain t where t: "s_tasks s ! k = Some t" by auto
  have k16: "k < MAX_TASKS" using k sched_okD(1) [OF s] by simp
  have "sched_ok (upd_task k (\<lambda>t. t\<lparr>t_exit_code := Some code, t_state := Terminated\<rparr>) s)"
    if "s_current s \<noteq> Some k" "\<not> t_is_idle t"
    by (rule sched_ok_upd [OF s k16 t]) (use sched_okD(8) [OF s k16 t] that in \<open>auto simp: task_ok_def\<close>)
  then show ?thesis
    by (auto simp: terminate_task_def Some t s intro!: wake_parent_ok)
qed (simp add: terminate_task_def s)

lemma save_current_context_ok:
  assumes s: "sched_ok s"
  shows "sched_ok (snd (save_current_context cx s))"
proof (cases "s_current s")
  case (Some c)
  obtain t where t: "s_tasks s ! c = Some t" using sched_okD(5) [OF s Some] by auto
  have "sched_ok (upd_task c (\<lambda>t. t\<lparr>t_context := cx\<rparr>) s)"
    by (rule sched_ok_upd [OF s sched_okD(4) [OF s Some] t])
      (use sched_okD(8) [OF s sched_okD(4) [OF s Some] t] in \<open>auto simp: task_ok_def\<close>)
  then show ?thesis by (simp add: save_current_context_def Some t)
qed (simp add: save_current_context_def s)

lemma length_initial_table [simp]: "length initial_table = MAX_FDS"
  by (simp add: initial_table_def MAX_FDS_def)

lemma insert_task_ok:
  assumes s: "sched_ok s" and user: "user = None"
  shows "sched_ok (snd (insert_task cx parent entry user stack stop s))"
proof -
  have free: "k < MAX_TASKS \<and> s_tasks s ! k = None" if "check_task_capacity s = Inr k" for k
    using that sched_okD(1) [OF s] by (auto simp: check_task_capacity_def position_Some)
  show ?thesis
    unfolding insert_task_def
    by (auto simp: s user free split: sum.split option.split intro!: sched_ok_fresh [simplified])
qed

lemma create_kernel_task_ok:
  assumes "sched_ok s"
  shows "sched_ok (snd (create_kernel_task tr base entry parent s))"
  using assms insert_task_ok [OF assms]
  by (auto simp: create_kernel_task_def split: sum.split option.split)

lemma length_clone_table [simp]: "length (fst (clone_table ds w)) = length ds"
  by (induction ds w rule: clone_table.induct) (auto simp: Let_def split: prod.splits)

lemma length_close_slot [simp]: "length (fst (close_slot i x)) = length (fst x)"
  by (auto simp: close_slot_def split: prod.split option.split)

lemma length_apply_mappings [simp]: "length (fst (snd (apply_mappings ms x))) = length (fst x)"
proof (induction ms x rule: apply_mappings.induct)
  case (2 m ms fds w)
  have "length fds1 = length fds" if "close_slot (fm_target m) (fds, w1) = (fds1, w2)" for fds1 w1 w2
    using length_close_slot [of "fm_target m" "(fds, w1)"] that by simp
  with 2 show ?case
    by (auto simp: Let_def split: option.split prod.split)
qed simp

lemma length_close_sources [simp]: "length (fst (close_sources ms x)) = length (fst x)"
  by (induction ms x rule: close_sources.induct) auto

lemma length_apply_closes [simp]: "length (fst (snd (apply_closes is x))) = length (fst x)"
proof (induction "is" x rule: apply_closes.induct)
  case (2 i "is" fds w)
  then show ?case by (cases "close_slot i (fds, w)") (auto dest: arg_cong [where f = "\<lambda>x. length (fst x)"])
qed simp

lemma create_user_task_ok:
  assumes s: "sched_ok s" and space: "\<And>a. space = Some a \<Longrightarrow> as_root a \<noteq> None"
    and res: "create_user_task tr base space cx parent ms cs s w = (r, s', w', space')"
  shows "sched_ok s'"
proof -
  have free: "k < MAX_TASKS \<and> s_tasks s ! k = None" if "check_task_capacity s = Inr k" for k
    using that sched_okD(1) [OF s] by (auto simp: check_task_capacity_def position_Some)
  let ?fds = "case Option.bind parent (\<lambda>p. find_task p s) of
                   Some i \<Rightarrow> (case s_tasks s ! i of
                       Some task \<Rightarrow> clone_table (t_fds task) w | None \<Rightarrow> (initial_table, w))
                 | None \<Rightarrow> (initial_table, w)"
  have "length (fst ?fds) = MAX_FDS"
    using sched_okD(8) [OF s] find_task_SomeD(1) [where s = s] sched_okD(1) [OF s]
    by (auto simp: task_ok_def split: option.split bind_split)
  then obtain fds w1 where fds: "?fds = (fds, w1)" "length fds = MAX_FDS"
    by (cases ?fds) auto
  obtain r2 fds2 w2 where m: "apply_mappings ms (fds, w1) = (r2, fds2, w2)"
    by (metis prod_cases3)
  then have l2: "length fds2 = MAX_FDS" using length_apply_mappings [of ms "(fds, w1)"] fds by simp
  obtain r3 fds3 w3 where c: "apply_closes cs (close_sources ms (fds2, w2)) = (r3, fds3, w3)"
    by (metis prod_cases3)
  then have l3: "length fds3 = MAX_FDS"
    using length_apply_closes [of cs "close_sources ms (fds2, w2)"] l2 by simp
  show ?thesis
    using res s space unfolding create_user_task_def fds Let_def prod.case m c
    by (auto simp: l3 free split: sum.split_asm option.split_asm intro!: sched_ok_fresh [simplified])
qed

lemma sched_ok_free:
  assumes s: "sched_ok s" and i: "i < MAX_TASKS" "s_current s \<noteq> Some i" "s_idle_index s \<noteq> Some i"
  shows "sched_ok (s\<lparr>s_tasks := (s_tasks s)[i := None]\<rparr>)"
proof (rule sched_okI)
  have len: "length (s_tasks s) = MAX_TASKS" by (rule sched_okD(1) [OF s])
  have orig: "s_tasks s ! j = Some u" if "(s_tasks s)[i := None] ! j = Some u" "j < MAX_TASKS" for j u
    using that len i by (cases "j = i") auto
  show "k < MAX_TASKS \<and> s_tasks (s\<lparr>s_tasks := (s_tasks s)[i := None]\<rparr>) ! k \<noteq> None"
    if "s_current (s\<lparr>s_tasks := (s_tasks s)[i := None]\<rparr>) = Some k
      \<or> s_idle_index (s\<lparr>s_tasks := (s_tasks s)[i := None]\<rparr>) = Some k" for k
    using that i sched_okD(4-7) [OF s, of k] by auto
qed (use sched_okD(1-3,8,9) [OF s] i in \<open>auto simp: nth_list_update split: if_split_asm\<close>)

lemma as_destroy_root:
  assumes "as_destroy T cr3 a cell = Some (Inl e, a', cell')"
  shows "as_root a' = as_root a"
  using assms by (auto simp: as_destroy_def Let_def split: option.split_asm sum.split_asm prod.split_asm if_split_asm)

lemma reap_terminated_ok:
  assumes s: "sched_ok s" and res: "reap_terminated T cr3 i s w cell = Some (r, s', w', cell')"
  shows "sched_ok s'"
proof (cases "find_task i s")
  case (Some k)
  note k = find_task_SomeD [OF Some]
  then obtain t where t: "s_tasks s ! k = Some t" by auto
  have k16: "k < MAX_TASKS" using k sched_okD(1) [OF s] by simp
  note ok = sched_okD(8) [OF s k16 t]
  have gone: "sched_ok (s\<lparr>s_tasks := (s_tasks s)[k := None]\<rparr>)"
    if "s_current s \<noteq> Some k" "t_state t = Terminated"
    by (rule sched_ok_free [OF s k16 that(1)]) (use ok that in \<open>auto simp: task_ok_def\<close>)
  have kept: "sched_ok (upd_task k (\<lambda>t. t\<lparr>t_user := Some (u\<lparr>ut_address_space := a\<rparr>)\<rparr>) s)"
    if "t_user t = Some u" "as_root a = as_root (ut_address_space u)" for u a
    by (rule sched_ok_upd [OF s k16 t]) (use ok that in \<open>auto simp: task_ok_def\<close>)
  show ?thesis
    using res s unfolding reap_terminated_def Some option.case t
    by (auto dest!: as_destroy_root intro!: gone kept
        split: option.split_asm sum.split_asm prod.split_asm if_split_asm)
qed (use res s in \<open>auto simp: reap_terminated_def\<close>)

end
