(* ===== verification/Task_Ops.thy ===== *)
theory Task_Ops
  imports Scheduler
begin

text \<open>
  The kernel functions of \<open>tasking/scheduler.rs\<close> around the global scheduler: spawning, running,
  yielding, preemption, blocking, sleeping, exiting, waiting, and the descriptor and user-memory
  operations of the current task. The state is the scheduler together with what these functions
  touch besides it: the descriptor store, the memory manager, the active root table (CR3), the
  per-CPU stack pointers of \<open>arch/syscall.rs\<close>, the tick counter, the callee-saved registers and
  the saved bootstrap context. Interrupts are disabled and the scheduler lock is held in each of
  these functions up to the context switch, so each is one step; a function that switches away
  returns to its caller when the task is switched back. An outer \<open>None\<close> is a panic.
\<close>

record ('d, 'pt) Kernel =
  k_sched :: Scheduler
  k_world :: "'d World"
  k_mem :: "'pt manager_cell"
  k_cr3 :: nat
  k_user_rsp :: nat
  k_kernel_rsp :: nat
  k_ticks :: "64 word"
  k_cpu :: CpuContext
  k_bootstrap :: CpuContext
  k_umem :: "nat \<Rightarrow> nat \<Rightarrow> byte"

section \<open>Context switches\<close>

text \<open>\<open>leafos_context_switch\<close> stores the callee-saved registers, the stack pointer and the flags in
  the old context and loads them from the new one; a context is that of a task slot or, for
  \<open>None\<close>, the bootstrap context.\<close>

definition store_context :: "nat option \<Rightarrow> ('d, 'pt) Kernel \<Rightarrow> ('d, 'pt) Kernel" where
  "store_context old k = (case old of
      None \<Rightarrow> k\<lparr>k_bootstrap := k_cpu k\<rparr>
    | Some i \<Rightarrow> k\<lparr>k_sched := upd_task i (\<lambda>t. t\<lparr>t_context := k_cpu k\<rparr>) (k_sched k)\<rparr>)"

definition saved_context :: "nat option \<Rightarrow> ('d, 'pt) Kernel \<Rightarrow> CpuContext" where
  "saved_context new k = (case new of
      None \<Rightarrow> k_bootstrap k
    | Some i \<Rightarrow> (case s_tasks (k_sched k) ! i of
        None \<Rightarrow> CpuContext_empty | Some task \<Rightarrow> t_context task))"

definition leafos_context_switch :: "nat option \<Rightarrow> nat option \<Rightarrow> ('d, 'pt) Kernel \<Rightarrow> ('d, 'pt) Kernel" where
  "leafos_context_switch old new k =
    (let k1 = store_context old k in k1\<lparr>k_cpu := saved_context new k1\<rparr>)"

definition save_current_user_rsp :: "nat \<Rightarrow> ('d, 'pt) Kernel \<Rightarrow> ('d, 'pt) Kernel" where
  "save_current_user_rsp current k =
    k\<lparr>k_sched := upd_task current (\<lambda>t. t\<lparr>t_user := map_option
      (\<lambda>u. u\<lparr>ut_syscall_user_rsp := k_user_rsp k\<rparr>) (t_user t)\<rparr>) (k_sched k)\<rparr>"

definition set_kernel_stack :: "nat \<Rightarrow> ('d, 'pt) Kernel \<Rightarrow> ('d, 'pt) Kernel" where
  "set_kernel_stack stack_top k = k\<lparr>k_kernel_rsp := stack_top - stack_top mod 16\<rparr>"

definition activate_kernel_address_space :: "('d, 'pt) Kernel \<Rightarrow> (MemoryError + unit) \<times> ('d, 'pt) Kernel" where
  "activate_kernel_address_space k = (case k_mem k of
      None \<Rightarrow> (Inl NotInitialized, k)
    | Some (Inl error) \<Rightarrow> (Inl error, k)
    | Some (Inr m) \<Rightarrow>
        (Inr (), if k_cr3 k \<noteq> mm_kernel_root m then k\<lparr>k_cr3 := mm_kernel_root m\<rparr> else k))"

definition activate_task_address_space :: "nat option \<Rightarrow> ('d, 'pt) Kernel \<Rightarrow> ('d, 'pt) Kernel option" where
  "activate_task_address_space index k =
    (let kernel_space = (case activate_kernel_address_space k of
        (Inl _, _) \<Rightarrow> None | (Inr _, k') \<Rightarrow> Some k')
     in case index of
       None \<Rightarrow> kernel_space
     | Some i \<Rightarrow>
         case s_tasks (k_sched k) ! i of
           None \<Rightarrow> None
         | Some task \<Rightarrow>
             case t_user task of
               None \<Rightarrow> kernel_space
             | Some user \<Rightarrow>
                 case t_stack_top task of
                   None \<Rightarrow> None
                 | Some stack_top \<Rightarrow>
                     let k1 = (set_kernel_stack stack_top k)\<lparr>k_user_rsp := ut_syscall_user_rsp user\<rparr>
                     in case as_activate (ut_address_space user) (k_cr3 k1) :: (unit AddressSpaceError + unit) \<times> nat of
                          (Inl _, _) \<Rightarrow> None
                        | (Inr _, cr3) \<Rightarrow> Some (k1\<lparr>k_cr3 := cr3\<rparr>))"

text \<open>The end of \<open>block_now\<close>, \<open>sleep_ticks\<close>, \<open>wait_for_child\<close> and the exit functions: switch from
  slot \<open>current\<close> to the task that has been selected, or back to the bootstrap context.\<close>

definition switch_away :: "nat \<Rightarrow> ('d, 'pt) Kernel \<Rightarrow> ((SchedulerError + unit) \<times> ('d, 'pt) Kernel) option" where
  "switch_away current k =
    (if s_tasks (k_sched k) ! current = None then Some (Inl UnknownTask, k)
     else case activate_task_address_space (s_current (k_sched k)) k of
       None \<Rightarrow> None
     | Some k' \<Rightarrow> Some (Inr (), leafos_context_switch (Some current) (s_current (k_sched k)) k'))"

section \<open>Yielding, preemption, blocking and sleeping\<close>

definition yield_now :: "('d, 'pt) Kernel \<Rightarrow> ((SchedulerError + unit) \<times> ('d, 'pt) Kernel) option" where
  "yield_now k = (case s_current (k_sched k) of
      None \<Rightarrow> Some (Inl NotStarted, k)
    | Some current \<Rightarrow>
        let k1 = save_current_user_rsp current k
        in case transition_current Ready (k_sched k1) of
          (Inl e, s) \<Rightarrow> Some (Inl e, k1\<lparr>k_sched := s\<rparr>)
        | (Inr _, s) \<Rightarrow>
            let k2 = k1\<lparr>k_sched := s\<rparr>
            in case s_current s of
                 None \<Rightarrow> Some (Inl NoRunnableTasks, k2)
               | Some next_task \<Rightarrow>
                   case activate_task_address_space (Some next_task) k2 of
                     None \<Rightarrow> None
                   | Some k3 \<Rightarrow>
                       if s_tasks s ! current = None then Some (Inl UnknownTask, k3)
                       else Some (Inr (), leafos_context_switch (Some current) (Some next_task) k3))"

definition preempt_from_timer :: "('d, 'pt) Kernel \<Rightarrow> ('d, 'pt) Kernel option" where
  "preempt_from_timer k = (case s_current (k_sched k) of
      None \<Rightarrow> Some k
    | Some current \<Rightarrow>
        case transition_current Ready (wake_expired_sleepers (k_ticks k) (k_sched k)) of
          (r, s) \<Rightarrow>
            if (case r of Inr _ \<Rightarrow> False | Inl e \<Rightarrow> e \<noteq> NoRunnableTasks) then None
            else
              let k1 = k\<lparr>k_sched := s\<rparr>
              in case s_current s of
                   None \<Rightarrow> Some k1
                 | Some next_task \<Rightarrow>
                     if next_task = current then Some k1
                     else case switch_away current k1 of
                       None \<Rightarrow> None | Some (Inl _, _) \<Rightarrow> None | Some (Inr _, k2) \<Rightarrow> Some k2)"

definition block_now :: "('d, 'pt) Kernel \<Rightarrow> ((SchedulerError + unit) \<times> ('d, 'pt) Kernel) option" where
  "block_now k = (case s_current (k_sched k) of
      None \<Rightarrow> Some (Inl NotStarted, k)
    | Some current \<Rightarrow>
        let k1 = save_current_user_rsp current k
        in case transition_current Blocked (k_sched k1) of
          (r, s) \<Rightarrow>
            (case r of
               Inl e \<Rightarrow> if e = NoRunnableTasks then switch_away current (k1\<lparr>k_sched := s\<rparr>)
                 else Some (Inl e, k1\<lparr>k_sched := s\<rparr>)
             | Inr _ \<Rightarrow> switch_away current (k1\<lparr>k_sched := s\<rparr>)))"

definition sleep_ticks :: "64 word \<Rightarrow> ('d, 'pt) Kernel \<Rightarrow> ((SchedulerError + unit) \<times> ('d, 'pt) Kernel) option" where
  "sleep_ticks duration k =
    (if duration = 0 then Some (Inr (), k)
     else let deadline = k_ticks k + duration
          in case s_current (k_sched k) of
            None \<Rightarrow> Some (Inl NotStarted, k)
          | Some current \<Rightarrow>
              let k1 = save_current_user_rsp current k
              in case sleep_current_until deadline (k_sched k1) of
                (r, s) \<Rightarrow>
                  (case r of
                     Inl e \<Rightarrow> if e = NoRunnableTasks then switch_away current (k1\<lparr>k_sched := s\<rparr>)
                       else Some (Inl e, k1\<lparr>k_sched := s\<rparr>)
                   | Inr _ \<Rightarrow> switch_away current (k1\<lparr>k_sched := s\<rparr>)))"

section \<open>Running tasks and the idle task\<close>

definition free_slots :: "Scheduler \<Rightarrow> nat" where
  "free_slots s = length (filter (\<lambda>t. t = None) (s_tasks s))"

definition spawn_into :: "nat \<Rightarrow> nat \<Rightarrow> nat \<Rightarrow> Scheduler \<Rightarrow> (SchedulerError + nat) \<times> Scheduler" where
  "spawn_into trampoline stack_base entry s =
    (if s_idle_index s = None \<and> free_slots s \<le> 1 then (Inl Full, s)
     else create_kernel_task trampoline stack_base entry (current_task s) s)"

definition spawn :: "nat \<Rightarrow> nat \<Rightarrow> nat \<Rightarrow> ('d, 'pt) Kernel \<Rightarrow> (SchedulerError + nat) \<times> ('d, 'pt) Kernel" where
  "spawn trampoline stack_base entry k =
    (let (r, s) = spawn_into trampoline stack_base entry (k_sched k) in (r, k\<lparr>k_sched := s\<rparr>))"

text \<open>The first block of \<open>run_tasks\<close> installs the idle task; \<open>idle_entry\<close> is the address of
  \<open>idle_task_entry\<close>.\<close>

definition install_idle :: "nat \<Rightarrow> nat \<Rightarrow> nat \<Rightarrow> Scheduler \<Rightarrow> (SchedulerError + unit) \<times> Scheduler" where
  "install_idle trampoline stack_base idle_entry s =
    (if s_idle_index s \<noteq> None then (Inr (), s)
     else case create_kernel_task trampoline stack_base idle_entry None s of
       (Inl e, s1) \<Rightarrow> (Inl e, s1)
     | (Inr task_id, s1) \<Rightarrow>
         case find_task task_id s1 of
           None \<Rightarrow> (Inl UnknownTask, s1)
         | Some index \<Rightarrow>
             (Inr (), (upd_task index (\<lambda>t. t\<lparr>t_is_idle := True\<rparr>) s1)\<lparr>s_idle_index := Some index\<rparr>))"

text \<open>\<open>run_tasks\<close> up to the switch from the bootstrap context, and what it does when the bootstrap
  context is switched back to.\<close>

definition run_tasks :: "nat \<Rightarrow> nat \<Rightarrow> nat \<Rightarrow> ('d, 'pt) Kernel
    \<Rightarrow> ((SchedulerError + unit) \<times> ('d, 'pt) Kernel) option" where
  "run_tasks trampoline stack_base idle_entry k =
    (case install_idle trampoline stack_base idle_entry (k_sched k) of
       (Inl e, s) \<Rightarrow> Some (Inl e, k\<lparr>k_sched := s\<rparr>)
     | (Inr _, s) \<Rightarrow>
         case scheduler_start s of
           (Inl e, s1) \<Rightarrow> Some (Inl e, k\<lparr>k_sched := s1\<rparr>)
         | (Inr _, s1) \<Rightarrow>
             let k1 = k\<lparr>k_sched := s1\<rparr>
             in case s_current s1 of
                  None \<Rightarrow> Some (Inl NotStarted, k1)
                | Some index \<Rightarrow>
                    case activate_task_address_space (Some index) k1 of
                      None \<Rightarrow> None
                    | Some k2 \<Rightarrow> Some (Inr (), leafos_context_switch None (Some index) k2))"

definition run_tasks_return :: "('d, 'pt) Kernel \<Rightarrow> ('d, 'pt) Kernel" where
  "run_tasks_return k =
    (let s = k_sched k
     in case s_idle_index s of
       None \<Rightarrow> k
     | Some index \<Rightarrow>
         if s_current s = None \<and> (case s_tasks s ! index of None \<Rightarrow> False
              | Some task \<Rightarrow> t_is_idle task \<and> t_state task = Ready)
         then (case s_tasks s ! index of
                 None \<Rightarrow> k
               | Some task \<Rightarrow> k\<lparr>k_sched := s\<lparr>s_idle_index := None, s_tasks := (s_tasks s)[index := None]\<rparr>,
                   k_world := drop_table (t_fds task) (k_world k)\<rparr>)
         else k)"

text \<open>One round of the loop of \<open>idle_task_entry\<close>, before it halts the processor.\<close>

definition idle_round :: "('d, 'pt) Kernel \<Rightarrow> ('d, 'pt) Kernel option" where
  "idle_round k =
    (let s = wake_expired_sleepers (k_ticks k) (k_sched k)
     in if \<not> has_live_non_idle_tasks s then
          (case s_current s of
             None \<Rightarrow> None
           | Some current \<Rightarrow>
               case s_tasks s ! current of
                 None \<Rightarrow> None
               | Some idle \<Rightarrow>
                   if \<not> t_is_idle idle then None
                   else let s1 = (upd_task current (\<lambda>t. t\<lparr>t_state := Ready\<rparr>) s)\<lparr>s_current := None\<rparr>
                        in case activate_task_address_space None (k\<lparr>k_sched := s1\<rparr>) of
                             None \<Rightarrow> None
                           | Some k1 \<Rightarrow> Some (leafos_context_switch (Some current) None k1))
        else map_option snd (yield_now (k\<lparr>k_sched := s\<rparr>)))"

definition on_interrupt :: "('d, 'pt) Kernel \<Rightarrow> ('d, 'pt) Kernel" where
  "on_interrupt k = k\<lparr>k_ticks := k_ticks k + 1\<rparr>"

section \<open>Exiting and waiting\<close>

definition terminate_siblings :: "nat \<Rightarrow> nat \<Rightarrow> nat option \<Rightarrow> Scheduler \<Rightarrow> Scheduler" where
  "terminate_siblings current parent exit_code s =
    s\<lparr>s_tasks := map (\<lambda>(index, task). case task of
        None \<Rightarrow> None
      | Some t \<Rightarrow> Some (if index \<noteq> current \<and> t_parent t = Some parent \<and> t_state t \<noteq> Terminated
          then t\<lparr>t_exit_code := exit_code, t_state := Terminated\<rparr> else t))
      (zip [0..<length (s_tasks s)] (s_tasks s))\<rparr>"

definition exit_current_with_status_and_group :: "nat option \<Rightarrow> bool \<Rightarrow> ('d, 'pt) Kernel
    \<Rightarrow> ('d, 'pt) Kernel option" where
  "exit_current_with_status_and_group exit_code terminate_group k = (case s_current (k_sched k) of
      None \<Rightarrow> None
    | Some current \<Rightarrow>
        let k1 = save_current_user_rsp current k;
            s1 = k_sched k1;
            s2 = (if terminate_group then
                    (case Option.bind (s_tasks s1 ! current) t_parent of
                       None \<Rightarrow> s1 | Some parent \<Rightarrow> terminate_siblings current parent exit_code s1)
                  else s1)
        in if s_tasks s2 ! current = None then None
           else
             let s3 = wake_parent current (upd_task current (\<lambda>t. t\<lparr>t_exit_code := exit_code\<rparr>) s2)
             in case transition_current Terminated s3 of
               (r, s4) \<Rightarrow>
                 if (case r of Inr _ \<Rightarrow> False | Inl e \<Rightarrow> e \<noteq> NoRunnableTasks) then None
                 else case switch_away current (k1\<lparr>k_sched := s4\<rparr>) of
                   None \<Rightarrow> None | Some (Inl _, _) \<Rightarrow> None | Some (Inr _, k2) \<Rightarrow> Some k2)"

definition exit_current :: "('d, 'pt) Kernel \<Rightarrow> ('d, 'pt) Kernel option" where
  "exit_current k = exit_current_with_status_and_group None False k"

definition exit_current_with_code :: "nat \<Rightarrow> ('d, 'pt) Kernel \<Rightarrow> ('d, 'pt) Kernel option" where
  "exit_current_with_code exit_code k = exit_current_with_status_and_group (Some exit_code) False k"

definition exit_current_group_with_code :: "nat \<Rightarrow> ('d, 'pt) Kernel \<Rightarrow> ('d, 'pt) Kernel option" where
  "exit_current_group_with_code exit_code k = exit_current_with_status_and_group (Some exit_code) True k"

text \<open>One round of the loop of \<open>wait_for_child\<close>: \<open>Inr (Some x)\<close> is a return, \<open>Inr None\<close> a blocked
  caller, whose next round begins when it is switched back.\<close>

definition wait_for_child :: "('pt, 'e) PageTables \<Rightarrow> nat option \<Rightarrow> ('d, 'pt) Kernel
    \<Rightarrow> ((SchedulerError + (nat \<times> nat option) option) \<times> ('d, 'pt) Kernel) option" where
  "wait_for_child T child k = (case s_current (k_sched k) of
      None \<Rightarrow> Some (Inl NotStarted, k)
    | Some current \<Rightarrow>
      case s_tasks (k_sched k) ! current of
        None \<Rightarrow> Some (Inl UnknownTask, k)
      | Some task \<Rightarrow>
        let parent = t_id task;
            check = (case child of
                None \<Rightarrow> Inr ()
              | Some child_id \<Rightarrow> bind_res (get_task child_id (k_sched k)) (\<lambda>child_task.
                  if t_parent child_task \<noteq> Some parent then Inl NotChild else Inr ()))
        in case check of
          Inl e \<Rightarrow> Some (Inl e, k)
        | Inr _ \<Rightarrow>
          case terminated_child parent child (k_sched k) of
            Inr child_id \<Rightarrow>
              (case get_task child_id (k_sched k) of
                 Inl e \<Rightarrow> Some (Inl e, k)
               | Inr child_task \<Rightarrow>
                   case reap_terminated T (k_cr3 k) child_id (k_sched k) (k_world k) (k_mem k) of
                     None \<Rightarrow> None
                   | Some (r, s, w, cell) \<Rightarrow>
                       let k1 = k\<lparr>k_sched := s, k_world := w, k_mem := cell\<rparr>
                       in Some (bind_res r (\<lambda>_. Inr (Some (child_id, t_exit_code child_task))), k1))
          | Inl e \<Rightarrow>
              if e = UnknownTask \<and> child \<noteq> None \<or> e \<noteq> ChildRunning \<and> e \<noteq> UnknownTask then Some (Inl e, k)
              else
                let k1 = save_current_user_rsp current k
                in case transition_current Blocked (k_sched k1) of
                     (Inl e2, s) \<Rightarrow> Some (Inl e2, k1\<lparr>k_sched := s\<rparr>)
                   | (Inr _, s) \<Rightarrow>
                       map_option (\<lambda>(r, k2). (bind_res r (\<lambda>_. Inr None), k2))
                         (switch_away current (k1\<lparr>k_sched := s\<rparr>)))"

section \<open>Creating user tasks\<close>

definition destroy_unspawned_address_space :: "('pt, 'e) PageTables \<Rightarrow> AddressSpace option \<Rightarrow> ('d, 'pt) Kernel
    \<Rightarrow> ((SchedulerError + unit) \<times> ('d, 'pt) Kernel) option" where
  "destroy_unspawned_address_space T address_space k = (case address_space of
      None \<Rightarrow> Some (Inr (), k)
    | Some space \<Rightarrow>
        map_option (\<lambda>(r, _, cell). (map_err (\<lambda>_. AddressSpaceCleanup) r, k\<lparr>k_mem := cell\<rparr>))
          (as_destroy T (k_cr3 k) space (k_mem k)))"

definition spawn_user_with_arguments_and_fds :: "('pt, 'e) PageTables \<Rightarrow> nat \<Rightarrow> nat \<Rightarrow> AddressSpace
    \<Rightarrow> nat \<Rightarrow> nat \<Rightarrow> nat \<Rightarrow> nat \<Rightarrow> FdMapping list \<Rightarrow> nat list \<Rightarrow> ('d, 'pt) Kernel
    \<Rightarrow> ((SchedulerError + nat) \<times> ('d, 'pt) Kernel) option" where
  "spawn_user_with_arguments_and_fds T trampoline stack_base address_space entry stack
      argument_count argument_vector fd_mappings fd_closes k =
    (case for_address_space_with_arguments address_space entry stack argument_count argument_vector of
       Inl error \<Rightarrow>
         map_option (\<lambda>(r, k1). (bind_res r (\<lambda>_. Inl (InvalidUserContext error)), k1))
           (destroy_unspawned_address_space T (Some address_space) k)
     | Inr context \<Rightarrow>
         let s = k_sched k;
             (r, s1, w1, left) =
               (if s_idle_index s = None \<and> free_slots s \<le> 1
                then (Inl Full, s, k_world k, Some address_space)
                else create_user_task trampoline stack_base (Some address_space) context
                  (current_task s) fd_mappings fd_closes s (k_world k));
             k1 = k\<lparr>k_sched := s1, k_world := w1\<rparr>
         in case r of
              Inr task_id \<Rightarrow> Some (Inr task_id, k1)
            | Inl e \<Rightarrow>
                map_option (\<lambda>(r2, k2). (bind_res r2 (\<lambda>_. Inl e), k2))
                  (destroy_unspawned_address_space T left k1))"

definition spawn_user :: "('pt, 'e) PageTables \<Rightarrow> nat \<Rightarrow> nat \<Rightarrow> AddressSpace \<Rightarrow> nat \<Rightarrow> nat \<Rightarrow> ('d, 'pt) Kernel
    \<Rightarrow> ((SchedulerError + nat) \<times> ('d, 'pt) Kernel) option" where
  "spawn_user T trampoline stack_base address_space entry stack k =
    spawn_user_with_arguments_and_fds T trampoline stack_base address_space entry stack 0 0 [] [] k"

text \<open>What a new task does first, in \<open>task_trampoline\<close>: enter user mode with its context, or call
  its kernel entry.\<close>

datatype TaskStart = EnterUser UserContext | CallEntry nat

definition task_trampoline :: "('d, 'pt) Kernel \<Rightarrow> TaskStart option" where
  "task_trampoline k = Option.bind (s_current (k_sched k)) (\<lambda>current.
    Option.bind (s_tasks (k_sched k) ! current) (\<lambda>task.
      case t_user task of
        Some user \<Rightarrow> if t_stack_top task \<noteq> None then Some (EnterUser (ut_context user)) else None
      | None \<Rightarrow> map_option CallEntry (t_entry task)))"

section \<open>Operations of the current task\<close>

definition running_task :: "('d, 'pt) Kernel \<Rightarrow> Task option" where
  "running_task k = Option.bind (s_current (k_sched k)) (\<lambda>current. s_tasks (k_sched k) ! current)"

definition current_task_is_user :: "('d, 'pt) Kernel \<Rightarrow> bool" where
  "current_task_is_user k \<longleftrightarrow> (case running_task k of None \<Rightarrow> False | Some task \<Rightarrow> t_user task \<noteq> None)"

definition current_space :: "('d, 'pt) Kernel \<Rightarrow> UserMemoryError + AddressSpace" where
  "current_space k = ok_or InactiveAddressSpace
    (map_option ut_address_space (Option.bind (running_task k) t_user))"

definition validate_current_user_range :: "nat \<Rightarrow> nat \<Rightarrow> bool \<Rightarrow> ('d, 'pt) Kernel \<Rightarrow> UserMemoryError + unit" where
  "validate_current_user_range address len writable k =
    bind_res (current_space k) (\<lambda>space. validate_user_range (k_cr3 k) space address len writable)"

definition copy_from_current_user :: "nat \<Rightarrow> nat \<Rightarrow> ('d, 'pt) Kernel \<Rightarrow> UserMemoryError + byte list" where
  "copy_from_current_user address len k =
    bind_res (current_space k) (\<lambda>space. copy_from_user (k_cr3 k) space (k_umem k (k_cr3 k)) address len)"

definition copy_to_current_user :: "nat \<Rightarrow> byte list \<Rightarrow> ('d, 'pt) Kernel
    \<Rightarrow> (UserMemoryError + unit) \<times> ('d, 'pt) Kernel" where
  "copy_to_current_user address input k =
    (case bind_res (current_space k) (\<lambda>space.
        copy_to_user (k_cr3 k) space (k_umem k (k_cr3 k)) address input) of
       Inl e \<Rightarrow> (Inl e, k)
     | Inr umem \<Rightarrow> (Inr (), k\<lparr>k_umem := (k_umem k)(k_cr3 k := umem)\<rparr>))"

definition get_fd :: "nat \<Rightarrow> Task \<Rightarrow> FileDescriptor option" where
  "get_fd n task = (if n < length (t_fds task) then t_fds task ! n else None)"

fun read_error :: "ReadError \<Rightarrow> SchedulerError" where
  "read_error RInvalid = InvalidFd"
| "read_error RWouldBlock = SchedWouldBlock"
| "read_error RIo = SchedIo"

fun write_error :: "WriteError \<Rightarrow> SchedulerError" where
  "write_error WInvalid = InvalidFd"
| "write_error WWouldBlock = SchedWouldBlock"
| "write_error WBrokenPipe = SchedBrokenPipe"
| "write_error WIo = SchedIo"

definition read_current_fd :: "nat \<Rightarrow> byte list \<Rightarrow> ('d, 'pt) Kernel
    \<Rightarrow> (SchedulerError + nat) \<times> byte list \<times> ('d, 'pt) Kernel" where
  "read_current_fd fd_number output k = (case running_task k of
      None \<Rightarrow> (Inl NotStarted, output, k)
    | Some task \<Rightarrow>
        case get_fd fd_number task of
          None \<Rightarrow> (Inl InvalidFd, output, k)
        | Some descriptor \<Rightarrow>
            let (r, output', w) = fd_read descriptor output (k_world k)
            in (map_err read_error r, output', k\<lparr>k_world := w\<rparr>))"

definition write_current_fd :: "'d DiskOps \<Rightarrow> nat \<Rightarrow> byte list \<Rightarrow> ('d, 'pt) Kernel
    \<Rightarrow> (SchedulerError + nat) \<times> ('d, 'pt) Kernel" where
  "write_current_fd ops fd_number input k = (case running_task k of
      None \<Rightarrow> (Inl NotStarted, k)
    | Some task \<Rightarrow>
        case get_fd fd_number task of
          None \<Rightarrow> (Inl InvalidFd, k)
        | Some descriptor \<Rightarrow>
            let (r, w) = fd_write ops descriptor input (k_world k)
            in (map_err write_error r, k\<lparr>k_world := w\<rparr>))"

definition set_current_fd :: "nat \<Rightarrow> nat \<Rightarrow> FileDescriptor option \<Rightarrow> ('d, 'pt) Kernel \<Rightarrow> ('d, 'pt) Kernel" where
  "set_current_fd current n d k =
    k\<lparr>k_sched := upd_task current (\<lambda>t. t\<lparr>t_fds := (t_fds t)[n := d]\<rparr>) (k_sched k)\<rparr>"

text \<open>The common shape of \<open>create_file_write_for_current\<close> and \<open>create_file_read_for_current\<close>: find a
  free number, create the descriptor with the lock released, and install it.\<close>

definition install_file :: "('d World \<Rightarrow> FileDescriptor option \<times> 'd World) \<Rightarrow> ('d, 'pt) Kernel
    \<Rightarrow> (SchedulerError + nat) \<times> ('d, 'pt) Kernel" where
  "install_file create k = (case s_current (k_sched k) of
      None \<Rightarrow> (Inl NotStarted, k)
    | Some current \<Rightarrow>
        case s_tasks (k_sched k) ! current of
          None \<Rightarrow> (Inl UnknownTask, k)
        | Some task \<Rightarrow>
            case find_free_fd (t_fds task) of
              None \<Rightarrow> (Inl Full, k)
            | Some file_fd \<Rightarrow>
                case create (k_world k) of
                  (None, w) \<Rightarrow> (Inl SchedIo, k\<lparr>k_world := w\<rparr>)
                | (Some descriptor, w) \<Rightarrow>
                    if t_fds task ! file_fd \<noteq> None then (Inl Full, k\<lparr>k_world := fd_drop descriptor w\<rparr>)
                    else (Inr file_fd, set_current_fd current file_fd (Some descriptor) (k\<lparr>k_world := w\<rparr>)))"

definition create_file_write_for_current :: "'d DiskOps \<Rightarrow> byte list \<Rightarrow> ('d, 'pt) Kernel
    \<Rightarrow> (SchedulerError + nat) \<times> ('d, 'pt) Kernel" where
  "create_file_write_for_current ops path k = install_file (create_file_write ops path) k"

definition create_file_read_for_current :: "'d DiskOps \<Rightarrow> byte list \<Rightarrow> ('d, 'pt) Kernel
    \<Rightarrow> (SchedulerError + nat) \<times> ('d, 'pt) Kernel" where
  "create_file_read_for_current ops path k = install_file (create_file_read ops path) k"

definition create_pipe_for_current :: "('d, 'pt) Kernel \<Rightarrow> (SchedulerError + nat \<times> nat) \<times> ('d, 'pt) Kernel" where
  "create_pipe_for_current k = (case create_pipe (k_world k) of
      (None, w) \<Rightarrow> (Inl Full, k\<lparr>k_world := w\<rparr>)
    | (Some (read_end, write_end), w) \<Rightarrow>
        let dropped = k\<lparr>k_world := fd_drop read_end (fd_drop write_end w)\<rparr>
        in case s_current (k_sched k) of
          None \<Rightarrow> (Inl NotStarted, dropped)
        | Some current \<Rightarrow>
            case s_tasks (k_sched k) ! current of
              None \<Rightarrow> (Inl UnknownTask, dropped)
            | Some task \<Rightarrow>
                case find_free_fd_pair (t_fds task) of
                  None \<Rightarrow> (Inl Full, dropped)
                | Some (read_fd, write_fd) \<Rightarrow>
                    (Inr (read_fd, write_fd),
                     set_current_fd current write_fd (Some write_end)
                       (set_current_fd current read_fd (Some read_end) (k\<lparr>k_world := w\<rparr>))))"

definition close_current_fd :: "nat \<Rightarrow> ('d, 'pt) Kernel \<Rightarrow> (SchedulerError + unit) \<times> ('d, 'pt) Kernel" where
  "close_current_fd fd_number k = (case s_current (k_sched k) of
      None \<Rightarrow> (Inl NotStarted, k)
    | Some current \<Rightarrow>
        case Option.bind (s_tasks (k_sched k) ! current) (get_fd fd_number) of
          None \<Rightarrow> (Inl InvalidFd, k)
        | Some descriptor \<Rightarrow>
            let k1 = set_current_fd current fd_number None (k\<lparr>k_world := fd_close descriptor (k_world k)\<rparr>)
            in (Inr (), k1\<lparr>k_sched := wake_all_blocked (k_sched k1)\<rparr>))"

definition duplicate_current_fd :: "nat \<Rightarrow> nat \<Rightarrow> ('d, 'pt) Kernel \<Rightarrow> (SchedulerError + unit) \<times> ('d, 'pt) Kernel" where
  "duplicate_current_fd source_fd target_fd k =
    (if MAX_FDS \<le> source_fd \<or> MAX_FDS \<le> target_fd then (Inl InvalidFd, k)
     else case s_current (k_sched k) of
       None \<Rightarrow> (Inl NotStarted, k)
     | Some current \<Rightarrow>
         let source = Option.bind (s_tasks (k_sched k) ! current) (\<lambda>task. t_fds task ! source_fd)
         in if source_fd = target_fd then (if source \<noteq> None then Inr () else Inl InvalidFd, k)
            else case s_tasks (k_sched k) ! current of
              None \<Rightarrow> (Inl InvalidFd, k)
            | Some task \<Rightarrow>
                case t_fds task ! source_fd of
                  None \<Rightarrow> (Inl InvalidFd, k)
                | Some descriptor \<Rightarrow>
                    let (duplicate, w1) = fd_clone descriptor (k_world k);
                        w2 = (case t_fds task ! target_fd of None \<Rightarrow> w1 | Some previous \<Rightarrow> fd_close previous w1)
                    in (Inr (), set_current_fd current target_fd (Some duplicate) (k\<lparr>k_world := w2\<rparr>)))"

section \<open>Control of other tasks\<close>

definition wake_task :: "nat \<Rightarrow> ('d, 'pt) Kernel \<Rightarrow> (SchedulerError + unit) \<times> ('d, 'pt) Kernel" where
  "wake_task i k = (let (r, s) = wake i (k_sched k) in (r, k\<lparr>k_sched := s\<rparr>))"

definition kernel_terminate_task :: "nat \<Rightarrow> nat \<Rightarrow> ('d, 'pt) Kernel \<Rightarrow> (SchedulerError + unit) \<times> ('d, 'pt) Kernel" where
  "kernel_terminate_task i exit_code k =
    (let (r, s) = terminate_task i exit_code (k_sched k) in (r, k\<lparr>k_sched := s\<rparr>))"

definition wake_all_blocked_tasks :: "('d, 'pt) Kernel \<Rightarrow> ('d, 'pt) Kernel" where
  "wake_all_blocked_tasks k = k\<lparr>k_sched := wake_all_blocked (k_sched k)\<rparr>"

definition kernel_reap_terminated :: "('pt, 'e) PageTables \<Rightarrow> nat \<Rightarrow> ('d, 'pt) Kernel
    \<Rightarrow> ((SchedulerError + unit) \<times> ('d, 'pt) Kernel) option" where
  "kernel_reap_terminated T i k =
    map_option (\<lambda>(r, s, w, cell). (r, k\<lparr>k_sched := s, k_world := w, k_mem := cell\<rparr>))
      (reap_terminated T (k_cr3 k) i (k_sched k) (k_world k) (k_mem k))"

definition task_parent :: "nat \<Rightarrow> ('d, 'pt) Kernel \<Rightarrow> SchedulerError + nat option" where
  "task_parent i k = bind_res (get_task i (k_sched k)) (\<lambda>t. Inr (t_parent t))"

definition task_exit_code :: "nat \<Rightarrow> ('d, 'pt) Kernel \<Rightarrow> SchedulerError + nat option" where
  "task_exit_code i k = bind_res (get_task i (k_sched k)) (\<lambda>t. Inr (t_exit_code t))"

end
