(* ===== verification/Task_Frames.thy ===== *)
theory Task_Frames
  imports Task_Ops
begin

text \<open>
  The effects of the task operations in three parts: changes that keep the running task
  (\<open>sched_frame\<close>), the hand-over of the processor from one slot to another with its round-robin
  order (\<open>rotates\<close>), and a completed context switch (\<open>switched\<close>) together with the invariant of
  the kernel state (\<open>kernel_ok\<close>).
\<close>

section \<open>Changes that keep the running task\<close>

text \<open>\<open>sched_frame s s'\<close>: the same task runs before and after, no task that stays in its slot
  changes its identity, saved context, root table or idle mark, and whatever is new in a slot has
  a new identifier. \<open>keeps_ready P\<close>: the ready tasks whose identifiers satisfy \<open>P\<close> stay ready.\<close>

definition task_root :: "Task \<Rightarrow> nat option" where
  "task_root t = Option.bind (t_user t) (\<lambda>u. as_root (ut_address_space u))"

definition same_task :: "Task \<Rightarrow> Task \<Rightarrow> bool" where
  "same_task t t' \<longleftrightarrow> t_id t' = t_id t \<and> t_context t' = t_context t \<and> task_root t' = task_root t
    \<and> (t_user t' = None \<longleftrightarrow> t_user t = None) \<and> t_is_idle t' = t_is_idle t"

definition sched_frame :: "Scheduler \<Rightarrow> Scheduler \<Rightarrow> bool" where
  "sched_frame s s' \<longleftrightarrow> s_current s' = s_current s \<and> s_next_id s \<le> s_next_id s'
    \<and> (\<forall>i < MAX_TASKS. \<forall>t'. s_tasks s' ! i = Some t' \<longrightarrow>
        s_next_id s \<le> t_id t' \<or> (\<exists>t. s_tasks s ! i = Some t \<and> same_task t t'))
    \<and> (\<forall>i < MAX_TASKS. \<forall>t. s_current s = Some i \<and> s_tasks s ! i = Some t \<longrightarrow>
        (\<exists>t'. s_tasks s' ! i = Some t' \<and> same_task t t'))"

definition keeps_ready :: "(nat \<Rightarrow> bool) \<Rightarrow> Scheduler \<Rightarrow> Scheduler \<Rightarrow> bool" where
  "keeps_ready P s s' \<longleftrightarrow> (\<forall>i < MAX_TASKS. \<forall>t. s_tasks s ! i = Some t \<and> t_state t = Ready \<and> P (t_id t) \<longrightarrow>
    (\<exists>t'. s_tasks s' ! i = Some t' \<and> t_state t' = Ready \<and> t_id t' = t_id t \<and> t_is_idle t' = t_is_idle t))"

lemma sched_frameD:
  assumes "sched_frame s s'"
  shows "s_current s' = s_current s" "s_next_id s \<le> s_next_id s'"
    "i < MAX_TASKS \<Longrightarrow> s_tasks s' ! i = Some t' \<Longrightarrow>
      s_next_id s \<le> t_id t' \<or> (\<exists>t. s_tasks s ! i = Some t \<and> same_task t t')"
    "i < MAX_TASKS \<Longrightarrow> s_current s = Some i \<Longrightarrow> s_tasks s ! i = Some t \<Longrightarrow>
      \<exists>t'. s_tasks s' ! i = Some t' \<and> same_task t t'"
  using assms unfolding sched_frame_def by blast+

lemma same_task_refl [simp]: "same_task t t"
  by (simp add: same_task_def)

lemma same_task_trans: "same_task t u \<Longrightarrow> same_task u v \<Longrightarrow> same_task t v"
  by (simp add: same_task_def)

lemma sched_frame_refl [simp]: "sched_frame s s"
  by (auto simp: sched_frame_def split: option.split)

lemma keeps_ready_refl [simp]: "keeps_ready P s s"
  by (simp add: keeps_ready_def)

lemma keeps_ready_trans: "keeps_ready P s1 s2 \<Longrightarrow> keeps_ready P s2 s3 \<Longrightarrow> keeps_ready P s1 s3"
  unfolding keeps_ready_def by metis

lemma sched_frame_trans:
  assumes "sched_frame s1 s2" "sched_frame s2 s3"
  shows "sched_frame s1 s3"
proof -
  have "s_next_id s1 \<le> t_id v \<or> (\<exists>t. s_tasks s1 ! i = Some t \<and> same_task t v)"
    if i: "i < MAX_TASKS" and v: "s_tasks s3 ! i = Some v" for i v
  proof (cases "s_next_id s2 \<le> t_id v")
    case True
    then show ?thesis using assms(1) by (auto simp: sched_frame_def)
  next
    case False
    then obtain u where u: "s_tasks s2 ! i = Some u" "same_task u v"
      using sched_frameD(3) [OF assms(2) i v] by auto
    then have "s_next_id s1 \<le> t_id u \<or> (\<exists>t. s_tasks s1 ! i = Some t \<and> same_task t u)"
      using sched_frameD(3) [OF assms(1) i] by simp
    with u(2) show ?thesis by (auto simp: same_task_def)
  qed
  moreover have "\<exists>v. s_tasks s3 ! i = Some v \<and> same_task t v"
    if h: "i < MAX_TASKS" "s_current s1 = Some i" "s_tasks s1 ! i = Some t" for i t
  proof -
    obtain u where u: "s_tasks s2 ! i = Some u" "same_task t u"
      using sched_frameD(4) [OF assms(1) h] by auto
    moreover have "s_current s2 = Some i" using sched_frameD(1) [OF assms(1)] h by simp
    ultimately obtain v where "s_tasks s3 ! i = Some v" "same_task u v"
      using sched_frameD(4) [OF assms(2) h(1)] by auto
    with u(2) show ?thesis using same_task_trans by blast
  qed
  ultimately show ?thesis using assms by (simp add: sched_frame_def)
qed

lemma sched_frame_upd:
  assumes "length (s_tasks s) = MAX_TASKS" "\<And>t. s_tasks s ! i = Some t \<Longrightarrow> same_task t (f t)"
  shows "sched_frame s (upd_task i f s)"
  using assms by (auto simp: sched_frame_def nth_upd_task split: if_split_asm)

lemma sched_frame_upd_tasks:
  assumes "length (s_tasks s) = MAX_TASKS" "\<And>t. same_task t (f t)"
  shows "sched_frame s (upd_tasks f s)"
  using assms by (auto simp: sched_frame_def upd_tasks_def)

lemma keeps_ready_upd:
  assumes "length (s_tasks s) = MAX_TASKS"
    "\<And>t. s_tasks s ! i = Some t \<Longrightarrow> t_state t = Ready \<Longrightarrow> P (t_id t) \<Longrightarrow>
      t_state (f t) = Ready \<and> t_id (f t) = t_id t \<and> t_is_idle (f t) = t_is_idle t"
  shows "keeps_ready P s (upd_task i f s)"
  using assms by (auto simp: keeps_ready_def nth_upd_task)

lemma keeps_ready_upd_tasks:
  assumes "length (s_tasks s) = MAX_TASKS"
    "\<And>t. t_state t = Ready \<Longrightarrow> t_state (f t) = Ready \<and> t_id (f t) = t_id t \<and> t_is_idle (f t) = t_is_idle t"
  shows "keeps_ready P s (upd_tasks f s)"
  using assms by (auto simp: keeps_ready_def upd_tasks_def)

lemma wake_expired_frame:
  assumes "sched_ok s"
  shows "sched_frame s (wake_expired_sleepers now s)" "keeps_ready P s (wake_expired_sleepers now s)"
  unfolding wake_expired_sleepers_def
  by (auto intro!: sched_frame_upd_tasks keeps_ready_upd_tasks sched_okD(1) [OF assms]
      simp: same_task_def task_root_def wake_if_expired_def)

lemma wake_all_blocked_frame:
  assumes "sched_ok s"
  shows "sched_frame s (wake_all_blocked s)" "keeps_ready P s (wake_all_blocked s)"
  unfolding wake_all_blocked_def
  by (auto intro!: sched_frame_upd_tasks keeps_ready_upd_tasks sched_okD(1) [OF assms]
      simp: same_task_def task_root_def)

lemma ready_slot_frame:
  assumes "sched_ok s"
  shows "sched_frame s (upd_task k (\<lambda>t. t\<lparr>t_state := Ready\<rparr>) s)"
    "keeps_ready P s (upd_task k (\<lambda>t. t\<lparr>t_state := Ready\<rparr>) s)"
  by (auto intro!: sched_frame_upd keeps_ready_upd sched_okD(1) [OF assms]
      simp: same_task_def task_root_def)

lemma wake_frame:
  assumes "sched_ok s"
  shows "sched_frame s (snd (wake i s))" "keeps_ready P s (snd (wake i s))"
  using ready_slot_frame [OF assms] by (auto simp: wake_def split: option.split)

lemma wake_parent_frame:
  assumes "sched_ok s"
  shows "sched_frame s (wake_parent i s)" "keeps_ready P s (wake_parent i s)"
  using ready_slot_frame [OF assms] by (auto simp: wake_parent_def split: option.split)

lemma terminate_task_frame:
  assumes s: "sched_ok s"
  shows "sched_frame s (snd (terminate_task i code s))"
    "keeps_ready (\<lambda>x. x \<noteq> i) s (snd (terminate_task i code s))"
proof -
  let ?f = "\<lambda>t. t\<lparr>t_exit_code := Some code, t_state := Terminated\<rparr>"
  have *: "sched_frame s (wake_parent k (upd_task k ?f s))
      \<and> keeps_ready (\<lambda>x. x \<noteq> i) s (wake_parent k (upd_task k ?f s))"
    if k: "find_task i s = Some k" "s_current s \<noteq> Some k" "\<not> t_is_idle t" "s_tasks s ! k = Some t" for k t
  proof -
    have k16: "k < MAX_TASKS" using find_task_SomeD(1) [OF k(1)] sched_okD(1) [OF s] by simp
    have i: "t_id t = i" using find_task_SomeD(2) [OF k(1)] k(4) by auto
    have "sched_ok (upd_task k ?f s)"
      by (rule sched_ok_upd [OF s k16 k(4)])
        (use sched_okD(8) [OF s k16 k(4)] k in \<open>auto simp: task_ok_def\<close>)
    note w = wake_parent_frame [OF this, where i = k]
    have "sched_frame s (upd_task k ?f s)" "keeps_ready (\<lambda>x. x \<noteq> i) s (upd_task k ?f s)"
      using k(4) i by (auto intro!: sched_frame_upd keeps_ready_upd sched_okD(1) [OF s]
          simp: same_task_def task_root_def)
    then show ?thesis using w sched_frame_trans keeps_ready_trans by blast
  qed
  show "sched_frame s (snd (terminate_task i code s))"
    "keeps_ready (\<lambda>x. x \<noteq> i) s (snd (terminate_task i code s))"
    using * by (auto simp: terminate_task_def split: option.split)
qed

lemma fresh_frame:
  assumes s: "sched_ok s" and k: "k < MAX_TASKS" "s_tasks s ! k = None" and t: "t_id t = s_next_id s"
  shows "sched_frame s (s\<lparr>s_next_id := Suc (s_next_id s), s_tasks := (s_tasks s)[k := Some t]\<rparr>)"
    "keeps_ready P s (s\<lparr>s_next_id := Suc (s_next_id s), s_tasks := (s_tasks s)[k := Some t]\<rparr>)"
  using sched_okD(1) [OF s] k t
  by (auto simp: sched_frame_def keeps_ready_def nth_list_update split: if_split_asm)

lemma free_capacity:
  assumes "sched_ok s" "check_task_capacity s = Inr k"
  shows "k < MAX_TASKS" "s_tasks s ! k = None"
  using assms sched_okD(1) [OF assms(1)] by (auto simp: check_task_capacity_def position_Some)

lemma create_kernel_task_frame:
  assumes s: "sched_ok s"
  shows "sched_frame s (snd (create_kernel_task tr base entry parent s))"
    "keeps_ready P s (snd (create_kernel_task tr base entry parent s))"
  using fresh_frame [OF s] free_capacity [OF s]
  by (auto simp: create_kernel_task_def insert_task_def split: sum.split option.split)

lemma create_user_task_frame:
  assumes s: "sched_ok s"
    and res: "create_user_task tr base space cx parent ms cs s w = (r, s', w', space')"
  shows "sched_frame s s'" "keeps_ready P s s'"
  using res fresh_frame [OF s] free_capacity [OF s] sched_frame_refl [of s] keeps_ready_refl [of P s]
  unfolding create_user_task_def Let_def
  by (auto split: sum.split_asm option.split_asm prod.split_asm)

lemma reap_terminated_frame:
  assumes s: "sched_ok s" and res: "reap_terminated T cr3 i s w cell = Some (r, s', w', cell')"
  shows "sched_frame s s'" "keeps_ready P s s'"
proof -
  have gone: "sched_frame s (s\<lparr>s_tasks := (s_tasks s)[k := None]\<rparr>)
      \<and> keeps_ready P s (s\<lparr>s_tasks := (s_tasks s)[k := None]\<rparr>)"
    if "s_tasks s ! k = Some t" "t_state t = Terminated" "s_current s \<noteq> Some k" for k t
    using that sched_okD(1) [OF s]
    by (cases "k < MAX_TASKS")
      (auto simp: sched_frame_def keeps_ready_def nth_list_update list_update_beyond split: if_split_asm)
  have kept: "sched_frame s (upd_task k (\<lambda>t. t\<lparr>t_user := Some (u\<lparr>ut_address_space := a\<rparr>)\<rparr>) s)
      \<and> keeps_ready P s (upd_task k (\<lambda>t. t\<lparr>t_user := Some (u\<lparr>ut_address_space := a\<rparr>)\<rparr>) s)"
    if "s_tasks s ! k = Some t" "t_user t = Some u" "as_root a = as_root (ut_address_space u)" for k t u a
    using that by (auto intro!: sched_frame_upd keeps_ready_upd sched_okD(1) [OF s]
        simp: same_task_def task_root_def)
  show "sched_frame s s'" "keeps_ready P s s'"
    using res gone kept sched_frame_refl [of s] keeps_ready_refl [of P s] unfolding reap_terminated_def
    by (auto dest!: as_destroy_root split: option.split_asm sum.split_asm prod.split_asm if_split_asm)
qed

section \<open>Handing the processor over\<close>

text \<open>How many slots the round-robin scan passes between slot \<open>c\<close> and slot \<open>j\<close>.\<close>

definition rr_distance :: "nat \<Rightarrow> nat \<Rightarrow> nat" where
  "rr_distance c j = (j + MAX_TASKS - c - 1) mod MAX_TASKS"

lemma rr_distance_cases:
  assumes "c < MAX_TASKS" "j < MAX_TASKS"
  shows "rr_distance c j = (if c < j then j - c - 1 else 15 + j - c)"
proof (cases "c < j")
  case True
  then have "15 + j - c = (j - c - 1) + 16" by simp
  then have "(15 + j - c) mod 16 = (j - c - 1) mod 16" by (simp only: mod_add_self2)
  with True assms show ?thesis by (simp add: rr_distance_def MAX_TASKS_def)
next
  case False
  with assms show ?thesis by (simp add: rr_distance_def MAX_TASKS_def)
qed

lemma rr_step:
  assumes "c < MAX_TASKS" "k < MAX_TASKS"
  shows "(c + 1 + k) mod MAX_TASKS = (if c + k < 15 then c + 1 + k else c + k - 15)"
proof (cases "c + k < 15")
  case False
  then have "c + 1 + k = (c + k - 15) + 16" by simp
  then have "(c + 1 + k) mod 16 = (c + k - 15) mod 16" by (simp only: mod_add_self2)
  with False assms show ?thesis by (simp add: MAX_TASKS_def)
qed (simp add: MAX_TASKS_def)

lemma rr_distance_slot:
  assumes "c < MAX_TASKS" "j < MAX_TASKS"
  shows "(c + 1 + rr_distance c j) mod MAX_TASKS = j"
proof -
  have "rr_distance c j < MAX_TASKS" by (simp add: rr_distance_def MAX_TASKS_def)
  from rr_step [OF assms(1) this] show ?thesis
    using assms by (auto simp: rr_distance_cases MAX_TASKS_def split: if_splits)
qed

lemma rr_distance_less:
  assumes "c < MAX_TASKS" "j < MAX_TASKS" "k < MAX_TASKS" "n = (c + 1 + k) mod MAX_TASKS" "k < rr_distance c j"
  shows "rr_distance n j < rr_distance c j"
proof -
  have "n < MAX_TASKS" using assms(4) by (simp add: MAX_TASKS_def)
  then show ?thesis
    using assms rr_step [OF assms(1,3)]
    by (auto simp: rr_distance_cases MAX_TASKS_def split: if_split_asm)
qed

text \<open>\<open>rotates c n s s'\<close>: the task in slot \<open>c\<close> gave up the processor and the one in slot \<open>n\<close> got it;
  every task that was waiting for the processor got it or comes closer to it.\<close>

definition rotates :: "nat \<Rightarrow> nat \<Rightarrow> Scheduler \<Rightarrow> Scheduler \<Rightarrow> bool" where
  "rotates c n s s' \<longleftrightarrow> c < MAX_TASKS \<and> n < MAX_TASKS \<and> s_current s = Some c \<and> s_current s' = Some n
    \<and> s_next_id s' = s_next_id s \<and> s_idle_index s' = s_idle_index s
    \<and> (\<forall>i < MAX_TASKS. rel_option same_task (s_tasks s ! i) (s_tasks s' ! i))
    \<and> (\<forall>j < MAX_TASKS. selectable False s j \<longrightarrow>
        n = j \<or> selectable False s' j \<and> rr_distance n j < rr_distance c j)"

lemma select_rotates:
  assumes s: "sched_ok s" and c: "s_current s = Some c" and idle: "s_idle_index s \<noteq> None"
    and s1: "s1 = (upd_task c f s)\<lparr>s_current := None\<rparr>" "sched_ok s1"
    and f: "\<And>t. s_tasks s ! c = Some t \<Longrightarrow> same_task t (f t)"
  shows "\<exists>x s' n. select_next ((c + 1) mod MAX_TASKS) s1 = (Inr x, s') \<and> rotates c n s s' \<and> sched_ok s'"
proof -
  have c16: "c < MAX_TASKS" and len: "length (s_tasks s) = MAX_TASKS" using sched_okD [OF s] c by auto
  have none: "s_current s1 = None" and idle1: "s_idle_index s1 \<noteq> None" using s1 idle by simp_all
  obtain u where u: "s_tasks s ! c = Some u" "t_state u = Running" using sched_okD(5) [OF s c] by auto
  obtain n t where n: "n < MAX_TASKS" "s_tasks s1 ! n = Some t" "t_state t = Ready"
    and sel: "select_next ((c + 1) mod MAX_TASKS) s1 = (Inr (t_id t), runs n s1)"
    and fair: "t_is_idle t \<Longrightarrow> (\<forall>j < MAX_TASKS. \<not> selectable False s1 j)"
      "\<not> t_is_idle t \<Longrightarrow> (\<exists>k < MAX_TASKS. n = ((c + 1) mod MAX_TASKS + k) mod MAX_TASKS
         \<and> (\<forall>l < k. \<not> selectable False s1 (((c + 1) mod MAX_TASKS + l) mod MAX_TASKS)))"
    by (rule select_next_run [OF s1(2) none idle1, of "(c + 1) mod MAX_TASKS"], rule that)
  have slot: "rel_option same_task (s_tasks s ! i) (s_tasks (runs n s1) ! i)" if "i < MAX_TASKS" for i
    using that f n len unfolding s1
    by (cases "s_tasks s ! i") (auto simp: nth_runs nth_upd_task same_task_def task_root_def)
  have "n = j \<or> selectable False (runs n s1) j \<and> rr_distance n j < rr_distance c j"
    if j: "j < MAX_TASKS" "selectable False s j" for j
  proof (cases "n = j")
    case False
    have "j \<noteq> c" using j u by (auto simp: selectable_def)
    then have j1: "selectable False s1 j" using j len by (auto simp: s1 selectable_def nth_upd_task)
    then have "\<not> t_is_idle t" using fair(1) j by blast
    then obtain k where k: "k < MAX_TASKS" "n = (c + 1 + k) mod MAX_TASKS"
      "\<And>l. l < k \<Longrightarrow> \<not> selectable False s1 ((c + 1 + l) mod MAX_TASKS)"
      using fair(2) by (auto simp: mod_simps)
    have "\<not> rr_distance c j < k" using k(3) [of "rr_distance c j"] rr_distance_slot [OF c16 j(1)] j1 by auto
    moreover have "k \<noteq> rr_distance c j" using rr_distance_slot [OF c16 j(1)] k(2) False by auto
    ultimately have "rr_distance n j < rr_distance c j"
      by (intro rr_distance_less [OF c16 j(1) k(1,2)]) simp
    moreover have "selectable False (runs n s1) j"
      using j1 False n len j by (auto simp: selectable_def nth_runs s1)
    ultimately show ?thesis by simp
  qed simp
  then have "rotates c n s (runs n s1)"
    using c16 n c slot by (simp add: rotates_def s1)
  moreover have "sched_ok (runs n s1)" by (rule sched_ok_runs [OF s1(2) none n(1,2)])
  ultimately show ?thesis using sel by blast
qed

lemma transition_rotates:
  assumes s: "sched_ok s" and c: "s_current s = Some c" and idle: "s_idle_index s \<noteq> None"
    and st: "st \<noteq> Running" "st \<noteq> Sleeping" "st \<noteq> Ready \<Longrightarrow> s_idle_index s \<noteq> Some c"
  shows "\<exists>x s' n. transition_current st s = (Inr x, s') \<and> rotates c n s s' \<and> sched_ok s'"
proof -
  obtain t where t: "s_tasks s ! c = Some t" "t_state t = Running" using sched_okD(5) [OF s c] by auto
  have ok: "task_ok s c t" by (rule sched_okD(8) [OF s sched_okD(4) [OF s c] t(1)])
  let ?f = "\<lambda>t. t\<lparr>t_state := st, t_wake_at := if st \<noteq> Sleeping then None else t_wake_at t\<rparr>"
  have "sched_ok ((upd_task c ?f s)\<lparr>s_current := None\<rparr>)"
    by (rule sched_ok_vacate [OF s c t(1)]) (use ok st in \<open>auto simp: task_ok_def\<close>)
  from select_rotates [OF s c idle refl this] show ?thesis
    using ok st t by (auto simp: transition_current_def c same_task_def task_root_def task_ok_def)
qed

lemma sleep_rotates:
  assumes s: "sched_ok s" and c: "s_current s = Some c" and idle: "s_idle_index s \<noteq> None"
    and not_idle: "s_idle_index s \<noteq> Some c"
  shows "\<exists>x s' n. sleep_current_until d s = (Inr x, s') \<and> rotates c n s s' \<and> sched_ok s'"
proof -
  obtain t where t: "s_tasks s ! c = Some t" "t_state t = Running" using sched_okD(5) [OF s c] by auto
  have ok: "task_ok s c t" by (rule sched_okD(8) [OF s sched_okD(4) [OF s c] t(1)])
  let ?f = "\<lambda>t. t\<lparr>t_state := Sleeping, t_wake_at := Some d\<rparr>"
  have "sched_ok ((upd_task c ?f s)\<lparr>s_current := None\<rparr>)"
    by (rule sched_ok_vacate [OF s c t(1)]) (use ok not_idle in \<open>auto simp: task_ok_def\<close>)
  from select_rotates [OF s c idle refl this] show ?thesis
    using ok not_idle t by (auto simp: sleep_current_until_def c same_task_def task_root_def task_ok_def)
qed

section \<open>The invariant of the kernel\<close>

definition kernel_root :: "('d, 'pt) Kernel \<Rightarrow> nat option" where
  "kernel_root k = (case k_mem k of Some (Inr m) \<Rightarrow> Some (mm_kernel_root m) | _ \<Rightarrow> None)"

text \<open>The active root table is the one of the running user task, and the kernel's own while a kernel
  task or the bootstrap context runs.\<close>

definition space_ok :: "('d, 'pt) Kernel \<Rightarrow> bool" where
  "space_ok k \<longleftrightarrow> Some (k_cr3 k) = (case running_task k of
      None \<Rightarrow> kernel_root k
    | Some t \<Rightarrow> if t_user t = None then kernel_root k else task_root t)"

definition kernel_ok :: "('d, 'pt) Kernel \<Rightarrow> bool" where
  "kernel_ok k \<longleftrightarrow> sched_ok (k_sched k) \<and> kernel_root k \<noteq> None
    \<and> (s_current (k_sched k) \<noteq> None \<longrightarrow> s_idle_index (k_sched k) \<noteq> None) \<and> space_ok k"

lemma activate_task_ok:
  assumes s: "sched_ok (k_sched k)" and m: "kernel_root k = Some root"
    and i: "i < MAX_TASKS" "s_tasks (k_sched k) ! i = Some t"
  shows "\<exists>rsp krsp cr3. activate_task_address_space (Some i) k =
      Some (k\<lparr>k_user_rsp := rsp, k_kernel_rsp := krsp, k_cr3 := cr3\<rparr>)
    \<and> Some cr3 = (if t_user t = None then kernel_root k else task_root t)"
proof (cases "t_user t")
  case None
  then have "activate_task_address_space (Some i) k = Some (k\<lparr>k_cr3 := root\<rparr>)"
    using i m by (auto simp: activate_task_address_space_def activate_kernel_address_space_def
        kernel_root_def Let_def split: option.split_asm sum.split_asm)
  moreover have "k\<lparr>k_cr3 := root\<rparr> = k\<lparr>k_user_rsp := k_user_rsp k, k_kernel_rsp := k_kernel_rsp k, k_cr3 := root\<rparr>"
    by simp
  ultimately show ?thesis using None m by metis
next
  case (Some u)
  obtain top0 r where "t_stack_top t = Some top0" "as_root (ut_address_space u) = Some r"
    using sched_okD(8) [OF s i] Some by (auto simp: task_ok_def)
  then show ?thesis
    using i Some
    by (intro exI [of _ "ut_syscall_user_rsp u"] exI [of _ "top0 - top0 mod 16"] exI [of _ r])
      (auto simp: activate_task_address_space_def Let_def set_kernel_stack_def as_activate_def task_root_def)
qed

lemma context_switch_simps [simp]:
  "k_mem (leafos_context_switch a b k) = k_mem k" "k_cr3 (leafos_context_switch a b k) = k_cr3 k"
  "k_ticks (leafos_context_switch a b k) = k_ticks k"
  "k_sched (leafos_context_switch (Some i) b k) =
     upd_task i (\<lambda>t. t\<lparr>t_context := k_cpu k\<rparr>) (k_sched k)"
  "k_sched (leafos_context_switch None b k) = k_sched k"
  by (auto simp: leafos_context_switch_def store_context_def Let_def split: option.split)

lemma sched_ok_context:
  assumes s: "sched_ok s"
  shows "sched_ok (upd_task c (\<lambda>t. t\<lparr>t_context := x\<rparr>) s)"
  by (rule sched_ok_change [OF s]) (auto simp: task_ok_def)

lemma kernel_root_simps [simp]:
  "kernel_root (k\<lparr>k_sched := s\<rparr>) = kernel_root k" "kernel_root (k\<lparr>k_world := w\<rparr>) = kernel_root k"
  "kernel_root (k\<lparr>k_user_rsp := x\<rparr>) = kernel_root k" "kernel_root (k\<lparr>k_kernel_rsp := x\<rparr>) = kernel_root k"
  "kernel_root (k\<lparr>k_cr3 := x\<rparr>) = kernel_root k" "kernel_root (k\<lparr>k_cpu := c\<rparr>) = kernel_root k"
  "kernel_root (k\<lparr>k_ticks := n\<rparr>) = kernel_root k" "kernel_root (k\<lparr>k_umem := u\<rparr>) = kernel_root k"
  "kernel_root (leafos_context_switch a b k) = kernel_root k"
  by (simp_all add: kernel_root_def)

text \<open>A completed switch: the invariant holds, the registers of the old task are in its saved context
  and the processor has those of the new task.\<close>

definition switched :: "nat \<Rightarrow> nat \<Rightarrow> CpuContext \<Rightarrow> Scheduler \<Rightarrow> ('d, 'pt) Kernel \<Rightarrow> bool" where
  "switched c n registers s k' \<longleftrightarrow> kernel_ok k' \<and> s_current s = Some n
    \<and> k_sched k' = upd_task c (\<lambda>t. t\<lparr>t_context := registers\<rparr>) s
    \<and> (\<exists>t. s_tasks (k_sched k') ! n = Some t \<and> k_cpu k' = t_context t)"

lemma switched_intro:
  assumes s: "sched_ok (k_sched k)" and idle: "s_idle_index (k_sched k) \<noteq> None"
    and m: "kernel_root k \<noteq> None" and n: "s_current (k_sched k) = Some n"
  shows "\<exists>k1. activate_task_address_space (Some n) k = Some k1
    \<and> switched c n (k_cpu k) (k_sched k) (leafos_context_switch (Some c) (Some n) k1)
    \<and> kernel_root k1 = kernel_root k"
proof -
  have n16: "n < MAX_TASKS" and len: "length (s_tasks (k_sched k)) = MAX_TASKS"
    using sched_okD [OF s] n by auto
  obtain t where t: "s_tasks (k_sched k) ! n = Some t" using sched_okD(5) [OF s n] by auto
  obtain root where root: "kernel_root k = Some root" using m by auto
  obtain rsp krsp cr3 where a: "activate_task_address_space (Some n) k =
      Some (k\<lparr>k_user_rsp := rsp, k_kernel_rsp := krsp, k_cr3 := cr3\<rparr>)" (is "_ = Some ?k1")
    and cr3: "Some cr3 = (if t_user t = None then kernel_root k else task_root t)"
    using activate_task_ok [OF s root n16 t] by auto
  let ?k' = "leafos_context_switch (Some c) (Some n) ?k1"
  obtain t' where t': "s_tasks (k_sched ?k') ! n = Some t'" "t_user t' = t_user t"
    using t n16 len by (cases "n = c") (auto simp: nth_upd_task)
  have "space_ok ?k'"
    using t' n cr3 by (simp add: space_ok_def running_task_def task_root_def)
  then have "kernel_ok ?k'"
    using s idle m by (simp add: kernel_ok_def sched_ok_context)
  moreover have "k_cpu ?k' = t_context t'"
    using t' by (simp add: leafos_context_switch_def saved_context_def store_context_def Let_def)
  ultimately have "switched c n (k_cpu k) (k_sched k) ?k'"
    using n t' by (simp add: switched_def)
  then show ?thesis using a by simp
qed

lemma switch_away_switched:
  assumes "sched_ok (k_sched k)" "s_idle_index (k_sched k) \<noteq> None"
    and "kernel_root k \<noteq> None" "s_current (k_sched k) = Some n" "s_tasks (k_sched k) ! c \<noteq> None"
  shows "\<exists>k'. switch_away c k = Some (Inr (), k') \<and> switched c n (k_cpu k) (k_sched k) k'
    \<and> kernel_root k' = kernel_root k"
  using switched_intro [OF assms(1-4), of c] assms(4,5) by (auto simp: switch_away_def)

lemma rotatesD:
  assumes "rotates c n s s'"
  shows "s_current s' = Some n" "s_current s = Some c" "s_idle_index s' = s_idle_index s"
    "c < MAX_TASKS" "n < MAX_TASKS" "s_tasks s ! c \<noteq> None \<Longrightarrow> s_tasks s' ! c \<noteq> None"
  using assms by (auto simp: rotates_def option_rel_Some1 dest!: spec [of _ c])

lemma save_rsp_frame:
  assumes s: "sched_ok (k_sched k)"
  shows "sched_frame (k_sched k) (k_sched (save_current_user_rsp c k))"
    "keeps_ready P (k_sched k) (k_sched (save_current_user_rsp c k))"
    "sched_ok (k_sched (save_current_user_rsp c k))"
    "s_current (k_sched (save_current_user_rsp c k)) = s_current (k_sched k)"
    "s_idle_index (k_sched (save_current_user_rsp c k)) = s_idle_index (k_sched k)"
    "k_cpu (save_current_user_rsp c k) = k_cpu k"
    "kernel_root (save_current_user_rsp c k) = kernel_root k"
    "k_cr3 (save_current_user_rsp c k) = k_cr3 k" "k_ticks (save_current_user_rsp c k) = k_ticks k"
proof -
  have "sched_ok (upd_task c (\<lambda>t. t\<lparr>t_user := map_option
      (\<lambda>u. u\<lparr>ut_syscall_user_rsp := k_user_rsp k\<rparr>) (t_user t)\<rparr>) (k_sched k))"
    by (rule sched_ok_change [OF s]) (auto simp: task_ok_def)
  then show "sched_ok (k_sched (save_current_user_rsp c k))" by (simp add: save_current_user_rsp_def)
  show "sched_frame (k_sched k) (k_sched (save_current_user_rsp c k))"
    by (auto simp: save_current_user_rsp_def same_task_def task_root_def
        intro!: sched_frame_upd sched_okD(1) [OF s] split: bind_split)
  show "keeps_ready P (k_sched k) (k_sched (save_current_user_rsp c k))"
    by (auto simp: save_current_user_rsp_def intro!: keeps_ready_upd sched_okD(1) [OF s])
qed (simp_all add: save_current_user_rsp_def)

end
