(* ===== verification/Kernel_Steps.thy ===== *)
theory Kernel_Steps
  imports Task_Frames
begin

text \<open>
  The tasking part of the kernel as a transition system: one rule per operation of a task, per
  interrupt and for ordinary execution. Every step keeps the invariant, hands saved contexts over
  unchanged and keeps waiting tasks in line; from this follow the properties of whole runs.
\<close>

section \<open>Steps of the kernel\<close>

text \<open>\<open>kstep\<close> is one step of the system: an operation called by the running task, an interrupt, or
  the ordinary execution of the running code (\<open>Compute\<close>, which may change the registers and the
  stack pointer that a system call saves). The idle task calls neither \<open>block_now\<close> nor the exit
  functions, and the bootstrap context continues \<open>run_tasks\<close> only when no task runs.\<close>

datatype KernelOp =
    Compute CpuContext nat
  | StoreUser nat "byte list"
  | Yield
  | Timer
  | Block
  | SleepFor "64 word"
  | Exit "nat option" bool
  | IdleRound
  | Run nat nat nat
  | RunReturn
  | SpawnKernel nat nat nat
  | SpawnUser nat nat AddressSpace nat nat nat nat "FdMapping list" "nat list"
  | Wait "nat option"
  | WakeTask nat
  | Kill nat nat
  | WakeAll
  | Reap nat
  | ReadFd nat "byte list"
  | WriteFd nat "byte list"
  | OpenWrite "byte list"
  | OpenRead "byte list"
  | MakePipe
  | CloseFd nat
  | DupFd nat nat

definition idle_runs :: "('d, 'pt) Kernel \<Rightarrow> bool" where
  "idle_runs k \<longleftrightarrow> (case running_task k of None \<Rightarrow> False | Some t \<Rightarrow> t_is_idle t)"

inductive kstep :: "('pt, 'e) PageTables \<Rightarrow> 'd DiskOps \<Rightarrow> KernelOp \<Rightarrow> ('d, 'pt) Kernel \<Rightarrow> ('d, 'pt) Kernel \<Rightarrow> bool"
  for T :: "('pt, 'e) PageTables" and D :: "'d DiskOps" where
  compute: "kstep T D (Compute c v) k (k\<lparr>k_cpu := c, k_user_rsp := v\<rparr>)"
| store: "copy_to_current_user a bs k = (r, k') \<Longrightarrow> kstep T D (StoreUser a bs) k k'"
| yield: "yield_now k = Some (r, k') \<Longrightarrow> kstep T D Yield k k'"
| timer: "preempt_from_timer (on_interrupt k) = Some k' \<Longrightarrow> kstep T D Timer k k'"
| block: "\<not> idle_runs k \<Longrightarrow> block_now k = Some (r, k') \<Longrightarrow> kstep T D Block k k'"
| sleep: "\<not> idle_runs k \<Longrightarrow> sleep_ticks d k = Some (r, k') \<Longrightarrow> kstep T D (SleepFor d) k k'"
| exit: "\<not> idle_runs k \<Longrightarrow> exit_current_with_status_and_group code g k = Some k' \<Longrightarrow> kstep T D (Exit code g) k k'"
| idle: "idle_runs k \<Longrightarrow> idle_round k = Some k' \<Longrightarrow> kstep T D IdleRound k k'"
| run: "run_tasks tr base entry k = Some (r, k') \<Longrightarrow> kstep T D (Run tr base entry) k k'"
| run_return: "s_current (k_sched k) = None \<Longrightarrow> kstep T D RunReturn k (run_tasks_return k)"
| spawn_kernel: "spawn tr base entry k = (r, k') \<Longrightarrow> kstep T D (SpawnKernel tr base entry) k k'"
| spawn_user: "as_root space \<noteq> None \<Longrightarrow>
    spawn_user_with_arguments_and_fds T tr base space entry stack argc argv ms cs k = Some (r, k') \<Longrightarrow>
    kstep T D (SpawnUser tr base space entry stack argc argv ms cs) k k'"
| wait: "\<not> idle_runs k \<Longrightarrow> wait_for_child T child k = Some (r, k') \<Longrightarrow> kstep T D (Wait child) k k'"
| wake_task: "wake_task i k = (r, k') \<Longrightarrow> kstep T D (WakeTask i) k k'"
| kill: "kernel_terminate_task i code k = (r, k') \<Longrightarrow> kstep T D (Kill i code) k k'"
| wake_all: "kstep T D WakeAll k (wake_all_blocked_tasks k)"
| reap: "kernel_reap_terminated T i k = Some (r, k') \<Longrightarrow> kstep T D (Reap i) k k'"
| read_fd: "read_current_fd n buf k = (r, buf', k') \<Longrightarrow> kstep T D (ReadFd n buf) k k'"
| write_fd: "write_current_fd D n bs k = (r, k') \<Longrightarrow> kstep T D (WriteFd n bs) k k'"
| open_write: "create_file_write_for_current D path k = (r, k') \<Longrightarrow> kstep T D (OpenWrite path) k k'"
| open_read: "create_file_read_for_current D path k = (r, k') \<Longrightarrow> kstep T D (OpenRead path) k k'"
| make_pipe: "create_pipe_for_current k = (r, k') \<Longrightarrow> kstep T D MakePipe k k'"
| close_fd: "close_current_fd n k = (r, k') \<Longrightarrow> kstep T D (CloseFd n) k k'"
| dup_fd: "duplicate_current_fd a b k = (r, k') \<Longrightarrow> kstep T D (DupFd a b) k k'"

inductive_cases kstep_cases: "kstep T D x k k'"

text \<open>The operations with which the running task gives up the processor, and those that leave the
  task \<open>x\<close> alone.\<close>

fun gives_up :: "KernelOp \<Rightarrow> bool" where
  "gives_up Yield = True"
| "gives_up Timer = True"
| "gives_up Block = True"
| "gives_up (SleepFor d) = (d \<noteq> 0)"
| "gives_up (Exit code g) = True"
| "gives_up IdleRound = True"
| "gives_up _ = False"

fun spares :: "nat \<Rightarrow> KernelOp \<Rightarrow> bool" where
  "spares x (Kill i code) = (i \<noteq> x)"
| "spares x (Exit code g) = (\<not> g)"
| "spares x _ = True"

text \<open>What every step guarantees: the invariant, that a task which is not running keeps its saved
  context and gets it back when it is selected, and that a waiting task stays in line.\<close>

definition handover :: "('d, 'pt) Kernel \<Rightarrow> ('d, 'pt) Kernel \<Rightarrow> bool" where
  "handover k k' \<longleftrightarrow> s_next_id (k_sched k) \<le> s_next_id (k_sched k')
    \<and> (\<forall>i < MAX_TASKS. \<forall>t'. s_tasks (k_sched k') ! i = Some t' \<and> t_id t' < s_next_id (k_sched k) \<longrightarrow>
        (\<exists>t. s_tasks (k_sched k) ! i = Some t \<and> t_id t = t_id t'
          \<and> (if s_current (k_sched k) = Some i
             then s_current (k_sched k') \<noteq> Some i \<longrightarrow> t_context t' = k_cpu k
             else if s_current (k_sched k') = Some i then k_cpu k' = t_context t
             else t_context t' = t_context t)))"

definition in_line :: "KernelOp \<Rightarrow> ('d, 'pt) Kernel \<Rightarrow> ('d, 'pt) Kernel \<Rightarrow> bool" where
  "in_line x k k' \<longleftrightarrow> (\<forall>c j t. s_current (k_sched k) = Some c \<and> j < MAX_TASKS
      \<and> s_tasks (k_sched k) ! j = Some t \<and> t_state t = Ready \<and> \<not> t_is_idle t \<and> spares (t_id t) x \<longrightarrow>
      (\<exists>c' t'. s_current (k_sched k') = Some c' \<and> s_tasks (k_sched k') ! j = Some t' \<and> t_id t' = t_id t
        \<and> (c' = j \<or> t_state t' = Ready \<and> \<not> t_is_idle t' \<and> rr_distance c' j \<le> rr_distance c j
            \<and> (gives_up x \<longrightarrow> rr_distance c' j < rr_distance c j))))"

definition step_ok :: "KernelOp \<Rightarrow> ('d, 'pt) Kernel \<Rightarrow> ('d, 'pt) Kernel \<Rightarrow> bool" where
  "step_ok x k k' \<longleftrightarrow> kernel_ok k' \<and> handover k k' \<and> in_line x k k'"

lemma kernel_okD:
  assumes "kernel_ok k"
  shows "sched_ok (k_sched k)" "kernel_root k \<noteq> None" "space_ok k"
    "s_current (k_sched k) = Some c \<Longrightarrow> s_idle_index (k_sched k) \<noteq> None"
  using assms by (auto simp: kernel_ok_def)

text \<open>A step in which the running task goes on running.\<close>

lemma quiet_space_ok:
  assumes k: "kernel_ok k" and frame: "sched_frame (k_sched k) (k_sched k')"
    and same: "k_cr3 k' = k_cr3 k" "kernel_root k' = kernel_root k"
  shows "space_ok k'"
proof -
  have cur: "s_current (k_sched k') = s_current (k_sched k)" using frame by (simp add: sched_frame_def)
  show ?thesis
  proof (cases "s_current (k_sched k)")
    case None
    then show ?thesis using kernel_okD(3) [OF k] cur same by (simp add: space_ok_def running_task_def)
  next
    case (Some c)
    have c: "c < MAX_TASKS" using sched_okD(4) [OF kernel_okD(1) [OF k] Some] .
    obtain t where t: "s_tasks (k_sched k) ! c = Some t"
      using sched_okD(5) [OF kernel_okD(1) [OF k] Some] by auto
    obtain t' where "s_tasks (k_sched k') ! c = Some t'" "same_task t t'"
      using sched_frameD(4) [OF frame c Some t] by auto
    then show ?thesis
      using kernel_okD(3) [OF k] cur same t Some
      by (simp add: space_ok_def running_task_def same_task_def)
  qed
qed

lemma quiet_step:
  assumes k: "kernel_ok k" and s': "sched_ok (k_sched k')"
    and frame: "sched_frame (k_sched k) (k_sched k')"
    and ready: "keeps_ready (\<lambda>y. spares y x) (k_sched k) (k_sched k')"
    and idle: "s_idle_index (k_sched k) \<noteq> None \<Longrightarrow> s_idle_index (k_sched k') \<noteq> None"
    and same: "k_cr3 k' = k_cr3 k" "kernel_root k' = kernel_root k" and x: "\<not> gives_up x"
  shows "step_ok x k k'"
proof -
  have cur: "s_current (k_sched k') = s_current (k_sched k)" using frame by (simp add: sched_frame_def)
  have "kernel_ok k'"
    using k s' idle same cur quiet_space_ok [OF k frame same] by (auto simp: kernel_ok_def)
  moreover have "handover k k'"
    unfolding handover_def cur
  proof (intro conjI allI impI)
    show "s_next_id (k_sched k) \<le> s_next_id (k_sched k')" by (rule sched_frameD(2) [OF frame])
    fix i t'
    assume i: "i < MAX_TASKS" and t': "s_tasks (k_sched k') ! i = Some t' \<and> t_id t' < s_next_id (k_sched k)"
    obtain t where "s_tasks (k_sched k) ! i = Some t" "same_task t t'"
      using sched_frameD(3) [OF frame i, of t'] t' by auto
    then show "\<exists>t. s_tasks (k_sched k) ! i = Some t \<and> t_id t = t_id t'
      \<and> (if s_current (k_sched k) = Some i then s_current (k_sched k) \<noteq> Some i \<longrightarrow> t_context t' = k_cpu k
         else if s_current (k_sched k) = Some i then k_cpu k' = t_context t else t_context t' = t_context t)"
      by (auto simp: same_task_def)
  qed
  moreover have "in_line x k k'"
    using cur ready x unfolding in_line_def keeps_ready_def by (auto 0 3)
  ultimately show ?thesis by (simp add: step_ok_def)
qed

text \<open>A step in which the processor goes from slot \<open>c\<close> to slot \<open>n\<close>.\<close>

lemma rotates_slot:
  assumes "rotates c n s s'" "i < MAX_TASKS" "s_tasks s' ! i = Some t'"
  obtains t where "s_tasks s ! i = Some t" "same_task t t'"
proof -
  have "rel_option same_task (s_tasks s ! i) (s_tasks s' ! i)"
    using assms(1,2) by (simp add: rotates_def)
  with assms(3) show thesis using that by (auto simp: option_rel_Some2)
qed

lemma rotate_line:
  assumes k: "kernel_ok k"
    and frame: "sched_frame (k_sched k) s1" and ok1: "sched_ok s1"
    and ready: "keeps_ready (\<lambda>y. spares y x) (k_sched k) s1"
    and rot: "rotates c n s1 s2"
    and k': "s_current (k_sched k') = Some n"
      "\<And>i t'. i < MAX_TASKS \<Longrightarrow> s_tasks s2 ! i = Some t' \<Longrightarrow>
        \<exists>u. s_tasks (k_sched k') ! i = Some u \<and> t_id u = t_id t' \<and> t_state u = t_state t' \<and> t_is_idle u = t_is_idle t'"
  shows "in_line x k k'"
  unfolding in_line_def
proof (intro allI impI)
  fix c0 j t
  assume h: "s_current (k_sched k) = Some c0 \<and> j < MAX_TASKS
      \<and> s_tasks (k_sched k) ! j = Some t \<and> t_state t = Ready \<and> \<not> t_is_idle t \<and> spares (t_id t) x"
  have c0: "c0 = c" using h sched_frameD(1) [OF frame] rotatesD(2) [OF rot] by simp
  have j: "j < MAX_TASKS" using h by simp
  obtain t1 where t1: "s_tasks s1 ! j = Some t1" "t_state t1 = Ready" "t_id t1 = t_id t" "\<not> t_is_idle t1"
    using ready h unfolding keeps_ready_def by blast
  then have sel: "selectable False s1 j" by (simp add: selectable_def)
  have rel: "rel_option same_task (s_tasks s1 ! j) (s_tasks s2 ! j)" using rot j by (simp add: rotates_def)
  then obtain t2 where t2: "s_tasks s2 ! j = Some t2" "same_task t1 t2" using t1 by (auto simp: option_rel_Some1)
  obtain u where u: "s_tasks (k_sched k') ! j = Some u" "t_id u = t_id t2" "t_state u = t_state t2"
    "t_is_idle u = t_is_idle t2" using k'(2) [OF j t2(1)] by auto
  have "n = j \<or> selectable False s2 j \<and> rr_distance n j < rr_distance c j"
    using rot j sel by (simp add: rotates_def)
  then have "n = j \<or> t_state u = Ready \<and> \<not> t_is_idle u \<and> rr_distance n j < rr_distance c j"
    using t2 u by (auto simp: selectable_def)
  then show "\<exists>c' t'. s_current (k_sched k') = Some c' \<and> s_tasks (k_sched k') ! j = Some t' \<and> t_id t' = t_id t
        \<and> (c' = j \<or> t_state t' = Ready \<and> \<not> t_is_idle t' \<and> rr_distance c' j \<le> rr_distance c0 j
            \<and> (gives_up x \<longrightarrow> rr_distance c' j < rr_distance c0 j))"
    using k'(1) u t1 t2 c0 by (auto simp: same_task_def)
qed

lemma rotate_step:
  assumes k: "kernel_ok k" and frame: "sched_frame (k_sched k) s1" and ok1: "sched_ok s1"
    and ready: "keeps_ready (\<lambda>y. spares y x) (k_sched k) s1"
    and rot: "rotates c n s1 s2" and ok2: "sched_ok s2"
    and sw: "switched c n (k_cpu k) s2 k'"
  shows "step_ok x k k'"
proof -
  have len: "length (s_tasks s2) = MAX_TASKS" by (rule sched_okD(1) [OF ok2])
  have s': "k_sched k' = upd_task c (\<lambda>t. t\<lparr>t_context := k_cpu k\<rparr>) s2" and cur2: "s_current s2 = Some n"
    using sw by (auto simp: switched_def)
  have cur: "s_current (k_sched k) = Some c"
    using sched_frameD(1) [OF frame] rotatesD(2) [OF rot] by simp
  have cur': "s_current (k_sched k') = Some n" using s' cur2 by simp
  have slots: "s_tasks (k_sched k') ! i = map_option (\<lambda>t. if i = c then t\<lparr>t_context := k_cpu k\<rparr> else t) (s_tasks s2 ! i)"
    if "i < MAX_TASKS" for i
    using that len by (simp add: s' nth_upd_task option.map_ident)
  have "in_line x k k'"
    by (rule rotate_line [OF k frame ok1 ready rot cur']) (use slots in auto)
  moreover have "handover k k'"
    unfolding handover_def
  proof (intro conjI allI impI)
    show "s_next_id (k_sched k) \<le> s_next_id (k_sched k')"
      using sched_frameD(2) [OF frame] rot by (simp add: s' rotates_def)
    fix i t'
    assume i: "i < MAX_TASKS" and t': "s_tasks (k_sched k') ! i = Some t' \<and> t_id t' < s_next_id (k_sched k)"
    obtain t2 where t2: "s_tasks s2 ! i = Some t2" "t' = (if i = c then t2\<lparr>t_context := k_cpu k\<rparr> else t2)"
      using slots [OF i] t' by (cases "s_tasks s2 ! i") auto
    obtain t1 where t1: "s_tasks s1 ! i = Some t1" "same_task t1 t2" using rotates_slot [OF rot i t2(1)] .
    have "t_id t1 < s_next_id (k_sched k)" using t1 t2 t' by (auto simp: same_task_def split: if_splits)
    then obtain t where t: "s_tasks (k_sched k) ! i = Some t" "same_task t t1"
      using sched_frameD(3) [OF frame i t1(1)] by auto
    have "k_cpu k' = t_context t'" if "n = i"
      using sw t' that by (auto simp: switched_def)
    then show "\<exists>t. s_tasks (k_sched k) ! i = Some t \<and> t_id t = t_id t'
          \<and> (if s_current (k_sched k) = Some i
             then s_current (k_sched k') \<noteq> Some i \<longrightarrow> t_context t' = k_cpu k
             else if s_current (k_sched k') = Some i then k_cpu k' = t_context t
             else t_context t' = t_context t)"
      using t t1 t2 cur cur' by (auto simp: same_task_def)
  qed
  ultimately show ?thesis using sw by (simp add: step_ok_def switched_def)
qed

text \<open>A preemption that selects the interrupted task again does not switch contexts.\<close>

lemma rotate_same_step:
  assumes k: "kernel_ok k" and frame: "sched_frame (k_sched k) s1" and ok1: "sched_ok s1"
    and ready: "keeps_ready (\<lambda>y. spares y x) (k_sched k) s1"
    and rot: "rotates c c s1 s2" and ok2: "sched_ok s2"
    and k': "k_sched k' = s2" "k_cr3 k' = k_cr3 k" "kernel_root k' = kernel_root k"
    and idle: "s_idle_index (k_sched k) \<noteq> None \<Longrightarrow> s_idle_index s1 \<noteq> None"
  shows "step_ok x k k'"
proof -
  have cur: "s_current (k_sched k) = Some c" "s_current s1 = Some c" "s_current s2 = Some c"
    using sched_frameD(1) [OF frame] rotatesD(1,2) [OF rot] by simp_all
  have frame2: "sched_frame s1 s2"
    unfolding sched_frame_def
  proof (intro conjI allI impI)
    fix i t assume "i < MAX_TASKS" "s_current s1 = Some i \<and> s_tasks s1 ! i = Some t"
    then show "\<exists>t'. s_tasks s2 ! i = Some t' \<and> same_task t t'"
      using rot by (auto simp: rotates_def option_rel_Some1 dest!: spec [of _ i])
  next
    fix i t' assume "i < MAX_TASKS" "s_tasks s2 ! i = Some t'"
    then show "s_next_id s1 \<le> t_id t' \<or> (\<exists>t. s_tasks s1 ! i = Some t \<and> same_task t t')"
      using rotates_slot [OF rot] by metis
  qed (use rot cur in \<open>auto simp: rotates_def\<close>)
  have fr: "sched_frame (k_sched k) (k_sched k')"
    using sched_frame_trans [OF frame frame2] k'(1) by simp
  have "kernel_ok k'"
    using k ok2 k' cur idle rot quiet_space_ok [OF k fr k'(2,3)] by (auto simp: kernel_ok_def rotates_def)
  moreover have "in_line x k k'"
    by (rule rotate_line [OF k frame ok1 ready rot]) (use cur k' in auto)
  moreover have "handover k k'"
    unfolding handover_def
  proof (intro conjI allI impI)
    show "s_next_id (k_sched k) \<le> s_next_id (k_sched k')" by (rule sched_frameD(2) [OF fr])
    fix i t'
    assume i: "i < MAX_TASKS" and t': "s_tasks (k_sched k') ! i = Some t' \<and> t_id t' < s_next_id (k_sched k)"
    obtain t where "s_tasks (k_sched k) ! i = Some t" "same_task t t'"
      using sched_frameD(3) [OF fr i, of t'] t' by auto
    then show "\<exists>t. s_tasks (k_sched k) ! i = Some t \<and> t_id t = t_id t'
          \<and> (if s_current (k_sched k) = Some i
             then s_current (k_sched k') \<noteq> Some i \<longrightarrow> t_context t' = k_cpu k
             else if s_current (k_sched k') = Some i then k_cpu k' = t_context t
             else t_context t' = t_context t)"
      using cur k' by (auto simp: same_task_def)
  qed
  ultimately show ?thesis by (simp add: step_ok_def)
qed

section \<open>The operations that give up the processor\<close>

lemma idle_runs_index:
  assumes "sched_ok (k_sched k)" "s_current (k_sched k) = Some c"
  shows "idle_runs k \<longleftrightarrow> s_idle_index (k_sched k) = Some c"
proof -
  obtain t where t: "s_tasks (k_sched k) ! c = Some t" using sched_okD(5) [OF assms] by auto
  have "task_ok (k_sched k) c t" by (rule sched_okD(8) [OF assms(1) sched_okD(4) [OF assms] t])
  then show ?thesis using t assms(2) by (auto simp: idle_runs_def running_task_def task_ok_def)
qed

text \<open>All of them change a scheduler state \<open>s1\<close>, reached from the current one by a frame change, by a
  rotation and then switch away.\<close>

lemma handing_over:
  assumes k: "kernel_ok k" and frame: "sched_frame (k_sched k) s1" and ok1: "sched_ok s1"
    and ready: "keeps_ready (\<lambda>y. spares y x) (k_sched k) s1"
    and rot: "rotates c n s1 s2" and ok2: "sched_ok s2" and idle: "s_idle_index s1 \<noteq> None"
    and k2: "k_sched k2 = s2" "k_cpu k2 = k_cpu k" "kernel_root k2 = kernel_root k"
  shows "\<exists>k'. switch_away c k2 = Some (Inr (), k') \<and> step_ok x k k'"
    and "\<exists>k1. activate_task_address_space (Some n) k2 = Some k1
      \<and> step_ok x k (leafos_context_switch (Some c) (Some n) k1)"
proof -
  have slot: "s_tasks s2 ! c \<noteq> None"
    using sched_okD(5) [OF ok1 rotatesD(2) [OF rot]] rotatesD(6) [OF rot] by auto
  have pre: "sched_ok (k_sched k2)" "s_idle_index (k_sched k2) \<noteq> None" "kernel_root k2 \<noteq> None"
    "s_current (k_sched k2) = Some n" "s_tasks (k_sched k2) ! c \<noteq> None"
    using ok2 idle rotatesD [OF rot] k2 kernel_okD(2) [OF k] slot by simp_all
  have step: "step_ok x k k'" if "switched c n (k_cpu k2) (k_sched k2) k'" for k' :: "('a, 'b) Kernel"
    using rotate_step [OF k frame ok1 ready rot ok2, of k'] that k2 by simp
  show "\<exists>k'. switch_away c k2 = Some (Inr (), k') \<and> step_ok x k k'"
    using switch_away_switched [OF pre] step by blast
  show "\<exists>k1. activate_task_address_space (Some n) k2 = Some k1
      \<and> step_ok x k (leafos_context_switch (Some c) (Some n) k1)"
    using switched_intro [OF pre(1-4), of c] step by blast
qed

lemma yield_now_after:
  assumes k0: "kernel_ok k0" and s: "sched_ok (k_sched k)"
    and frame: "sched_frame (k_sched k0) (k_sched k)"
    and ready: "keeps_ready (\<lambda>y. spares y x) (k_sched k0) (k_sched k)"
    and idle: "s_idle_index (k_sched k) \<noteq> None" and c: "s_current (k_sched k) = Some c"
    and same: "k_cpu k = k_cpu k0" "kernel_root k = kernel_root k0"
  shows "\<exists>k'. yield_now k = Some (Inr (), k') \<and> step_ok x k0 k'"
proof -
  let ?k1 = "save_current_user_rsp c k"
  note r = save_rsp_frame [OF s, where c = c]
  obtain y s2 n where t: "transition_current Ready (k_sched ?k1) = (Inr y, s2)"
    and rot: "rotates c n (k_sched ?k1) s2" and ok2: "sched_ok s2"
    using transition_rotates [OF r(3), of c Ready] c idle r(4,5) by auto
  have slot: "s_tasks s2 ! c \<noteq> None"
    using sched_okD(5) [OF r(3) rotatesD(2) [OF rot]] rotatesD(6) [OF rot] by auto
  have "\<exists>k3. activate_task_address_space (Some n) (?k1\<lparr>k_sched := s2\<rparr>) = Some k3
      \<and> step_ok x k0 (leafos_context_switch (Some c) (Some n) k3)"
    by (rule handing_over(2) [OF k0 sched_frame_trans [OF frame r(1)] r(3)
          keeps_ready_trans [OF ready r(2)] rot ok2]) (use r idle same in simp_all)
  then show ?thesis
    using t c slot rotatesD(1) [OF rot] by (auto simp: yield_now_def Let_def)
qed

lemma yield_now_step:
  assumes k: "kernel_ok k" and c: "s_current (k_sched k) = Some c"
  shows "\<exists>k'. yield_now k = Some (Inr (), k') \<and> step_ok x k k'"
  by (rule yield_now_after [OF k kernel_okD(1) [OF k] _ _ kernel_okD(4) [OF k c] c]) simp_all

lemma block_now_step:
  assumes k: "kernel_ok k" and c: "s_current (k_sched k) = Some c" and run: "\<not> idle_runs k"
  shows "\<exists>k'. block_now k = Some (Inr (), k') \<and> step_ok x k k'"
proof -
  note s = kernel_okD(1) [OF k] and idle = kernel_okD(4) [OF k c]
  let ?k1 = "save_current_user_rsp c k"
  note r = save_rsp_frame [OF s, where c = c]
  have "s_idle_index (k_sched k) \<noteq> Some c" using idle_runs_index [OF s c] run by simp
  then obtain y s2 n where t: "transition_current Blocked (k_sched ?k1) = (Inr y, s2)"
    and rot: "rotates c n (k_sched ?k1) s2" and ok2: "sched_ok s2"
    using transition_rotates [OF r(3), of c Blocked] c idle r(4,5) by auto
  have "\<exists>k'. switch_away c (?k1\<lparr>k_sched := s2\<rparr>) = Some (Inr (), k') \<and> step_ok x k k'"
    by (rule handing_over(1) [OF k r(1,3,2) rot ok2]) (use r idle in simp_all)
  then show ?thesis
    using t c by (auto simp: block_now_def Let_def)
qed

lemma sleep_ticks_step:
  assumes k: "kernel_ok k" and c: "s_current (k_sched k) = Some c" and run: "\<not> idle_runs k" and d: "d \<noteq> 0"
  shows "\<exists>k'. sleep_ticks d k = Some (Inr (), k') \<and> step_ok x k k'"
proof -
  note s = kernel_okD(1) [OF k] and idle = kernel_okD(4) [OF k c]
  let ?k1 = "save_current_user_rsp c k"
  note r = save_rsp_frame [OF s, where c = c]
  have "s_idle_index (k_sched k) \<noteq> Some c" using idle_runs_index [OF s c] run by simp
  then obtain y s2 n where t: "sleep_current_until (k_ticks k + d) (k_sched ?k1) = (Inr y, s2)"
    and rot: "rotates c n (k_sched ?k1) s2" and ok2: "sched_ok s2"
    using sleep_rotates [OF r(3), of c "k_ticks k + d"] c idle r(4,5) by auto
  have "\<exists>k'. switch_away c (?k1\<lparr>k_sched := s2\<rparr>) = Some (Inr (), k') \<and> step_ok x k k'"
    by (rule handing_over(1) [OF k r(1,3,2) rot ok2]) (use r idle in simp_all)
  then show ?thesis
    using t c d by (auto simp: sleep_ticks_def Let_def)
qed

lemma kernel_ok_ticks [simp]: "kernel_ok (k\<lparr>k_ticks := n\<rparr>) = kernel_ok k"
  by (auto simp: kernel_ok_def space_ok_def running_task_def split: option.split)

lemma step_ok_ticks [simp]: "step_ok x (k\<lparr>k_ticks := n\<rparr>) k' = step_ok x k k'"
  by (simp add: step_ok_def handover_def in_line_def)

lemma preempt_step:
  assumes k: "kernel_ok k" and c: "s_current (k_sched k) = Some c"
  shows "\<exists>k'. preempt_from_timer k = Some k' \<and> step_ok x k k'"
proof -
  note s = kernel_okD(1) [OF k] and idle = kernel_okD(4) [OF k c]
  let ?s1 = "wake_expired_sleepers (k_ticks k) (k_sched k)"
  have s1: "sched_ok ?s1" by (rule wake_expired_sleepers_ok [OF s])
  note frame = wake_expired_frame [OF s, where now = "k_ticks k"]
  have cur1: "s_current ?s1 = Some c" and idle1: "s_idle_index ?s1 \<noteq> None"
    using c idle by (simp_all add: wake_expired_sleepers_def upd_tasks_def)
  obtain y s2 n where t: "transition_current Ready ?s1 = (Inr y, s2)"
    and rot: "rotates c n ?s1 s2" and ok2: "sched_ok s2"
    using transition_rotates [OF s1 cur1 idle1, of Ready] by auto
  show ?thesis
  proof (cases "n = c")
    case True
    have "step_ok x k (k\<lparr>k_sched := s2\<rparr>)"
      by (rule rotate_same_step [OF k frame(1) s1 frame(2) rot [unfolded True] ok2]) (use idle1 in auto)
    then show ?thesis
      using t c True rotatesD(1) [OF rot] by (simp add: preempt_from_timer_def Let_def)
  next
    case False
    have "\<exists>k'. switch_away c (k\<lparr>k_sched := s2\<rparr>) = Some (Inr (), k') \<and> step_ok x k k'"
      by (rule handing_over(1) [OF k frame(1) s1 frame(2) rot ok2 idle1]) simp_all
    then show ?thesis
      using t c False rotatesD(1) [OF rot] by (auto simp: preempt_from_timer_def Let_def)
  qed
qed

lemma nth_terminate_siblings:
  assumes "i < length (s_tasks s)"
  shows "s_tasks (terminate_siblings c parent code s) ! i = map_option (\<lambda>t.
    if i \<noteq> c \<and> t_parent t = Some parent \<and> t_state t \<noteq> Terminated
    then t\<lparr>t_exit_code := code, t_state := Terminated\<rparr> else t) (s_tasks s ! i)"
  using assms by (auto simp: terminate_siblings_def split: option.split)

lemma terminate_siblings_simps [simp]:
  "s_current (terminate_siblings c parent code s) = s_current s"
  "s_idle_index (terminate_siblings c parent code s) = s_idle_index s"
  "s_next_id (terminate_siblings c parent code s) = s_next_id s"
  "length (s_tasks (terminate_siblings c parent code s)) = length (s_tasks s)"
  by (simp_all add: terminate_siblings_def)

lemma terminate_siblings_ok:
  assumes s: "sched_ok s" and c: "s_current s = Some c"
  shows "sched_ok (terminate_siblings c parent code s)"
proof -
  have "\<exists>t'. s_tasks (terminate_siblings c parent code s) ! i = Some t' \<and> t_id t' = t_id t \<and> task_ok s i t'"
    if "i < MAX_TASKS" "s_tasks s ! i = Some t" for i t
    using that sched_okD(1) [OF s] sched_okD(8) [OF s that] c
    by (auto simp: nth_terminate_siblings task_ok_def)
  moreover have "s_tasks (terminate_siblings c parent code s) ! i = None"
    if "i < MAX_TASKS" "s_tasks s ! i = None" for i
    using that sched_okD(1) [OF s] by (simp add: nth_terminate_siblings)
  ultimately have "sched_ok (s\<lparr>s_tasks := s_tasks (terminate_siblings c parent code s)\<rparr>)"
    using sched_okD(1) [OF s] by (intro sched_ok_map [OF s]) auto
  then show ?thesis by (simp add: terminate_siblings_def)
qed

lemma terminate_siblings_frame:
  assumes s: "sched_ok s"
  shows "sched_frame s (terminate_siblings c parent code s)"
  using sched_okD(1) [OF s]
  by (auto simp: sched_frame_def nth_terminate_siblings same_task_def task_root_def)

lemma exit_step:
  assumes k: "kernel_ok k" and c: "s_current (k_sched k) = Some c" and run: "\<not> idle_runs k"
  shows "\<exists>k'. exit_current_with_status_and_group code g k = Some k' \<and> step_ok (Exit code g) k k'"
proof -
  note s = kernel_okD(1) [OF k] and idle = kernel_okD(4) [OF k c]
  let ?k1 = "save_current_user_rsp c k"
  note r = save_rsp_frame [OF s, where c = c]
  let ?s1 = "k_sched ?k1"
  have c1: "s_current ?s1 = Some c" using r(4) c by simp
  define s2 where "s2 = (if g then (case Option.bind (s_tasks ?s1 ! c) t_parent of
      None \<Rightarrow> ?s1 | Some parent \<Rightarrow> terminate_siblings c parent code ?s1) else ?s1)"
  have s2_ok: "sched_ok s2" "sched_frame ?s1 s2" "keeps_ready (\<lambda>y. spares y (Exit code g)) ?s1 s2"
      "s_current s2 = Some c" "s_idle_index s2 = s_idle_index ?s1"
    using r(3) c1 terminate_siblings_ok [OF r(3) c1] terminate_siblings_frame [OF r(3)]
    by (auto simp: s2_def keeps_ready_def split: option.split)
  obtain t2 where t2: "s_tasks s2 ! c = Some t2" using sched_okD(5) [OF s2_ok(1,4)] by auto
  let ?u = "upd_task c (\<lambda>t. t\<lparr>t_exit_code := code\<rparr>) s2"
  have u: "sched_ok ?u" by (rule sched_ok_change [OF s2_ok(1)]) (auto simp: task_ok_def)
  have uf: "sched_frame s2 ?u" "keeps_ready P s2 ?u" for P
    by (auto intro!: sched_frame_upd keeps_ready_upd sched_okD(1) [OF s2_ok(1)] simp: same_task_def task_root_def)
  let ?s3 = "wake_parent c ?u"
  have s3: "sched_ok ?s3" by (rule wake_parent_ok [OF u])
  note wf = wake_parent_frame [OF u, where i = c]
  have frame: "sched_frame (k_sched k) ?s3"
    using sched_frame_trans [OF sched_frame_trans [OF r(1) s2_ok(2)] sched_frame_trans [OF uf(1) wf(1)]] .
  have ready: "keeps_ready (\<lambda>y. spares y (Exit code g)) (k_sched k) ?s3"
    using keeps_ready_trans [OF keeps_ready_trans [OF r(2) s2_ok(3)] keeps_ready_trans [OF uf(2) wf(2)]] .
  have c3: "s_current ?s3 = Some c" using sched_frameD(1) [OF frame] c by simp
  have i3: "s_idle_index ?s3 = s_idle_index (k_sched k)"
    using s2_ok(5) r(5) by (auto simp: wake_parent_def split: option.split)
  have "s_idle_index (k_sched k) \<noteq> Some c" using idle_runs_index [OF s c] run by simp
  then obtain y s4 n where t: "transition_current Terminated ?s3 = (Inr y, s4)"
    and rot: "rotates c n ?s3 s4" and ok4: "sched_ok s4"
    using transition_rotates [OF s3 c3, of Terminated] idle i3 by auto
  have "\<exists>k'. switch_away c (?k1\<lparr>k_sched := s4\<rparr>) = Some (Inr (), k') \<and> step_ok (Exit code g) k k'"
    by (rule handing_over(1) [OF k frame s3 ready rot ok4]) (use r idle i3 in simp_all)
  then obtain k' where k': "switch_away c (?k1\<lparr>k_sched := s4\<rparr>) = Some (Inr (), k')" "step_ok (Exit code g) k k'"
    by blast
  have "exit_current_with_status_and_group code g k = Some k'"
    unfolding exit_current_with_status_and_group_def Let_def c option.case s2_def [symmetric]
    using t2 t k'(1) by simp
  then show ?thesis using k'(2) by blast
qed

lemma activate_kernel_ok:
  assumes "kernel_root k = Some root"
  shows "activate_task_address_space None k = Some (k\<lparr>k_cr3 := root\<rparr>)"
  using assms by (auto simp: activate_task_address_space_def activate_kernel_address_space_def
      kernel_root_def Let_def split: option.split_asm sum.split_asm)

lemma idle_round_step:
  assumes k: "kernel_ok k" and run: "idle_runs k"
  shows "\<exists>k'. idle_round k = Some k' \<and> step_ok x k k'"
proof -
  obtain c t where c: "s_current (k_sched k) = Some c" and t: "s_tasks (k_sched k) ! c = Some t" "t_is_idle t"
    using run by (auto simp: idle_runs_def running_task_def split: option.split_asm bind_split_asm)
  note s = kernel_okD(1) [OF k] and idle = kernel_okD(4) [OF k c]
  let ?s = "wake_expired_sleepers (k_ticks k) (k_sched k)"
  have s1: "sched_ok ?s" by (rule wake_expired_sleepers_ok [OF s])
  note frame = wake_expired_frame [OF s, where now = "k_ticks k"]
  have c1: "s_current ?s = Some c" and idle1: "s_idle_index ?s \<noteq> None"
    using c idle by (simp_all add: wake_expired_sleepers_def upd_tasks_def)
  show ?thesis
  proof (cases "has_live_non_idle_tasks ?s")
    case True
    have "\<exists>k'. yield_now (k\<lparr>k_sched := ?s\<rparr>) = Some (Inr (), k') \<and> step_ok x k k'"
      by (rule yield_now_after [OF k]) (use s1 frame idle1 c1 in simp_all)
    then show ?thesis using True by (auto simp: idle_round_def Let_def)
  next
    case False
    obtain t1 where t1: "s_tasks ?s ! c = Some t1" "same_task t t1"
      using sched_frameD(4) [OF frame(1) sched_okD(4) [OF s c] c t(1)] by auto
    obtain root where root: "kernel_root k = Some root" using kernel_okD(2) [OF k] by auto
    have ok1: "task_ok ?s c t1" by (rule sched_okD(8) [OF s1 sched_okD(4) [OF s c] t1(1)])
    let ?s2 = "(upd_task c (\<lambda>t. t\<lparr>t_state := Ready\<rparr>) ?s)\<lparr>s_current := None\<rparr>"
    have s2: "sched_ok ?s2"
      by (rule sched_ok_vacate [OF s1 c1 t1(1)]) (use ok1 in \<open>auto simp: task_ok_def\<close>)
    let ?k' = "leafos_context_switch (Some c) None (k\<lparr>k_sched := ?s2, k_cr3 := root\<rparr>)"
    have "idle_round k = Some ?k'"
      using False c1 t1 t(2) activate_kernel_ok [of "k\<lparr>k_sched := ?s2\<rparr>" root] root
      by (simp add: idle_round_def Let_def same_task_def)
    moreover have "kernel_ok ?k'"
      using sched_ok_context [OF s2] root by (simp add: kernel_ok_def space_ok_def running_task_def)
    moreover have "in_line x k ?k'"
    proof -
      have "False" if h: "j < MAX_TASKS" "s_tasks (k_sched k) ! j = Some u" "t_state u = Ready" "\<not> t_is_idle u" for j u
      proof -
        obtain u' where u': "s_tasks ?s ! j = Some u'" "t_state u' = Ready" "t_is_idle u' = t_is_idle u"
          using frame(2) [of "\<lambda>_. True"] h unfolding keeps_ready_def by blast
        then have "Some u' \<in> set (s_tasks ?s)"
          using h(1) sched_okD(1) [OF s1] by (metis nth_mem)
        then show False
          using False u' h by (auto simp: has_live_non_idle_tasks_def live_non_idle_def)
      qed
      then show ?thesis by (auto simp: in_line_def)
    qed
    moreover have "handover k ?k'"
      unfolding handover_def
    proof (intro conjI allI impI)
      show "s_next_id (k_sched k) \<le> s_next_id (k_sched ?k')" using sched_frameD(2) [OF frame(1)] by simp
      fix i t'
      assume i: "i < MAX_TASKS" and t': "s_tasks (k_sched ?k') ! i = Some t' \<and> t_id t' < s_next_id (k_sched k)"
      obtain u where u: "s_tasks ?s ! i = Some u" "t_id t' = t_id u"
          "t_context t' = (if i = c then k_cpu k else t_context u)"
        using t' i sched_okD(1) [OF s1] by (cases "i = c") (auto simp: nth_upd_task)
      obtain t0 where "s_tasks (k_sched k) ! i = Some t0" "same_task t0 u"
        using sched_frameD(3) [OF frame(1) i u(1)] t' u by auto
      then show "\<exists>t. s_tasks (k_sched k) ! i = Some t \<and> t_id t = t_id t'
          \<and> (if s_current (k_sched k) = Some i
             then s_current (k_sched ?k') \<noteq> Some i \<longrightarrow> t_context t' = k_cpu k
             else if s_current (k_sched ?k') = Some i then k_cpu ?k' = t_context t
             else t_context t' = t_context t)"
        using u c by (auto simp: same_task_def)
    qed
    ultimately show ?thesis by (auto simp: step_ok_def)
  qed
qed

section \<open>The other operations\<close>

lemma create_kernel_task_Inr:
  assumes s: "sched_ok s" and res: "create_kernel_task tr base entry parent s = (Inr x, s')"
  obtains i t where "i < MAX_TASKS" "s_tasks s ! i = None" "x = s_next_id s" "t_id t = s_next_id s"
    "t_state t = Ready" "t_parent t = parent" "t_user t = None" "s_next_id s' = Suc (s_next_id s)"
    "s_tasks s' = (s_tasks s)[i := Some t]" "s_current s' = s_current s" "s_idle_index s' = s_idle_index s"
proof -
  obtain i where i: "check_task_capacity s = Inr i" and next_ok: "Suc (s_next_id s) < u64_limit"
    using res by (auto simp: create_kernel_task_def split: sum.split_asm option.split_asm)
  obtain cx st top0 where c: "create_task_stack tr base = Inr (cx, st, top0)"
    using res i next_ok by (auto simp: create_kernel_task_def split: sum.split_asm option.split_asm)
  note free = free_capacity [OF s i]
  show thesis
    by (rule that [of i "\<lparr>t_id = s_next_id s, t_parent = parent, t_state = Ready, t_exit_code = None,
                 t_context = cx, t_entry = Some entry, t_user = None, t_stack = Some st,
                 t_stack_top = Some top0, t_wake_at = None, t_is_idle = False,
                 t_fds = initial_table\<rparr>", OF free])
      (use res i next_ok c in \<open>auto simp: create_kernel_task_def insert_task_def checked_add_def\<close>)
qed

lemma install_idle_ok:
  assumes s: "sched_ok s" and none: "s_current s = None"
    and res: "install_idle tr base entry s = (r, s')"
  shows "sched_ok s' \<and> sched_frame s s' \<and> (r = Inr () \<longrightarrow> s_idle_index s' \<noteq> None)"
proof (cases "s_idle_index s = None")
  case True
  obtain r1 s1 where c: "create_kernel_task tr base entry None s = (r1, s1)" by fastforce
  have s1: "sched_ok s1" "sched_frame s s1"
    using create_kernel_task_ok [OF s, of tr base entry None]
      create_kernel_task_frame(1) [OF s, where tr = tr and base = base and entry = entry and parent = None] c
    by auto
  show ?thesis
  proof (cases r1)
    case (Inl e)
    then show ?thesis using res True c s1 by (auto simp: install_idle_def)
  next
    case (Inr x)
    obtain i t where i: "i < MAX_TASKS" "s_tasks s ! i = None" "x = s_next_id s" "t_id t = s_next_id s"
      "t_state t = Ready" "t_parent t = None" "t_user t = None" "s_next_id s1 = Suc (s_next_id s)"
      "s_tasks s1 = (s_tasks s)[i := Some t]" "s_current s1 = s_current s" "s_idle_index s1 = s_idle_index s"
      by (rule create_kernel_task_Inr [OF s c [unfolded Inr]], rule that)
    have at_i: "s_tasks s1 ! i = Some t" using i sched_okD(1) [OF s] by simp
    show ?thesis
    proof (cases "find_task x s1")
      case None
      then show ?thesis using res True c s1 Inr by (auto simp: install_idle_def)
    next
      case (Some j)
      obtain u where "s_tasks s1 ! j = Some u" "t_id u = x" using find_task_SomeD(2) [OF Some] by auto
      then have j: "j = i"
        using sched_okD(9) [OF s1(1), of j i u t] find_task_SomeD(1) [OF Some] sched_okD(1) [OF s1(1)] i at_i by simp
      let ?s2 = "(upd_task i (\<lambda>t. t\<lparr>t_is_idle := True\<rparr>) s1)\<lparr>s_idle_index := Some i\<rparr>"
      have s': "s' = ?s2" "r = Inr ()" using res True c Inr Some j by (auto simp: install_idle_def)
      have len: "length (s_tasks s1) = MAX_TASKS" by (rule sched_okD(1) [OF s1(1)])
      have at2: "s_tasks ?s2 ! k = (if k = i then Some (t\<lparr>t_is_idle := True\<rparr>) else s_tasks s1 ! k)"
        if "k < MAX_TASKS" for k
        using that at_i len by (simp add: nth_upd_task)
      have old: "s_tasks s1 ! k = s_tasks s ! k" if "k \<noteq> i" for k using that i by simp
      have task: "task_ok ?s2 k v" if k: "k < MAX_TASKS" "s_tasks ?s2 ! k = Some v" for k v
      proof (cases "k = i")
        case True
        then have "v = t\<lparr>t_is_idle := True\<rparr>" using k at2 by simp
        then show ?thesis
          using True i none sched_okD(8) [OF s1(1) i(1) at_i] by (simp add: task_ok_def)
      next
        case neq: False
        then have v: "s_tasks s1 ! k = Some v" using k at2 by simp
        show ?thesis
          using neq True i sched_okD(8) [OF s1(1) k(1) v] by (auto simp: task_ok_def)
      qed
      have uniq: "k = l" if kl: "k < MAX_TASKS" "l < MAX_TASKS" "s_tasks ?s2 ! k = Some v" "s_tasks ?s2 ! l = Some w"
        "t_id v = t_id w" for k l v w
      proof -
        have "\<exists>u. s_tasks s1 ! m = Some u \<and> t_id u = t_id z" if "m < MAX_TASKS" "s_tasks ?s2 ! m = Some z" for m z
          using that at2 [OF that(1)] at_i by (cases "m = i") (auto, metis)
        from this [OF kl(1,3)] this [OF kl(2,4)] show ?thesis
          using sched_okD(9) [OF s1(1) kl(1,2)] kl(5) by auto
      qed
      have "sched_ok ?s2"
      proof (rule sched_okI)
        show "k < MAX_TASKS \<and> s_tasks ?s2 ! k \<noteq> None" if "s_current ?s2 = Some k \<or> s_idle_index ?s2 = Some k" for k
          using that at2 [of i] i none by simp
        show "task_ok ?s2 k v" if "k < MAX_TASKS" "s_tasks ?s2 ! k = Some v" for k v
          using task that by blast
        show "k = l" if "k < MAX_TASKS" "l < MAX_TASKS" "s_tasks ?s2 ! k = Some v" "s_tasks ?s2 ! l = Some w"
          "t_id v = t_id w" for k l v w
          using uniq that by blast
      qed (use sched_okD(2,3) [OF s1(1)] len in simp_all)
      moreover have "sched_frame s ?s2"
        unfolding sched_frame_def using at2 old i none by (auto split: if_split_asm)
      ultimately show ?thesis using s' by simp
    qed
  qed
next
  case False
  then show ?thesis using res s by (simp add: install_idle_def)
qed

lemma step_ok_bootstrap:
  assumes ok: "kernel_ok k'" and none: "s_current (k_sched k) = None"
    and frame: "\<And>i t'. i < MAX_TASKS \<Longrightarrow> s_tasks (k_sched k') ! i = Some t' \<Longrightarrow> t_id t' < s_next_id (k_sched k)
      \<Longrightarrow> \<exists>t. s_tasks (k_sched k) ! i = Some t \<and> t_id t = t_id t' \<and> t_context t' = t_context t"
    and n: "s_next_id (k_sched k) \<le> s_next_id (k_sched k')"
    and cpu: "\<And>i t'. s_current (k_sched k') = Some i \<Longrightarrow> s_tasks (k_sched k') ! i = Some t' \<Longrightarrow> k_cpu k' = t_context t'"
  shows "step_ok x k k'"
proof -
  have "handover k k'"
    unfolding handover_def
  proof (intro conjI allI impI)
    fix i t'
    assume i: "i < MAX_TASKS" and t': "s_tasks (k_sched k') ! i = Some t' \<and> t_id t' < s_next_id (k_sched k)"
    obtain t where "s_tasks (k_sched k) ! i = Some t" "t_id t = t_id t'" "t_context t' = t_context t"
      using frame [OF i, of t'] t' by auto
    then show "\<exists>t. s_tasks (k_sched k) ! i = Some t \<and> t_id t = t_id t'
          \<and> (if s_current (k_sched k) = Some i
             then s_current (k_sched k') \<noteq> Some i \<longrightarrow> t_context t' = k_cpu k
             else if s_current (k_sched k') = Some i then k_cpu k' = t_context t
             else t_context t' = t_context t)"
      using none cpu [of i t'] t' by auto
  qed (rule n)
  then show ?thesis using ok none by (simp add: step_ok_def in_line_def)
qed

lemma run_tasks_step:
  assumes k: "kernel_ok k"
  shows "\<exists>r k'. run_tasks tr base entry k = Some (r, k') \<and> step_ok (Run tr base entry) k k'"
proof (cases "s_current (k_sched k)")
  case (Some c)
  then have "run_tasks tr base entry k = Some (Inl AlreadyStarted, k)"
    using kernel_okD(4) [OF k Some]
    by (auto simp: run_tasks_def install_idle_def scheduler_start_def)
  then show ?thesis
    by (auto intro!: quiet_step [OF k] kernel_okD(1) [OF k])
next
  case none: None
  note s = kernel_okD(1) [OF k]
  obtain r1 s1 where i: "install_idle tr base entry (k_sched k) = (r1, s1)" by fastforce
  have s1: "sched_ok s1" "sched_frame (k_sched k) s1" "r1 = Inr () \<Longrightarrow> s_idle_index s1 \<noteq> None"
    using install_idle_ok [OF s none i] by auto
  have cur1: "s_current s1 = None" using sched_frameD(1) [OF s1(2)] none by simp
  have old: "\<exists>t. s_tasks (k_sched k) ! j = Some t \<and> t_id t = t_id t' \<and> t_context t' = t_context t"
    if "j < MAX_TASKS" "s_tasks s1 ! j = Some t'" "t_id t' < s_next_id (k_sched k)" for j t'
    using sched_frameD(3) [OF s1(2) that(1,2)] that(3) by (auto simp: same_task_def)
  show ?thesis
  proof (cases r1)
    case (Inl e)
    define k' where k': "k' = k\<lparr>k_sched := s1\<rparr>"
    have run: "run_tasks tr base entry k = Some (Inl e, k')" using Inl i k' by (simp add: run_tasks_def)
    have "space_ok k'" by (rule quiet_space_ok [OF k]) (use s1 k' in simp_all)
    then have "kernel_ok k'" using k k' s1 cur1 by (simp add: kernel_ok_def)
    then have "step_ok (Run tr base entry) k k'"
      by (rule step_ok_bootstrap [OF _ none]) (use old k' cur1 sched_frameD(2) [OF s1(2)] in simp_all)
    then show ?thesis using run by blast
  next
    case (Inr u)
    have idle1: "s_idle_index s1 \<noteq> None" using s1(3) Inr by simp
    obtain n t where n: "n < MAX_TASKS" "s_tasks s1 ! n = Some t"
      and st: "scheduler_start s1 = (Inr (t_id t), runs n s1)"
      using select_next_total [OF s1(1) cur1 idle1, of 0] cur1 by (auto simp: scheduler_start_def)
    let ?k1 = "k\<lparr>k_sched := runs n s1\<rparr>"
    have ok2: "sched_ok (runs n s1)" by (rule sched_ok_runs [OF s1(1) cur1 n])
    have len: "length (s_tasks s1) = MAX_TASKS" by (rule sched_okD(1) [OF s1(1)])
    have at_n: "s_tasks (runs n s1) ! n = Some (t\<lparr>t_state := Running\<rparr>)" using n len by (simp add: nth_runs)
    obtain root where root: "kernel_root ?k1 = Some root" using kernel_okD(2) [OF k] by auto
    obtain rsp krsp cr3 where a: "activate_task_address_space (Some n) ?k1 =
        Some (?k1\<lparr>k_user_rsp := rsp, k_kernel_rsp := krsp, k_cr3 := cr3\<rparr>)" (is "_ = Some ?k2")
      and cr3: "Some cr3 = (if t_user t = None then kernel_root k else task_root t)"
      using activate_task_ok [of ?k1 root n "t\<lparr>t_state := Running\<rparr>"] ok2 root n at_n
      by (auto simp: task_root_def)
    define k' where k': "k' = leafos_context_switch None (Some n) ?k2"
    have run: "run_tasks tr base entry k = Some (Inr (), k')"
      using i Inr st a k' by (simp add: run_tasks_def Let_def)
    have sched': "k_sched k' = runs n s1" and cpu: "k_cpu k' = t_context t"
      using k' at_n by (simp_all add: leafos_context_switch_def saved_context_def store_context_def Let_def)
    have "space_ok k'"
      using cr3 at_n k' by (simp add: space_ok_def running_task_def task_root_def)
    then have "kernel_ok k'"
      using ok2 idle1 k' root by (simp add: kernel_ok_def)
    then have "step_ok (Run tr base entry) k k'"
    proof (rule step_ok_bootstrap [OF _ none])
      show "\<exists>u. s_tasks (k_sched k) ! j = Some u \<and> t_id u = t_id t' \<and> t_context t' = t_context u"
        if "j < MAX_TASKS" "s_tasks (k_sched k') ! j = Some t'" "t_id t' < s_next_id (k_sched k)" for j t'
      proof (cases "j = n")
        case True
        then have "t' = t\<lparr>t_state := Running\<rparr>" using that sched' at_n by simp
        then show ?thesis using old [of n t] n True that by simp
      next
        case False
        then show ?thesis using that old n len by (simp add: sched' nth_runs)
      qed
    qed (use cpu at_n sched' sched_frameD(2) [OF s1(2)] in auto)
    then show ?thesis using run by blast
  qed
qed

lemma run_tasks_return_step:
  assumes k: "kernel_ok k" and none: "s_current (k_sched k) = None"
  shows "step_ok RunReturn k (run_tasks_return k)"
proof -
  note s = kernel_okD(1) [OF k]
  have same: "step_ok RunReturn k k"
    by (rule quiet_step [OF k s]) simp_all
  show ?thesis
  proof (cases "s_idle_index (k_sched k)")
    case None
    then show ?thesis using same by (simp add: run_tasks_return_def Let_def)
  next
    case (Some i)
    obtain t where t: "s_tasks (k_sched k) ! i = Some t" using sched_okD(7) [OF s Some] by auto
    have i: "i < MAX_TASKS" by (rule sched_okD(6) [OF s Some])
    let ?s = "k_sched k"
    let ?s' = "?s\<lparr>s_idle_index := None, s_tasks := (s_tasks ?s)[i := None]\<rparr>"
    have len: "length (s_tasks ?s) = MAX_TASKS" by (rule sched_okD(1) [OF s])
    have orig: "j \<noteq> i \<and> s_tasks ?s ! j = Some u" if "j < MAX_TASKS" "s_tasks ?s' ! j = Some u" for j u
      using that i len by (cases "j = i") auto
    have s': "sched_ok ?s'"
    proof (rule sched_okI)
      show "task_ok ?s' j u" if "j < MAX_TASKS" "s_tasks ?s' ! j = Some u" for j u
        using orig [OF that] sched_okD(8) [OF s that(1)] Some by (auto simp: task_ok_def)
      show "j = l" if "j < MAX_TASKS" "l < MAX_TASKS" "s_tasks ?s' ! j = Some v" "s_tasks ?s' ! l = Some w"
        "t_id v = t_id w" for j l v w
        using orig [OF that(1,3)] orig [OF that(2,4)] sched_okD(9) [OF s that(1,2)] that(5) by blast
    qed (use none sched_okD(1-3) [OF s] in simp_all)
    let ?k' = "k\<lparr>k_sched := ?s', k_world := drop_table (t_fds t) (k_world k)\<rparr>"
    have "kernel_ok ?k'"
      using k s' none by (simp add: kernel_ok_def space_ok_def running_task_def)
    then have "step_ok RunReturn k ?k'"
      by (rule step_ok_bootstrap [OF _ none]) (use orig none in auto)
    then show ?thesis
      using same Some t by (auto simp: run_tasks_return_def Let_def)
  qed
qed

text \<open>Unmapping pages and releasing an address space keep the kernel's own root table.\<close>

definition cell_root :: "'pt manager_cell \<Rightarrow> nat option" where
  "cell_root cell = (case cell of Some (Inr m) \<Rightarrow> Some (mm_kernel_root m) | _ \<Rightarrow> None)"

lemma kernel_root_cell: "kernel_root k = cell_root (k_mem k)"
  by (simp add: kernel_root_def cell_root_def)

lemma clean_up_root: "clean_up_page T root page m = Some m' \<Longrightarrow> mm_kernel_root m' = mm_kernel_root m"
  by (auto simp: clean_up_page_def split: prod.split_asm)

lemma must_reclaim_root: "must_reclaim f m = Some m' \<Longrightarrow> mm_kernel_root m' = mm_kernel_root m"
  by (auto simp: must_reclaim_def split: prod.split_asm bool.split_asm)

lemma unmap_page_root: "unmap_page T root page m = Some (r, m') \<Longrightarrow> mm_kernel_root m' = mm_kernel_root m"
  by (auto simp: unmap_page_def unmap_from_def Let_def dest!: clean_up_root must_reclaim_root
      split: if_split_asm option.split_asm prod.split_asm sum.split_asm)

lemma with_manager_root:
  assumes "with_manager f cell = Some (r, cell')"
    and "\<And>m r m'. f m = Some (r, m') \<Longrightarrow> mm_kernel_root m' = mm_kernel_root m"
  shows "cell_root cell' = cell_root cell"
  using assms by (auto simp: with_manager_def cell_root_def split: option.split_asm sum.split_asm)

lemma destroy_pages_root:
  "destroy_pages T root pages cell = Some (r, pages', cell') \<Longrightarrow> cell_root cell' = cell_root cell"
proof (induction T root pages cell rule: destroy_pages.induct)
  case (1 T root pages cell)
  have w: "cell_root c = cell_root cell"
    if "with_manager (unmap_page T root (fst (last pages))) cell = Some (q, c)" for q c
    using with_manager_root [OF that] unmap_page_root by metis
  show ?case
  proof (cases "pages = []")
    case True
    then show ?thesis using 1(2) by (simp add: destroy_pages.simps)
  next
    case False
    obtain q c where q: "with_manager (unmap_page T root (fst (last pages))) cell = Some (q, c)"
      using 1(2) False by (auto simp: destroy_pages.simps [of T root pages] split: option.split_asm)
    show ?thesis
    proof (cases "\<exists>u. q = Inr (Inr u)")
      case True
      then show ?thesis
        using 1(1) [OF False q] 1(2) False q w [OF q] by (auto simp: destroy_pages.simps [of T root pages])
    next
      case other: False
      then show ?thesis
        using 1(2) False q w [OF q]
        by (auto simp: destroy_pages.simps [of T root pages] split: sum.split_asm)
    qed
  qed
qed

lemma mm_deallocate_root: "mm_deallocate_frame f m = (r, m') \<Longrightarrow> mm_kernel_root m' = mm_kernel_root m"
  by (auto simp: mm_deallocate_frame_def split: if_split_asm prod.split_asm bool.split_asm)

lemma as_destroy_cell_root:
  assumes "as_destroy T cr3 a cell = Some (r, a', cell')"
  shows "cell_root cell' = cell_root cell"
proof -
  have w: "cell_root c2 = cell_root c" if "with_manager (\<lambda>m. Some (mm_deallocate_frame x m)) c = Some (q, c2)" for x c q c2
    by (rule with_manager_root [OF that]) (auto dest: mm_deallocate_root)
  show ?thesis
    using assms
    by (auto simp: as_destroy_def Let_def dest!: destroy_pages_root w
        split: option.split_asm if_split_asm prod.split_asm sum.split_asm)
qed

lemma reap_terminated_root:
  assumes "reap_terminated T cr3 i s w cell = Some (r, s', w', cell')"
  shows "cell_root cell' = cell_root cell" "s_idle_index s' = s_idle_index s"
  using assms by (auto simp: reap_terminated_def dest!: as_destroy_cell_root
      split: option.split_asm if_split_asm prod.split_asm sum.split_asm)

lemma destroy_unspawned_root:
  assumes "destroy_unspawned_address_space T space k = Some (r, k')"
  shows "k_sched k' = k_sched k \<and> k_cr3 k' = k_cr3 k \<and> kernel_root k' = kernel_root k"
  using assms by (auto simp: destroy_unspawned_address_space_def kernel_root_cell dest!: as_destroy_cell_root
      split: option.split_asm)

lemma create_user_task_idle:
  "create_user_task tr base space cx parent ms cs s w = (r, s', w', space') \<Longrightarrow> s_idle_index s' = s_idle_index s"
  by (auto simp: create_user_task_def Let_def split: option.split_asm sum.split_asm prod.split_asm)

lemma spawn_user_step:
  assumes k: "kernel_ok k" and space: "as_root space \<noteq> None"
    and res: "spawn_user_with_arguments_and_fds T tr base space entry stack argc argv ms cs k = Some (r, k')"
  shows "step_ok (SpawnUser tr base space entry stack argc argv ms cs) k k'"
proof (cases "for_address_space_with_arguments space entry stack argc argv")
  case (Inl e)
  then obtain r1 where "destroy_unspawned_address_space T (Some space) k = Some (r1, k')"
    using res by (auto simp: spawn_user_with_arguments_and_fds_def)
  from destroy_unspawned_root [OF this] show ?thesis
    by (intro quiet_step [OF k]) (use kernel_okD(1) [OF k] in simp_all)
next
  case (Inr cx)
  note s = kernel_okD(1) [OF k]
  let ?c = "if s_idle_index (k_sched k) = None \<and> free_slots (k_sched k) \<le> 1
    then (Inl Full, k_sched k, k_world k, Some space)
    else create_user_task tr base (Some space) cx (current_task (k_sched k)) ms cs (k_sched k) (k_world k)"
  obtain r1 s1 w1 left where c: "?c = (r1, s1, w1, left)" by (metis prod_cases4)
  have s1: "sched_ok s1 \<and> sched_frame (k_sched k) s1 \<and> keeps_ready P (k_sched k) s1
      \<and> s_idle_index s1 = s_idle_index (k_sched k)" for P
  proof (cases "s_idle_index (k_sched k) = None \<and> free_slots (k_sched k) \<le> 1")
    case False
    then have u: "create_user_task tr base (Some space) cx (current_task (k_sched k)) ms cs (k_sched k) (k_world k)
        = (r1, s1, w1, left)" using c by (simp only: if_False)
    show ?thesis
      using create_user_task_ok [OF s _ u] create_user_task_frame [OF s u] create_user_task_idle [OF u] space by simp
  qed (use c s in simp)
  have run: "spawn_user_with_arguments_and_fds T tr base space entry stack argc argv ms cs k =
      (case r1 of Inr task_id \<Rightarrow> Some (Inr task_id, k\<lparr>k_sched := s1, k_world := w1\<rparr>)
       | Inl e \<Rightarrow> map_option (\<lambda>(r2, k2). (bind_res r2 (\<lambda>_. Inl e), k2))
           (destroy_unspawned_address_space T left (k\<lparr>k_sched := s1, k_world := w1\<rparr>)))"
    unfolding spawn_user_with_arguments_and_fds_def Inr sum.case Let_def c prod.case by (rule refl)
  have "k_sched k' = s1 \<and> k_cr3 k' = k_cr3 k \<and> kernel_root k' = kernel_root k"
  proof (cases r1)
    case (Inr x)
    then show ?thesis using res by (auto simp: run)
  next
    case (Inl e)
    then obtain r2 where "destroy_unspawned_address_space T left (k\<lparr>k_sched := s1, k_world := w1\<rparr>) = Some (r2, k')"
      using res by (auto simp: run)
    from destroy_unspawned_root [OF this] show ?thesis by simp
  qed
  then show ?thesis
    by (intro quiet_step [OF k]) (use s1 in simp_all)
qed

lemma reap_step:
  assumes k: "kernel_ok k"
    and res: "reap_terminated T (k_cr3 k) i (k_sched k) (k_world k) (k_mem k) = Some (r, s, w, cell)"
    and x: "\<not> gives_up x"
  shows "step_ok x k (k\<lparr>k_sched := s, k_world := w, k_mem := cell\<rparr>)"
  by (rule quiet_step [OF k])
    (use reap_terminated_ok [OF kernel_okD(1) [OF k] res] reap_terminated_frame [OF kernel_okD(1) [OF k] res]
      reap_terminated_root [OF res] x in \<open>simp_all add: kernel_root_cell\<close>)

lemma same_step: "kernel_ok k \<Longrightarrow> \<not> gives_up x \<Longrightarrow> step_ok x k k"
  by (rule quiet_step) (auto simp: kernel_okD(1))

lemma wait_step:
  assumes k: "kernel_ok k" and run: "\<not> idle_runs k" and res: "wait_for_child T child k = Some (r, k')"
  shows "step_ok (Wait child) k k'"
proof (cases "s_current (k_sched k)")
  case None
  then show ?thesis using res same_step [OF k] by (simp add: wait_for_child_def)
next
  case (Some c)
  note s = kernel_okD(1) [OF k] and idle = kernel_okD(4) [OF k Some]
  have same: "step_ok (Wait child) k k" by (rule same_step [OF k]) simp
  let ?k1 = "save_current_user_rsp c k"
  note rs = save_rsp_frame [OF s, where c = c]
  have "s_idle_index (k_sched k) \<noteq> Some c" using idle_runs_index [OF s Some] run by simp
  then obtain y s2 n where t: "transition_current Blocked (k_sched ?k1) = (Inr y, s2)"
    and rot: "rotates c n (k_sched ?k1) s2" and ok2: "sched_ok s2"
    using transition_rotates [OF rs(3), of c Blocked] Some idle rs(4,5) by auto
  have "\<exists>k2. switch_away c (?k1\<lparr>k_sched := s2\<rparr>) = Some (Inr (), k2) \<and> step_ok (Wait child) k k2"
    by (rule handing_over(1) [OF k rs(1,3,2) rot ok2]) (use rs idle in simp_all)
  then obtain k2 where k2: "switch_away c (?k1\<lparr>k_sched := s2\<rparr>) = Some (Inr (), k2)" "step_ok (Wait child) k k2"
    by blast
  show ?thesis
    using res same k2 t Some reap_step [OF k, of T, where x = "Wait child"]
    by (auto simp: wait_for_child_def Let_def split: option.split_asm sum.split_asm if_split_asm prod.split_asm)
qed

lemma set_fd_frame:
  assumes s: "sched_ok (k_sched k)"
  shows "sched_ok (k_sched (set_current_fd c n d k))" "sched_frame (k_sched k) (k_sched (set_current_fd c n d k))"
    "keeps_ready P (k_sched k) (k_sched (set_current_fd c n d k))"
    "s_idle_index (k_sched (set_current_fd c n d k)) = s_idle_index (k_sched k)"
    "k_cr3 (set_current_fd c n d k) = k_cr3 k" "kernel_root (set_current_fd c n d k) = kernel_root k"
proof -
  have "sched_ok (upd_task c (\<lambda>t. t\<lparr>t_fds := (t_fds t)[n := d]\<rparr>) (k_sched k))"
    by (rule sched_ok_change [OF s]) (auto simp: task_ok_def)
  then show "sched_ok (k_sched (set_current_fd c n d k))" by (simp add: set_current_fd_def)
  show "sched_frame (k_sched k) (k_sched (set_current_fd c n d k))"
    "keeps_ready P (k_sched k) (k_sched (set_current_fd c n d k))"
    by (auto simp: set_current_fd_def same_task_def task_root_def
        intro!: sched_frame_upd keeps_ready_upd sched_okD(1) [OF s])
qed (simp_all add: set_current_fd_def)

lemma world_step:
  assumes "kernel_ok k" "\<not> gives_up x"
  shows "step_ok x k (k\<lparr>k_world := w\<rparr>)"
  by (rule quiet_step [OF assms(1)]) (use assms kernel_okD(1) [OF assms(1)] in simp_all)

lemma set_fd_step:
  assumes k: "kernel_ok k" and x: "\<not> gives_up x"
  shows "step_ok x k (set_current_fd c n d (k\<lparr>k_world := w\<rparr>))"
proof -
  have s: "sched_ok (k_sched (k\<lparr>k_world := w\<rparr>))" using kernel_okD(1) [OF k] by simp
  show ?thesis by (rule quiet_step [OF k]) (use set_fd_frame [OF s] x in simp_all)
qed

lemma set_two_fds_step:
  assumes k: "kernel_ok k" and x: "\<not> gives_up x"
  shows "step_ok x k (set_current_fd c n d (set_current_fd c' n' d' (k\<lparr>k_world := w\<rparr>)))"
proof -
  have s: "sched_ok (k_sched (k\<lparr>k_world := w\<rparr>))" using kernel_okD(1) [OF k] by simp
  note a = set_fd_frame [OF s, where c = c' and n = n' and d = d']
  note b = set_fd_frame [OF a(1), where c = c and n = n and d = d]
  show ?thesis
    by (rule quiet_step [OF k])
      (use a b x sched_frame_trans [OF a(2) b(2)] keeps_ready_trans [OF a(3) b(3)] in simp_all)
qed

lemma install_file_step:
  assumes k: "kernel_ok k" and x: "\<not> gives_up x" and res: "install_file create k = (r, k')"
  shows "step_ok x k k'"
  using res same_step [OF k x] world_step [OF k x] set_fd_step [OF k x]
  by (auto simp: install_file_def split: option.split_asm prod.split_asm if_split_asm)

lemma make_pipe_step:
  assumes k: "kernel_ok k" and res: "create_pipe_for_current k = (r, k')"
  shows "step_ok MakePipe k k'"
  using res world_step [OF k, of MakePipe] set_two_fds_step [OF k, of MakePipe]
  by (auto simp: create_pipe_for_current_def Let_def split: option.split_asm prod.split_asm)

lemma close_fd_step:
  assumes k: "kernel_ok k" and res: "close_current_fd n k = (r, k')"
  shows "step_ok (CloseFd n) k k'"
proof -
  have "step_ok (CloseFd n) k (k1\<lparr>k_sched := wake_all_blocked (k_sched k1)\<rparr>)"
    if k1: "k1 = set_current_fd c n None (k\<lparr>k_world := w\<rparr>)" for c w k1
  proof -
    have s: "sched_ok (k_sched (k\<lparr>k_world := w\<rparr>))" using kernel_okD(1) [OF k] by simp
    note a = set_fd_frame [OF s, where c = c and n = n and d = None, folded k1]
    note b = wake_all_blocked_frame [OF a(1)]
    show ?thesis
      by (rule quiet_step [OF k])
        (use a b sched_frame_trans [OF a(2) b(1)] keeps_ready_trans [OF a(3) b(2)] wake_all_blocked_ok [OF a(1)]
          in \<open>simp_all add: wake_all_blocked_def upd_tasks_def\<close>)
  qed
  then show ?thesis
    using res same_step [OF k, of "CloseFd n"]
    by (auto simp: close_current_fd_def Let_def split: option.split_asm prod.split_asm)
qed

lemma dup_fd_step:
  assumes k: "kernel_ok k" and res: "duplicate_current_fd a b k = (r, k')"
  shows "step_ok (DupFd a b) k k'"
  using res same_step [OF k, of "DupFd a b"] set_fd_step [OF k, of "DupFd a b"]
  by (auto simp: duplicate_current_fd_def Let_def split: option.split_asm prod.split_asm if_split_asm)

lemma sched_step:
  assumes k: "kernel_ok k" and "sched_ok s" "sched_frame (k_sched k) s" "keeps_ready (\<lambda>y. spares y x) (k_sched k) s"
    and "s_idle_index s = s_idle_index (k_sched k)" "\<not> gives_up x"
  shows "step_ok x k (k\<lparr>k_sched := s\<rparr>)"
  by (rule quiet_step [OF k]) (use assms in simp_all)

lemma none_step:
  assumes "kernel_ok k" "s_current (k_sched k) = None"
  shows "step_ok x k k" "step_ok x k (k\<lparr>k_ticks := n\<rparr>)"
  by (rule step_ok_bootstrap; use assms in auto)+

lemma kstep_ok:
  assumes "kstep T D x k k'" and k: "kernel_ok k"
  shows "step_ok x k k'"
  using assms(1)
proof cases
  case (compute c v)
  then show ?thesis by (auto intro!: quiet_step [OF k] kernel_okD(1) [OF k])
next
  case (store a bs r)
  then show ?thesis
    using same_step [OF k, of x] quiet_step [OF k, of "k\<lparr>k_umem := u\<rparr>" x for u] kernel_okD(1) [OF k]
    by (auto simp: copy_to_current_user_def split: sum.split_asm)
next
  case (yield r)
  then show ?thesis
    using yield_now_step [OF k, of _ x] none_step(1) [OF k, of x]
    by (cases "s_current (k_sched k)") (auto simp: yield_now_def)
next
  case timer
  then show ?thesis
    using preempt_step [of "on_interrupt k" _ x] none_step(2) [OF k, of x] k
    by (cases "s_current (k_sched k)") (auto simp: preempt_from_timer_def on_interrupt_def)
next
  case (block r)
  then show ?thesis
    using block_now_step [OF k, of _ x] none_step(1) [OF k, of x]
    by (cases "s_current (k_sched k)") (auto simp: block_now_def)
next
  case (sleep d r)
  show ?thesis
  proof (cases "d = 0")
    case True
    then show ?thesis using sleep same_step [OF k, of x] by (simp add: sleep_ticks_def)
  next
    case False
    then show ?thesis
      using sleep sleep_ticks_step [OF k, of _ d x] none_step(1) [OF k, of x]
      by (cases "s_current (k_sched k)") (auto simp: sleep_ticks_def)
  qed
next
  case (exit code g)
  then show ?thesis
    using exit_step [OF k, of _ code g]
    by (cases "s_current (k_sched k)") (auto simp: exit_current_with_status_and_group_def)
next
  case idle
  then show ?thesis using idle_round_step [OF k, of x] by auto
next
  case (run tr base entry r)
  then show ?thesis using run_tasks_step [OF k, of tr base entry] by auto
next
  case run_return
  then show ?thesis using run_tasks_return_step [OF k] by simp
next
  case (spawn_kernel tr base entry r)
  note f = create_kernel_task_ok [OF kernel_okD(1) [OF k]] create_kernel_task_frame [OF kernel_okD(1) [OF k]]
  have "s_idle_index (snd (create_kernel_task tr base entry p (k_sched k))) = s_idle_index (k_sched k)" for p
    by (auto simp: create_kernel_task_def insert_task_def split: sum.split option.split)
  then have "step_ok x k (k\<lparr>k_sched := snd (create_kernel_task tr base entry p (k_sched k))\<rparr>)" for p
    using f spawn_kernel(1) by (intro sched_step [OF k]) simp_all
  moreover have "k' = k \<or> k' = k\<lparr>k_sched := snd (create_kernel_task tr base entry (current_task (k_sched k)) (k_sched k))\<rparr>"
    using spawn_kernel by (auto simp: spawn_def spawn_into_def Let_def case_prod_beta split: if_split_asm)
  ultimately show ?thesis using same_step [OF k, of x] spawn_kernel(1) by auto
next
  case (spawn_user space tr base entry stack argc argv ms cs r)
  then show ?thesis using spawn_user_step [OF k] by simp
next
  case (wait child r)
  then show ?thesis using wait_step [OF k] by simp
next
  case (wake_task i r)
  note f = wake_ok [OF kernel_okD(1) [OF k], of i] wake_frame [OF kernel_okD(1) [OF k], where i = i]
  have "s_idle_index (snd (wake i (k_sched k))) = s_idle_index (k_sched k)"
    by (auto simp: wake_def split: option.split)
  with wake_task f show ?thesis
    by (auto simp: wake_task_def Let_def intro!: sched_step [OF k] split: prod.split_asm)
next
  case (kill i code r)
  note f = terminate_task_ok [OF kernel_okD(1) [OF k], of i code] terminate_task_frame [OF kernel_okD(1) [OF k], where i = i and code = code]
  have "s_idle_index (snd (terminate_task i code (k_sched k))) = s_idle_index (k_sched k)"
    by (auto simp: terminate_task_def wake_parent_def split: option.split)
  moreover have "(\<lambda>y. y \<noteq> i) = (\<lambda>y. spares y x)" using kill by auto
  ultimately show ?thesis using kill f
    by (auto simp: kernel_terminate_task_def Let_def intro!: sched_step [OF k] split: prod.split_asm)
next
  case wake_all
  then show ?thesis
    using wake_all_blocked_ok [OF kernel_okD(1) [OF k]] wake_all_blocked_frame [OF kernel_okD(1) [OF k]]
    by (auto simp: wake_all_blocked_tasks_def wake_all_blocked_def upd_tasks_def intro!: sched_step [OF k])
next
  case (reap i r)
  then show ?thesis using reap_step [OF k, of T i] by (auto simp: kernel_reap_terminated_def)
next
  case (read_fd n buf r buf')
  then show ?thesis
    using same_step [OF k, of x] world_step [OF k, of x]
    by (auto simp: read_current_fd_def Let_def split: option.split_asm prod.split_asm)
next
  case (write_fd n bs r)
  then show ?thesis
    using same_step [OF k, of x] world_step [OF k, of x]
    by (auto simp: write_current_fd_def Let_def split: option.split_asm prod.split_asm)
next
  case (open_write path r)
  then show ?thesis using install_file_step [OF k, of x] by (simp add: create_file_write_for_current_def)
next
  case (open_read path r)
  then show ?thesis using install_file_step [OF k, of x] by (simp add: create_file_read_for_current_def)
next
  case (make_pipe r)
  then show ?thesis using make_pipe_step [OF k] by simp
next
  case (close_fd n r)
  then show ?thesis using close_fd_step [OF k] by simp
next
  case (dup_fd a b r)
  then show ?thesis using dup_fd_step [OF k] by simp
qed

end
