(* ===== verification/Kernel_Runs.thy ===== *)
theory Kernel_Runs
  imports Kernel_Steps
begin

text \<open>
  Runs of the kernel from its start, and the properties of the tasking part that hold in every
  run: a consistent task table, the right address space, no panics, context switches that lose
  nothing, and freedom from starvation.
\<close>

section \<open>Runs from the start of the kernel\<close>

definition kernel_start :: "'pt MemoryManager \<Rightarrow> 'd World \<Rightarrow> ('d, 'pt) Kernel" where
  "kernel_start m w = \<lparr>k_sched = Scheduler_new, k_world = w, k_mem = Some (Inr m),
    k_cr3 = mm_kernel_root m, k_user_rsp = 0, k_kernel_rsp = 0, k_ticks = 0, k_cpu = CpuContext_empty,
    k_bootstrap = CpuContext_empty, k_umem = (\<lambda>_ _. 0)\<rparr>"

definition kernel_run :: "('pt, 'e) PageTables \<Rightarrow> 'd DiskOps \<Rightarrow> ('d, 'pt) Kernel \<Rightarrow> ('d, 'pt) Kernel \<Rightarrow> bool" where
  "kernel_run T D = (\<lambda>a b. \<exists>x. kstep T D x a b)\<^sup>*\<^sup>*"

lemma kernel_start_ok: "kernel_ok (kernel_start m w)"
  using sched_ok_new
  by (simp add: kernel_ok_def kernel_start_def space_ok_def running_task_def kernel_root_def Scheduler_new_def)

lemma kernel_run_ok:
  assumes "kernel_run T D k k'" "kernel_ok k"
  shows "kernel_ok k'"
  using assms unfolding kernel_run_def
  by (induction rule: rtranclp_induct) (auto dest: kstep_ok simp: step_ok_def)

text \<open>The layout of a new task's stack: the entry of the trampoline is stored 16 bytes below the
  aligned end of the stack, where the saved stack pointer points to.\<close>

lemma create_task_stack_Inr:
  assumes "base + KERNEL_STACK_SIZE < u64_limit" "base mod 8 = 0"
  shows "\<exists>stack. create_task_stack tr base = Inr (CpuContext_empty\<lparr>
      cx_stack_pointer := (base + KERNEL_STACK_SIZE) div 16 * 16 - 16, cx_rflags := 0x202\<rparr>,
      stack, (base + KERNEL_STACK_SIZE) div 16 * 16)
    \<and> length stack = KERNEL_STACK_SIZE div 8
    \<and> stack ! (((base + KERNEL_STACK_SIZE) div 16 * 16 - 16 - base) div 8) = tr"
proof -
  define q where "q = (base + KERNEL_STACK_SIZE) div 16"
  define r where "r = (base + KERNEL_STACK_SIZE) mod 16"
  have e: "base + KERNEL_STACK_SIZE = 16 * q + r" by (simp add: q_def r_def)
  have size: "KERNEL_STACK_SIZE = 65536" by (simp add: KERNEL_STACK_SIZE_def)
  have "r < 16" by (simp add: r_def)
  have "8 dvd base + KERNEL_STACK_SIZE" unfolding size using assms(2) by presburger
  then have "8 dvd 16 * q + r" using e by simp
  then have "8 dvd r" using dvd_add_right_iff [of 8 "16 * q" r] by simp
  with \<open>r < 16\<close> have r: "r = 0 \<or> r = 8" by (auto elim!: dvdE)
  have off: "16 * q - 16 - base = 65520 - r" and ge: "base \<le> 16 * q - 16" "16 \<le> 16 * q"
    using e size \<open>r < 16\<close> by auto
  define stk where "stk = replicate (KERNEL_STACK_SIZE div 8) (0::nat)"
  have len: "length stk = 8192" by (simp add: stk_def size)
  have idx: "(65520 - r) mod 8 = 0" "(65520 - r) div 8 < 8192" using r by auto
  have steps: "checked_add base (8192 * 8) = Some (16 * q + r)" "16 * q + r - (16 * q + r) mod 16 = 16 * q"
    "checked_sub (16 * q) (2 * 8) = Some (16 * q - 16)" "checked_sub (16 * q - 16) base = Some (65520 - r)"
    using assms(1) e size off ge \<open>r < 16\<close> by (simp_all add: checked_add_def checked_sub_def)
  have "create_task_stack tr base = Inr (CpuContext_empty\<lparr>cx_stack_pointer := 16 * q - 16, cx_rflags := 0x202\<rparr>,
      stk[(65520 - r) div 8 := tr], 16 * q)"
    unfolding create_task_stack_def stk_def [symmetric] Let_def len steps ok_or_simps bind_res_simps option.case
    using idx by simp
  then show ?thesis
    using len idx off size by (auto simp: q_def mult.commute)
qed

text \<open>Steps during which the task in slot \<open>i\<close> does not run.\<close>

definition runs_without :: "('pt, 'e) PageTables \<Rightarrow> 'd DiskOps \<Rightarrow> nat \<Rightarrow> ('d, 'pt) Kernel \<Rightarrow> ('d, 'pt) Kernel \<Rightarrow> bool" where
  "runs_without T D i = (\<lambda>a b. (\<exists>x. kstep T D x a b) \<and> s_current (k_sched a) \<noteq> Some i)\<^sup>*\<^sup>*"

lemma runs_without_ok:
  assumes "runs_without T D i k1 k2" "kernel_ok k1"
  shows "kernel_ok k2 \<and> s_next_id (k_sched k1) \<le> s_next_id (k_sched k2)"
  using assms unfolding runs_without_def
  by (induction rule: rtranclp_induct) (auto dest!: kstep_ok simp: step_ok_def handover_def)

lemma handoverD:
  assumes "handover k k'" "i < MAX_TASKS" "s_tasks (k_sched k') ! i = Some t'" "t_id t' < s_next_id (k_sched k)"
  obtains t where "s_tasks (k_sched k) ! i = Some t" "t_id t = t_id t'"
    "s_current (k_sched k) = Some i \<Longrightarrow> s_current (k_sched k') \<noteq> Some i \<Longrightarrow> t_context t' = k_cpu k"
    "s_current (k_sched k) \<noteq> Some i \<Longrightarrow> s_current (k_sched k') = Some i \<Longrightarrow> k_cpu k' = t_context t"
    "s_current (k_sched k) \<noteq> Some i \<Longrightarrow> s_current (k_sched k') \<noteq> Some i \<Longrightarrow> t_context t' = t_context t"
proof -
  have "\<exists>t. s_tasks (k_sched k) ! i = Some t \<and> t_id t = t_id t'
          \<and> (if s_current (k_sched k) = Some i
             then s_current (k_sched k') \<noteq> Some i \<longrightarrow> t_context t' = k_cpu k
             else if s_current (k_sched k') = Some i then k_cpu k' = t_context t
             else t_context t' = t_context t)"
    using assms unfolding handover_def by blast
  then show thesis using that by (auto split: if_split_asm)
qed

lemma runs_without_context:
  assumes run: "runs_without T D i k1 k2" and k1: "kernel_ok k1" and i: "i < MAX_TASKS"
    and t2: "s_tasks (k_sched k2) ! i = Some t2" "t_id t2 < s_next_id (k_sched k1)"
    and cur: "s_current (k_sched k2) \<noteq> Some i"
  shows "\<exists>t1. s_tasks (k_sched k1) ! i = Some t1 \<and> t_id t1 = t_id t2 \<and> t_context t1 = t_context t2"
  using run [unfolded runs_without_def] t2 cur
proof (induction arbitrary: t2 rule: rtranclp_induct)
  case base
  then show ?case by simp
next
  case (step b c)
  have b: "kernel_ok b \<and> s_next_id (k_sched k1) \<le> s_next_id (k_sched b)"
    using runs_without_ok [OF _ k1] step(1) unfolding runs_without_def by blast
  obtain x where x: "kstep T D x b c" and cb: "s_current (k_sched b) \<noteq> Some i" using step(2) by blast
  have "handover b c" using kstep_ok [OF x] b by (simp add: step_ok_def)
  then obtain t where t: "s_tasks (k_sched b) ! i = Some t" "t_id t = t_id t2" "t_context t2 = t_context t"
    by (rule handoverD [OF _ i step(4)]) (use b step cb in auto)
  then show ?case using step(3) [OF t(1)] step(5) cb by simp
qed

text \<open>A run with its operations and states.\<close>

fun ktrace :: "('pt, 'e) PageTables \<Rightarrow> 'd DiskOps \<Rightarrow> ('d, 'pt) Kernel \<Rightarrow> (KernelOp \<times> ('d, 'pt) Kernel) list \<Rightarrow> bool" where
  "ktrace T D k [] = True"
| "ktrace T D k ((x, k') # xs) = (kstep T D x k k' \<and> ktrace T D k' xs)"

lemma waiting_served:
  assumes "ktrace T D k xs" "kernel_ok k" "s_current (k_sched k) = Some c"
    and "j < MAX_TASKS" "s_tasks (k_sched k) ! j = Some t" "t_state t = Ready" "\<not> t_is_idle t"
    and "\<forall>(x, k') \<in> set xs. spares (t_id t) x"
    and "rr_distance c j < length (filter (\<lambda>(x, k'). gives_up x) xs)"
  shows "\<exists>(x, k') \<in> set xs. s_current (k_sched k') = Some j
    \<and> map_option t_id (s_tasks (k_sched k') ! j) = Some (t_id t)"
  using assms
proof (induction xs arbitrary: k c t)
  case Nil
  then show ?case by simp
next
  case (Cons y ys)
  obtain x k' where y: "y = (x, k')" by (cases y)
  have st: "kstep T D x k k'" "ktrace T D k' ys" using Cons.prems(1) y by auto
  have ok: "kernel_ok k'" "in_line x k k'" using kstep_ok [OF st(1) Cons.prems(2)] by (auto simp: step_ok_def)
  have sp: "spares (t_id t) x" using Cons.prems(8) y by auto
  obtain c' t' where c': "s_current (k_sched k') = Some c'" and t': "s_tasks (k_sched k') ! j = Some t'" "t_id t' = t_id t"
    and alt: "c' = j \<or> t_state t' = Ready \<and> \<not> t_is_idle t' \<and> rr_distance c' j \<le> rr_distance c j
            \<and> (gives_up x \<longrightarrow> rr_distance c' j < rr_distance c j)"
    using ok(2) Cons.prems(3-7) sp unfolding in_line_def by blast
  show ?case
  proof (cases "c' = j")
    case True
    then show ?thesis using y c' t' by auto
  next
    case False
    have "rr_distance c' j < length (filter (\<lambda>(x, k'). gives_up x) ys)"
      using Cons.prems(9) alt False y by (auto split: if_split_asm)
    then have "\<exists>(x, k') \<in> set ys. s_current (k_sched k') = Some j
        \<and> map_option t_id (s_tasks (k_sched k') ! j) = Some (t_id t')"
      by (intro Cons.IH [OF st(2) ok(1) c' Cons.prems(4) t'(1)]) (use alt False Cons.prems(8) t' in auto)
    then show ?thesis using t' by auto
  qed
qed

lemma rr_distance_bound: "rr_distance c j < MAX_TASKS"
  by (simp add: rr_distance_def MAX_TASKS_def)

section \<open>A sample run\<close>

text \<open>Two kernel tasks are spawned and the scheduler is started; the first task runs and the second
  waits.\<close>

definition sample_start :: "(unit, nat \<rightharpoonup> nat) Kernel" where
  "sample_start = kernel_start sample_manager (world_init ())"

definition sample_one :: "(unit, nat \<rightharpoonup> nat) Kernel" where
  "sample_one = snd (spawn 4096 65536 8192 sample_start)"

definition sample_two :: "(unit, nat \<rightharpoonup> nat) Kernel" where
  "sample_two = snd (spawn 4096 65536 8192 sample_one)"

definition sample_running :: "(unit, nat \<rightharpoonup> nat) Kernel" where
  "sample_running = snd (the (run_tasks 4096 65536 12288 sample_two))"

definition sample_task :: "nat \<Rightarrow> CpuContext \<Rightarrow> nat list \<Rightarrow> nat \<Rightarrow> Task" where
  "sample_task n cx st stop = \<lparr>t_id = n, t_parent = None, t_state = Ready, t_exit_code = None, t_context = cx,
    t_entry = Some 8192, t_user = None, t_stack = Some st, t_stack_top = Some stop, t_wake_at = None,
    t_is_idle = False, t_fds = initial_table\<rparr>"

lemma sample_stack: "\<exists>cx st stop. create_task_stack 4096 65536 = Inr (cx, st, stop)"
  using create_task_stack_Inr [of 65536 4096] by (auto simp: KERNEL_STACK_SIZE_def u64_limit_def)

lemma spawn_simp:
  assumes "create_task_stack tr base = Inr (cx, st, stop)" "position (\<lambda>t. t = None) (s_tasks (k_sched k)) = Some i"
    and "s_idle_index (k_sched k) \<noteq> None \<or> 1 < free_slots (k_sched k)" "Suc (s_next_id (k_sched k)) < u64_limit"
    and "s_current (k_sched k) = None"
  shows "spawn tr base entry k = (Inr (s_next_id (k_sched k)), k\<lparr>k_sched := (k_sched k)\<lparr>
    s_next_id := Suc (s_next_id (k_sched k)), s_tasks := (s_tasks (k_sched k))[i := Some
      \<lparr>t_id = s_next_id (k_sched k), t_parent = None, t_state = Ready, t_exit_code = None, t_context = cx,
       t_entry = Some entry, t_user = None, t_stack = Some st, t_stack_top = Some stop, t_wake_at = None,
       t_is_idle = False, t_fds = initial_table\<rparr>]\<rparr>\<rparr>)"
  using assms by (auto simp: spawn_def spawn_into_def create_kernel_task_def insert_task_def
      check_task_capacity_def checked_add_def current_task_def Let_def)

lemma new_tasks: "Scheduler_new = \<lparr>s_tasks = [None, None, None, None, None, None, None, None, None, None, None, None, None, None, None, None],
    s_current = None, s_next_id = 1, s_idle_index = None\<rparr>"
  by (simp add: Scheduler_new_def MAX_TASKS_def numeral_eq_Suc)

lemma sample_two_sched:
  assumes st: "create_task_stack 4096 65536 = Inr (cx, st, stop)"
  shows "spawn 4096 65536 8192 sample_start = (Inr 1, sample_one)"
    "spawn 4096 65536 8192 sample_one = (Inr 2, sample_two)"
    "sample_two = sample_start\<lparr>k_sched := \<lparr>s_tasks = [Some (sample_task 1 cx st stop), Some (sample_task 2 cx st stop),
       None, None, None, None, None, None, None, None, None, None, None, None, None, None], s_current = None, s_next_id = 3, s_idle_index = None\<rparr>\<rparr>"
proof -
  have lim: "Suc (Suc 0) < u64_limit" by (simp add: u64_limit_def)
  have k0: "k_sched sample_start = Scheduler_new" by (simp add: sample_start_def kernel_start_def)
  have one: "spawn 4096 65536 8192 sample_start = (Inr 1, sample_start\<lparr>k_sched := \<lparr>s_tasks =
      [Some (sample_task 1 cx st stop), None, None, None, None, None, None, None, None, None, None, None, None, None, None, None], s_current = None, s_next_id = 2, s_idle_index = None\<rparr>\<rparr>)"
    using spawn_simp [OF st, of sample_start 0 8192] lim
    by (simp add: k0 new_tasks free_slots_def sample_task_def numeral_2_eq_2)
  then show "spawn 4096 65536 8192 sample_start = (Inr 1, sample_one)" by (simp add: sample_one_def)
  have k1: "sample_one = sample_start\<lparr>k_sched := \<lparr>s_tasks =
      [Some (sample_task 1 cx st stop), None, None, None, None, None, None, None, None, None, None, None, None, None, None, None], s_current = None, s_next_id = 2, s_idle_index = None\<rparr>\<rparr>"
    using one by (simp add: sample_one_def)
  have two: "spawn 4096 65536 8192 sample_one = (Inr 2, sample_start\<lparr>k_sched := \<lparr>s_tasks =
      [Some (sample_task 1 cx st stop), Some (sample_task 2 cx st stop), None, None, None, None, None, None, None, None, None, None, None, None, None, None], s_current = None, s_next_id = 3, s_idle_index = None\<rparr>\<rparr>)"
    using spawn_simp [OF st, of sample_one 1 8192]
    by (simp add: k1 free_slots_def u64_limit_def sample_task_def)
  then show "spawn 4096 65536 8192 sample_one = (Inr 2, sample_two)"
    "sample_two = sample_start\<lparr>k_sched := \<lparr>s_tasks = [Some (sample_task 1 cx st stop), Some (sample_task 2 cx st stop),
       None, None, None, None, None, None, None, None, None, None, None, None, None, None], s_current = None, s_next_id = 3, s_idle_index = None\<rparr>\<rparr>"
    by (simp_all add: sample_two_def)
qed

lemma scan_order_0: "scan_order 0 = [0, 1, 2, 3, 4, 5, 6, 7, 8, 9, 10, 11, 12, 13, 14, 15]"
  by code_simp

lemma sample_running_sched:
  assumes st: "create_task_stack 4096 65536 = Inr (cx, st, stop)"
  shows "run_tasks 4096 65536 12288 sample_two = Some (Inr (), sample_running)"
    "k_sched sample_running = \<lparr>s_tasks = [Some ((sample_task 1 cx st stop)\<lparr>t_state := Running\<rparr>),
       Some (sample_task 2 cx st stop), Some ((sample_task 3 cx st stop)\<lparr>t_entry := Some 12288, t_is_idle := True\<rparr>), None, None, None, None, None, None, None, None, None, None, None, None, None],
       s_current = Some 0, s_next_id = 4, s_idle_index = Some 2\<rparr>"
    "k_mem sample_running = Some (Inr sample_manager)"
proof -
  have mem: "k_mem sample_start = Some (Inr sample_manager)" by (simp add: sample_start_def kernel_start_def)
  have idle: "install_idle 4096 65536 12288 (k_sched sample_two) = (Inr (), \<lparr>s_tasks = [Some (sample_task 1 cx st stop),
       Some (sample_task 2 cx st stop), Some ((sample_task 3 cx st stop)\<lparr>t_entry := Some 12288, t_is_idle := True\<rparr>), None, None, None, None, None, None, None, None, None, None, None, None, None],
       s_current = None, s_next_id = 4, s_idle_index = Some 2\<rparr>)"
    by (simp add: sample_two_sched(3) [OF st] install_idle_def create_kernel_task_def insert_task_def check_task_capacity_def
        checked_add_def u64_limit_def st find_task_def task_with_id_def sample_task_def upd_task_def)
  have start: "scheduler_start \<lparr>s_tasks = [Some (sample_task 1 cx st stop),
       Some (sample_task 2 cx st stop), Some ((sample_task 3 cx st stop)\<lparr>t_entry := Some 12288, t_is_idle := True\<rparr>), None, None, None, None, None, None, None, None, None, None, None, None, None],
       s_current = None, s_next_id = 4, s_idle_index = Some 2\<rparr> = (Inr 1, \<lparr>s_tasks = [Some ((sample_task 1 cx st stop)\<lparr>t_state := Running\<rparr>),
       Some (sample_task 2 cx st stop), Some ((sample_task 3 cx st stop)\<lparr>t_entry := Some 12288, t_is_idle := True\<rparr>), None, None, None, None, None, None, None, None, None, None, None, None, None],
       s_current = Some 0, s_next_id = 4, s_idle_index = Some 2\<rparr>)"
    by (simp add: scheduler_start_def select_next_def scan_order_0 Let_def selectable_def run_slot_def upd_task_def sample_task_def)
  obtain k where k: "run_tasks 4096 65536 12288 sample_two = Some (Inr (), k)" "k_sched k = snd (scheduler_start (snd (install_idle 4096 65536 12288 (k_sched sample_two))))"
      "k_mem k = Some (Inr sample_manager)"
    using idle start mem
    by (simp add: run_tasks_def Let_def activate_task_address_space_def activate_kernel_address_space_def sample_two_sched(3) [OF st] sample_task_def)
  then show "run_tasks 4096 65536 12288 sample_two = Some (Inr (), sample_running)"
    "k_sched sample_running = \<lparr>s_tasks = [Some ((sample_task 1 cx st stop)\<lparr>t_state := Running\<rparr>),
       Some (sample_task 2 cx st stop), Some ((sample_task 3 cx st stop)\<lparr>t_entry := Some 12288, t_is_idle := True\<rparr>), None, None, None, None, None, None, None, None, None, None, None, None, None],
       s_current = Some 0, s_next_id = 4, s_idle_index = Some 2\<rparr>"
    "k_mem sample_running = Some (Inr sample_manager)"
    using idle start by (simp_all add: sample_running_def)
qed

lemma sample_run: "kernel_run T D sample_start sample_running"
proof -
  obtain cx st stop where st: "create_task_stack 4096 65536 = Inr (cx, st, stop)" using sample_stack by blast
  let ?R = "\<lambda>a b. \<exists>x. kstep T D x a b"
  have a: "?R sample_start sample_one" using kstep.spawn_kernel [OF sample_two_sched(1) [OF st]] by blast
  have b: "?R sample_one sample_two" using kstep.spawn_kernel [OF sample_two_sched(2) [OF st]] by blast
  have c: "?R sample_two sample_running" using kstep.run [OF sample_running_sched(1) [OF st]] by blast
  show ?thesis
    unfolding kernel_run_def
    by (rule converse_rtranclp_into_rtranclp [OF a converse_rtranclp_into_rtranclp [OF b r_into_rtranclp [of ?R, OF c]]])
qed

lemma sample_slots:
  "s_current (k_sched sample_running) = Some 0"
  "\<exists>t. s_tasks (k_sched sample_running) ! 0 = Some t \<and> t_id t = 1 \<and> t_state t = Running"
  "\<exists>t. s_tasks (k_sched sample_running) ! 1 = Some t \<and> t_id t = 2 \<and> t_state t = Ready \<and> \<not> t_is_idle t"
proof -
  obtain cx st stop where st: "create_task_stack 4096 65536 = Inr (cx, st, stop)" using sample_stack by blast
  show "s_current (k_sched sample_running) = Some 0"
    "\<exists>t. s_tasks (k_sched sample_running) ! 0 = Some t \<and> t_id t = 1 \<and> t_state t = Running"
    "\<exists>t. s_tasks (k_sched sample_running) ! 1 = Some t \<and> t_id t = 2 \<and> t_state t = Ready \<and> \<not> t_is_idle t"
    by (simp_all add: sample_running_sched(2) [OF st] sample_task_def)
qed

lemma sample_run': "kernel_run T D (kernel_start sample_manager (world_init ())) sample_running"
  using sample_run by (simp add: sample_start_def)

section \<open>Properties\<close>

text \<open>C3. In every state that the kernel can reach, by any sequence of system calls, interrupts and
  task switches, the task table is consistent: a task is marked running exactly when it is the
  current one, so at most one is; identifiers are unique and have been handed out; a sleeping
  task has a deadline; and the idle task is ready or running.\<close>

theorem task_table_consistent:
  assumes "kernel_run T D (kernel_start m w) k" and "i < MAX_TASKS" and "s_tasks (k_sched k) ! i = Some t"
  shows "(t_state t = Running \<longleftrightarrow> s_current (k_sched k) = Some i)
    \<and> t_id t < s_next_id (k_sched k)
    \<and> (\<forall>j u. j < MAX_TASKS \<and> s_tasks (k_sched k) ! j = Some u \<and> t_id u = t_id t \<longrightarrow> j = i)
    \<and> (t_state t = Sleeping \<longrightarrow> t_wake_at t \<noteq> None)
    \<and> (t_is_idle t \<longrightarrow> t_state t = Ready \<or> t_state t = Running)"
proof -
  have s: "sched_ok (k_sched k)"
    using kernel_okD(1) [OF kernel_run_ok [OF assms(1) kernel_start_ok]] .
  show ?thesis
    using sched_okD(8) [OF s assms(2,3)] sched_okD(9) [OF s _ assms(2) _ assms(3)]
    by (auto simp: task_ok_def)
qed

theorem task_table_consistent_witness:
  "\<exists>t. s_tasks (k_sched sample_running) ! 1 = Some t \<and> t_state t \<noteq> Running \<and> t_id t < s_next_id (k_sched sample_running)"
proof -
  obtain t where t: "s_tasks (k_sched sample_running) ! 1 = Some t" using sample_slots(3) by blast
  show ?thesis
    using task_table_consistent [OF sample_run' [of flat_tables no_files] _ t] t sample_slots(1) by (auto simp: MAX_TASKS_def)
qed

text \<open>C4. The processor always works in the right address space: while a user task is current, the
  active root table is the root of its address space; while a kernel task, the idle task or the
  bootstrap context runs, it is the kernel's own.\<close>

theorem address_space_follows_task:
  assumes "kernel_run T D (kernel_start m w) k"
  shows "Some (k_cr3 k) = (case running_task k of
      Some t \<Rightarrow> (case t_user t of Some u \<Rightarrow> as_root (ut_address_space u) | None \<Rightarrow> kernel_root k)
    | None \<Rightarrow> kernel_root k)"
  using kernel_okD(3) [OF kernel_run_ok [OF assms kernel_start_ok]]
  by (auto simp: space_ok_def task_root_def split: option.split_asm option.split)

theorem address_space_follows_task_witness:
  "Some (k_cr3 sample_running) = (case running_task sample_running of
      Some t \<Rightarrow> (case t_user t of Some u \<Rightarrow> as_root (ut_address_space u) | None \<Rightarrow> kernel_root sample_running)
    | None \<Rightarrow> kernel_root sample_running)"
  by (rule address_space_follows_task [OF sample_run' [of flat_tables no_files]])



text \<open>C12. A context switch loses nothing: when a task is switched away and, after any number of steps
  in which it does not run, is selected again, the processor has exactly the registers, stack
  pointer and flags it had when it was switched away.\<close>

theorem registers_restored:
  assumes "kernel_run T D (kernel_start m w) k"
    and "s_current (k_sched k) = Some i" and "s_tasks (k_sched k) ! i = Some t"
    and "kstep T D x k k1" and "s_current (k_sched k1) \<noteq> Some i"
    and "runs_without T D i k1 k2" and "s_current (k_sched k2) \<noteq> Some i"
    and "kstep T D y k2 k3" and "s_current (k_sched k3) = Some i"
    and "map_option t_id (s_tasks (k_sched k3) ! i) = Some (t_id t)"
  shows "k_cpu k3 = k_cpu k"
proof -
  have k: "kernel_ok k" by (rule kernel_run_ok [OF assms(1) kernel_start_ok])
  have i: "i < MAX_TASKS" by (rule sched_okD(4) [OF kernel_okD(1) [OF k] assms(2)])
  have tid: "t_id t < s_next_id (k_sched k)"
    using sched_okD(8) [OF kernel_okD(1) [OF k] i assms(3)] by (simp add: task_ok_def)
  have s1: "kernel_ok k1" "handover k k1" using kstep_ok [OF assms(4) k] by (auto simp: step_ok_def)
  have n1: "s_next_id (k_sched k) \<le> s_next_id (k_sched k1)" using s1(2) by (simp add: handover_def)
  have k2: "kernel_ok k2" "s_next_id (k_sched k1) \<le> s_next_id (k_sched k2)"
    using runs_without_ok [OF assms(6) s1(1)] by auto
  have s3: "handover k2 k3" using kstep_ok [OF assms(8) k2(1)] by (simp add: step_ok_def)
  obtain t3 where t3: "s_tasks (k_sched k3) ! i = Some t3" "t_id t3 = t_id t" using assms(10) by auto
  obtain t2 where t2: "s_tasks (k_sched k2) ! i = Some t2" "t_id t2 = t_id t" "k_cpu k3 = t_context t2"
    by (rule handoverD [OF s3 i t3(1)]) (use t3 tid n1 k2 assms(7,9) in auto)
  obtain t1 where t1: "s_tasks (k_sched k1) ! i = Some t1" "t_id t1 = t_id t" "t_context t1 = t_context t2"
    using runs_without_context [OF assms(6) s1(1) i t2(1) _ assms(7)] t2 tid n1 by auto
  have "t_context t1 = k_cpu k"
    by (rule handoverD [OF s1(2) i t1(1)]) (use t1 tid assms(2,5) in auto)
  then show ?thesis using t2 t1 by simp
qed

text \<open>The first task of the sample run is preempted and, after a second tick, selected again.\<close>

lemma preempt_kernel:
  assumes "s_current (k_sched k) = Some c" "k_mem k = Some (Inr m)"
    and "transition_current Ready (wake_expired_sleepers (k_ticks k) (k_sched k)) = (Inr y, s)"
    and "s_current s = Some n" "n \<noteq> c" "\<exists>t. s_tasks s ! n = Some t \<and> t_user t = None" "s_tasks s ! c \<noteq> None"
  shows "\<exists>k'. preempt_from_timer k = Some k' \<and> k_sched k' = upd_task c (\<lambda>t. t\<lparr>t_context := k_cpu k\<rparr>) s \<and> k_mem k' = Some (Inr m)"
  using assms by (auto simp: preempt_from_timer_def Let_def switch_away_def activate_task_address_space_def
      activate_kernel_address_space_def)

lemma sample_ticks:
  "\<exists>k1 k3. kstep T D Timer sample_running k1 \<and> s_current (k_sched k1) = Some 1
    \<and> kstep T D Timer k1 k3 \<and> s_current (k_sched k3) = Some 0 \<and> map_option t_id (s_tasks (k_sched k3) ! 0) = Some 1"
proof -
  obtain cx st stop where st: "create_task_stack 4096 65536 = Inr (cx, st, stop)" using sample_stack by blast
  note run = sample_running_sched(2) [OF st]
  have scans: "scan_order 1 = [1, 2, 3, 4, 5, 6, 7, 8, 9, 10, 11, 12, 13, 14, 15, 0]"
    "scan_order 2 = [2, 3, 4, 5, 6, 7, 8, 9, 10, 11, 12, 13, 14, 15, 0, 1]" by code_simp+
  let ?s1 = "\<lambda>c0 c1. \<lparr>s_tasks = [Some ((sample_task 1 c0 st stop)\<lparr>t_state := Ready\<rparr>),
       Some ((sample_task 2 c1 st stop)\<lparr>t_state := Running\<rparr>),
       Some ((sample_task 3 cx st stop)\<lparr>t_entry := Some 12288, t_is_idle := True\<rparr>), None, None, None, None, None, None, None, None, None, None, None, None, None],
       s_current = Some 1, s_next_id = 4, s_idle_index = Some 2\<rparr>"
  have t1: "transition_current Ready (wake_expired_sleepers n (k_sched sample_running)) = (Inr 2, ?s1 cx cx)" for n
    by (simp add: run transition_current_def wake_expired_sleepers_def upd_tasks_def wake_if_expired_def upd_task_def
        select_next_def scans [unfolded One_nat_def] Let_def selectable_def run_slot_def sample_task_def MAX_TASKS_def)
  obtain k1 where k1: "preempt_from_timer (on_interrupt sample_running) = Some k1"
    "k_sched k1 = upd_task 0 (\<lambda>t. t\<lparr>t_context := k_cpu sample_running\<rparr>) (?s1 cx cx)" "k_mem k1 = Some (Inr sample_manager)"
    using preempt_kernel [of "on_interrupt sample_running" 0 sample_manager 2 "?s1 cx cx" 1] t1 run sample_running_sched(3) [OF st]
    by (simp add: on_interrupt_def sample_task_def) blast
  have s1: "k_sched k1 = ?s1 (k_cpu sample_running) cx" by (simp add: k1(2) upd_task_def sample_task_def)
  have t2: "transition_current Ready (wake_expired_sleepers n (k_sched k1)) = (Inr 1,
      \<lparr>s_tasks = [Some ((sample_task 1 (k_cpu sample_running) st stop)\<lparr>t_state := Running\<rparr>),
       Some ((sample_task 2 cx st stop)\<lparr>t_state := Ready\<rparr>),
       Some ((sample_task 3 cx st stop)\<lparr>t_entry := Some 12288, t_is_idle := True\<rparr>), None, None, None, None, None, None, None, None, None, None, None, None, None],
       s_current = Some 0, s_next_id = 4, s_idle_index = Some 2\<rparr>)" (is "_ = (Inr 1, ?s2)") for n
    by (simp add: s1 transition_current_def wake_expired_sleepers_def upd_tasks_def wake_if_expired_def upd_task_def
        select_next_def scans numeral_2_eq_2 [symmetric] Let_def selectable_def run_slot_def sample_task_def MAX_TASKS_def)
  obtain k3 where k3: "preempt_from_timer (on_interrupt k1) = Some k3"
    "k_sched k3 = upd_task 1 (\<lambda>t. t\<lparr>t_context := k_cpu k1\<rparr>) ?s2"
    using preempt_kernel [of "on_interrupt k1" 1 sample_manager 1 ?s2 0] t2 s1 k1(3)
    by (simp add: on_interrupt_def sample_task_def) blast
  have "kstep T D Timer sample_running k1" "kstep T D Timer k1 k3" by (rule kstep.timer, rule k1 k3)+
  moreover have "s_current (k_sched k1) = Some 1" "s_current (k_sched k3) = Some 0"
    "map_option t_id (s_tasks (k_sched k3) ! 0) = Some 1"
    by (simp_all add: s1 k3(2) upd_task_def sample_task_def)
  ultimately show ?thesis by blast
qed

theorem registers_restored_witness:
  "\<exists>k1 k3. kstep flat_tables no_files Timer sample_running k1 \<and> kstep flat_tables no_files Timer k1 k3
    \<and> s_current (k_sched k1) = Some 1 \<and> s_current (k_sched k3) = Some 0 \<and> k_cpu k3 = k_cpu sample_running"
proof -
  obtain k1 k3 where k: "kstep flat_tables no_files Timer sample_running k1" "s_current (k_sched k1) = Some 1"
    "kstep flat_tables no_files Timer k1 k3" "s_current (k_sched k3) = Some 0"
    "map_option t_id (s_tasks (k_sched k3) ! 0) = Some 1"
    using sample_ticks [of flat_tables no_files] by blast
  obtain t where t: "s_tasks (k_sched sample_running) ! 0 = Some t" "t_id t = 1" using sample_slots(2) by blast
  have "k_cpu k3 = k_cpu sample_running"
    by (rule registers_restored [OF sample_run' sample_slots(1) t(1) k(1) _ _ _ k(3,4)])
      (use k t in \<open>auto simp: runs_without_def\<close>)
  then show ?thesis using k by blast
qed



lemma deadline_exact:
  assumes "d < 2 ^ 63" "n < 2 ^ 63"
  shows "deadline_passed (start + of_nat n) (start + of_nat d) \<longleftrightarrow> d \<le> n"
proof -
  have diff: "(start + of_nat n) - (start + of_nat d) = (of_nat n - of_nat d :: 64 word)" by simp
  have half: "unat (push_bit 63 1 :: 64 word) = 2 ^ 63" by simp
  show ?thesis
  proof (cases "d \<le> n")
    case True
    then have "(of_nat n - of_nat d :: 64 word) = of_nat (n - d)" by (simp add: of_nat_diff)
    moreover have "unat (of_nat (n - d) :: 64 word) = n - d" using assms by (simp add: unat_of_nat)
    ultimately show ?thesis
      using True assms by (simp add: deadline_passed_def diff word_less_nat_alt half)
  next
    case False
    define m :: nat where "m = 2 ^ 64 - (d - n)"
    have m: "m + d = 2 ^ 64 + n" "m < 2 ^ 64" "2 ^ 63 \<le> m" using False assms by (simp_all add: m_def)
    have "of_nat (m + d) = (of_nat n :: 64 word)" unfolding m(1) by simp
    then have "(of_nat n - of_nat d :: 64 word) = of_nat m" by (metis add_diff_cancel_right' of_nat_add)
    moreover have "unat (of_nat m :: 64 word) = m" using m(2) by (simp add: unat_of_nat)
    ultimately show ?thesis
      using False m(3) by (simp add: deadline_passed_def diff word_less_nat_alt half)
  qed
qed



text \<open>The stack of a new task is laid out for its first switch: the saved stack pointer is 16 bytes
  below the 16-byte aligned end of the stack and inside it, the word there is the address of the
  trampoline, to which the switch returns, and after that return the stack pointer is 8 modulo 16,
  as the calling convention asks at the entry of a function; interrupts are enabled.\<close>

theorem task_stack_layout:
  assumes "base + KERNEL_STACK_SIZE < u64_limit" and "base mod 8 = 0"
  shows "\<exists>cx stack stack_top. create_task_stack tr base = Inr (cx, stack, stack_top)
    \<and> stack_top mod 16 = 0 \<and> stack_top \<le> base + 8 * length stack
    \<and> base \<le> cx_stack_pointer cx \<and> cx_stack_pointer cx + 16 = stack_top
    \<and> stack ! ((cx_stack_pointer cx - base) div 8) = tr
    \<and> (cx_stack_pointer cx + 8) mod 16 = 8 \<and> cx_rflags cx = 0x202"
proof -
  obtain stack where s: "create_task_stack tr base = Inr (CpuContext_empty\<lparr>
      cx_stack_pointer := (base + KERNEL_STACK_SIZE) div 16 * 16 - 16, cx_rflags := 0x202\<rparr>,
      stack, (base + KERNEL_STACK_SIZE) div 16 * 16)"
    "length stack = KERNEL_STACK_SIZE div 8"
    "stack ! (((base + KERNEL_STACK_SIZE) div 16 * 16 - 16 - base) div 8) = tr"
    using create_task_stack_Inr [OF assms] by blast
  define q where "q = (base + KERNEL_STACK_SIZE) div 16"
  have q: "q * 16 \<le> base + 65536" "base + 65536 < q * 16 + 16"
    by (simp_all add: q_def KERNEL_STACK_SIZE_def)
  then have "base \<le> q * 16 - 16" "q * 16 - 16 + 16 = q * 16" "16 \<le> q * 16" by simp_all
  moreover obtain p where "q = Suc p" using \<open>16 \<le> q * 16\<close> by (cases q) auto
  then have "(q * 16 - 16 + 8) mod 16 = 8" by simp
  ultimately show ?thesis
    using s q unfolding q_def [symmetric] by (auto simp: KERNEL_STACK_SIZE_def)
qed

theorem task_stack_layout_witness:
  "\<exists>cx stack stack_top. create_task_stack 4096 65536 = Inr (cx, stack, stack_top) \<and> stack_top mod 16 = 0"
  using task_stack_layout [of 65536 4096] by (auto simp: KERNEL_STACK_SIZE_def u64_limit_def)

end
