(* ===== verification/Kernel_Fds.thy ===== *)
theory Kernel_Fds
  imports Kernel_Runs
begin

text \<open>
  The descriptor tables of all tasks against the store of shared objects. The live descriptors of
  the kernel are those in the tables of the tasks; every step of the kernel keeps the counters of
  every pipe equal to the numbers of live read and write descriptors, so that end of file and
  broken pipes are reported exactly when the last descriptor on the other side is gone.
\<close>

definition table_fds :: "FileDescriptor option list \<Rightarrow> FileDescriptor multiset" where
  "table_fds fds = mset (map the (filter (\<lambda>d. d \<noteq> None) fds))"

definition slot_fds :: "Task option \<Rightarrow> FileDescriptor multiset" where
  "slot_fds t = (case t of None \<Rightarrow> {#} | Some task \<Rightarrow> table_fds (t_fds task))"

definition live_fds :: "Scheduler \<Rightarrow> FileDescriptor multiset" where
  "live_fds s = sum_list (map slot_fds (s_tasks s))"

definition fds_ok :: "('d, 'pt) Kernel \<Rightarrow> bool" where
  "fds_ok k \<longleftrightarrow> world_ok (live_fds (k_sched k)) (k_world k)"

definition opt_fd :: "FileDescriptor option \<Rightarrow> FileDescriptor multiset" where
  "opt_fd d = (case d of None \<Rightarrow> {#} | Some x \<Rightarrow> {#x#})"

lemma opt_fd_simps [simp]: "opt_fd None = {#}" "opt_fd (Some x) = {#x#}"
  by (simp_all add: opt_fd_def)

lemma slot_fds_simps [simp]: "slot_fds None = {#}" "slot_fds (Some t) = table_fds (t_fds t)"
  by (simp_all add: slot_fds_def)

lemma table_fds_simps [simp]:
  "table_fds [] = {#}" "table_fds (d # ds) = opt_fd d + table_fds ds"
  by (auto simp: table_fds_def)

lemma table_fds_update:
  "n < length fds \<Longrightarrow> table_fds (fds[n := x]) + opt_fd (fds ! n) = table_fds fds + opt_fd x"
proof (induction fds arbitrary: n)
  case (Cons d fds)
  then show ?case by (cases n) (simp add: ac_simps, simp add: add.assoc)
qed simp

lemma table_fds_None:
  assumes "n < length fds" "fds ! n = Some d"
  shows "table_fds fds = add_mset d (table_fds (fds[n := None]))"
  using table_fds_update [OF assms(1), of None] assms(2) by simp

lemma table_fds_Some:
  assumes "n < length fds" "fds ! n = None"
  shows "table_fds (fds[n := Some d]) = add_mset d (table_fds fds)"
  using table_fds_update [OF assms(1), of "Some d"] assms(2) by simp

lemma table_fds_mem: "n < length fds \<Longrightarrow> fds ! n = Some d \<Longrightarrow> d \<in># table_fds fds"
  by (metis table_fds_None union_single_eq_member add_mset_add_single)

lemma live_fds_update:
  assumes "i < length (s_tasks s)" "s_tasks s' = (s_tasks s)[i := t]"
  shows "live_fds s' + slot_fds (s_tasks s ! i) = live_fds s + slot_fds t"
proof -
  have "i < length xs \<Longrightarrow> sum_list (map slot_fds (xs[i := t])) + slot_fds (xs ! i)
      = sum_list (map slot_fds xs) + slot_fds t" for xs
  proof (induction xs arbitrary: i)
    case (Cons x xs)
    then show ?case by (cases i) (simp add: ac_simps, simp add: add.assoc)
  qed simp
  then show ?thesis using assms by (simp add: live_fds_def)
qed

lemma live_fds_slot:
  assumes "i < length (s_tasks s)"
  shows "slot_fds (s_tasks s ! i) \<subseteq># live_fds s"
proof -
  have "i < length xs \<Longrightarrow> slot_fds (xs ! i) \<subseteq># sum_list (map slot_fds xs)" for xs
  proof (induction xs arbitrary: i)
    case (Cons x xs)
    then show ?case
      by (cases i) (auto intro: subset_mset.add_increasing)
  qed simp
  then show ?thesis using assms by (simp add: live_fds_def)
qed

section \<open>Steps that change no descriptor\<close>

definition same_fds :: "Scheduler \<Rightarrow> Scheduler \<Rightarrow> bool" where
  "same_fds s s' \<longleftrightarrow> map slot_fds (s_tasks s') = map slot_fds (s_tasks s)"

lemma same_fds_live: "same_fds s s' \<Longrightarrow> live_fds s' = live_fds s"
  by (simp add: same_fds_def live_fds_def)

lemma same_fds_refl [simp]: "same_fds s s"
  by (simp add: same_fds_def)

lemma same_fds_trans: "same_fds a b \<Longrightarrow> same_fds b c \<Longrightarrow> same_fds a c"
  by (simp add: same_fds_def)

lemma same_fds_current [simp]: "same_fds s (s'\<lparr>s_current := c\<rparr>) = same_fds s s'"
  by (simp add: same_fds_def)

lemma same_fds_upd:
  assumes "\<And>t. t_fds (f t) = t_fds t"
  shows "same_fds s (upd_task i f s)"
proof -
  have "slot_fds (map_option f (s_tasks s ! i)) = slot_fds (s_tasks s ! i)"
    using assms by (cases "s_tasks s ! i") simp_all
  then show ?thesis
    unfolding same_fds_def upd_task_def by (simp add: map_update) (metis list_update_id map_update)
qed

lemma same_fds_upd_tasks:
  assumes "\<And>t. t_fds (f t) = t_fds t"
  shows "same_fds s (upd_tasks f s)"
proof -
  have "slot_fds (map_option f x) = slot_fds x" for x using assms by (cases x) simp_all
  then show ?thesis by (simp add: same_fds_def upd_tasks_def comp_def)
qed

lemma same_fds_select: "same_fds s (snd (select_next start s))"
  unfolding select_next_def run_slot_def Let_def
  using same_fds_upd [of "\<lambda>t. t\<lparr>t_state := Running\<rparr>" "s\<lparr>s_current := None\<rparr>"]
  by (auto simp: same_fds_def split: option.split)

lemma same_fds_transition: "same_fds s (snd (transition_current st s))"
proof -
  have "same_fds s (snd (select_next start ((upd_task c (\<lambda>t. t\<lparr>t_state := st,
      t_wake_at := if st \<noteq> Sleeping then None else t_wake_at t\<rparr>) s)\<lparr>s_current := None\<rparr>)))" for start c
    by (rule same_fds_trans [OF _ same_fds_select]) (simp add: same_fds_upd)
  then show ?thesis unfolding transition_current_def by (auto split: option.split)
qed

lemma same_fds_sleep: "same_fds s (snd (sleep_current_until d s))"
proof -
  have "same_fds s (snd (select_next start ((upd_task c (\<lambda>t. t\<lparr>t_state := Sleeping, t_wake_at := Some d\<rparr>) s)
      \<lparr>s_current := None\<rparr>)))" for start c
    by (rule same_fds_trans [OF _ same_fds_select]) (simp add: same_fds_upd)
  then show ?thesis unfolding sleep_current_until_def by (auto split: option.split)
qed

lemma same_fds_wake_parent: "same_fds s (wake_parent i s)"
  by (auto simp: wake_parent_def intro!: same_fds_upd split: option.split)

lemma same_fds_wake: "same_fds s (snd (wake i s))"
  by (auto simp: wake_def intro!: same_fds_upd split: option.split)

lemma same_fds_terminate: "same_fds s (snd (terminate_task i code s))"
  by (auto simp: terminate_task_def intro!: same_fds_upd same_fds_trans [OF _ same_fds_wake_parent] split: option.split)

lemma same_fds_expired: "same_fds s (wake_expired_sleepers now s)"
  by (auto simp: wake_expired_sleepers_def wake_if_expired_def intro!: same_fds_upd_tasks)

lemma same_fds_wake_all: "same_fds s (wake_all_blocked s)"
  by (auto simp: wake_all_blocked_def intro!: same_fds_upd_tasks)

lemma same_fds_siblings: "same_fds s (terminate_siblings c p code s)"
proof -
  have "map slot_fds (s_tasks (terminate_siblings c p code s)) ! i = map slot_fds (s_tasks s) ! i"
    if "i < length (s_tasks s)" for i
    using that by (cases "s_tasks s ! i") (simp_all add: nth_terminate_siblings)
  then show ?thesis unfolding same_fds_def by (intro nth_equalityI) simp_all
qed

definition quiet_fds :: "('d, 'pt) Kernel \<Rightarrow> ('d, 'pt) Kernel \<Rightarrow> bool" where
  "quiet_fds k k' \<longleftrightarrow> same_fds (k_sched k) (k_sched k') \<and> k_world k' = k_world k"

lemma quiet_fds_ok: "quiet_fds k k' \<Longrightarrow> fds_ok k \<Longrightarrow> fds_ok k'"
  by (auto simp: quiet_fds_def fds_ok_def dest!: same_fds_live)

lemma quiet_fds_trans: "quiet_fds a b \<Longrightarrow> quiet_fds b c \<Longrightarrow> quiet_fds a c"
  using same_fds_trans by (auto simp: quiet_fds_def)

lemma quiet_fds_refl [simp]: "quiet_fds k k"
  by (simp add: quiet_fds_def)

lemma quiet_sched: "same_fds (k_sched k) s \<Longrightarrow> quiet_fds k (k\<lparr>k_sched := s\<rparr>)"
  by (simp add: quiet_fds_def)

lemma quiet_save: "quiet_fds k (save_current_user_rsp c k)"
  unfolding save_current_user_rsp_def by (rule quiet_sched) (simp add: same_fds_upd)

lemma quiet_context_switch: "quiet_fds k (leafos_context_switch old new k)"
  by (auto simp: quiet_fds_def leafos_context_switch_def store_context_def Let_def
      intro: same_fds_upd split: option.split)

lemma quiet_activate: "activate_task_address_space i k = Some k' \<Longrightarrow> quiet_fds k k'"
  by (auto simp: activate_task_address_space_def activate_kernel_address_space_def set_kernel_stack_def
      Let_def quiet_fds_def split: option.split_asm sum.split_asm prod.split_asm if_split_asm)

lemma quiet_switch_away: "switch_away c k = Some (r, k') \<Longrightarrow> quiet_fds k k'"
  unfolding switch_away_def
  by (auto split: if_split_asm option.split_asm intro: quiet_fds_trans [OF quiet_activate quiet_context_switch])

lemma quiet_saved_sched:
  "same_fds (k_sched (save_current_user_rsp c k)) s \<Longrightarrow> quiet_fds k ((save_current_user_rsp c k)\<lparr>k_sched := s\<rparr>)"
  by (rule quiet_fds_trans [OF quiet_save quiet_sched])

lemma quiet_leave:
  assumes "same_fds (k_sched (save_current_user_rsp c k)) s"
    "switch_away c ((save_current_user_rsp c k)\<lparr>k_sched := s\<rparr>) = Some (r, k')"
  shows "quiet_fds k k'"
  by (rule quiet_fds_trans [OF quiet_saved_sched [OF assms(1)] quiet_switch_away [OF assms(2)]])

lemma same_fds_transition': "transition_current st s = (r, s') \<Longrightarrow> same_fds s s'"
  using same_fds_transition [of s st] by simp

lemma quiet_yield:
  assumes "yield_now k = Some (r, k')"
  shows "quiet_fds k k'"
proof (cases "s_current (k_sched k)")
  case (Some c)
  obtain r1 s where tr: "transition_current Ready (k_sched (save_current_user_rsp c k)) = (r1, s)"
    by (cases "transition_current Ready (k_sched (save_current_user_rsp c k))")
  note q = quiet_saved_sched [OF same_fds_transition' [OF tr]]
  show ?thesis
    using assms unfolding yield_now_def Some option.case Let_def tr prod.case
    by (auto intro: q quiet_fds_trans [OF q quiet_activate]
        quiet_fds_trans [OF quiet_fds_trans [OF q quiet_activate] quiet_context_switch]
        split: sum.split_asm option.split_asm if_split_asm)
qed (use assms in \<open>simp add: yield_now_def\<close>)

lemma quiet_preempt:
  assumes "preempt_from_timer k = Some k'"
  shows "quiet_fds k k'"
proof (cases "s_current (k_sched k)")
  case (Some c)
  obtain r1 s where tr: "transition_current Ready (wake_expired_sleepers (k_ticks k) (k_sched k)) = (r1, s)"
    by (cases "transition_current Ready (wake_expired_sleepers (k_ticks k) (k_sched k))")
  note q = quiet_sched [OF same_fds_trans [OF same_fds_expired same_fds_transition' [OF tr]]]
  show ?thesis
    using assms unfolding preempt_from_timer_def Some option.case Let_def tr prod.case
    by (auto intro: q quiet_fds_trans [OF q quiet_switch_away]
        split: sum.split_asm option.split_asm if_split_asm)
qed (use assms in \<open>simp add: preempt_from_timer_def\<close>)

lemma quiet_block:
  assumes "block_now k = Some (r, k')"
  shows "quiet_fds k k'"
proof (cases "s_current (k_sched k)")
  case (Some c)
  obtain r1 s where tr: "transition_current Blocked (k_sched (save_current_user_rsp c k)) = (r1, s)"
    by (cases "transition_current Blocked (k_sched (save_current_user_rsp c k))")
  note q = same_fds_transition' [OF tr]
  show ?thesis
    using assms unfolding block_now_def Some option.case Let_def tr prod.case
    by (auto intro: quiet_saved_sched [OF q] quiet_leave [OF q] split: sum.split_asm if_split_asm)
qed (use assms in \<open>simp add: block_now_def\<close>)

lemma quiet_sleep:
  assumes "sleep_ticks d k = Some (r, k')"
  shows "quiet_fds k k'"
proof (cases "s_current (k_sched k)")
  case (Some c)
  obtain r1 s where tr: "sleep_current_until (k_ticks k + d) (k_sched (save_current_user_rsp c k)) = (r1, s)"
    by (cases "sleep_current_until (k_ticks k + d) (k_sched (save_current_user_rsp c k))")
  have q: "same_fds (k_sched (save_current_user_rsp c k)) s"
    using same_fds_sleep [of "k_sched (save_current_user_rsp c k)" "k_ticks k + d"] tr by simp
  show ?thesis
    using assms unfolding sleep_ticks_def Some option.case Let_def tr prod.case
    by (auto intro: quiet_saved_sched [OF q] quiet_leave [OF q] split: sum.split_asm if_split_asm)
qed (use assms in \<open>simp add: sleep_ticks_def split: if_split_asm\<close>)

lemma quiet_exit:
  assumes "exit_current_with_status_and_group code g k = Some k'"
  shows "quiet_fds k k'"
proof (cases "s_current (k_sched k)")
  case (Some c)
  define s1 where "s1 = k_sched (save_current_user_rsp c k)"
  define s2 where "s2 = (if g then (case Option.bind (s_tasks s1 ! c) t_parent of
      None \<Rightarrow> s1 | Some parent \<Rightarrow> terminate_siblings c parent code s1) else s1)"
  obtain r1 s4 where tr: "transition_current Terminated
      (wake_parent c (upd_task c (\<lambda>t. t\<lparr>t_exit_code := code\<rparr>) s2)) = (r1, s4)"
    by (cases "transition_current Terminated (wake_parent c (upd_task c (\<lambda>t. t\<lparr>t_exit_code := code\<rparr>) s2))")
  have "same_fds s1 s2" by (auto simp: s2_def same_fds_siblings split: option.split)
  then have "same_fds s1 (upd_task c (\<lambda>t. t\<lparr>t_exit_code := code\<rparr>) s2)"
    by (rule same_fds_trans) (simp add: same_fds_upd)
  then have q: "same_fds s1 s4"
    using same_fds_trans [OF _ same_fds_trans [OF same_fds_wake_parent same_fds_transition' [OF tr]]] by blast
  show ?thesis
    using assms unfolding exit_current_with_status_and_group_def Some option.case Let_def
      s1_def [symmetric] s2_def [symmetric] tr prod.case
    by (auto intro: quiet_leave [OF q [unfolded s1_def]] split: sum.split_asm option.split_asm if_split_asm)
qed (use assms in \<open>simp add: exit_current_with_status_and_group_def\<close>)

lemma quiet_idle_round:
  assumes "idle_round k = Some k'"
  shows "quiet_fds k k'"
proof -
  let ?s = "wake_expired_sleepers (k_ticks k) (k_sched k)"
  have s: "quiet_fds k (k\<lparr>k_sched := ?s\<rparr>)" by (rule quiet_sched [OF same_fds_expired])
  have s1: "quiet_fds k (k\<lparr>k_sched := (upd_task c (\<lambda>t. t\<lparr>t_state := Ready\<rparr>) ?s)\<lparr>s_current := None\<rparr>\<rparr>)" for c
    by (rule quiet_sched) (simp, rule same_fds_trans [OF same_fds_expired same_fds_upd], simp)
  show ?thesis
    using assms unfolding idle_round_def Let_def
    by (auto intro: quiet_fds_trans [OF s quiet_yield]
        quiet_fds_trans [OF quiet_fds_trans [OF s1 quiet_activate] quiet_context_switch]
        split: option.split_asm if_split_asm)
qed

section \<open>Steps that change descriptor tables\<close>

text \<open>A descriptor table that is being built or torn down: the live descriptors are those of the
  tasks together with those in the table.\<close>

lemma world_ok_std:
  assumes "world_ok ds w"
  shows "world_ok (ds + table_fds initial_table) w"
proof -
  have "table_fds initial_table = {#Stdin, Console, Console#}"
    by (simp add: initial_table_def MAX_FDS_def STDIN_def STDOUT_def STDERR_def numeral_eq_Suc)
  then show ?thesis using assms by (simp add: world_ok_def pipe_counts_ok_def)
qed

lemma world_ok_clone_table:
  assumes "world_ok ds w" "table_fds fds \<subseteq># ds" "clone_table fds w = (fds', w')"
  shows "fds' = fds \<and> world_ok (ds + table_fds fds) w'"
  using assms
proof (induction fds w arbitrary: ds fds' w' rule: clone_table.induct)
  case (2 fds w)
  then show ?case by (auto split: prod.split_asm)
next
  case (3 d fds w)
  obtain d1 w1 where c: "fd_clone d w = (d1, w1)" by (cases "fd_clone d w")
  obtain fds2 w2 where t: "clone_table fds w1 = (fds2, w2)" by (cases "clone_table fds w1")
  have d: "d \<in># ds" using 3(3) by (simp add: insert_subset_eq_iff)
  note w1 = world_ok_clone [OF 3(2) d c]
  have "table_fds fds \<subseteq># add_mset d ds"
    by (rule subset_mset.order_trans [OF _ subset_mset.order_trans [OF 3(3)]]) simp_all
  then show ?case
    using 3(1) [OF c [symmetric] refl w1(2) _ t] 3(4) w1(1) c t by auto
qed simp

lemma world_ok_drop_table:
  "world_ok (ds + table_fds fds) w \<Longrightarrow> world_ok ds (drop_table fds w)"
proof (induction fds w arbitrary: ds rule: drop_table.induct)
  case (3 d fds w)
  then show ?case using world_ok_drop [of d "ds + table_fds fds" w] by simp
qed simp_all

lemma world_ok_close_slot:
  assumes "world_ok (ds + table_fds fds) w" "i < length fds" "close_slot i (fds, w) = (fds', w')"
  shows "fds' = fds[i := None]" "world_ok (ds + table_fds fds') w'"
proof -
  have "fds[i := None] = fds" if "fds ! i = None" using that by (metis list_update_id)
  then show "fds' = fds[i := None]" using assms(3) by (auto simp: close_slot_def split: option.split_asm)
  show "world_ok (ds + table_fds fds') w'"
    using assms table_fds_None [OF assms(2)] world_ok_drop [of _ "ds + table_fds (fds[i := None])" w]
    by (auto simp: close_slot_def fd_close_def split: option.split_asm)
qed

lemma world_ok_apply_mappings:
  assumes "world_ok (ds + table_fds fds) w" "length fds = MAX_FDS"
    "apply_mappings ms (fds, w) = (r, fds', w')"
  shows "world_ok (ds + table_fds fds') w' \<and> (\<forall>u. r = Inr u \<longrightarrow> (\<forall>m \<in> set ms. fm_source m < MAX_FDS))"
  using assms
proof (induction ms arbitrary: fds w)
  case (Cons m ms)
  show ?case
  proof (cases "MAX_FDS \<le> fm_source m \<or> MAX_FDS \<le> fm_target m \<or> fds ! fm_source m = None")
    case True
    then show ?thesis using Cons(2,4) by (auto split: if_split_asm)
  next
    case False
    then obtain d where d: "fds ! fm_source m = Some d" and s: "fm_source m < length fds"
      and t: "fm_target m < length fds" using Cons(3) by auto
    obtain d1 w1 where c: "fd_clone d w = (d1, w1)" by (cases "fd_clone d w")
    obtain fds1 w2 where cl: "close_slot (fm_target m) (fds, w1) = (fds1, w2)"
      by (cases "close_slot (fm_target m) (fds, w1)")
    have "d \<in># ds + table_fds fds" using table_fds_mem [OF s d] by simp
    note w1 = world_ok_clone [OF Cons(2) this c]
    have "world_ok (add_mset d ds + table_fds fds) w1" using w1(2) by simp
    note w2 = world_ok_close_slot [OF this t cl]
    have "world_ok (ds + table_fds (fds1[fm_target m := Some d])) w2"
      using w2 table_fds_Some [of "fm_target m" fds1 d] t by simp
    then show ?thesis
      using Cons(1) [of "fds1[fm_target m := Some d]" w2] Cons(3,4) False d c cl w1(1) w2(1) by auto
  qed
qed simp

lemma world_ok_close_sources:
  assumes "world_ok (ds + table_fds fds) w" "\<forall>m \<in> set ms. fm_source m < length fds"
    "close_sources ms (fds, w) = (fds', w')"
  shows "world_ok (ds + table_fds fds') w'"
  using assms
proof (induction ms arbitrary: fds w)
  case (Cons m ms)
  obtain fds1 w1 where cl: "close_slot (fm_source m) (fds, w) = (fds1, w1)"
    by (cases "close_slot (fm_source m) (fds, w)")
  have "fm_source m < length fds" using Cons(3) by simp
  note step = world_ok_close_slot [OF Cons(2) this cl]
  show ?case using Cons(1) [OF step(2)] Cons(1) [OF Cons(2)] Cons(3,4) cl step(1) by (auto split: if_split_asm)
qed simp

lemma world_ok_apply_closes:
  assumes "world_ok (ds + table_fds fds) w" "length fds = MAX_FDS"
    "apply_closes is (fds, w) = (r, fds', w')"
  shows "world_ok (ds + table_fds fds') w'"
  using assms
proof (induction "is" arbitrary: fds w)
  case (Cons i "is")
  obtain fds1 w1 where cl: "close_slot i (fds, w) = (fds1, w1)" by (cases "close_slot i (fds, w)")
  show ?case
  proof (cases "i < MAX_FDS")
    case True
    then show ?thesis
      using Cons(1) [OF world_ok_close_slot(2) [OF Cons(2) _ cl]] world_ok_close_slot(1) [OF Cons(2) _ cl] Cons(3,4) cl by simp
  qed (use Cons in auto)
qed simp

lemma free_slot:
  assumes "sched_ok s" "check_task_capacity s = Inr i"
  shows "i < length (s_tasks s)" "s_tasks s ! i = None"
  using assms by (auto simp: check_task_capacity_def position_Some)

lemma live_fds_fresh:
  assumes "sched_ok s" "check_task_capacity s = Inr i" "s_tasks s' = (s_tasks s)[i := Some t]"
  shows "live_fds s' = live_fds s + table_fds (t_fds t)"
  using live_fds_update [OF free_slot(1) [OF assms(1,2)] assms(3)] free_slot(2) [OF assms(1,2)] by simp

lemma live_fds_freed:
  assumes "i < length (s_tasks s)" "s_tasks s ! i = Some t" "s_tasks s' = (s_tasks s)[i := None]"
  shows "live_fds s = live_fds s' + table_fds (t_fds t)"
  using live_fds_update [OF assms(1,3)] assms(2) by simp

lemma create_user_task_fds:
  assumes s: "sched_ok s" and w: "world_ok (live_fds s) w"
    and res: "create_user_task tr base space cx parent ms cs s w = (r, s', w', space')"
  shows "world_ok (live_fds s') w'"
proof -
  let ?fds = "case Option.bind parent (\<lambda>p. find_task p s) of
                   Some i \<Rightarrow> (case s_tasks s ! i of
                       Some task \<Rightarrow> clone_table (t_fds task) w | None \<Rightarrow> (initial_table, w))
                 | None \<Rightarrow> (initial_table, w)"
  have clone: "world_ok (live_fds s + table_fds (fst (clone_table (t_fds t) w))) (snd (clone_table (t_fds t) w))
      \<and> length (t_fds t) = MAX_FDS" if "i < MAX_TASKS" "s_tasks s ! i = Some t" for i t
    using world_ok_clone_table [OF w _ surjective_pairing, of "t_fds t"] that live_fds_slot [of i s]
      sched_okD(1) [OF s] sched_okD(8) [OF s that(1,2)] by (simp add: task_ok_def)
  have "world_ok (live_fds s + table_fds (fst ?fds)) (snd ?fds) \<and> length (fst ?fds) = MAX_FDS"
    using clone find_task_SomeD(1) [where s = s] sched_okD(1) [OF s] world_ok_std [OF w]
    by (fastforce split: option.split bind_split)
  then obtain fds w1 where fds: "?fds = (fds, w1)" "length fds = MAX_FDS" "world_ok (live_fds s + table_fds fds) w1"
    by (cases ?fds) auto
  obtain r2 fds2 w2 where m: "apply_mappings ms (fds, w1) = (r2, fds2, w2)" by (metis prod_cases3)
  note w2 = world_ok_apply_mappings [OF fds(3,2) m]
  have l2: "length fds2 = MAX_FDS" using m length_apply_mappings [of ms "(fds, w1)"] fds by simp
  obtain fdsc wc where so: "close_sources ms (fds2, w2) = (fdsc, wc)" by (cases "close_sources ms (fds2, w2)")
  have lc: "length fdsc = MAX_FDS" using so length_close_sources [of ms "(fds2, w2)"] l2 by simp
  obtain r3 fds3 w3 where c: "apply_closes cs (fdsc, wc) = (r3, fds3, w3)" by (metis prod_cases3)
  have w3: "world_ok (live_fds s + table_fds fds3) w3" if "r2 = Inr u" for u
    using world_ok_apply_closes [OF world_ok_close_sources [OF conjunct1 [OF w2] _ so] lc c] w2 that l2 by simp
  have new: "world_ok (live_fds (s\<lparr>s_next_id := n, s_tasks := (s_tasks s)[i := Some t]\<rparr>)) v"
    if "check_task_capacity s = Inr i" "t_fds t = fds3" "r2 = Inr u" "w3 = v" for n i t u v
    using live_fds_fresh [OF s that(1), of "s\<lparr>s_next_id := n, s_tasks := (s_tasks s)[i := Some t]\<rparr>" t] w3 that by simp
  note err = world_ok_drop_table [OF conjunct1 [OF w2]] world_ok_drop_table [OF w3]
  show ?thesis
    using res w err unfolding create_user_task_def fds(1) Let_def prod.case m so c
    by (auto intro!: new split: sum.split_asm option.split_asm prod.split_asm)
qed

lemma insert_task_fds:
  assumes s: "sched_ok s" and w: "world_ok (live_fds s) w"
  shows "world_ok (live_fds (snd (insert_task cx parent entry user stack stop s))) w"
  using w world_ok_std [OF w]
  by (auto simp: insert_task_def live_fds_fresh [OF s] split: sum.split option.split)

lemma create_kernel_task_fds:
  assumes "sched_ok s" "world_ok (live_fds s) w"
  shows "world_ok (live_fds (snd (create_kernel_task tr base entry parent s))) w"
  using assms(2) insert_task_fds [OF assms]
  by (auto simp: create_kernel_task_def split: sum.split option.split prod.split)

lemma reap_terminated_fds:
  assumes s: "sched_ok s" and w: "world_ok (live_fds s) w"
    and res: "reap_terminated T cr3 i s w cell = Some (r, s', w', cell')"
  shows "world_ok (live_fds s') w'"
proof (cases "find_task i s")
  case (Some k)
  note k = find_task_SomeD [OF Some]
  then obtain t where t: "s_tasks s ! k = Some t" by auto
  let ?free = "s\<lparr>s_tasks := (s_tasks s)[k := None]\<rparr>"
  have gone: "world_ok (live_fds ?free) (drop_table (t_fds t) w)"
    by (rule world_ok_drop_table) (use w live_fds_freed [OF k(1) t, of ?free] in simp)
  have kept: "live_fds (upd_task k (\<lambda>t. t\<lparr>t_user := Some (u\<lparr>ut_address_space := a\<rparr>)\<rparr>) s) = live_fds s" for u a
    by (rule same_fds_live) (simp add: same_fds_upd)
  show ?thesis
    using res w unfolding reap_terminated_def Some option.case t
    by (auto simp: gone kept split: option.split_asm sum.split_asm prod.split_asm if_split_asm)
qed (use res w in \<open>auto simp: reap_terminated_def\<close>)

lemma live_fds_set:
  assumes "i < length (s_tasks s)" "s_tasks s ! i = Some t" "n < length (t_fds t)"
  shows "live_fds (upd_task i (\<lambda>t. t\<lparr>t_fds := (t_fds t)[n := d]\<rparr>) s) + opt_fd (t_fds t ! n) = live_fds s + opt_fd d"
proof -
  let ?t = "t\<lparr>t_fds := (t_fds t)[n := d]\<rparr>"
  let ?s = "upd_task i (\<lambda>t. t\<lparr>t_fds := (t_fds t)[n := d]\<rparr>) s"
  have "live_fds ?s + table_fds (t_fds t) = live_fds s + table_fds ((t_fds t)[n := d])"
    using live_fds_update [OF assms(1), of ?s "Some ?t"] assms(2) by (simp add: upd_task_def)
  then have "live_fds ?s + table_fds (t_fds t) + opt_fd (t_fds t ! n) = live_fds s + (table_fds (t_fds t) + opt_fd d)"
    using table_fds_update [OF assms(3), of d] by (simp add: add.assoc)
  then have "live_fds ?s + opt_fd (t_fds t ! n) + table_fds (t_fds t) = live_fds s + opt_fd d + table_fds (t_fds t)"
    by (simp only: ac_simps)
  then show ?thesis by simp
qed

lemma quiet_world: "fds_ok k \<Longrightarrow> world_ok (live_fds (k_sched k)) w \<Longrightarrow> fds_ok (k\<lparr>k_world := w\<rparr>)"
  by (simp add: fds_ok_def)

lemma set_current_fd_fds:
  assumes k: "sched_ok (k_sched k)" and c: "s_current (k_sched k) = Some c" "s_tasks (k_sched k) ! c = Some t"
    and n: "n < MAX_FDS" and w: "world_ok (live_fds (k_sched k) + opt_fd d - opt_fd (t_fds t ! n)) (k_world k)"
  shows "fds_ok (set_current_fd c n d k)"
proof -
  have "c < MAX_TASKS" using sched_okD(4) [OF k c(1)] by simp
  then have "live_fds (k_sched (set_current_fd c n d k)) + opt_fd (t_fds t ! n) = live_fds (k_sched k) + opt_fd d"
    using live_fds_set [of c "k_sched k" t n d] sched_okD(8) [OF k _ c(2)] sched_okD(1) [OF k] c n
    by (simp add: set_current_fd_def task_ok_def)
  then have "live_fds (k_sched (set_current_fd c n d k)) = live_fds (k_sched k) + opt_fd d - opt_fd (t_fds t ! n)"
    by (metis add_diff_cancel_right')
  then show ?thesis using w by (simp add: fds_ok_def) (simp add: set_current_fd_def)
qed

lemma running_fd:
  assumes k: "sched_ok (k_sched k)" "running_task k = Some t" "get_fd n t = Some d"
  shows "d \<in># live_fds (k_sched k)"
proof -
  obtain c where c: "s_current (k_sched k) = Some c" "s_tasks (k_sched k) ! c = Some t"
    using k(2) by (auto simp: running_task_def split: bind_split_asm)
  have "c < length (s_tasks (k_sched k))" using sched_okD(1,4) [OF k(1)] c by auto
  moreover have "d \<in># table_fds (t_fds t)" using k(3) by (auto simp: get_fd_def intro: table_fds_mem split: if_split_asm)
  ultimately show ?thesis using live_fds_slot [of c "k_sched k"] c(2) by (simp add: mset_subset_eqD)
qed

lemma read_fd_fds:
  assumes "kernel_ok k" "fds_ok k" "read_current_fd n buf k = (r, buf', k')"
  shows "fds_ok k'"
  using assms
  by (auto simp: read_current_fd_def fds_ok_def intro: world_ok_read [OF _ running_fd [OF kernel_okD(1) [OF assms(1)]]]
      split: option.split_asm prod.split_asm)

lemma write_fd_fds:
  assumes "kernel_ok k" "fds_ok k" "write_current_fd D n bs k = (r, k')"
  shows "fds_ok k'"
  using assms
  by (auto simp: write_current_fd_def fds_ok_def intro: world_ok_write [OF _ running_fd [OF kernel_okD(1) [OF assms(1)]]]
      split: option.split_asm prod.split_asm)

lemma install_file_fds:
  assumes k: "kernel_ok k" "fds_ok k" and res: "install_file create k = (r, k')"
    and create: "\<And>x w'. create (k_world k) = (x, w') \<Longrightarrow>
      world_ok (case x of None \<Rightarrow> live_fds (k_sched k) | Some d \<Rightarrow> add_mset d (live_fds (k_sched k))) w'"
  shows "fds_ok k'"
proof -
  have set: "fds_ok (set_current_fd c n (Some d) (k\<lparr>k_world := w\<rparr>))"
    if "s_current (k_sched k) = Some c" "s_tasks (k_sched k) ! c = Some t" "find_free_fd (t_fds t) = Some n"
      "create (k_world k) = (Some d, w)" for c t n d w
  proof (rule set_current_fd_fds)
    have "c < MAX_TASKS" using sched_okD(4) [OF kernel_okD(1) [OF k(1)]] that by simp
    then have "length (t_fds t) = MAX_FDS"
      using sched_okD(8) [OF kernel_okD(1) [OF k(1)]] that by (simp add: task_ok_def)
    then show "n < MAX_FDS" using that(3) by (simp add: find_free_fd_def position_Some)
    have "t_fds t ! n = None" using that(3) by (simp add: find_free_fd_def position_Some)
    then show "world_ok (live_fds (k_sched (k\<lparr>k_world := w\<rparr>)) + opt_fd (Some d) - opt_fd (t_fds t ! n))
        (k_world (k\<lparr>k_world := w\<rparr>))"
      using create [OF that(4)] by simp
  qed (use that kernel_okD(1) [OF k(1)] in auto)
  have "world_ok (live_fds (k_sched k)) w" if "create (k_world k) = (None, w)" for w
    using create [OF that] by simp
  moreover have "world_ok (live_fds (k_sched k)) (fd_drop d w)" if "create (k_world k) = (Some d, w)" for d w
    using create [OF that] by (simp add: world_ok_drop)
  ultimately show ?thesis
    using res k(2) set unfolding install_file_def
    by (auto simp: fds_ok_def split: option.split_asm prod.split_asm if_split_asm)
qed

lemma find_free_fd_pair_SomeD:
  assumes "find_free_fd_pair fds = Some (i, j)"
  shows "i < length fds" "j < length fds" "fds ! i = None" "fds ! j = None" "i \<noteq> j"
proof -
  obtain rest where r: "filter (\<lambda>i. fds ! i = None) [0..<length fds] = i # j # rest"
    using assms by (auto simp: find_free_fd_pair_def split: list.split_asm)
  have "distinct (i # j # rest)" unfolding r [symmetric] by simp
  then show "i \<noteq> j" by simp
  have "set (i # j # rest) \<subseteq> {i. i < length fds \<and> fds ! i = None}" unfolding r [symmetric] by auto
  then show "i < length fds" "j < length fds" "fds ! i = None" "fds ! j = None" by auto
qed

lemma make_pipe_fds:
  assumes k: "kernel_ok k" "fds_ok k" and res: "create_pipe_for_current k = (r, k')"
  shows "fds_ok k'"
proof -
  have s: "sched_ok (k_sched k)" by (rule kernel_okD(1) [OF k(1)])
  have "world_ok (live_fds (k_sched k)) (fd_drop r (fd_drop t w))" if "create_pipe (k_world k) = (Some (r, t), w)" for r t w
    using world_ok_create_pipe [OF _ that] k(2) by (simp add: fds_ok_def add_mset_commute world_ok_drop)
  then have dropped: "fds_ok (k\<lparr>k_world := fd_drop r (fd_drop t w)\<rparr>)" if "create_pipe (k_world k) = (Some (r, t), w)" for r t w
    using that by (simp add: fds_ok_def)
  have none: "w = k_world k" if "create_pipe (k_world k) = (None, w)" for w
    using that by (simp add: create_pipe_def Let_def split: if_split_asm)
  have made: "fds_ok (set_current_fd c j (Some y) (set_current_fd c i (Some x) (k\<lparr>k_world := w\<rparr>)))"
    if p: "create_pipe (k_world k) = (Some (x, y), w)" and c: "s_current (k_sched k) = Some c"
      "s_tasks (k_sched k) ! c = Some t" and free: "find_free_fd_pair (t_fds t) = Some (i, j)" for x y w c t i j
  proof -
    note f = find_free_fd_pair_SomeD [OF free]
    have c16: "c < MAX_TASKS" using sched_okD(4) [OF s c(1)] by simp
    then have len: "length (t_fds t) = MAX_FDS" using sched_okD(8) [OF s _ c(2)] by (simp add: task_ok_def)
    let ?k1 = "set_current_fd c i (Some x) (k\<lparr>k_world := w\<rparr>)"
    have "live_fds (k_sched ?k1) = add_mset x (live_fds (k_sched k))"
      using live_fds_set [of c "k_sched k" t i "Some x"] sched_okD(1) [OF s] c c16 f by (simp add: set_current_fd_def)
    moreover have "s_tasks (k_sched ?k1) ! c = Some (t\<lparr>t_fds := (t_fds t)[i := Some x]\<rparr>)"
      "s_current (k_sched ?k1) = Some c" "k_world ?k1 = w"
      using c c16 sched_okD(1) [OF s] by (simp_all add: set_current_fd_def upd_task_def)
    moreover have "sched_ok (k_sched ?k1)"
      using set_fd_frame(1) [of "k\<lparr>k_world := w\<rparr>"] s by simp
    ultimately show ?thesis
      using set_current_fd_fds [of ?k1 c _ j "Some y"] world_ok_create_pipe [OF _ p] k(2) f len
      by (simp add: fds_ok_def add_mset_commute)
  qed
  show ?thesis
    using res k(2) dropped none made unfolding create_pipe_for_current_def Let_def
    by (auto split: option.split_asm prod.split_asm)
qed

lemma close_fd_fds:
  assumes k: "kernel_ok k" "fds_ok k" and res: "close_current_fd n k = (r, k')"
  shows "fds_ok k'"
proof -
  have s: "sched_ok (k_sched k)" by (rule kernel_okD(1) [OF k(1)])
  have "fds_ok (set_current_fd c n None (k\<lparr>k_world := fd_close d (k_world k)\<rparr>))"
    if c: "s_current (k_sched k) = Some c" "s_tasks (k_sched k) ! c = Some t" "get_fd n t = Some d" for c t d
  proof (rule set_current_fd_fds)
    have "c < MAX_TASKS" using sched_okD(4) [OF s c(1)] by simp
    then have "length (t_fds t) = MAX_FDS" using sched_okD(8) [OF s _ c(2)] by (simp add: task_ok_def)
    then show "n < MAX_FDS" using c(3) by (simp add: get_fd_def split: if_split_asm)
    have "d \<in># live_fds (k_sched k)" using running_fd [OF s _ c(3)] c by (simp add: running_task_def)
    then have "live_fds (k_sched k) = add_mset d (live_fds (k_sched k) - {#d#})" by simp
    then have "world_ok (add_mset d (live_fds (k_sched k) - {#d#})) (k_world k)" using k(2) by (simp add: fds_ok_def)
    then show "world_ok (live_fds (k_sched (k\<lparr>k_world := fd_close d (k_world k)\<rparr>)) + opt_fd None - opt_fd (t_fds t ! n))
        (k_world (k\<lparr>k_world := fd_close d (k_world k)\<rparr>))"
      using c(3) world_ok_drop by (simp add: get_fd_def fd_close_def split: if_split_asm)
  qed (use c s in auto)
  then have "fds_ok (k1\<lparr>k_sched := wake_all_blocked (k_sched k1)\<rparr>)"
    if "s_current (k_sched k) = Some c" "s_tasks (k_sched k) ! c = Some t" "get_fd n t = Some d"
      "k1 = set_current_fd c n None (k\<lparr>k_world := fd_close d (k_world k)\<rparr>)" for c t d k1
    using quiet_fds_ok [OF quiet_sched [OF same_fds_wake_all]] that by blast
  then show ?thesis
    using res k(2) unfolding close_current_fd_def Let_def
    by (auto split: option.split_asm bind_split_asm)
qed

lemma dup_fd_fds:
  assumes k: "kernel_ok k" "fds_ok k" and res: "duplicate_current_fd a b k = (r, k')"
  shows "fds_ok k'"
proof -
  have s: "sched_ok (k_sched k)" by (rule kernel_okD(1) [OF k(1)])
  have set: "fds_ok (set_current_fd c b (Some d') (k\<lparr>k_world := w2\<rparr>))"
    if c: "s_current (k_sched k) = Some c" "s_tasks (k_sched k) ! c = Some t" "t_fds t ! a = Some d"
      "fd_clone d (k_world k) = (d', w1)" and ab: "a < MAX_FDS" "b < MAX_FDS"
      and w2: "(case t_fds t ! b of None \<Rightarrow> w1 | Some previous \<Rightarrow> fd_close previous w1) = w2" for c t d d' w1 w2
  proof -
    have "c < MAX_TASKS" using sched_okD(4) [OF s c(1)] by simp
    then have len: "length (t_fds t) = MAX_FDS" using sched_okD(8) [OF s _ c(2)] by (simp add: task_ok_def)
    have live: "x \<in># live_fds (k_sched k)" if "t_fds t ! n = Some x" "n < MAX_FDS" for n x
      using running_fd [OF s, of t n x] c that len by (simp add: running_task_def get_fd_def)
    have w1: "d' = d" "world_ok (add_mset d (live_fds (k_sched k))) w1"
      using world_ok_clone [OF _ live [OF c(3) ab(1)] c(4)] k(2) by (simp_all add: fds_ok_def)
    have "world_ok (live_fds (k_sched k) + opt_fd (Some d) - opt_fd (t_fds t ! b))
        (case t_fds t ! b of None \<Rightarrow> w1 | Some previous \<Rightarrow> fd_close previous w1)"
    proof (cases "t_fds t ! b")
      case (Some p)
      then have "add_mset p (add_mset d (live_fds (k_sched k)) - {#p#}) = add_mset d (live_fds (k_sched k))"
        using live ab by simp
      then have "world_ok (add_mset p (add_mset d (live_fds (k_sched k)) - {#p#})) w1" using w1(2) by simp
      from world_ok_drop [OF this] show ?thesis using Some by (simp add: fd_close_def)
    qed (use w1 in simp)
    then show ?thesis using set_current_fd_fds [of "k\<lparr>k_world := w2\<rparr>" c t b "Some d"] s c ab w1(1) w2 by simp
  qed
  show ?thesis
    using res k(2) unfolding duplicate_current_fd_def Let_def
    by (auto intro: set split: option.split_asm prod.split_asm if_split_asm)
qed

section \<open>Every step keeps the counters\<close>

lemma run_tasks_fds:
  assumes k: "kernel_ok k" "fds_ok k" and res: "run_tasks tr base entry k = Some (r, k')"
  shows "fds_ok k'"
proof -
  obtain r1 s where i: "install_idle tr base entry (k_sched k) = (r1, s)"
    by (cases "install_idle tr base entry (k_sched k)")
  have live: "world_ok (live_fds (snd (create_kernel_task tr base entry None (k_sched k)))) (k_world k)"
    using create_kernel_task_fds [OF kernel_okD(1) [OF k(1)]] k(2) by (simp add: fds_ok_def)
  have "live_fds ((upd_task j (\<lambda>t. t\<lparr>t_is_idle := True\<rparr>) s1)\<lparr>s_idle_index := x\<rparr>) = live_fds s1" for j s1 x
    by (rule same_fds_live) (use same_fds_upd [of "\<lambda>t. t\<lparr>t_is_idle := True\<rparr>" s1 j] in \<open>simp add: same_fds_def\<close>)
  then have s: "world_ok (live_fds s) (k_world k)"
    using i live k(2)
    by (auto simp: install_idle_def fds_ok_def split: if_split_asm sum.split_asm prod.split_asm option.split_asm)
  have "same_fds s (snd (scheduler_start s))"
    by (auto simp: scheduler_start_def same_fds_select split: option.split)
  then have st: "fds_ok (k\<lparr>k_sched := s1\<rparr>)" if "scheduler_start s = (r2, s1)" for r2 s1
    using that s same_fds_live [of s s1] by (simp add: fds_ok_def)
  show ?thesis
    using res s unfolding run_tasks_def i Let_def
    by (auto intro: st quiet_fds_ok [OF quiet_fds_trans [OF quiet_activate quiet_context_switch] st] simp: fds_ok_def [where k = "k\<lparr>k_sched := s\<rparr>"]
        split: sum.split_asm prod.split_asm option.split_asm)
qed

lemma run_tasks_return_fds:
  assumes k: "kernel_ok k" "fds_ok k"
  shows "fds_ok (run_tasks_return k)"
proof -
  have s: "sched_ok (k_sched k)" by (rule kernel_okD(1) [OF k(1)])
  have "world_ok (live_fds ((k_sched k)\<lparr>s_idle_index := None, s_tasks := (s_tasks (k_sched k))[i := None]\<rparr>))
      (drop_table (t_fds t) (k_world k))"
    if "s_idle_index (k_sched k) = Some i" "s_tasks (k_sched k) ! i = Some t" for i t
    by (rule world_ok_drop_table)
      (use that k(2) live_fds_freed [of i "k_sched k" t "(k_sched k)\<lparr>s_idle_index := None, s_tasks := (s_tasks (k_sched k))[i := None]\<rparr>"]
        sched_okD(1) [OF s] sched_okD(6) [OF s that(1)] in \<open>simp add: fds_ok_def\<close>)
  then show ?thesis
    using k(2) unfolding run_tasks_return_def Let_def by (auto simp: fds_ok_def split: option.split)
qed

lemma destroy_unspawned_fds:
  "destroy_unspawned_address_space T a k = Some (r, k') \<Longrightarrow> quiet_fds k k'"
  by (auto simp: destroy_unspawned_address_space_def quiet_fds_def split: option.split_asm)

lemma spawn_user_fds:
  assumes k: "kernel_ok k" "fds_ok k"
    and res: "spawn_user_with_arguments_and_fds T tr base space entry stack argc argv ms cs k = Some (r, k')"
  shows "fds_ok k'"
proof -
  have new: "fds_ok (k\<lparr>k_sched := s1, k_world := w1\<rparr>)"
    if "create_user_task tr base (Some space) cx p ms cs (k_sched k) (k_world k) = (r1, s1, w1, l)" for cx p r1 s1 w1 l
    using create_user_task_fds [OF kernel_okD(1) [OF k(1)] _ that] k(2) by (simp add: fds_ok_def)
  show ?thesis
    using res k(2) unfolding spawn_user_with_arguments_and_fds_def Let_def
    by (auto intro: new quiet_fds_ok [OF destroy_unspawned_fds] quiet_fds_ok [OF destroy_unspawned_fds new]
        split: sum.split_asm prod.split_asm if_split_asm)
qed

lemma wait_fds:
  assumes k: "kernel_ok k" "fds_ok k" and res: "wait_for_child T child k = Some (r, k')"
  shows "fds_ok k'"
proof -
  have reap: "fds_ok (k\<lparr>k_sched := s, k_world := w, k_mem := cell\<rparr>)"
    if "reap_terminated T (k_cr3 k) i (k_sched k) (k_world k) (k_mem k) = Some (r1, s, w, cell)" for i r1 s w cell
    using reap_terminated_fds [OF kernel_okD(1) [OF k(1)] _ that] k(2) by (simp add: fds_ok_def)
  show ?thesis
    using res k(2) unfolding wait_for_child_def Let_def
    by (auto intro: reap quiet_fds_ok [OF quiet_saved_sched [OF same_fds_transition']]
          quiet_fds_ok [OF quiet_leave [OF same_fds_transition']]
        split: option.split_asm sum.split_asm prod.split_asm if_split_asm)
qed

lemma reap_fds:
  assumes k: "kernel_ok k" "fds_ok k" and res: "kernel_reap_terminated T i k = Some (r, k')"
  shows "fds_ok k'"
  using res reap_terminated_fds [OF kernel_okD(1) [OF k(1)]] k(2)
  by (auto simp: kernel_reap_terminated_def fds_ok_def)

lemma spawn_fds:
  assumes k: "kernel_ok k" "fds_ok k" and res: "spawn tr base entry k = (r, k')"
  shows "fds_ok k'"
  using res k(2) create_kernel_task_fds [OF kernel_okD(1) [OF k(1)], of "k_world k" tr base entry "current_task (k_sched k)"]
  by (auto simp: spawn_def spawn_into_def fds_ok_def Let_def split: if_split_asm prod.split_asm)

lemma kstep_fds:
  assumes step: "kstep T D x k k'" and k: "kernel_ok k" "fds_ok k"
  shows "fds_ok k'"
  using step
proof cases
  case (store a bs r)
  then have "quiet_fds k k'" by (auto simp: copy_to_current_user_def quiet_fds_def split: sum.split_asm)
  then show ?thesis using quiet_fds_ok k(2) by blast
next
  case timer
  have "quiet_fds k (on_interrupt k)" by (simp add: quiet_fds_def on_interrupt_def)
  then show ?thesis using quiet_fds_ok [OF quiet_fds_trans [OF _ quiet_preempt [OF timer(2)]] k(2)] by blast
next
  case (wake_task i r)
  then have "quiet_fds k k'" using same_fds_wake [of "k_sched k" i] by (auto simp: wake_task_def quiet_fds_def Let_def split: prod.split_asm)
  then show ?thesis using quiet_fds_ok k(2) by blast
next
  case (kill i code r)
  then have "quiet_fds k k'"
    using same_fds_terminate [of "k_sched k" i code] by (auto simp: kernel_terminate_task_def quiet_fds_def Let_def split: prod.split_asm)
  then show ?thesis using quiet_fds_ok k(2) by blast
next
  case wake_all
  then show ?thesis
    using quiet_fds_ok [OF quiet_sched [OF same_fds_wake_all] k(2)] by (simp add: wake_all_blocked_tasks_def)
next
  case (open_write path r)
  then show ?thesis
    by (intro install_file_fds [OF k, of "create_file_write D path" r])
      (use k(2) in \<open>auto simp: create_file_write_for_current_def fds_ok_def intro: world_ok_create_file_write\<close>)
next
  case (open_read path r)
  then show ?thesis
    by (intro install_file_fds [OF k, of "create_file_read D path" r])
      (use k(2) in \<open>auto simp: create_file_read_for_current_def fds_ok_def intro: world_ok_create_file_read\<close>)
next
  case (compute c v)
  then show ?thesis using k(2) by (simp add: fds_ok_def)
qed (use k quiet_fds_ok [OF _ k(2)] in \<open>auto intro: quiet_yield quiet_block quiet_sleep quiet_exit quiet_idle_round
    run_tasks_fds run_tasks_return_fds spawn_fds spawn_user_fds wait_fds reap_fds read_fd_fds write_fd_fds
    make_pipe_fds close_fd_fds dup_fd_fds\<close>)

lemma kernel_start_fds: "fds_ok (kernel_start m (world_init disk))"
proof -
  have "live_fds Scheduler_new = {#}" by (simp add: live_fds_def new_tasks)
  then show ?thesis by (simp add: fds_ok_def kernel_start_def world_ok_init)
qed

lemma kernel_run_fds:
  assumes "kernel_run T D (kernel_start m (world_init disk)) k"
  shows "kernel_ok k \<and> fds_ok k"
  using assms unfolding kernel_run_def
  by (induction rule: rtranclp_induct) (auto simp: kernel_start_ok kernel_start_fds step_ok_def dest: kstep_ok kstep_fds)

section \<open>Properties\<close>

text \<open>The number of entries of all descriptor tables that hold the descriptor \<open>d\<close>.\<close>

definition descriptors_on :: "Scheduler \<Rightarrow> FileDescriptor \<Rightarrow> nat" where
  "descriptors_on s d = sum_list (map (\<lambda>t. case t of None \<Rightarrow> 0
     | Some task \<Rightarrow> count_list (t_fds task) (Some d)) (s_tasks s))"

lemma count_table_fds: "count (table_fds fds) d = count_list fds (Some d)"
proof (induction fds)
  case (Cons x fds)
  then show ?case by (cases x) auto
qed simp

lemma count_live_fds: "count (live_fds s) d = descriptors_on s d"
proof -
  have "count (sum_list (map slot_fds xs)) d = sum_list (map (\<lambda>t. case t of None \<Rightarrow> 0
     | Some task \<Rightarrow> count_list (t_fds task) (Some d)) xs)" for xs
    by (induction xs) (auto simp: count_table_fds split: option.split)
  then show ?thesis by (simp add: live_fds_def descriptors_on_def)
qed

text \<open>C6. The reference counts of pipes are exact in the whole kernel: after any sequence of system
  calls, spawns with redirections, exits, reaps and task switches, the reader and writer counters
  of every pipe are the numbers of read and write descriptors for it in the tables of all tasks.\<close>

theorem pipe_counters_exact:
  assumes "kernel_run T D (kernel_start m (world_init disk)) k" and "i < length (w_pipes (k_world k))"
  shows "p_readers (w_pipes (k_world k) ! i) = descriptors_on (k_sched k) (PipeRead i)
    \<and> p_writers (w_pipes (k_world k) ! i) = descriptors_on (k_sched k) (PipeWrite i)"
  using kernel_run_fds [OF assms(1)] assms(2)
  by (simp add: fds_ok_def world_ok_def pipe_counts_ok_def count_live_fds)

lemma context_switch_world: "k_world (leafos_context_switch old new k) = k_world k"
  using quiet_context_switch [of k] by (simp add: quiet_fds_def)

lemma run_tasks_world:
  assumes "run_tasks tr base entry k = Some (r, k')"
  shows "k_world k' = k_world k"
proof -
  have "k_world k1 = k_world k" if "activate_task_address_space i (k\<lparr>k_sched := s\<rparr>) = Some k1" for i s k1
    using quiet_activate [OF that] by (simp add: quiet_fds_def)
  then show ?thesis
    using assms by (auto simp: run_tasks_def Let_def context_switch_world split: sum.split_asm prod.split_asm option.split_asm)
qed

lemma sample_pipe:
  "\<exists>k t. kernel_run T D (kernel_start sample_manager (world_init ())) k \<and> running_task k = Some t
    \<and> get_fd 3 t = Some (PipeRead 0) \<and> 0 < length (w_pipes (k_world k)) \<and> p_length (w_pipes (k_world k) ! 0) = 0"
proof -
  obtain cx st stop where st: "create_task_stack 4096 65536 = Inr (cx, st, stop)" using sample_stack by blast
  note run = sample_running_sched(2) [OF st]
  have w: "w_pipes (k_world sample_running) = []"
    unfolding run_tasks_world [OF sample_running_sched(1) [OF st]] sample_two_sched(3) [OF st]
    by (simp add: sample_start_def kernel_start_def world_init_def)
  have table: "initial_table = [Some Stdin, Some Console, Some Console, None, None, None, None, None, None,
      None, None, None, None, None, None, None]"
    by (simp add: initial_table_def MAX_FDS_def STDIN_def STDOUT_def STDERR_def numeral_eq_Suc)
  have pair: "find_free_fd_pair initial_table = Some (3, 4)"
    by (simp add: table find_free_fd_pair_def upt_rec)
  note pair' = pair [unfolded table]
  obtain r k where k: "create_pipe_for_current sample_running = (r, k)" by (cases "create_pipe_for_current sample_running")
  then have "w_pipes (k_world k) = [Pipe_new\<lparr>p_readers := 1\<rparr>] \<and> (\<exists>t. running_task k = Some t \<and> get_fd 3 t = Some (PipeRead 0))"
    by (auto simp: create_pipe_for_current_def create_pipe_def Let_def set_current_fd_def w run sample_task_def pair'
        running_task_def upd_task_def get_fd_def table)
  moreover have "kernel_run T D (kernel_start sample_manager (world_init ())) k"
    using rtranclp.rtrancl_into_rtrancl [OF sample_run' [of T D, unfolded kernel_run_def]] kstep.make_pipe [OF k]
    unfolding kernel_run_def by blast
  ultimately show ?thesis by (auto intro!: exI [of _ k])
qed

theorem pipe_counters_exact_witness:
  "\<exists>k :: (unit, nat \<rightharpoonup> nat) Kernel. 0 < length (w_pipes (k_world k))
    \<and> p_writers (w_pipes (k_world k) ! 0) = descriptors_on (k_sched k) (PipeWrite 0)"
proof -
  obtain k where k: "kernel_run flat_tables no_files (kernel_start sample_manager (world_init ())) k"
    "0 < length (w_pipes (k_world k))" using sample_pipe by blast
  then show ?thesis using pipe_counters_exact [OF k] by blast
qed

text \<open>C20. End of file and broken pipes are decided by the descriptors that exist: for a running task
  with a read descriptor of a pipe, a read of the empty pipe blocks exactly when some task still
  has a write descriptor for it and returns 0 otherwise; and a write to a pipe is broken exactly
  when no task has a read descriptor for it.\<close>

theorem pipe_ends_decide:
  assumes "kernel_run T D (kernel_start m (world_init disk)) k" and "running_task k = Some t"
  shows "(get_fd n t = Some (PipeRead i) \<and> p_length (w_pipes (k_world k) ! i) = 0 \<longrightarrow>
      fst (read_current_fd n buf k) = (if descriptors_on (k_sched k) (PipeWrite i) = 0 then Inr 0 else Inl SchedWouldBlock))
    \<and> (get_fd n t = Some (PipeWrite i) \<longrightarrow>
      (fst (write_current_fd D n bs k) = Inl SchedBrokenPipe \<longleftrightarrow> descriptors_on (k_sched k) (PipeRead i) = 0))"
proof -
  have k: "kernel_ok k" "world_ok (live_fds (k_sched k)) (k_world k)"
    using kernel_run_fds [OF assms(1)] by (simp_all add: fds_ok_def)
  have obj: "i < length (w_pipes (k_world k))" if "get_fd n t = Some (PipeRead i) \<or> get_fd n t = Some (PipeWrite i)"
    using world_okD(3) [OF k(2)] running_fd [OF kernel_okD(1) [OF k(1)] assms(2)] that by (metis fd_object.simps(1,2))
  have counts: "p_readers (w_pipes (k_world k) ! i) = descriptors_on (k_sched k) (PipeRead i)"
    "p_writers (w_pipes (k_world k) ! i) = descriptors_on (k_sched k) (PipeWrite i)"
    "pipe_invar (w_pipes (k_world k) ! i)" if "i < length (w_pipes (k_world k))"
    using k(2) that by (simp_all add: world_ok_def pipe_counts_ok_def count_live_fds)
  have "fst (read_current_fd n buf k) = (if descriptors_on (k_sched k) (PipeWrite i) = 0 then Inr 0 else Inl SchedWouldBlock)"
    if h: "get_fd n t = Some (PipeRead i)" "p_length (w_pipes (k_world k) ! i) = 0"
    using counts [OF obj] h Pipe_read_spec(1) [of "w_pipes (k_world k) ! i" buf]
    by (auto simp: read_current_fd_def assms(2) split: prod.split)
  moreover have "fst (write_current_fd D n bs k) = Inl SchedBrokenPipe \<longleftrightarrow> descriptors_on (k_sched k) (PipeRead i) = 0"
    if h: "get_fd n t = Some (PipeWrite i)"
    using counts [OF obj] h by (auto simp: write_current_fd_def assms(2) split: prod.split)
  ultimately show ?thesis by blast
qed

theorem pipe_ends_decide_witness:
  "\<exists>k :: (unit, nat \<rightharpoonup> nat) Kernel. fst (read_current_fd 3 [0] k)
    = (if descriptors_on (k_sched k) (PipeWrite 0) = 0 then Inr 0 else Inl SchedWouldBlock)"
proof -
  obtain k t where k: "kernel_run flat_tables no_files (kernel_start sample_manager (world_init ())) k"
    "running_task k = Some t" "get_fd 3 t = Some (PipeRead 0)" "p_length (w_pipes (k_world k) ! 0) = 0"
    using sample_pipe by blast
  show ?thesis using pipe_ends_decide [OF k(1,2), of 3 0 "[0]" "[]"] k(3,4) by blast
qed

end
