(* ===== verification/Byte_Strings.thy ===== *)
theory Byte_Strings
  imports LeafOS_Prelude
begin

text \<open>
  The operations on byte slices and strings that the file system, the program loader and the shell
  use: checked sub-slices, splitting at separators, prefixes, and the character classes.
\<close>

text \<open>\<open>slice.get(a..b)\<close>.\<close>

definition get_range :: "'a list \<Rightarrow> nat \<Rightarrow> nat \<Rightarrow> 'a list option" where
  "get_range xs a b = (if a \<le> b \<and> b \<le> length xs then Some (take (b - a) (drop a xs)) else None)"

text \<open>\<open>&slice[a..b]\<close> where the bounds are known to hold.\<close>

definition slice :: "'a list \<Rightarrow> nat \<Rightarrow> nat \<Rightarrow> 'a list" where
  "slice xs a b = take (b - a) (drop a xs)"

text \<open>\<open>slice.split(p)\<close>: the parts between the elements that satisfy \<open>P\<close>; there is always one.\<close>

fun split_on :: "('a \<Rightarrow> bool) \<Rightarrow> 'a list \<Rightarrow> 'a list list" where
  "split_on P [] = [[]]"
| "split_on P (x # xs) =
    (if P x then [] # split_on P xs
     else case split_on P xs of [] \<Rightarrow> [[x]] | y # ys \<Rightarrow> (x # y) # ys)"

definition starts_with :: "'a list \<Rightarrow> 'a list \<Rightarrow> bool" where
  "starts_with p xs \<longleftrightarrow> take (length p) xs = p"

definition strip_prefix :: "'a list \<Rightarrow> 'a list \<Rightarrow> 'a list option" where
  "strip_prefix p xs = (if starts_with p xs then Some (drop (length p) xs) else None)"

definition is_ascii_digit :: "byte \<Rightarrow> bool" where
  "is_ascii_digit b \<longleftrightarrow> 0x30 \<le> b \<and> b \<le> 0x39"

definition is_ascii_alphanumeric :: "byte \<Rightarrow> bool" where
  "is_ascii_alphanumeric b \<longleftrightarrow> is_ascii_digit b \<or> 0x41 \<le> b \<and> b \<le> 0x5A \<or> 0x61 \<le> b \<and> b \<le> 0x7A"

lemma split_on_not_Nil [simp]: "split_on P xs \<noteq> []"
  by (induction xs) (auto split: list.split)

lemma split_on_parts:
  "set xs \<subseteq> {x. P x} \<union> \<Union> (set ` set (split_on P xs))"
proof (induction xs)
  case (Cons x xs)
  then show ?case by (cases "split_on P xs") auto
qed simp

lemma split_on_append_sep:
  assumes "P x"
  shows "split_on P (as @ x # bs) = split_on P as @ split_on P bs"
proof (induction as)
  case (Cons a as)
  then show ?case by (cases "split_on P as") auto
qed (simp add: assms)

lemma split_on_none: "\<forall>x \<in> set xs. \<not> P x \<Longrightarrow> split_on P xs = [xs]"
  by (induction xs) auto

lemma split_on_clean: "p \<in> set (split_on P xs) \<Longrightarrow> x \<in> set p \<Longrightarrow> \<not> P x"
proof (induction xs arbitrary: p)
  case (Cons y xs)
  then show ?case by (cases "split_on P xs") (fastforce split: if_split_asm)+
qed simp

lemma starts_with_append [simp]: "starts_with p (p @ xs)"
  by (simp add: starts_with_def)

lemma starts_withE: "starts_with p xs \<Longrightarrow> (\<And>ys. xs = p @ ys \<Longrightarrow> thesis) \<Longrightarrow> thesis"
  by (metis append_take_drop_id starts_with_def)

lemma strip_prefix_Some [simp]: "strip_prefix p xs = Some ys \<longleftrightarrow> xs = p @ ys"
  by (auto simp: strip_prefix_def elim: starts_withE)

lemma ascii_less [simp]: "is_ascii_alphanumeric b \<Longrightarrow> b < 0x80"
  by (auto simp: is_ascii_alphanumeric_def is_ascii_digit_def word_le_nat_alt word_less_nat_alt)

lemma utf8_valid_ascii: "\<forall>b \<in> set bs. b < 0x80 \<Longrightarrow> utf8_valid bs"
  by (induction bs) simp_all

end
