(* ===== verification/Ustar.thy ===== *)
theory Ustar
  imports Byte_Strings
begin

text \<open>
  The read-only file system of \<open>fs/mod.rs\<close>: a USTAR archive that the boot loader leaves in memory.
  The mounted archive is the cell of the static \<open>ARCHIVE\<close>; \<open>None\<close> is a cell that has not been
  initialised. The loops over the entries of the archive are the two functions \<open>walk\<close> (a
  \<open>while let Some(entry) = entry_at(archive, offset)?\<close>) and \<open>walk_before\<close> (the inner loops over the
  entries before a given one), with the loop body as an argument and the visits of a callback as
  part of the loop state.
\<close>

definition MAX_ARCHIVE_SIZE :: nat where "MAX_ARCHIVE_SIZE = 16 * 1024 * 1024"
definition TAR_BLOCK_SIZE :: nat where "TAR_BLOCK_SIZE = 512"
definition MAX_FILES :: nat where "MAX_FILES = 256"
definition MAX_PATH_LEN :: nat where "MAX_PATH_LEN = 255"
definition MAX_COMPONENT_LEN :: nat where "MAX_COMPONENT_LEN = 100"

datatype FsError = MissingArchive | InvalidArchive | TooManyFiles | FsNotInitialized

record TarEntry =
  te_name_bytes :: "byte list"
  te_name_len :: nat
  te_data :: "byte list"
  te_next_offset :: nat
  te_is_dir :: bool

definition te_name :: "TarEntry \<Rightarrow> byte list" where
  "te_name e = take (te_name_len e) (te_name_bytes e)"

section \<open>Parsing one entry\<close>

fun octal_from :: "nat \<Rightarrow> bool \<Rightarrow> byte list \<Rightarrow> nat option" where
  "octal_from val started [] = Some val"
| "octal_from val started (b # bs) =
    (if (b = 0x20 \<or> b = 0) \<and> \<not> started then octal_from val started bs
     else if 0x30 \<le> b \<and> b \<le> 0x37 then
       Option.bind (checked_mul val 8) (\<lambda>v. Option.bind (checked_add v (unat (b - 0x30))) (\<lambda>v.
         octal_from v True bs))
     else if b = 0x20 \<or> b = 0 then Some val
     else None)"

definition octal :: "byte list \<Rightarrow> nat option" where
  "octal bs = octal_from 0 False bs"

definition safe_component :: "byte list \<Rightarrow> bool" where
  "safe_component c \<longleftrightarrow> c \<noteq> [] \<and> length c \<le> MAX_COMPONENT_LEN \<and> c \<noteq> ascii ''.'' \<and> c \<noteq> ascii ''..''
    \<and> list_all (\<lambda>b. is_ascii_alphanumeric b \<or> b = 0x2E \<or> b = 0x5F \<or> b = 0x2D) c"

definition safe_path :: "byte list \<Rightarrow> bool \<Rightarrow> bool" where
  "safe_path path allow_empty =
    (if path = [] then allow_empty else list_all safe_component (split_on (\<lambda>b. b = 0x2F) path))"

definition tar_field :: "byte list \<Rightarrow> byte list" where
  "tar_field f = take (case position (\<lambda>b. b = 0) f of None \<Rightarrow> length f | Some i \<Rightarrow> i) f"

definition checksum :: "byte list \<Rightarrow> nat" where
  "checksum header = sum_list (map (\<lambda>(i, b). if 148 \<le> i \<and> i < 156 then 0x20 else unat b)
    (zip [0..<length header] header))"

text \<open>The name of an entry in its 255-byte buffer: the prefix, a separator and the name, without the
  slash at the end of a directory name.\<close>

definition entry_name :: "byte list \<Rightarrow> byte list \<Rightarrow> bool \<Rightarrow> FsError + byte list \<times> nat" where
  "entry_name name prefix is_dir =
    (if name = [] then Inl InvalidArchive
     else case Option.bind (checked_add (length prefix) (if prefix \<noteq> [] then 1 else 0))
         (\<lambda>n. checked_add n (length name)) of
       None \<Rightarrow> Inl InvalidArchive
     | Some raw_len \<Rightarrow>
         if MAX_PATH_LEN < raw_len then Inl InvalidArchive
         else
           let used = (if prefix \<noteq> [] then prefix @ [0x2F] else []) @ name;
               full_name = used @ replicate (MAX_PATH_LEN - length used) 0;
               name_len = length used
           in if full_name ! (name_len - 1) = 0x2F \<and> \<not> is_dir then Inl InvalidArchive
              else
                let name_len = (if full_name ! (name_len - 1) = 0x2F then name_len - 1 else name_len)
                in if \<not> safe_path (take name_len full_name) False then Inl InvalidArchive
                   else Inr (full_name, name_len))"

text \<open>The end of \<open>entry_at\<close>, from the size field on.\<close>

definition entry_data :: "byte list \<Rightarrow> nat \<Rightarrow> bool \<Rightarrow> byte list \<Rightarrow> nat \<Rightarrow> nat \<Rightarrow> FsError + TarEntry option" where
  "entry_data archive header_end is_dir full_name name_len len =
    (if is_dir \<and> len \<noteq> 0 then Inl InvalidArchive
     else
       bind_res (ok_or InvalidArchive (checked_add len (TAR_BLOCK_SIZE - 1))) (\<lambda>s.
       let padded_size = s div TAR_BLOCK_SIZE * TAR_BLOCK_SIZE;
           data_start = header_end
       in bind_res (ok_or InvalidArchive (checked_add data_start len)) (\<lambda>data_end.
          bind_res (ok_or InvalidArchive (checked_add data_start padded_size)) (\<lambda>next_offset.
          bind_res (ok_or InvalidArchive (get_range archive data_start data_end)) (\<lambda>data.
          if length archive < next_offset then Inl InvalidArchive
          else Inr (Some \<lparr>te_name_bytes = full_name, te_name_len = name_len, te_data = data,
            te_next_offset = next_offset, te_is_dir = is_dir\<rparr>))))))"

definition entry_at :: "byte list \<Rightarrow> nat \<Rightarrow> FsError + TarEntry option" where
  "entry_at archive offset =
    bind_res (ok_or InvalidArchive (checked_add offset TAR_BLOCK_SIZE)) (\<lambda>header_end.
    bind_res (ok_or InvalidArchive (get_range archive offset header_end)) (\<lambda>header.
    if list_all (\<lambda>b. b = 0) header then Inr None
    else
      bind_res (ok_or InvalidArchive (octal (slice header 148 156))) (\<lambda>expected_checksum.
      if checksum header \<noteq> expected_checksum \<or> slice header 257 262 \<noteq> ascii ''ustar'' then Inl InvalidArchive
      else
        let kind = header ! 156
        in if kind \<noteq> 0 \<and> kind \<noteq> 0x30 \<and> kind \<noteq> 0x35 then Inl InvalidArchive
           else
             let is_dir = (kind = 0x35);
                 name = tar_field (take 100 header);
                 prefix = tar_field (slice header 345 500)
             in bind_res (entry_name name prefix is_dir) (\<lambda>(full_name, name_len).
                bind_res (ok_or InvalidArchive (octal (slice header 124 136))) (\<lambda>len.
                entry_data archive header_end is_dir full_name name_len len)))))"

lemma entry_data_Inr:
  assumes "entry_data archive header_end is_dir full n len = Inr r"
  shows "\<exists>data next. r = Some \<lparr>te_name_bytes = full, te_name_len = n, te_data = data, te_next_offset = next, te_is_dir = is_dir\<rparr>
    \<and> get_range archive header_end (header_end + len) = Some data \<and> header_end \<le> next \<and> next \<le> length archive
    \<and> (is_dir \<longrightarrow> len = 0)"
  using assms by (auto simp: entry_data_def Let_def split: if_split_asm)

lemma entry_at_data:
  assumes "entry_at archive offset = Inr (Some e)"
  shows "\<exists>name prefix is_dir full n len. entry_name name prefix is_dir = Inr (full, n)
    \<and> entry_data archive (offset + TAR_BLOCK_SIZE) is_dir full n len = Inr (Some e)"
  using assms by (simp add: entry_at_def Let_def split: if_split_asm) blast

lemma entry_at_next:
  assumes "entry_at archive offset = Inr (Some e)"
  shows "offset + TAR_BLOCK_SIZE \<le> te_next_offset e" "te_next_offset e \<le> length archive"
  using entry_at_data [OF assms] by (auto dest!: entry_data_Inr)

section \<open>Loops over the entries\<close>

text \<open>A loop body returns an error, an early result \<open>Some r\<close>, or \<open>None\<close> to go on, together with the
  loop state.\<close>

function walk :: "byte list \<Rightarrow> (nat \<Rightarrow> TarEntry \<Rightarrow> 's \<Rightarrow> (FsError + 'r option) \<times> 's) \<Rightarrow> nat \<Rightarrow> 's
    \<Rightarrow> (FsError + 'r option) \<times> 's" where
  "walk archive body offset s = (case entry_at archive offset of
      Inl e \<Rightarrow> (Inl e, s)
    | Inr None \<Rightarrow> (Inr None, s)
    | Inr (Some entry) \<Rightarrow>
        (case body offset entry s of
           (Inl e, s') \<Rightarrow> (Inl e, s')
         | (Inr (Some r), s') \<Rightarrow> (Inr (Some r), s')
         | (Inr None, s') \<Rightarrow> walk archive body (te_next_offset entry) s'))"
  by pat_completeness auto
termination
proof (relation "measure (\<lambda>(archive, body, offset, s). length archive - offset)")
  fix archive :: "byte list" and offset x entry
  assume "entry_at archive offset = Inr x" "x = Some entry"
  then show "((archive, body, te_next_offset entry, s'), archive, body, offset, s)
      \<in> measure (\<lambda>(archive, body, offset, s). length archive - offset)" for body s s'
    using entry_at_next [of archive offset entry] by (auto simp: TAR_BLOCK_SIZE_def)
qed simp

function walk_before :: "byte list \<Rightarrow> (TarEntry \<Rightarrow> FsError + 'r option) \<Rightarrow> nat \<Rightarrow> nat \<Rightarrow> FsError + 'r option" where
  "walk_before archive body limit previous_offset =
    (if limit \<le> previous_offset then Inr None
     else case entry_at archive previous_offset of
       Inl e \<Rightarrow> Inl e
     | Inr None \<Rightarrow> Inl InvalidArchive
     | Inr (Some previous) \<Rightarrow>
         (case body previous of
            Inl e \<Rightarrow> Inl e
          | Inr (Some r) \<Rightarrow> Inr (Some r)
          | Inr None \<Rightarrow> walk_before archive body limit (te_next_offset previous)))"
  by pat_completeness auto
termination
proof (relation "measure (\<lambda>(archive, body, limit, previous_offset). limit - previous_offset)")
  fix archive :: "byte list" and limit previous_offset :: nat and x entry
  assume "\<not> limit \<le> previous_offset" "entry_at archive previous_offset = Inr x" "x = Some entry"
  then show "((archive, body, limit, te_next_offset entry), archive, body, limit, previous_offset)
      \<in> measure (\<lambda>(archive, body, limit, previous_offset). limit - previous_offset)" for body
    using entry_at_next(1) [of archive previous_offset entry] by (auto simp: TAR_BLOCK_SIZE_def)
qed simp

declare walk.simps [simp del] walk_before.simps [simp del]

section \<open>Mounting\<close>

definition below :: "byte list \<Rightarrow> byte list \<Rightarrow> bool" where
  "below ancestor path \<longleftrightarrow> (case strip_prefix ancestor path of
      None \<Rightarrow> False | Some suffix \<Rightarrow> suffix \<noteq> [] \<and> hd suffix = 0x2F)"

definition check_previous :: "TarEntry \<Rightarrow> TarEntry \<Rightarrow> FsError + unit option" where
  "check_previous entry previous =
    (if te_name previous = te_name entry
        \<or> below (te_name previous) (te_name entry) \<and> \<not> te_is_dir previous
        \<or> below (te_name entry) (te_name previous) \<and> \<not> te_is_dir entry
     then Inl InvalidArchive else Inr None)"

definition validate_entry :: "byte list \<Rightarrow> nat \<Rightarrow> TarEntry \<Rightarrow> nat \<times> nat \<Rightarrow> (FsError + unit option) \<times> nat \<times> nat" where
  "validate_entry archive offset entry = (\<lambda>(last, count).
    if MAX_FILES < count + 1 then (Inl TooManyFiles, last, count + 1)
    else (walk_before archive (check_previous entry) offset 0, te_next_offset entry, count + 1))"

definition validate :: "byte list \<Rightarrow> FsError + unit" where
  "validate archive =
    (if archive = [] \<or> MAX_ARCHIVE_SIZE < length archive \<or> length archive mod TAR_BLOCK_SIZE \<noteq> 0
     then Inl InvalidArchive
     else case walk archive (validate_entry archive) 0 (0, 0) of
       (Inl e, _) \<Rightarrow> Inl e
     | (Inr _, offset, _) \<Rightarrow>
         if list_ex (\<lambda>b. b \<noteq> 0) (drop offset archive) then Inl InvalidArchive else Inr ())"

type_synonym archive_cell = "(FsError + byte list) option"

text \<open>\<open>initialize\<close>: \<open>base\<close> and \<open>initrd_size\<close> are the fields of the boot information, and \<open>mem\<close> is the
  physical memory the loader filled. A second call keeps the first result.\<close>

definition fs_initialize :: "nat \<Rightarrow> nat \<Rightarrow> (nat \<Rightarrow> byte) \<Rightarrow> archive_cell \<Rightarrow> (FsError + unit) \<times> archive_cell" where
  "fs_initialize base initrd_size mem cell =
    (let cell' = (case cell of
        Some r \<Rightarrow> r
      | None \<Rightarrow>
          if base = 0 \<or> initrd_size = 0 \<or> MAX_ARCHIVE_SIZE < initrd_size \<or> 2 ^ 63 - 1 < initrd_size then Inl MissingArchive
          else let archive = map (\<lambda>i. mem (base + i)) [0..<initrd_size]
               in bind_res (validate archive) (\<lambda>_. Inr archive))
     in (bind_res cell' (\<lambda>_. Inr ()), Some cell'))"

definition fs_archive :: "archive_cell \<Rightarrow> FsError + byte list" where
  "fs_archive cell = bind_res (ok_or FsNotInitialized cell) (\<lambda>r. r)"

section \<open>Queries\<close>

definition directory_exists :: "byte list \<Rightarrow> archive_cell \<Rightarrow> FsError + bool" where
  "directory_exists path cell = bind_res (fs_archive cell) (\<lambda>archive.
    if \<not> safe_path path True then Inr False
    else if path = [] then Inr True
    else
      bind_res (fst (walk archive (\<lambda>_ entry s.
          if te_name entry = path then (Inr (Some (te_is_dir entry)), s)
          else if length path < length (te_name entry) \<and> starts_with path (te_name entry)
              \<and> te_name entry ! length path = 0x2F
          then (Inr (Some True), s)
          else (Inr None, s)) 0 ())) (\<lambda>r. Inr (case r of None \<Rightarrow> False | Some b \<Rightarrow> b)))"

definition child_entry :: "TarEntry \<Rightarrow> byte list \<Rightarrow> (byte list \<times> bool \<times> nat) option" where
  "child_entry entry directory =
    (let name = te_name entry;
         relative = (if directory = [] then Some name
           else
             let prefix_len = length directory + 1
             in if length name \<le> prefix_len \<or> \<not> starts_with directory name \<or> name ! length directory \<noteq> 0x2F
                then None else Some (drop prefix_len name))
     in map_option (\<lambda>relative.
          let child_end = (case position (\<lambda>b. b = 0x2F) relative of None \<Rightarrow> length relative | Some i \<Rightarrow> i);
              is_dir = (child_end < length relative \<or> te_is_dir entry)
          in (take child_end relative, is_dir, if is_dir then 0 else length (te_data entry))) relative)"

definition child_seen :: "byte list \<Rightarrow> byte list \<Rightarrow> byte list \<Rightarrow> nat \<Rightarrow> FsError + bool" where
  "child_seen archive directory child offset =
    bind_res (walk_before archive (\<lambda>previous.
        Inr (case child_entry previous directory of
          None \<Rightarrow> None
        | Some (previous_child, _, _) \<Rightarrow> if previous_child = child then Some () else None)) offset 0)
      (\<lambda>seen. Inr (seen \<noteq> None))"

definition visit_child :: "byte list \<Rightarrow> byte list \<Rightarrow> nat \<Rightarrow> TarEntry \<Rightarrow> (byte list \<times> bool \<times> nat) list
    \<Rightarrow> (FsError + unit option) \<times> (byte list \<times> bool \<times> nat) list" where
  "visit_child archive directory offset entry visits = (case child_entry entry directory of
      None \<Rightarrow> (Inr None, visits)
    | Some (child, is_dir, len) \<Rightarrow>
        (case child_seen archive directory child offset of
           Inl e \<Rightarrow> (Inl e, visits)
         | Inr seen \<Rightarrow>
             if seen then (Inr None, visits)
             else if \<not> utf8_valid child then (Inl InvalidArchive, visits)
             else (Inr None, visits @ [(child, is_dir, len)])))"

text \<open>\<open>for_each_entry\<close> and \<open>for_each_file\<close> return their result and the arguments of the calls of the
  callback, in order.\<close>

definition for_each_entry :: "byte list \<Rightarrow> archive_cell \<Rightarrow> (FsError + unit) \<times> (byte list \<times> bool \<times> nat) list" where
  "for_each_entry directory cell = (case directory_exists directory cell of
      Inl e \<Rightarrow> (Inl e, [])
    | Inr False \<Rightarrow> (Inr (), [])
    | Inr True \<Rightarrow>
        (case fs_archive cell of
           Inl e \<Rightarrow> (Inl e, [])
         | Inr archive \<Rightarrow>
             let (r, visits) = walk archive (visit_child archive directory) 0 []
             in (bind_res r (\<lambda>_. Inr ()), visits)))"

definition visit_file :: "nat \<Rightarrow> TarEntry \<Rightarrow> (byte list \<times> nat) list
    \<Rightarrow> (FsError + unit option) \<times> (byte list \<times> nat) list" where
  "visit_file offset entry visits =
    (if te_is_dir entry then (Inr None, visits)
     else if \<not> utf8_valid (te_name entry) then (Inl InvalidArchive, visits)
     else (Inr None, visits @ [(te_name entry, length (te_data entry))]))"

definition for_each_file :: "archive_cell \<Rightarrow> (FsError + unit) \<times> (byte list \<times> nat) list" where
  "for_each_file cell = (case fs_archive cell of
      Inl e \<Rightarrow> (Inl e, [])
    | Inr archive \<Rightarrow>
        let (r, visits) = walk archive visit_file 0 [] in (bind_res r (\<lambda>_. Inr ()), visits))"

definition fs_read_file :: "byte list \<Rightarrow> archive_cell \<Rightarrow> FsError + byte list option" where
  "fs_read_file name cell =
    (if \<not> safe_path name False then Inr None
     else bind_res (fs_archive cell) (\<lambda>archive.
       fst (walk archive (\<lambda>_ entry s.
         if \<not> te_is_dir entry \<and> te_name entry = name then (Inr (Some (te_data entry)), s)
         else (Inr None, s)) 0 ())))"

section \<open>The entries of a well-formed archive\<close>

function entries :: "byte list \<Rightarrow> nat \<Rightarrow> (nat \<times> TarEntry) list" where
  "entries archive offset = (case entry_at archive offset of
      Inr (Some e) \<Rightarrow> (offset, e) # entries archive (te_next_offset e)
    | _ \<Rightarrow> [])"
  by pat_completeness auto
termination
proof (relation "measure (\<lambda>(archive, offset). length archive - offset)")
  fix archive :: "byte list" and offset x entry
  assume "entry_at archive offset = Inr x" "x = Some entry"
  then show "((archive, te_next_offset entry), archive, offset) \<in> measure (\<lambda>(archive, offset). length archive - offset)"
    using entry_at_next [of archive offset entry] by (auto simp: TAR_BLOCK_SIZE_def)
qed simp

inductive readable :: "byte list \<Rightarrow> nat \<Rightarrow> bool" for archive where
  stop: "entry_at archive offset = Inr None \<Longrightarrow> readable archive offset"
| more: "entry_at archive offset = Inr (Some e) \<Longrightarrow> readable archive (te_next_offset e) \<Longrightarrow> readable archive offset"

declare entries.simps [simp del]

fun run_body :: "(nat \<Rightarrow> TarEntry \<Rightarrow> 's \<Rightarrow> (FsError + 'r option) \<times> 's) \<Rightarrow> (nat \<times> TarEntry) list \<Rightarrow> 's
    \<Rightarrow> (FsError + 'r option) \<times> 's" where
  "run_body body [] s = (Inr None, s)"
| "run_body body ((offset, e) # es) s = (case body offset e s of
      (Inr None, s') \<Rightarrow> run_body body es s'
    | r \<Rightarrow> r)"

lemma entries_stop: "entry_at archive offset = Inr None \<Longrightarrow> entries archive offset = []"
  by (subst entries.simps) simp

lemma entries_more:
  "entry_at archive offset = Inr (Some e) \<Longrightarrow> entries archive offset = (offset, e) # entries archive (te_next_offset e)"
  by (subst entries.simps) simp

lemma entries_none: "\<forall>e. entry_at archive offset \<noteq> Inr (Some e) \<Longrightarrow> entries archive offset = []"
  by (subst entries.simps) (auto split: sum.split option.split)

lemma walk_run:
  "readable archive offset \<Longrightarrow> walk archive body offset s = run_body body (entries archive offset) s"
proof (induction arbitrary: s rule: readable.induct)
  case (stop offset)
  then show ?case by (subst walk.simps) (simp add: entries_stop)
next
  case (more offset e)
  then show ?case
    by (subst walk.simps) (auto simp: entries_more split: prod.split sum.split option.split)
qed

lemma walk_readable: "walk archive body offset s = (Inr None, s') \<Longrightarrow> readable archive offset"
proof (induction archive body offset s rule: walk.induct [case_names step])
  case (step archive body offset s)
  show ?case
  proof (cases "\<exists>e. entry_at archive offset = Inr (Some e)")
    case True
    then obtain e where e: "entry_at archive offset = Inr (Some e)" by blast
    then obtain s1 where b: "body offset e s = (Inr None, s1)"
      using step(2) by (subst (asm) walk.simps) (auto split: prod.split_asm sum.split_asm option.split_asm)
    then have "walk archive body (te_next_offset e) s1 = (Inr None, s')"
      using step(2) e by (subst (asm) walk.simps) simp
    then show ?thesis using step(1) [OF e refl b [symmetric] refl refl] e readable.more by blast
  next
    case False
    then have "entry_at archive offset = Inr None"
      using step(2) by (subst (asm) walk.simps) (auto split: sum.split_asm option.split_asm)
    then show ?thesis by (rule readable.stop)
  qed
qed

lemma run_body_None:
  "run_body body es s = (Inr None, s') \<Longrightarrow> (o', e) \<in> set es \<Longrightarrow> \<exists>s1 s2. body o' e s1 = (Inr None, s2)"
  by (induction body es s rule: run_body.induct) (auto split: prod.split_asm sum.split_asm option.split_asm)

lemma entries_offset: "(limit, e) \<in> set (entries archive offset) \<Longrightarrow> offset \<le> limit"
proof (induction archive offset rule: entries.induct [case_names step])
  case (step archive offset)
  show ?case
  proof (cases "\<exists>e. entry_at archive offset = Inr (Some e)")
    case True
    then obtain e1 where e: "entry_at archive offset = Inr (Some e1)" by blast
    then show ?thesis
      using step(1) [OF e refl] step(2) entry_at_next(1) [OF e] by (auto simp: entries_more)
  next
    case False
    then show ?thesis using step(2) by (simp add: entries_none)
  qed
qed

lemma entries_entry:
  assumes "(limit, e) \<in> set (entries archive offset)"
  shows "entry_at archive limit = Inr (Some e)"
  using assms
proof (induction archive offset rule: entries.induct [case_names step])
  case (step archive offset)
  show ?case
  proof (cases "\<exists>e. entry_at archive offset = Inr (Some e)")
    case True
    then show ?thesis using step by (auto simp: entries_more)
  next
    case False
    then show ?thesis using step(2) by (simp add: entries_none)
  qed
qed

lemma entries_ConsD:
  assumes "entries archive offset = (limit, e) # es"
  shows "limit = offset" "entry_at archive offset = Inr (Some e)" "es = entries archive (te_next_offset e)"
  using assms by (subst (asm) entries.simps, auto split: sum.split_asm option.split_asm)+

text \<open>The inner loop before the entry at \<open>limit\<close> sees exactly the entries before it.\<close>

fun first_result :: "(TarEntry \<Rightarrow> FsError + 'r option) \<Rightarrow> TarEntry list \<Rightarrow> FsError + 'r option" where
  "first_result body [] = Inr None"
| "first_result body (e # es) = (case body e of Inr None \<Rightarrow> first_result body es | r \<Rightarrow> r)"

lemma walk_before_first:
  "entries archive offset = pre @ (limit, e) # post \<Longrightarrow>
    walk_before archive body limit offset = first_result body (map snd pre)"
proof (induction pre arbitrary: offset)
  case Nil
  then have "limit = offset" using entries_ConsD(1) by fastforce
  then show ?case by (subst walk_before.simps) simp
next
  case (Cons p pre)
  obtain o1 e1 where p: "p = (o1, e1)" by (cases p)
  note c = entries_ConsD [OF Cons(2) [unfolded p append_Cons]]
  have "(limit, e) \<in> set (entries archive (te_next_offset e1))" using c(3) [symmetric] by simp
  then have "te_next_offset e1 \<le> limit" by (rule entries_offset)
  then have "\<not> limit \<le> offset" using entry_at_next(1) [OF c(2)] by (simp add: TAR_BLOCK_SIZE_def)
  then show ?case
    using c(2) Cons(1) [OF c(3) [symmetric]] p
    by (subst walk_before.simps) (auto split: sum.split option.split)
qed

definition compatible :: "TarEntry \<Rightarrow> TarEntry \<Rightarrow> bool" where
  "compatible a b \<longleftrightarrow> te_name a \<noteq> te_name b \<and> (below (te_name a) (te_name b) \<longrightarrow> te_is_dir a)
    \<and> (below (te_name b) (te_name a) \<longrightarrow> te_is_dir b)"

lemma check_previous_None: "check_previous e p = Inr r \<longleftrightarrow> r = None \<and> compatible e p"
  by (auto simp: check_previous_def compatible_def)

lemma first_result_None: "first_result body es = Inr None \<longleftrightarrow> (\<forall>e \<in> set es. body e = Inr None)"
  by (induction es) (auto split: sum.split option.split)

lemma walk_before_never:
  assumes "\<And>e r. body e \<noteq> Inr (Some r)"
  shows "walk_before archive body limit offset \<noteq> Inr (Some r)"
proof (induction "limit - offset" arbitrary: offset rule: less_induct)
  case less
  have "walk_before archive body limit (te_next_offset e) \<noteq> Inr (Some r)"
    if "entry_at archive offset = Inr (Some e)" "\<not> limit \<le> offset" for e
    by (rule less) (use entry_at_next(1) [OF that(1)] that(2) in \<open>simp add: TAR_BLOCK_SIZE_def\<close>)
  then show ?case
    using assms by (subst walk_before.simps) (auto split: sum.split option.split)
qed

lemma validate_entry_cases:
  assumes "validate_entry archive offset e s = (Inr r, s')"
  shows "r = None" "walk_before archive (check_previous e) offset 0 = Inr None"
    "s' = (te_next_offset e, snd s + 1)" "snd s < MAX_FILES"
proof -
  have "walk_before archive (check_previous e) offset 0 \<noteq> Inr (Some x)" for x
    by (rule walk_before_never) (simp add: check_previous_None)
  then show "r = None" "walk_before archive (check_previous e) offset 0 = Inr None"
    "s' = (te_next_offset e, snd s + 1)" "snd s < MAX_FILES"
    using assms by (cases s; cases r; auto simp: validate_entry_def split: if_split_asm)+
qed

lemma walk_validate_None: "walk archive (validate_entry archive) offset s = (Inr x, s') \<Longrightarrow> x = None"
proof (induction archive "validate_entry archive" offset s rule: walk.induct [case_names step])
  case (step archive offset s)
  show ?case
  proof (cases "\<exists>e s1. entry_at archive offset = Inr (Some e) \<and> validate_entry archive offset e s = (Inr None, s1)")
    case True
    then obtain e s1 where e: "entry_at archive offset = Inr (Some e)" "validate_entry archive offset e s = (Inr None, s1)"
      by blast
    then have "walk archive (validate_entry archive) (te_next_offset e) s1 = (Inr x, s')"
      using step(2) by (subst (asm) walk.simps) simp
    then show ?thesis using step(1) [OF e(1) refl e(2) [symmetric] refl refl] by blast
  next
    case False
    then show ?thesis
      using step(2) validate_entry_cases(1) [of archive offset _ s]
      by (subst (asm) walk.simps) (auto split: sum.split_asm option.split_asm prod.split_asm)
  qed
qed

text \<open>What a successful validation gives.\<close>

definition archive_ok :: "byte list \<Rightarrow> bool" where
  "archive_ok archive \<longleftrightarrow> readable archive 0 \<and>
    (\<forall>pre x post. entries archive 0 = pre @ x # post \<longrightarrow> (\<forall>p \<in> set pre. compatible (snd x) (snd p)))"

lemma validate_ok:
  assumes "validate archive = Inr u"
  shows "archive_ok archive"
proof -
  obtain x s' where w: "walk archive (validate_entry archive) 0 (0, 0) = (Inr x, s')"
    using assms by (auto simp: validate_def split: if_split_asm sum.split_asm prod.split_asm)
  then have x: "x = None" by (rule walk_validate_None)
  note r = walk_readable [OF w [unfolded x]]
  have run: "run_body (validate_entry archive) (entries archive 0) (0, 0) = (Inr None, s')"
    using walk_run [OF r] w x by metis
  have "\<forall>p \<in> set pre. compatible e (snd p)" if "entries archive 0 = pre @ (o1, e) # post" for pre o1 e post
  proof -
    have "walk_before archive (check_previous e) o1 0 = Inr None"
      using run_body_None [OF run, of o1 e] that validate_entry_cases(2) by fastforce
    then show ?thesis
      using walk_before_first [OF that, of "check_previous e"] by (auto simp: first_result_None check_previous_None)
  qed
  then have "\<forall>p \<in> set pre. compatible (snd x) (snd p)" if "entries archive 0 = pre @ x # post" for pre x post
    using that by (cases x) simp
  then show ?thesis using r unfolding archive_ok_def by blast
qed

lemma compatible_sym: "compatible a b \<longleftrightarrow> compatible b a"
  by (auto simp: compatible_def)

lemma archive_ok_compatible:
  assumes "archive_ok archive" "i < length (entries archive 0)" "j < length (entries archive 0)" "i \<noteq> j"
  shows "compatible (snd (entries archive 0 ! i)) (snd (entries archive 0 ! j))"
proof -
  have less: "compatible (snd (entries archive 0 ! b)) (snd (entries archive 0 ! a))"
    if "a < b" "b < length (entries archive 0)" for a b
  proof -
    have "entries archive 0 = take b (entries archive 0) @ entries archive 0 ! b # drop (Suc b) (entries archive 0)"
      using that by (simp add: id_take_nth_drop)
    moreover have "entries archive 0 ! a \<in> set (take b (entries archive 0))"
      using that by (auto simp: in_set_conv_nth intro!: exI [of _ a])
    ultimately show ?thesis using assms(1) unfolding archive_ok_def by blast
  qed
  show ?thesis
    using assms less [of i j] less [of j i] compatible_sym by (cases "i < j") auto
qed

lemma compatible_entries:
  assumes "archive_ok archive" "(i, a) \<in> set (entries archive 0)" "(j, b) \<in> set (entries archive 0)"
  shows "a = b \<or> compatible a b"
proof -
  obtain n m where "n < length (entries archive 0)" "entries archive 0 ! n = (i, a)"
    "m < length (entries archive 0)" "entries archive 0 ! m = (j, b)"
    using assms(2,3) by (metis in_set_conv_nth)
  then show ?thesis using archive_ok_compatible [OF assms(1), of n m] by (cases "n = m") auto
qed

lemma entry_name_safe:
  assumes "entry_name name prefix is_dir = Inr (full, n)"
  shows "safe_path (take n full) False"
proof -
  define used where "used = (if prefix \<noteq> [] then prefix @ [0x2F] else []) @ name"
  define buf where "buf = used @ replicate (MAX_PATH_LEN - length used) 0"
  define last where "last = buf ! (length used - 1)"
  show ?thesis
    using assms unfolding entry_name_def Let_def used_def [symmetric] buf_def [symmetric] last_def [symmetric]
    by (simp split: if_split_asm option.split_asm)
qed

lemma entry_at_Some:
  assumes "entry_at archive offset = Inr (Some e)"
  shows "safe_path (te_name e) False"
    "te_data e = slice archive (offset + TAR_BLOCK_SIZE) (offset + TAR_BLOCK_SIZE + length (te_data e))"
    "te_is_dir e \<Longrightarrow> te_data e = []"
proof -
  obtain name prefix is_dir full n len where d: "entry_name name prefix is_dir = Inr (full, n)"
    "entry_data archive (offset + TAR_BLOCK_SIZE) is_dir full n len = Inr (Some e)"
    using entry_at_data [OF assms] by blast
  have p: "entry_name name prefix (te_is_dir e) = Inr (te_name_bytes e, te_name_len e)"
    "get_range archive (offset + TAR_BLOCK_SIZE) (offset + TAR_BLOCK_SIZE + len) = Some (te_data e)"
    "te_is_dir e \<longrightarrow> len = 0" using entry_data_Inr [OF d(2)] d(1) by auto
  show "safe_path (te_name e) False" using entry_name_safe [OF p(1)] by (simp add: te_name_def)
  have d: "te_data e = take len (drop (offset + TAR_BLOCK_SIZE) archive)" "offset + TAR_BLOCK_SIZE + len \<le> length archive"
    using p(2) by (auto simp: get_range_def split: if_split_asm)
  then have "length (te_data e) = len" by simp
  with d show "te_data e = slice archive (offset + TAR_BLOCK_SIZE) (offset + TAR_BLOCK_SIZE + length (te_data e))"
    "te_is_dir e \<Longrightarrow> te_data e = []"
    using p(3) by (simp_all add: slice_def)
qed

lemma safe_component_byte: "safe_component c \<Longrightarrow> b \<in> set c \<Longrightarrow> b < 0x80"
  by (auto simp: safe_component_def list_all_iff)

lemma safe_path_ascii: "safe_path p a \<Longrightarrow> b \<in> set p \<Longrightarrow> b < 0x80"
  using split_on_parts [of p "\<lambda>b. b = 0x2F"] safe_component_byte
  by (cases "b = 0x2F") (fastforce simp: safe_path_def list_all_iff split: if_split_asm)+

lemma safe_path_below:
  assumes "safe_path q False" "below p q"
  shows "safe_path p False" "p \<noteq> []"
proof -
  obtain t where q: "q = p @ 0x2F # t"
    using assms(2) by (auto simp: below_def neq_Nil_conv split: option.split_asm)
  then have parts: "list_all safe_component (split_on (\<lambda>b. b = 0x2F) p @ split_on (\<lambda>b. b = 0x2F) t)"
    using assms(1) split_on_append_sep [of "\<lambda>b. b = 0x2F" "0x2F" p t] by (simp add: safe_path_def)
  then show "p \<noteq> []" by (auto simp: safe_component_def)
  then show "safe_path p False" using parts by (simp add: safe_path_def)
qed

lemma below_iff: "below p q \<longleftrightarrow> (\<exists>t. q = p @ 0x2F # t)"
proof (cases "starts_with p q")
  case True
  then obtain ys where "q = p @ ys" by (rule starts_withE)
  then show ?thesis by (cases ys) (auto simp: below_def strip_prefix_def)
qed (auto simp: below_def strip_prefix_def)

lemma below_test:
  "length p < length q \<and> starts_with p q \<and> q ! length p = 0x2F \<longleftrightarrow> below p q"
proof
  assume h: "length p < length q \<and> starts_with p q \<and> q ! length p = 0x2F"
  then obtain ys where "q = p @ ys" by (auto elim: starts_withE)
  with h show "below p q" by (cases ys) (auto simp: below_iff)
qed (auto simp: below_iff)

section \<open>What the queries return\<close>

definition tar_entries :: "byte list \<Rightarrow> TarEntry list" where
  "tar_entries archive = map snd (entries archive 0)"

definition archive_has_dir :: "byte list \<Rightarrow> byte list \<Rightarrow> bool" where
  "archive_has_dir archive path \<longleftrightarrow> path = [] \<or> (\<exists>e \<in> set (tar_entries archive).
    te_name e = path \<and> te_is_dir e \<or> below path (te_name e))"

lemma tar_entries_compatible:
  "archive_ok archive \<Longrightarrow> a \<in> set (tar_entries archive) \<Longrightarrow> b \<in> set (tar_entries archive) \<Longrightarrow> a = b \<or> compatible a b"
  using compatible_entries by (fastforce simp: tar_entries_def)

lemma tar_entries_entry:
  assumes "e \<in> set (tar_entries archive)"
  obtains i where "entry_at archive i = Inr (Some e)"
  using assms entries_entry by (fastforce simp: tar_entries_def)

text \<open>A loop whose body ignores its state returns what the body says of the first entry it says
  anything of.\<close>

definition first_some :: "('a \<Rightarrow> 'b option) \<Rightarrow> 'a list \<Rightarrow> 'b option" where
  "first_some g es = Option.bind (List.find (\<lambda>e. g e \<noteq> None) es) g"

lemma walk_first_some:
  assumes "archive_ok archive" "\<And>i e s. body i e s = (Inr (g e), s)"
  shows "walk archive body 0 s = (Inr (first_some g (tar_entries archive)), s)"
proof -
  have "run_body body es s = (Inr (first_some g (map snd es)), s)" for es
    by (induction es) (auto simp: first_some_def assms(2) split: option.split)
  moreover have "readable archive 0" using assms(1) by (simp add: archive_ok_def)
  ultimately show ?thesis by (simp add: walk_run tar_entries_def)
qed

lemma directory_exists_eq:
  assumes "archive_ok archive"
  shows "directory_exists path (Some (Inr archive)) = Inr (archive_has_dir archive path)"
proof (cases "path = [] \<or> \<not> safe_path path True")
  case True
  have "\<not> archive_has_dir archive path" if h: "path \<noteq> []" "\<not> safe_path path True"
  proof
    assume "archive_has_dir archive path"
    then obtain e where e: "e \<in> set (tar_entries archive)" "te_name e = path \<or> below path (te_name e)"
      using h(1) by (auto simp: archive_has_dir_def)
    obtain i where "entry_at archive i = Inr (Some e)" using e(1) by (rule tar_entries_entry)
    then have "safe_path path False" using entry_at_Some(1) safe_path_below(1) e(2) by blast
    then show False using h by (simp add: safe_path_def)
  qed
  then show ?thesis using True
    by (auto simp: directory_exists_def fs_archive_def archive_has_dir_def safe_path_def)
next
  case False
  define g where "g = (\<lambda>e. if te_name e = path then Some (te_is_dir e) else if below path (te_name e) then Some True else None)"
  have body: "fst (walk archive (\<lambda>_ entry s.
          if te_name entry = path then (Inr (Some (te_is_dir entry)), s)
          else if length path < length (te_name entry) \<and> starts_with path (te_name entry)
              \<and> te_name entry ! length path = 0x2F
          then (Inr (Some True), s)
          else (Inr None, s)) 0 ()) = Inr (first_some g (tar_entries archive))"
    unfolding below_test by (subst walk_first_some [OF assms, where g = g]) (simp_all add: g_def)
  have "(case first_some g (tar_entries archive) of None \<Rightarrow> False | Some b \<Rightarrow> b) = archive_has_dir archive path"
  proof (cases "List.find (\<lambda>e. g e \<noteq> None) (tar_entries archive)")
    case None
    then have "g e = None" if "e \<in> set (tar_entries archive)" for e using that by (simp add: find_NoneD)
    then have "te_name e \<noteq> path \<and> \<not> below path (te_name e)" if "e \<in> set (tar_entries archive)" for e
      using that by (fastforce simp: g_def split: if_split_asm)
    then show ?thesis using False None by (auto simp: first_some_def archive_has_dir_def)
  next
    case (Some e)
    have e: "e \<in> set (tar_entries archive)" "g e \<noteq> None" using find_SomeD [OF Some] by simp_all
    have uniq: "a = e \<or> compatible e a" if "a \<in> set (tar_entries archive)" for a
      using tar_entries_compatible [OF assms e(1) that] by blast
    have "archive_has_dir archive path" if "g e = Some True"
      using that e(1) by (auto simp: archive_has_dir_def g_def split: if_split_asm)
    moreover have "\<not> archive_has_dir archive path" if "g e = Some False"
    proof -
      have "te_name e = path" "\<not> te_is_dir e" using that by (auto simp: g_def split: if_split_asm)
      moreover have "\<not> below path path" by (simp add: below_iff)
      ultimately show ?thesis using False by (auto simp: archive_has_dir_def compatible_def dest!: uniq)
    qed
    ultimately show ?thesis using e(2) Some by (cases "g e") (auto simp: first_some_def)
  qed
  then show ?thesis
    using False body by (simp add: directory_exists_def fs_archive_def)
qed

lemma find_unique:
  assumes "\<And>a b. a \<in> set xs \<Longrightarrow> b \<in> set xs \<Longrightarrow> P a \<Longrightarrow> P b \<Longrightarrow> a = b"
  shows "List.find P xs = Some x \<longleftrightarrow> x \<in> set xs \<and> P x"
  using assms by (induction xs) auto

lemma fs_read_file_eq:
  assumes "archive_ok archive"
  shows "fs_read_file name (Some (Inr archive)) = Inr (map_option te_data
    (List.find (\<lambda>e. \<not> te_is_dir e \<and> te_name e = name) (tar_entries archive)))"
proof (cases "safe_path name False")
  case True
  let ?g = "\<lambda>e. if \<not> te_is_dir e \<and> te_name e = name then Some (te_data e) else None"
  have "first_some ?g es = map_option te_data (List.find (\<lambda>e. \<not> te_is_dir e \<and> te_name e = name) es)" for es
    by (induction es) (auto simp: first_some_def)
  then show ?thesis
    using True by (simp add: fs_read_file_def fs_archive_def)
      (subst walk_first_some [OF assms, where g = ?g], simp_all)
next
  case False
  have "te_name e \<noteq> name" if "e \<in> set (tar_entries archive)" for e
    using entry_at_Some(1) False that by (auto elim: tar_entries_entry)
  then have "List.find (\<lambda>e. \<not> te_is_dir e \<and> te_name e = name) (tar_entries archive) = None"
    by (auto simp: find_NoneD)
  then show ?thesis using False by (simp add: fs_read_file_def)
qed

lemma for_each_file_eq:
  assumes "archive_ok archive"
  shows "for_each_file (Some (Inr archive)) = (Inr (), map (\<lambda>e. (te_name e, length (te_data e)))
    (filter (\<lambda>e. \<not> te_is_dir e) (tar_entries archive)))"
proof -
  have utf8: "utf8_valid (te_name e)" if "e \<in> set (tar_entries archive)" for e
    using that entry_at_Some(1) safe_path_ascii by (blast intro: utf8_valid_ascii elim: tar_entries_entry)
  have "run_body visit_file es vs = (Inr None, vs @ map (\<lambda>e. (te_name e, length (te_data e)))
      (filter (\<lambda>e. \<not> te_is_dir e) (map snd es)))" if "\<forall>(i, e) \<in> set es. utf8_valid (te_name e)" for es vs
    using that by (induction es arbitrary: vs) (auto simp: visit_file_def)
  from this [of "entries archive 0" "[]"]
  have "run_body visit_file (entries archive 0) [] = (Inr None, map (\<lambda>e. (te_name e, length (te_data e)))
      (filter (\<lambda>e. \<not> te_is_dir e) (tar_entries archive)))"
    using utf8 by (fastforce simp: tar_entries_def)
  moreover have "readable archive 0" using assms by (simp add: archive_ok_def)
  ultimately show ?thesis
    using walk_run [of archive 0 visit_file "[]"] by (simp add: for_each_file_def fs_archive_def)
qed

text \<open>Directory listings: the child \<open>c\<close> of a directory that an entry lies at or below.\<close>

definition join_path :: "byte list \<Rightarrow> byte list \<Rightarrow> byte list" where
  "join_path directory c = (if directory = [] then c else directory @ 0x2F # c)"

definition has_child :: "byte list \<Rightarrow> byte list \<Rightarrow> TarEntry \<Rightarrow> bool" where
  "has_child directory c e \<longleftrightarrow> c \<noteq> [] \<and> 0x2F \<notin> set c
    \<and> (te_name e = join_path directory c \<or> below (join_path directory c) (te_name e))"

lemma safe_path_first:
  assumes "safe_path p False"
  shows "p \<noteq> []" "hd p \<noteq> 0x2F"
proof -
  show "p \<noteq> []" using assms by (auto simp: safe_path_def)
  show "hd p \<noteq> 0x2F"
  proof
    assume "hd p = 0x2F"
    then obtain t where "p = 0x2F # t" using \<open>p \<noteq> []\<close> by (cases p) auto
    then show False using assms by (simp add: safe_path_def safe_component_def)
  qed
qed

lemma safe_path_join:
  assumes "safe_path (directory @ 0x2F # rest) False"
  shows "rest \<noteq> []" "hd rest \<noteq> 0x2F"
proof -
  have "list_all safe_component (split_on (\<lambda>b. b = 0x2F) rest)"
    using assms split_on_append_sep [of "\<lambda>b. b = 0x2F" "0x2F" directory rest] by (simp add: safe_path_def)
  then show "rest \<noteq> []" by (auto simp: safe_component_def)
  then show "hd rest \<noteq> 0x2F" using \<open>list_all _ _\<close> by (cases rest) (auto simp: safe_component_def)
qed

text \<open>The relative name that \<open>child_entry\<close> cuts at its first slash.\<close>

definition relative_name :: "byte list \<Rightarrow> byte list \<Rightarrow> byte list option" where
  "relative_name directory name = (if directory = [] then Some name
    else case strip_prefix directory name of
      Some (s # rest) \<Rightarrow> if s = 0x2F \<and> rest \<noteq> [] then Some rest else None
    | _ \<Rightarrow> None)"

lemma relative_name_Some:
  "relative_name directory name = Some rest \<longleftrightarrow> name = join_path directory rest \<and> (directory \<noteq> [] \<longrightarrow> rest \<noteq> [])"
proof (cases "starts_with directory name")
  case True
  then obtain ys where "name = directory @ ys" by (rule starts_withE)
  then show ?thesis by (cases ys) (auto simp: relative_name_def join_path_def strip_prefix_def)
qed (auto simp: relative_name_def join_path_def strip_prefix_def split: option.split)

lemma child_entry_relative:
  "child_entry e directory = map_option (\<lambda>r.
     let c = takeWhile (\<lambda>b. b \<noteq> 0x2F) r; d = (0x2F \<in> set r \<or> te_is_dir e)
     in (c, d, if d then 0 else length (te_data e))) (relative_name directory (te_name e))"
proof -
  have end_eq: "(case position (\<lambda>b. b = 0x2F) r of None \<Rightarrow> length r | Some i \<Rightarrow> i) = length (takeWhile (\<lambda>b. b \<noteq> 0x2F) r)"
    for r :: "byte list"
    by (induction r) (auto split: option.split_asm)
  have less: "length (takeWhile (\<lambda>b. b \<noteq> 0x2F) r) < length r \<longleftrightarrow> 0x2F \<in> set r" for r :: "byte list"
    by (induction r) auto
  have rel: "relative_name directory name = (if directory = [] then Some name
      else if length name \<le> length directory + 1 \<or> \<not> starts_with directory name \<or> name ! length directory \<noteq> 0x2F
      then None else Some (drop (length directory + 1) name))" for name
  proof (cases "starts_with directory name")
    case True
    then obtain ys where "name = directory @ ys" by (rule starts_withE)
    then show ?thesis by (cases ys) (auto simp: relative_name_def strip_prefix_def)
  qed (auto simp: relative_name_def strip_prefix_def split: option.split)
  show ?thesis
    unfolding child_entry_def Let_def rel end_eq less by (simp add: takeWhile_eq_take [symmetric])
qed

definition child_name :: "byte list \<Rightarrow> TarEntry \<Rightarrow> byte list option" where
  "child_name directory e = map_option fst (child_entry e directory)"

lemma child_entry_Some:
  assumes "child_entry e directory = Some (c, d, n)" "safe_path (te_name e) False"
  shows "has_child directory c e" "d \<longleftrightarrow> te_is_dir e \<or> te_name e \<noteq> join_path directory c"
    "n = (if d then 0 else length (te_data e))"
proof -
  obtain r where r: "relative_name directory (te_name e) = Some r" "c = takeWhile (\<lambda>b. b \<noteq> 0x2F) r"
    "d \<longleftrightarrow> 0x2F \<in> set r \<or> te_is_dir e" "n = (if d then 0 else length (te_data e))"
    using assms(1) by (auto simp: child_entry_relative Let_def)
  have name: "te_name e = join_path directory r" using r(1) by (simp add: relative_name_Some)
  have first: "r \<noteq> []" "hd r \<noteq> 0x2F"
    using assms(2) safe_path_first [of r] safe_path_join [of directory r] name by (auto simp: join_path_def split: if_split_asm)
  then have c: "c \<noteq> []" "0x2F \<notin> set c" using r(2) by (cases r; auto dest: set_takeWhileD)+
  have split: "r = c @ dropWhile (\<lambda>b. b \<noteq> 0x2F) r" using r(2) by simp
  have "dropWhile (\<lambda>b. b \<noteq> 0x2F) r = [] \<longleftrightarrow> 0x2F \<notin> set r" by (auto simp: dropWhile_eq_Nil_conv)
  moreover have "dropWhile (\<lambda>b. b \<noteq> 0x2F) r = 0x2F # tl (dropWhile (\<lambda>b. b \<noteq> 0x2F) r)" if "0x2F \<in> set r"
    using that hd_dropWhile [of "\<lambda>b. b \<noteq> 0x2F" r] calculation by (metis list.collapse)
  ultimately have alt: "if 0x2F \<in> set r then \<exists>t. r = c @ 0x2F # t else r = c"
    using split by (metis append_Nil2)
  then show "has_child directory c e"
    using c name by (auto simp: has_child_def join_path_def below_iff split: if_split_asm)
  have "r = c \<longleftrightarrow> 0x2F \<notin> set r" using alt c(2) by (auto split: if_split_asm)
  then show "d \<longleftrightarrow> te_is_dir e \<or> te_name e \<noteq> join_path directory c"
    using r(3) name by (auto simp: join_path_def)
  show "n = (if d then 0 else length (te_data e))" by (rule r(4))
qed

lemma has_child_entry:
  assumes "has_child directory c e"
  shows "\<exists>d n. child_entry e directory = Some (c, d, n)"
proof -
  obtain r where r: "te_name e = join_path directory r" "r = c \<or> (\<exists>t. r = c @ 0x2F # t)" and c: "c \<noteq> []" "0x2F \<notin> set c"
    using assms by (auto simp: has_child_def join_path_def below_iff split: if_split_asm)
  have "takeWhile (\<lambda>b. b \<noteq> 0x2F) r = c" using r(2) c(2) by (auto simp: takeWhile_append takeWhile_eq_all_conv)
  moreover have "relative_name directory (te_name e) = Some r" using r c(1) by (auto simp: relative_name_Some)
  ultimately show ?thesis by (simp add: child_entry_relative Let_def)
qed

lemma child_name_iff:
  "safe_path (te_name e) False \<Longrightarrow> child_name directory e = Some c \<longleftrightarrow> has_child directory c e"
  using child_entry_Some(1) [of e directory c] has_child_entry [of directory c e] by (auto simp: child_name_def)

fun listing :: "byte list \<Rightarrow> TarEntry list \<Rightarrow> TarEntry list \<Rightarrow> (byte list \<times> bool \<times> nat) list" where
  "listing directory pre [] = []"
| "listing directory pre (e # es) = (case child_entry e directory of
      None \<Rightarrow> listing directory (pre @ [e]) es
    | Some (c, d, n) \<Rightarrow>
        if Some c \<in> child_name directory ` set pre then listing directory (pre @ [e]) es
        else (c, d, n) # listing directory (pre @ [e]) es)"

lemma child_seen_eq:
  assumes "entries archive 0 = pre @ (offset, e) # post"
  shows "child_seen archive directory c offset = Inr (Some c \<in> child_name directory ` snd ` set pre)"
proof -
  let ?g = "\<lambda>p. case child_entry p directory of None \<Rightarrow> None | Some (pc, _, _) \<Rightarrow> if pc = c then Some () else None"
  have "first_result (\<lambda>p. Inr (?g p)) es = Inr (if Some c \<in> child_name directory ` set es then Some () else None)" for es
    by (induction es) (auto simp: child_name_def split: option.split)
  then show ?thesis
    using walk_before_first [OF assms, of "\<lambda>p. Inr (?g p)"] by (simp add: child_seen_def)
qed

lemma for_each_entry_eq:
  assumes "archive_ok archive"
  shows "for_each_entry directory (Some (Inr archive)) = (Inr (),
    if archive_has_dir archive directory then listing directory [] (tar_entries archive) else [])"
proof -
  have utf8: "utf8_valid c" if h: "child_entry e directory = Some (c, d, n)" "(i, e) \<in> set (entries archive 0)" for e c d n i
  proof -
    obtain r where r: "relative_name directory (te_name e) = Some r" "c = takeWhile (\<lambda>b. b \<noteq> 0x2F) r"
      using h(1) by (auto simp: child_entry_relative Let_def)
    have "set c \<subseteq> set (te_name e)"
      using r by (auto simp: relative_name_Some join_path_def dest!: set_takeWhileD)
    moreover have "safe_path (te_name e) False" using entry_at_Some(1) [OF entries_entry [OF h(2)]] .
    ultimately show ?thesis using safe_path_ascii by (blast intro: utf8_valid_ascii)
  qed
  have run: "run_body (visit_child archive directory) post vs
      = (Inr None, vs @ listing directory (map snd pre) (map snd post))" if "entries archive 0 = pre @ post" for pre post vs
    using that
  proof (induction post arbitrary: pre vs)
    case (Cons x post)
    obtain i e where x: "x = (i, e)" by (cases x)
    have nx: "entries archive 0 = (pre @ [x]) @ post" using Cons(2) by simp
    note seen = child_seen_eq [OF Cons(2) [unfolded x]]
    have "utf8_valid c" if "child_entry e directory = Some (c, d, n)" for c d n
      using utf8 [OF that, of i] Cons(2) x by simp
    then show ?case
      using Cons(1) [OF nx] by (auto simp: x visit_child_def seen image_image split: option.split)
  qed simp
  have "readable archive 0" using assms by (simp add: archive_ok_def)
  then show ?thesis
    using run [of "[]"] directory_exists_eq [OF assms, of directory]
    by (simp add: for_each_entry_def fs_archive_def walk_run tar_entries_def split: bool.split)
qed

lemma listing_child:
  "(c, d, n) \<in> set (listing directory pre es) \<Longrightarrow> \<exists>e \<in> set es. child_entry e directory = Some (c, d, n)"
  by (induction es arbitrary: pre) (auto split: option.split_asm if_split_asm)

lemma listing_names:
  "distinct (map fst (listing directory pre es))"
  "c \<in> fst ` set (listing directory pre es) \<longleftrightarrow>
    (\<exists>e \<in> set es. child_name directory e = Some c) \<and> Some c \<notin> child_name directory ` set pre"
proof -
  have names: "c \<in> fst ` set (listing directory pre es) \<longleftrightarrow>
    (\<exists>e \<in> set es. child_name directory e = Some c) \<and> Some c \<notin> child_name directory ` set pre" for c pre es
  proof (induction es arbitrary: pre)
    case (Cons e es)
    show ?case
    proof (cases "child_entry e directory")
      case None
      then show ?thesis using Cons [of "pre @ [e]"] by (auto simp: child_name_def)
    next
      case (Some x)
      obtain c1 d1 n1 where x: "x = (c1, d1, n1)" by (cases x) auto
      then have "child_name directory e = Some c1" using Some by (simp add: child_name_def)
      then show ?thesis using Cons [of "pre @ [e]"] Some x by (cases "c = c1") auto
    qed
  qed simp
  then show "c \<in> fst ` set (listing directory pre es) \<longleftrightarrow>
    (\<exists>e \<in> set es. child_name directory e = Some c) \<and> Some c \<notin> child_name directory ` set pre" .
  show "distinct (map fst (listing directory pre es))"
  proof (induction es arbitrary: pre)
    case (Cons e es)
    have "c1 \<notin> fst ` set (listing directory (pre @ [e]) es)" if "child_entry e directory = Some (c1, d1, n1)" for c1 d1 n1
    proof -
      have "child_name directory e = Some c1" using that by (simp add: child_name_def)
      then show ?thesis by (subst names) auto
    qed
    then show ?case using Cons by (auto split: option.split)
  qed simp
qed

lemma fs_initialize_ok:
  assumes "fs_initialize base n mem None = (Inr (), cell)"
  shows "archive_ok (map (\<lambda>i. mem (base + i)) [0..<n])" "cell = Some (Inr (map (\<lambda>i. mem (base + i)) [0..<n]))"
  using assms validate_ok by (auto simp: fs_initialize_def Let_def split: if_split_asm)

text \<open>A one-file archive: the file \<open>a\<close> with three bytes.\<close>

definition sample_header :: "byte list" where
  "sample_header = ascii ''a'' @ replicate 123 0 @ ascii ''00000000003'' @ replicate 13 0 @ ascii ''002723'' @ [0, 0x20]
    @ ascii ''0'' @ replicate 100 0 @ ascii ''ustar'' @ replicate 250 0"

definition sample_archive :: "byte list" where
  "sample_archive = sample_header @ [0x68, 0x69, 0x0A] @ replicate 509 0 @ replicate 512 0"

lemma checksum_parts:
  assumes "length a = 148" "length b = 8"
  shows "checksum (a @ b @ c) = sum_list (map unat a) + 8 * 0x20 + sum_list (map unat c)"
proof -
  let ?f = "\<lambda>(i, b). if 148 \<le> i \<and> i < 156 then 0x20 else unat (b :: byte)"
  define i1 i2 i3 where "i1 = [0..<148::nat]" and "i2 = [148..<156::nat]" and "i3 = [156..<156 + length c]"
  have idx: "[0..<length (a @ b @ c)] = i1 @ i2 @ i3"
    unfolding i1_def i2_def i3_def
    using assms upt_add_eq_append [of 0 148 "8 + length c"] upt_add_eq_append [of 148 156 "length c"]
    by (simp add: upt_add_eq_append [of 0 148 "8 + length c"] upt_add_eq_append [of 148 "156 - 148 + 148" "length c"] add.assoc)
  have part: "map ?f (zip [n..<n + length xs] xs) = (if n = 148 \<and> length xs = 8 then map (\<lambda>_. 0x20) xs else map unat xs)"
    if "n + length xs \<le> 148 \<or> n = 148 \<and> length xs = 8 \<or> 156 \<le> n" for n xs
    using that by (intro nth_equalityI) auto
  have m: "map ?f (zip i1 a) = map unat a" "map ?f (zip i2 b) = map (\<lambda>_. 0x20) b" "map ?f (zip i3 c) = map unat c"
    using part [of 0 a] part [of 148 b] part [of 156 c] assms by (simp_all add: i1_def i2_def i3_def)
  have "length i1 = length a" "length i2 = length b" using assms by (simp_all add: i1_def i2_def)
  then have zip: "zip (i1 @ i2 @ i3) (a @ b @ c) = zip i1 a @ zip i2 b @ zip i3 c" by (simp add: zip_append)
  have "map ?f (zip [0..<length (a @ b @ c)] (a @ b @ c)) = map unat a @ map (\<lambda>_. 0x20) b @ map unat c"
    unfolding idx using m zip by simp
  then show ?thesis using assms by (simp add: checksum_def sum_list_triv)
qed

definition sample_entry :: TarEntry where
  "sample_entry = \<lparr>te_name_bytes = 0x61 # replicate 254 0, te_name_len = 1, te_data = [0x68, 0x69, 0x0A],
    te_next_offset = 1024, te_is_dir = False\<rparr>"

lemma length_sample_header: "length sample_header = 512"
  by (simp add: sample_header_def)

lemma sample_checksum: "checksum sample_header = 1491"
proof -
  have "sample_header = (ascii ''a'' @ replicate 123 0 @ ascii ''00000000003'' @ replicate 13 0) @ (ascii ''002723'' @ [0, 0x20])
    @ ascii ''0'' @ replicate 100 0 @ ascii ''ustar'' @ replicate 250 0" by (simp add: sample_header_def)
  then show ?thesis by (subst \<open>sample_header = _\<close>, subst checksum_parts) (simp_all add: sum_list_replicate)
qed

lemma sample_fields:
  "slice sample_header 148 156 = [0x30, 0x30, 0x32, 0x37, 0x32, 0x33, 0, 0x20]"
  "slice sample_header 257 262 = ascii ''ustar''" "sample_header ! 156 = 0x30"
  "slice sample_header 124 136 = ascii ''00000000003'' @ [0]"
  "take 100 sample_header = 0x61 # replicate 99 0" "slice sample_header 345 500 = replicate 155 0"
  by (simp_all add: sample_header_def slice_def nth_append)

lemma tar_field_zero: "0 \<notin> set xs \<Longrightarrow> tar_field (xs @ 0 # ys) = xs"
  by (induction xs) (auto simp: tar_field_def split: option.split_asm)

lemma sample_entry_at: "entry_at sample_archive 0 = Inr (Some sample_entry)"
proof -
  have header: "get_range sample_archive 0 512 = Some sample_header"
    by (simp add: get_range_def sample_archive_def length_sample_header)
  have nonzero: "\<not> list_all (\<lambda>b. b = 0) sample_header" by (simp add: sample_header_def)
  have nums: "octal (slice sample_header 148 156) = Some 1491" "octal (slice sample_header 124 136) = Some 3"
    unfolding sample_fields by (simp_all add: octal_def u64_limit_def checked_mul_def checked_add_def)
  have "0x61 # replicate 99 0 = [0x61] @ 0 # replicate 98 (0 :: byte)" "replicate 155 0 = [] @ 0 # replicate 154 (0 :: byte)"
    by (simp_all add: replicate_Suc [symmetric] del: replicate_Suc)
  then have names: "tar_field (take 100 sample_header) = [0x61]" "tar_field (slice sample_header 345 500) = []"
    unfolding sample_fields
    using tar_field_zero [of "[0x61]" "replicate 98 0"] tar_field_zero [of "[]" "replicate 154 0"] by simp_all
  have full: "entry_name [0x61] [] False = Inr (0x61 # replicate 254 0, 1)"
    by (simp add: entry_name_def Let_def MAX_PATH_LEN_def checked_add_def u64_limit_def safe_path_def safe_component_def
        is_ascii_alphanumeric_def MAX_COMPONENT_LEN_def del: replicate_Suc replicate.simps)
  have data: "get_range sample_archive 512 515 = Some [0x68, 0x69, 0x0A]" "length sample_archive = 1536"
    by (simp_all add: get_range_def sample_archive_def length_sample_header)
  show ?thesis
    using header nonzero nums names full data sample_checksum sample_fields(2,3)
    by (simp add: entry_at_def entry_data_def TAR_BLOCK_SIZE_def checked_add_def u64_limit_def Let_def sample_entry_def)
qed

lemma sample_archive_end: "entry_at sample_archive 1024 = Inr None"
proof -
  have "get_range sample_archive 1024 1536 = Some (replicate 512 0)"
    by (simp add: get_range_def sample_archive_def length_sample_header)
  then show ?thesis by (simp add: entry_at_def TAR_BLOCK_SIZE_def checked_add_def u64_limit_def list_all_iff)
qed

lemma sample_archive_valid: "validate sample_archive = Inr ()"
proof -
  have "walk sample_archive (validate_entry sample_archive) 0 (0, 0) = (Inr None, 1024, 1)"
    by (subst walk.simps, simp add: sample_entry_at validate_entry_def MAX_FILES_def walk_before.simps,
        subst walk.simps, simp add: sample_entry_def sample_archive_end)
  moreover have "length sample_archive = 1536" "drop 1024 sample_archive = replicate 512 0"
    by (simp_all add: sample_archive_def length_sample_header)
  ultimately show ?thesis
    by (simp add: validate_def MAX_ARCHIVE_SIZE_def TAR_BLOCK_SIZE_def list_ex_iff)
       (auto simp flip: length_0_conv)
qed

definition sample_memory :: "nat \<Rightarrow> byte" where
  "sample_memory a = (if 4096 \<le> a \<and> a < 4096 + 1536 then sample_archive ! (a - 4096) else 0)"

lemma sample_mounted: "fs_initialize 4096 1536 sample_memory None = (Inr (), Some (Inr sample_archive))"
proof -
  have "length sample_archive = 1536" by (simp add: sample_archive_def length_sample_header)
  then have "map (\<lambda>i. sample_memory (4096 + i)) [0..<1536] = sample_archive"
    by (intro nth_equalityI) (simp_all add: sample_memory_def del: upt_rec_numeral)
  then show ?thesis
    by (simp add: fs_initialize_def sample_archive_valid MAX_ARCHIVE_SIZE_def Let_def del: upt_rec_numeral)
qed

section \<open>Properties\<close>

text \<open>C27. An archive that has been mounted is never found to be invalid later: once \<open>initialize\<close>
  has succeeded, every lookup and every listing, for every path, runs to its end without an error.\<close>

theorem mounted_archive_serves:
  assumes "fs_initialize base n mem None = (Inr (), cell)"
  shows "(\<exists>b. directory_exists path cell = Inr b) \<and> fst (for_each_entry path cell) = Inr ()
    \<and> fst (for_each_file cell) = Inr () \<and> (\<exists>r. fs_read_file path cell = Inr r)"
  using fs_initialize_ok [OF assms]
  by (simp add: directory_exists_eq for_each_entry_eq for_each_file_eq fs_read_file_eq)

theorem mounted_archive_serves_witness:
  "\<exists>r. fs_read_file (ascii ''a'') (Some (Inr sample_archive)) = Inr r"
  using mounted_archive_serves [OF sample_mounted] by blast

text \<open>C29. Reading a file of the mounted archive returns the data of the entry with that name: the
  entry is a file, it is the only entry with the name, and its data are the bytes of the image that
  follow its header.\<close>

theorem read_file_exact:
  assumes "fs_initialize base n mem None = (Inr (), cell)"
  shows "fs_read_file name cell = Inr (Some data) \<longleftrightarrow>
    (\<exists>(offset, e) \<in> set (entries (map (\<lambda>i. mem (base + i)) [0..<n]) 0). te_name e = name \<and> \<not> te_is_dir e
      \<and> data = map (\<lambda>i. mem (base + offset + TAR_BLOCK_SIZE + i)) [0..<length (te_data e)])"
proof -
  define archive where "archive = map (\<lambda>i. mem (base + i)) [0..<n]"
  have ok: "archive_ok archive" "cell = Some (Inr archive)"
    using fs_initialize_ok [OF assms] by (simp_all add: archive_def)
  have data: "te_data e = map (\<lambda>i. mem (base + offset + TAR_BLOCK_SIZE + i)) [0..<length (te_data e)]"
    if "(offset, e) \<in> set (entries archive 0)" for offset e
  proof (rule nth_equalityI)
    fix i assume i: "i < length (te_data e)"
    note d = entry_at_Some(2) [OF entries_entry [OF that]]
    have "te_data e ! i = archive ! (offset + TAR_BLOCK_SIZE + i)" "offset + TAR_BLOCK_SIZE + i < length archive"
      using i arg_cong [OF d, of length] arg_cong [OF d, of "\<lambda>xs. xs ! i"] by (auto simp: slice_def)
    then show "te_data e ! i = map (\<lambda>i. mem (base + offset + TAR_BLOCK_SIZE + i)) [0..<length (te_data e)] ! i"
      using i by (simp add: archive_def add.assoc)
  qed simp
  have uniq: "a = b" if "a \<in> set (tar_entries archive)" "b \<in> set (tar_entries archive)" "te_name a = te_name b" for a b
    using tar_entries_compatible [OF ok(1) that(1,2)] that(3) by (auto simp: compatible_def)
  have "map_option te_data (List.find (\<lambda>e. \<not> te_is_dir e \<and> te_name e = name) (tar_entries archive)) = Some data
    \<longleftrightarrow> (\<exists>e. List.find (\<lambda>e. \<not> te_is_dir e \<and> te_name e = name) (tar_entries archive) = Some e \<and> data = te_data e)"
    by auto
  also have "\<dots> \<longleftrightarrow> (\<exists>e \<in> set (tar_entries archive). te_name e = name \<and> \<not> te_is_dir e \<and> data = te_data e)"
    by (subst find_unique) (auto intro: uniq)
  also have "\<dots> \<longleftrightarrow> (\<exists>(offset, e) \<in> set (entries archive 0). te_name e = name \<and> \<not> te_is_dir e \<and> data = te_data e)"
    by (force simp: tar_entries_def)
  also have "\<dots> \<longleftrightarrow> (\<exists>(offset, e) \<in> set (entries archive 0). te_name e = name \<and> \<not> te_is_dir e
      \<and> data = map (\<lambda>i. mem (base + offset + TAR_BLOCK_SIZE + i)) [0..<length (te_data e)])"
    by (rule bex_cong) (auto simp: data [symmetric])
  finally show ?thesis using ok by (simp add: fs_read_file_eq archive_def)
qed

theorem read_file_exact_witness:
  "fs_read_file (ascii ''a'') (Some (Inr sample_archive)) = Inr (Some [0x68, 0x69, 0x0A])"
proof -
  have "entries sample_archive 0 = [(0, sample_entry)]"
    using entries_more [OF sample_entry_at] entries_stop [OF sample_archive_end] by (simp add: sample_entry_def)
  moreover have image: "map (\<lambda>i. sample_memory (4096 + i)) [0..<1536] = sample_archive"
    using fs_initialize_ok(2) [OF sample_mounted] by simp
  moreover have "te_name sample_entry = [0x61]" "\<not> te_is_dir sample_entry" "length (te_data sample_entry) = 3"
    by (simp_all add: sample_entry_def te_name_def)
  moreover have "map (\<lambda>i. sample_memory (4096 + 0 + TAR_BLOCK_SIZE + i)) [0..<3] = [0x68, 0x69, 0x0A]"
    by (simp add: sample_memory_def TAR_BLOCK_SIZE_def sample_archive_def nth_append length_sample_header upt_rec)
  ultimately show ?thesis
    using read_file_exact [OF sample_mounted, of "ascii ''a''" "[0x68, 0x69, 0x0A]"] by simp
qed

text \<open>C30. A listing of a directory of the mounted archive names every child of the directory exactly
  once, also when the archive has entries only below it, and says of each child whether it is a
  directory, and of a file its size, as \<open>directory_exists\<close> and \<open>read_file\<close> do.\<close>

theorem listing_exact:
  assumes "fs_initialize base n mem None = (Inr (), cell)"
  shows "distinct (map fst (snd (for_each_entry directory cell)))
    \<and> fst ` set (snd (for_each_entry directory cell))
        = {c. \<exists>e \<in> set (tar_entries (map (\<lambda>i. mem (base + i)) [0..<n])). has_child directory c e}
    \<and> (\<forall>(c, is_dir, len) \<in> set (snd (for_each_entry directory cell)).
        directory_exists (join_path directory c) cell = Inr is_dir
        \<and> (\<not> is_dir \<longrightarrow> (\<exists>data. fs_read_file (join_path directory c) cell = Inr (Some data) \<and> length data = len)))"
proof -
  define archive where "archive = map (\<lambda>i. mem (base + i)) [0..<n]"
  have ok: "archive_ok archive" "cell = Some (Inr archive)"
    using fs_initialize_ok [OF assms] by (simp_all add: archive_def)
  have safe: "safe_path (te_name e) False" if "e \<in> set (tar_entries archive)" for e
    using that entry_at_Some(1) by (blast elim: tar_entries_entry)
  have dir: "archive_has_dir archive directory" if "e \<in> set (tar_entries archive)" "has_child directory c e" for e c
    using that by (auto simp: archive_has_dir_def has_child_def join_path_def below_iff split: if_split_asm)
  have uniq: "a = b \<or> compatible a b" if "a \<in> set (tar_entries archive)" "b \<in> set (tar_entries archive)" for a b
    using tar_entries_compatible [OF ok(1) that] .
  have visits: "snd (for_each_entry directory cell)
      = (if archive_has_dir archive directory then listing directory [] (tar_entries archive) else [])"
    using ok by (simp add: for_each_entry_eq)
  have names: "fst ` set (snd (for_each_entry directory cell)) = {c. \<exists>e \<in> set (tar_entries archive). has_child directory c e}"
  proof -
    have "fst ` set (listing directory [] (tar_entries archive)) = {c. \<exists>e \<in> set (tar_entries archive). has_child directory c e}"
      using child_name_iff [OF safe, where directory = directory] by (intro set_eqI) (simp add: listing_names(2))
    then show ?thesis using dir by (auto simp: visits)
  qed
  have each: "directory_exists (join_path directory c) cell = Inr d
      \<and> (\<not> d \<longrightarrow> (\<exists>data. fs_read_file (join_path directory c) cell = Inr (Some data) \<and> length data = len))"
    if h: "(c, d, len) \<in> set (listing directory [] (tar_entries archive))" for c d len
  proof -
    obtain e where e: "e \<in> set (tar_entries archive)" "child_entry e directory = Some (c, d, len)"
      using listing_child [OF h] by blast
    note ce = child_entry_Some [OF e(2) safe [OF e(1)]]
    have "join_path directory c \<noteq> []" using ce(1) by (auto simp: has_child_def join_path_def)
    then have "archive_has_dir archive (join_path directory c) \<longleftrightarrow> d"
    proof (cases d)
      case True
      then show ?thesis using ce(1,2) e(1) by (auto simp: archive_has_dir_def has_child_def)
    next
      case False
      have irrefl: "\<not> below p p" for p by (simp add: below_iff)
      have "te_name e = join_path directory c" "\<not> te_is_dir e" using ce(2) False by simp_all
      then show ?thesis
        using \<open>join_path directory c \<noteq> []\<close> irrefl False
        by (auto simp: archive_has_dir_def compatible_def dest!: uniq [OF e(1)])
    qed
    moreover have "\<exists>data. map_option te_data (List.find (\<lambda>e. \<not> te_is_dir e \<and> te_name e = join_path directory c)
        (tar_entries archive)) = Some data \<and> length data = len" if "\<not> d"
    proof (cases "List.find (\<lambda>e. \<not> te_is_dir e \<and> te_name e = join_path directory c) (tar_entries archive)")
      case None
      then show ?thesis using that ce(2) e(1) by (auto simp: find_NoneD)
    next
      case (Some a)
      note a = find_SomeD [OF Some]
      then have "a = e" using uniq [OF e(1), of a] that ce(2) by (auto simp: compatible_def)
      then show ?thesis using Some ce(3) that by simp
    qed
    ultimately show ?thesis using ok by (simp add: directory_exists_eq fs_read_file_eq)
  qed
  have "distinct (map fst (snd (for_each_entry directory cell)))" using listing_names(1) by (simp add: visits)
  then show ?thesis using names each by (auto simp: visits archive_def)
qed

theorem listing_exact_witness:
  "distinct (map fst (snd (for_each_entry [] (Some (Inr sample_archive)))))"
  using listing_exact [OF sample_mounted] by blast

end
