(* ===== verification/Sample_User.thy ===== *)
theory Sample_User
  imports Kernel_Runs
begin

text \<open>
  A concrete run of the kernel that ends with a user task running, for the witnesses of the theorems
  about system calls and interrupts: one user task with two mapped pages is spawned and the scheduler
  is started.
\<close>

definition user_context :: UserContext where
  "user_context = \<lparr>uc_entry = USER_SPACE_START + 16, uc_stack = USER_SPACE_START + 8192,
    uc_argument_count = 0, uc_argument_vector = 0\<rparr>"

definition user_spawned :: "(unit, nat \<rightharpoonup> nat) Kernel" where
  "user_spawned = snd (the (spawn_user flat_tables 4096 65536 sample_space (USER_SPACE_START + 16)
    (USER_SPACE_START + 8192) sample_start))"

definition user_running :: "(unit, nat \<rightharpoonup> nat) Kernel" where
  "user_running = snd (the (run_tasks 4096 65536 12288 user_spawned))"

definition user_task :: "CpuContext \<Rightarrow> nat list \<Rightarrow> nat \<Rightarrow> Task" where
  "user_task cx st stop = \<lparr>t_id = 1, t_parent = None, t_state = Ready, t_exit_code = None, t_context = cx,
    t_entry = None, t_user = Some \<lparr>ut_address_space = sample_space, ut_context = user_context, ut_syscall_user_rsp = 0\<rparr>,
    t_stack = Some st, t_stack_top = Some stop, t_wake_at = None, t_is_idle = False, t_fds = initial_table\<rparr>"

lemma user_context_made:
  "for_address_space_with_arguments sample_space (USER_SPACE_START + 16) (USER_SPACE_START + 8192) 0 0 = Inr user_context"
  by (simp add: for_address_space_with_arguments_def UserContext_with_arguments_def user_context_def
      contains_user_address_def USER_SPACE_END_def sample_pages user_page_access_def sample_space_def)
    (simp add: USER_SPACE_START_def USER_PML4_INDEX_def page_floor_def PAGE_SIZE_def)

lemma user_spawned_sched:
  assumes st: "create_task_stack 4096 65536 = Inr (cx, st, stop)"
  shows "spawn_user flat_tables 4096 65536 sample_space (USER_SPACE_START + 16) (USER_SPACE_START + 8192) sample_start
      = Some (Inr 1, user_spawned)"
    "user_spawned = sample_start\<lparr>k_sched := \<lparr>s_tasks = [Some (user_task cx st stop), None, None, None, None, None,
       None, None, None, None, None, None, None, None, None, None], s_current = None, s_next_id = 2, s_idle_index = None\<rparr>\<rparr>"
proof -
  have k0: "k_sched sample_start = Scheduler_new" by (simp add: sample_start_def kernel_start_def)
  have "spawn_user flat_tables 4096 65536 sample_space (USER_SPACE_START + 16) (USER_SPACE_START + 8192) sample_start
      = Some (Inr 1, sample_start\<lparr>k_sched := \<lparr>s_tasks = [Some (user_task cx st stop), None, None, None, None, None,
       None, None, None, None, None, None, None, None, None, None], s_current = None, s_next_id = 2, s_idle_index = None\<rparr>\<rparr>)"
    unfolding spawn_user_def spawn_user_with_arguments_and_fds_def user_context_made
    by (simp add: k0 new_tasks free_slots_def create_user_task_def check_task_capacity_def checked_add_def
        u64_limit_def st current_task_def user_task_def)
  then show "spawn_user flat_tables 4096 65536 sample_space (USER_SPACE_START + 16) (USER_SPACE_START + 8192) sample_start
      = Some (Inr 1, user_spawned)"
    "user_spawned = sample_start\<lparr>k_sched := \<lparr>s_tasks = [Some (user_task cx st stop), None, None, None, None, None,
       None, None, None, None, None, None, None, None, None, None], s_current = None, s_next_id = 2, s_idle_index = None\<rparr>\<rparr>"
    by (simp_all add: user_spawned_def)
qed

lemma user_running_sched:
  assumes st: "create_task_stack 4096 65536 = Inr (cx, st, stop)"
  shows "run_tasks 4096 65536 12288 user_spawned = Some (Inr (), user_running)"
    "k_sched user_running = \<lparr>s_tasks = [Some ((user_task cx st stop)\<lparr>t_state := Running\<rparr>),
       Some ((sample_task 2 cx st stop)\<lparr>t_entry := Some 12288, t_is_idle := True\<rparr>), None, None, None, None,
       None, None, None, None, None, None, None, None, None, None],
       s_current = Some 0, s_next_id = 3, s_idle_index = Some 1\<rparr>"
    "k_cr3 user_running = 8192" "k_world user_running = world_init ()"
proof -
  have mem: "k_mem sample_start = Some (Inr sample_manager)" by (simp add: sample_start_def kernel_start_def)
  have idle: "install_idle 4096 65536 12288 (k_sched user_spawned) = (Inr (), \<lparr>s_tasks = [Some (user_task cx st stop),
       Some ((sample_task 2 cx st stop)\<lparr>t_entry := Some 12288, t_is_idle := True\<rparr>), None, None, None, None,
       None, None, None, None, None, None, None, None, None, None],
       s_current = None, s_next_id = 3, s_idle_index = Some 1\<rparr>)"
    by (simp add: user_spawned_sched(2) [OF st] install_idle_def create_kernel_task_def insert_task_def check_task_capacity_def
        checked_add_def u64_limit_def st find_task_def task_with_id_def sample_task_def user_task_def upd_task_def)
  have start: "scheduler_start \<lparr>s_tasks = [Some (user_task cx st stop),
       Some ((sample_task 2 cx st stop)\<lparr>t_entry := Some 12288, t_is_idle := True\<rparr>), None, None, None, None,
       None, None, None, None, None, None, None, None, None, None],
       s_current = None, s_next_id = 3, s_idle_index = Some 1\<rparr> = (Inr 1, \<lparr>s_tasks = [Some ((user_task cx st stop)\<lparr>t_state := Running\<rparr>),
       Some ((sample_task 2 cx st stop)\<lparr>t_entry := Some 12288, t_is_idle := True\<rparr>), None, None, None, None,
       None, None, None, None, None, None, None, None, None, None],
       s_current = Some 0, s_next_id = 3, s_idle_index = Some 1\<rparr>)"
    by (simp add: scheduler_start_def select_next_def scan_order_0 Let_def selectable_def run_slot_def upd_task_def
        sample_task_def user_task_def)
  obtain k where k: "run_tasks 4096 65536 12288 user_spawned = Some (Inr (), k)"
      "k_sched k = snd (scheduler_start (snd (install_idle 4096 65536 12288 (k_sched user_spawned))))"
      "k_cr3 k = 8192" "k_world k = world_init ()"
    using idle start mem
    by (simp add: run_tasks_def Let_def activate_task_address_space_def as_activate_def set_kernel_stack_def
        user_spawned_sched(2) [OF st] user_task_def sample_space_def leafos_context_switch_def store_context_def
        sample_start_def kernel_start_def)
  then show "run_tasks 4096 65536 12288 user_spawned = Some (Inr (), user_running)"
    "k_sched user_running = \<lparr>s_tasks = [Some ((user_task cx st stop)\<lparr>t_state := Running\<rparr>),
       Some ((sample_task 2 cx st stop)\<lparr>t_entry := Some 12288, t_is_idle := True\<rparr>), None, None, None, None,
       None, None, None, None, None, None, None, None, None, None],
       s_current = Some 0, s_next_id = 3, s_idle_index = Some 1\<rparr>"
    "k_cr3 user_running = 8192" "k_world user_running = world_init ()"
    using idle start by (simp_all add: user_running_def)
qed

lemma user_run: "kernel_run flat_tables D (kernel_start sample_manager (world_init ())) user_running"
proof -
  obtain cx st stop where st: "create_task_stack 4096 65536 = Inr (cx, st, stop)" using sample_stack by blast
  let ?R = "\<lambda>a b. \<exists>x. kstep flat_tables D x a b"
  have "as_root sample_space \<noteq> None" by (simp add: sample_space_def)
  then have a: "?R sample_start user_spawned"
    using kstep.spawn_user [OF _ user_spawned_sched(1) [OF st, unfolded spawn_user_def]] by blast
  have b: "?R user_spawned user_running" using kstep.run [OF user_running_sched(1) [OF st]] by blast
  show ?thesis
    unfolding kernel_run_def sample_start_def [symmetric]
    by (rule converse_rtranclp_into_rtranclp [OF a r_into_rtranclp [of ?R, OF b]])
qed

lemma user_is_running: "current_task_is_user user_running" "k_cr3 user_running = 8192"
    "current_space user_running = Inr sample_space" "k_world user_running = world_init ()"
proof -
  obtain cx st stop where st: "create_task_stack 4096 65536 = Inr (cx, st, stop)" using sample_stack by blast
  note r = user_running_sched [OF st]
  show "current_task_is_user user_running" "k_cr3 user_running = 8192"
    "current_space user_running = Inr sample_space" "k_world user_running = world_init ()"
    by (simp_all add: current_task_is_user_def current_space_def running_task_def r user_task_def ok_or_def)
qed

end
