(* ===== verification/Keyboard.thy ===== *)
theory Keyboard
  imports Byte_Strings
begin

unbundle bit_operations_syntax

text \<open>
  The scan-code decoder of \<open>drivers/keyboard.rs\<close>: set-1 scan codes with \<open>E0\<close> and \<open>E1\<close> prefixes, the
  state of the modifier and lock keys, and the characters of a US layout. A \<open>char\<close> of the source
  is always ASCII here and is its code.
\<close>

datatype KeyState = Pressed | Released

datatype KeyCode =
    KeyChar byte | Enter | Escape | Backspace | Tab | Space
  | LeftShift | RightShift | LeftCtrl | RightCtrl | LeftAlt | RightAlt
  | CapsLock | NumLock | ScrollLock | F byte
  | ArrowUp | ArrowDown | ArrowLeft | ArrowRight | Home | End | PageUp | PageDown
  | Insert | Delete | UnknownKey byte

record KeyEvent =
  ke_code :: KeyCode
  ke_state :: KeyState
  ke_ascii :: "byte option"

record Keyboard =
  kb_extended :: bool
  kb_pause_remaining :: nat
  kb_left_shift :: bool
  kb_right_shift :: bool
  kb_left_ctrl :: bool
  kb_right_ctrl :: bool
  kb_left_alt :: bool
  kb_right_alt :: bool
  kb_caps_lock :: bool
  kb_num_lock :: bool
  kb_scroll_lock :: bool

definition Keyboard_new :: Keyboard where
  "Keyboard_new = \<lparr>kb_extended = False, kb_pause_remaining = 0, kb_left_shift = False, kb_right_shift = False,
    kb_left_ctrl = False, kb_right_ctrl = False, kb_left_alt = False, kb_right_alt = False,
    kb_caps_lock = False, kb_num_lock = False, kb_scroll_lock = False\<rparr>"

definition normal_key :: "byte \<Rightarrow> KeyCode" where
  "normal_key code =
    (if code = 0x01 then Escape
     else if code = 0x02 then KeyChar 0x31
     else if code = 0x03 then KeyChar 0x32
     else if code = 0x04 then KeyChar 0x33
     else if code = 0x05 then KeyChar 0x34
     else if code = 0x06 then KeyChar 0x35
     else if code = 0x07 then KeyChar 0x36
     else if code = 0x08 then KeyChar 0x37
     else if code = 0x09 then KeyChar 0x38
     else if code = 0x0A then KeyChar 0x39
     else if code = 0x0B then KeyChar 0x30
     else if code = 0x0C then KeyChar 0x2D
     else if code = 0x0D then KeyChar 0x3D
     else if code = 0x0E then Backspace
     else if code = 0x0F then Tab
     else if code = 0x10 then KeyChar 0x71
     else if code = 0x11 then KeyChar 0x77
     else if code = 0x12 then KeyChar 0x65
     else if code = 0x13 then KeyChar 0x72
     else if code = 0x14 then KeyChar 0x74
     else if code = 0x15 then KeyChar 0x79
     else if code = 0x16 then KeyChar 0x75
     else if code = 0x17 then KeyChar 0x69
     else if code = 0x18 then KeyChar 0x6F
     else if code = 0x19 then KeyChar 0x70
     else if code = 0x1A then KeyChar 0x5B
     else if code = 0x1B then KeyChar 0x5D
     else if code = 0x1C then Enter
     else if code = 0x1D then LeftCtrl
     else if code = 0x1E then KeyChar 0x61
     else if code = 0x1F then KeyChar 0x73
     else if code = 0x20 then KeyChar 0x64
     else if code = 0x21 then KeyChar 0x66
     else if code = 0x22 then KeyChar 0x67
     else if code = 0x23 then KeyChar 0x68
     else if code = 0x24 then KeyChar 0x6A
     else if code = 0x25 then KeyChar 0x6B
     else if code = 0x26 then KeyChar 0x6C
     else if code = 0x27 then KeyChar 0x3B
     else if code = 0x28 then KeyChar 0x27
     else if code = 0x29 then KeyChar 0x60
     else if code = 0x2A then LeftShift
     else if code = 0x2B then KeyChar 0x5C
     else if code = 0x2C then KeyChar 0x7A
     else if code = 0x2D then KeyChar 0x78
     else if code = 0x2E then KeyChar 0x63
     else if code = 0x2F then KeyChar 0x76
     else if code = 0x30 then KeyChar 0x62
     else if code = 0x31 then KeyChar 0x6E
     else if code = 0x32 then KeyChar 0x6D
     else if code = 0x33 then KeyChar 0x2C
     else if code = 0x34 then KeyChar 0x2E
     else if code = 0x35 then KeyChar 0x2F
     else if code = 0x36 then RightShift
     else if code = 0x37 then KeyChar 0x2A
     else if code = 0x38 then LeftAlt
     else if code = 0x39 then Space
     else if code = 0x3A then CapsLock
     else if 0x3B \<le> code \<and> code \<le> 0x44 then F (code - 0x3A)
     else if code = 0x45 then NumLock
     else if code = 0x46 then ScrollLock
     else if code = 0x47 then KeyChar 0x37
     else if code = 0x48 then KeyChar 0x38
     else if code = 0x49 then KeyChar 0x39
     else if code = 0x4A then KeyChar 0x2D
     else if code = 0x4B then KeyChar 0x34
     else if code = 0x4C then KeyChar 0x35
     else if code = 0x4D then KeyChar 0x36
     else if code = 0x4E then KeyChar 0x2B
     else if code = 0x4F then KeyChar 0x31
     else if code = 0x50 then KeyChar 0x32
     else if code = 0x51 then KeyChar 0x33
     else if code = 0x52 then KeyChar 0x30
     else if code = 0x53 then KeyChar 0x2E
     else if code = 0x57 then F 11
     else if code = 0x58 then F 12
     else UnknownKey code)"

definition extended_key :: "byte \<Rightarrow> KeyCode" where
  "extended_key code =
    (if code = 0x1C then Enter
     else if code = 0x1D then RightCtrl
     else if code = 0x35 then KeyChar 0x2F
     else if code = 0x38 then RightAlt
     else if code = 0x47 then Home
     else if code = 0x48 then ArrowUp
     else if code = 0x49 then PageUp
     else if code = 0x4B then ArrowLeft
     else if code = 0x4D then ArrowRight
     else if code = 0x4F then End
     else if code = 0x50 then ArrowDown
     else if code = 0x51 then PageDown
     else if code = 0x52 then Insert
     else if code = 0x53 then Delete
     else UnknownKey (code OR 0x80))"

definition is_ascii_alphabetic :: "byte \<Rightarrow> bool" where
  "is_ascii_alphabetic b \<longleftrightarrow> 0x41 \<le> b \<and> b \<le> 0x5A \<or> 0x61 \<le> b \<and> b \<le> 0x7A"

definition to_ascii_uppercase :: "byte \<Rightarrow> byte" where
  "to_ascii_uppercase b = (if 0x61 \<le> b \<and> b \<le> 0x7A then b - 0x20 else b)"

text \<open>The shifted characters of the keys that are not letters.\<close>

definition shifted_chars :: "(byte \<times> byte) list" where
  "shifted_chars = [(0x31, 0x21), (0x32, 0x40), (0x33, 0x23), (0x34, 0x24), (0x35, 0x25), (0x36, 0x5E), (0x37, 0x26), (0x38, 0x2A), (0x39, 0x28), (0x30, 0x29), (0x2D, 0x5F), (0x3D, 0x2B), (0x5B, 0x7B), (0x5D, 0x7D), (0x5C, 0x7C), (0x3B, 0x3A), (0x27, 0x22), (0x60, 0x7E), (0x2C, 0x3C), (0x2E, 0x3E), (0x2F, 0x3F)]"

definition shift_symbol :: "byte \<Rightarrow> byte" where
  "shift_symbol c = (case map_of shifted_chars c of None \<Rightarrow> c | Some d \<Rightarrow> d)"

definition control_byte :: "byte \<Rightarrow> byte" where
  "control_byte b = to_ascii_uppercase b - 0x41 + 1"

definition to_ascii :: "Keyboard \<Rightarrow> KeyCode \<Rightarrow> byte option" where
  "to_ascii kb key =
    (let shifted = (kb_left_shift kb \<or> kb_right_shift kb);
         ctrl = (kb_left_ctrl kb \<or> kb_right_ctrl kb)
     in case key of
          KeyChar c \<Rightarrow>
            if is_ascii_alphabetic c then
              if kb_right_alt kb \<and> c = 0x77 then Some 0x7C
              else
                let upper = (shifted \<noteq> kb_caps_lock kb);
                    b = (if upper then to_ascii_uppercase c else c)
                in Some (if ctrl then control_byte b else b)
            else
              let b = (if shifted then shift_symbol c else c)
              in Some (if ctrl \<and> is_ascii_alphabetic b then control_byte b else b)
        | Space \<Rightarrow> Some 0x20
        | Enter \<Rightarrow> Some 0x0A
        | Tab \<Rightarrow> Some 0x09
        | Backspace \<Rightarrow> Some 0x08
        | Escape \<Rightarrow> Some 0x1B
        | _ \<Rightarrow> None)"

text \<open>The effect of a key on the modifier and lock state.\<close>

definition track_key :: "KeyCode \<Rightarrow> bool \<Rightarrow> Keyboard \<Rightarrow> Keyboard" where
  "track_key key released kb = (case key of
      LeftShift \<Rightarrow> kb\<lparr>kb_left_shift := \<not> released\<rparr>
    | RightShift \<Rightarrow> kb\<lparr>kb_right_shift := \<not> released\<rparr>
    | LeftCtrl \<Rightarrow> kb\<lparr>kb_left_ctrl := \<not> released\<rparr>
    | RightCtrl \<Rightarrow> kb\<lparr>kb_right_ctrl := \<not> released\<rparr>
    | LeftAlt \<Rightarrow> kb\<lparr>kb_left_alt := \<not> released\<rparr>
    | RightAlt \<Rightarrow> kb\<lparr>kb_right_alt := \<not> released\<rparr>
    | CapsLock \<Rightarrow> if \<not> released then kb\<lparr>kb_caps_lock := \<not> kb_caps_lock kb\<rparr> else kb
    | NumLock \<Rightarrow> if \<not> released then kb\<lparr>kb_num_lock := \<not> kb_num_lock kb\<rparr> else kb
    | ScrollLock \<Rightarrow> if \<not> released then kb\<lparr>kb_scroll_lock := \<not> kb_scroll_lock kb\<rparr> else kb
    | _ \<Rightarrow> kb)"

definition process_scancode :: "byte \<Rightarrow> Keyboard \<Rightarrow> KeyEvent option \<times> Keyboard" where
  "process_scancode scancode kb =
    (if 0 < kb_pause_remaining kb then (None, kb\<lparr>kb_pause_remaining := kb_pause_remaining kb - 1\<rparr>)
     else if scancode = 0xE1 then (None, kb\<lparr>kb_extended := False, kb_pause_remaining := 5\<rparr>)
     else if scancode = 0xE0 then (None, kb\<lparr>kb_extended := True\<rparr>)
     else
       let extended = kb_extended kb;
           kb1 = kb\<lparr>kb_extended := False\<rparr>;
           released = (scancode AND 0x80 \<noteq> 0);
           code = scancode AND 0x7F;
           key = (if extended then extended_key code else normal_key code);
           kb2 = track_key key released kb1
       in (Some \<lparr>ke_code = key, ke_state = (if released then Released else Pressed),
             ke_ascii = (if released then None else to_ascii kb2 key)\<rparr>, kb2))"

section \<open>Runs of the decoder\<close>

fun process_all :: "byte list \<Rightarrow> Keyboard \<Rightarrow> KeyEvent list \<times> Keyboard" where
  "process_all [] kb = ([], kb)"
| "process_all (c # cs) kb =
    (let (e, kb1) = process_scancode c kb; (es, kb2) = process_all cs kb1
     in ((case e of None \<Rightarrow> es | Some ev \<Rightarrow> ev # es), kb2))"

text \<open>A key is held when its last event was a press; a lock key toggles at each press.\<close>

definition key_held :: "KeyCode \<Rightarrow> KeyEvent list \<Rightarrow> bool" where
  "key_held key evs = (case filter (\<lambda>e. ke_code e = key) (rev evs) of [] \<Rightarrow> False | e # _ \<Rightarrow> ke_state e = Pressed)"

definition presses :: "KeyCode \<Rightarrow> KeyEvent list \<Rightarrow> nat" where
  "presses key evs = length (filter (\<lambda>e. ke_code e = key \<and> ke_state e = Pressed) evs)"

definition tracks :: "KeyEvent list \<Rightarrow> Keyboard \<Rightarrow> bool" where
  "tracks evs kb \<longleftrightarrow> kb_left_shift kb = key_held LeftShift evs \<and> kb_right_shift kb = key_held RightShift evs
    \<and> kb_left_ctrl kb = key_held LeftCtrl evs \<and> kb_right_ctrl kb = key_held RightCtrl evs
    \<and> kb_left_alt kb = key_held LeftAlt evs \<and> kb_right_alt kb = key_held RightAlt evs
    \<and> kb_caps_lock kb = odd (presses CapsLock evs) \<and> kb_num_lock kb = odd (presses NumLock evs)
    \<and> kb_scroll_lock kb = odd (presses ScrollLock evs) \<and> kb_pause_remaining kb \<le> 5"

lemma held_snoc: "key_held key (evs @ [e]) = (if ke_code e = key then ke_state e = Pressed else key_held key evs)"
  by (simp add: key_held_def)

lemma presses_snoc: "presses key (evs @ [e]) = presses key evs + (if ke_code e = key \<and> ke_state e = Pressed then 1 else 0)"
  by (simp add: presses_def)

lemma track_key_fields:
  "kb_left_shift (track_key key r kb) = (if key = LeftShift then \<not> r else kb_left_shift kb)"
  "kb_right_shift (track_key key r kb) = (if key = RightShift then \<not> r else kb_right_shift kb)"
  "kb_left_ctrl (track_key key r kb) = (if key = LeftCtrl then \<not> r else kb_left_ctrl kb)"
  "kb_right_ctrl (track_key key r kb) = (if key = RightCtrl then \<not> r else kb_right_ctrl kb)"
  "kb_left_alt (track_key key r kb) = (if key = LeftAlt then \<not> r else kb_left_alt kb)"
  "kb_right_alt (track_key key r kb) = (if key = RightAlt then \<not> r else kb_right_alt kb)"
  "kb_caps_lock (track_key key r kb) = (kb_caps_lock kb \<noteq> (key = CapsLock \<and> \<not> r))"
  "kb_num_lock (track_key key r kb) = (kb_num_lock kb \<noteq> (key = NumLock \<and> \<not> r))"
  "kb_scroll_lock (track_key key r kb) = (kb_scroll_lock kb \<noteq> (key = ScrollLock \<and> \<not> r))"
  "kb_pause_remaining (track_key key r kb) = kb_pause_remaining kb"
  by (cases key; simp add: track_key_def)+

lemma process_scancode_None:
  assumes "process_scancode c kb = (None, kb')"
  shows "\<exists>x n. kb' = kb\<lparr>kb_extended := x, kb_pause_remaining := n\<rparr> \<and> (n \<le> 5 \<or> n < kb_pause_remaining kb)"
proof (cases "0 < kb_pause_remaining kb")
  case True
  then show ?thesis
    using assms by (intro exI [of _ "kb_extended kb"] exI [of _ "kb_pause_remaining kb - 1"]) (auto simp: process_scancode_def)
next
  case False
  then have "kb' = kb\<lparr>kb_extended := False, kb_pause_remaining := 5\<rparr> \<or> kb' = kb\<lparr>kb_extended := True, kb_pause_remaining := 0\<rparr>"
    using assms by (auto simp: process_scancode_def Let_def split: if_split_asm)
  then show ?thesis by (metis le0 order_refl)
qed

lemma process_scancode_Some:
  assumes "process_scancode c kb = (Some e, kb')"
  shows "kb' = track_key (ke_code e) (ke_state e = Released) (kb\<lparr>kb_extended := False\<rparr>)" "kb_pause_remaining kb = 0"
  using assms by (auto simp: process_scancode_def Let_def split: if_split_asm)

lemma tracks_step:
  assumes "tracks evs kb" "process_scancode c kb = (e, kb')"
  shows "tracks (evs @ (case e of None \<Rightarrow> [] | Some ev \<Rightarrow> [ev])) kb'"
proof (cases e)
  case None
  then obtain x n where "kb' = kb\<lparr>kb_extended := x, kb_pause_remaining := n\<rparr>" "n \<le> 5 \<or> n < kb_pause_remaining kb"
    using process_scancode_None assms(2) by blast
  moreover from this have "n \<le> 5" using conjunct2 [OF assms(1) [unfolded tracks_def]] by linarith
  ultimately show ?thesis using assms(1) None by (simp add: tracks_def)
next
  case (Some ev)
  note k = process_scancode_Some [OF assms(2) [unfolded Some]]
  have st: "ke_state ev = Pressed \<longleftrightarrow> ke_state ev \<noteq> Released" by (cases "ke_state ev") auto
  show ?thesis
    using assms(1) k(2) unfolding Some tracks_def option.case held_snoc presses_snoc k(1) track_key_fields st by simp
qed

lemma tracks_all:
  "tracks evs kb \<Longrightarrow> process_all cs kb = (es, kb') \<Longrightarrow> tracks (evs @ es) kb'"
proof (induction cs arbitrary: evs kb es)
  case (Cons c cs)
  obtain e kb1 where p: "process_scancode c kb = (e, kb1)" by (cases "process_scancode c kb")
  obtain es1 where a: "process_all cs kb1 = (es1, kb')" "es = (case e of None \<Rightarrow> [] | Some ev \<Rightarrow> [ev]) @ es1"
    using Cons(3) p by (auto split: prod.split_asm option.split)
  show ?case using Cons(1) [OF tracks_step [OF Cons(2) p] a(1)] a(2) by simp
qed simp

section \<open>The bytes of the keys\<close>

definition ascii_key :: "KeyCode \<Rightarrow> bool" where
  "ascii_key key \<longleftrightarrow> (\<forall>c. key = KeyChar c \<longrightarrow> c < 0x80)"

lemma ascii_key_if: "ascii_key a \<Longrightarrow> ascii_key b \<Longrightarrow> ascii_key (if c then a else b)"
  by simp

lemma normal_key_ascii: "ascii_key (normal_key code)"
  unfolding normal_key_def by (intro ascii_key_if; simp add: ascii_key_def)

lemma extended_key_ascii: "ascii_key (extended_key code)"
  unfolding extended_key_def by (intro ascii_key_if; simp add: ascii_key_def)

lemma uppercase_ascii: "c < 0x80 \<Longrightarrow> to_ascii_uppercase c < 0x80"
  by (auto simp: to_ascii_uppercase_def word_less_nat_alt word_le_nat_alt unat_sub_if')

lemma uppercase_alphabetic: "is_ascii_alphabetic c \<Longrightarrow> is_ascii_alphabetic (to_ascii_uppercase c)"
  by (auto simp: is_ascii_alphabetic_def to_ascii_uppercase_def word_le_nat_alt unat_sub_if')

lemma control_ascii:
  assumes "is_ascii_alphabetic c"
  shows "control_byte c < 0x80"
proof -
  have "0x41 \<le> to_ascii_uppercase c \<and> to_ascii_uppercase c \<le> 0x5A"
    using assms by (auto simp: is_ascii_alphabetic_def to_ascii_uppercase_def word_le_nat_alt unat_sub_if')
  then have "unat (to_ascii_uppercase c - 0x40) \<le> 26" by (auto simp: word_le_nat_alt unat_sub_if')
  then show ?thesis by (simp add: control_byte_def word_less_nat_alt)
qed

lemma shift_symbol_ascii: "c < 0x80 \<Longrightarrow> shift_symbol c < 0x80"
  by (auto simp: shift_symbol_def shifted_chars_def split: option.split dest!: map_of_SomeD)

lemma to_ascii_less:
  assumes "ascii_key key" "to_ascii kb key = Some b"
  shows "b < 0x80"
proof (cases "\<exists>c. key = KeyChar c")
  case True
  then obtain c where c: "key = KeyChar c" by blast
  have less: "c < 0x80" using assms(1) c by (simp add: ascii_key_def)
  have alt: "b \<in> {0x7C, c, to_ascii_uppercase c, shift_symbol c}
      \<or> (\<exists>d. is_ascii_alphabetic d \<and> b = control_byte d)"
    using assms(2) uppercase_alphabetic [of c]
    by (auto simp: to_ascii_def c Let_def split: if_split_asm)
  then show ?thesis using less uppercase_ascii [OF less] shift_symbol_ascii [OF less] control_ascii by auto
next
  case False
  then show ?thesis using assms(2) by (cases key) (auto simp: to_ascii_def Let_def)
qed

lemma process_scancode_ascii:
  assumes "process_scancode c kb = (Some e, kb')" "ke_ascii e = Some b"
  shows "b < 0x80" "ke_state e = Pressed"
proof -
  have k: "ascii_key (ke_code e)" "ke_ascii e = (if ke_state e = Released then None else to_ascii kb' (ke_code e))"
    using assms(1) normal_key_ascii extended_key_ascii
    by (auto simp: process_scancode_def Let_def split: if_split_asm)
  show "ke_state e = Pressed" using assms(2) k(2) by (cases "ke_state e") auto
  then show "b < 0x80" using assms(2) k to_ascii_less [of "ke_code e" kb' b] by simp
qed

section \<open>Properties\<close>

text \<open>The decoder's modifier state follows the keys: after any sequence of scan codes, with
  prefixes and pause sequences anywhere in it, a modifier flag is set exactly when the last event
  of that key was a press, and a lock flag exactly when its key has been pressed an odd number of
  times.\<close>

theorem modifiers_follow_keys:
  assumes "process_all cs Keyboard_new = (evs, kb)"
  shows "kb_left_shift kb = key_held LeftShift evs \<and> kb_right_shift kb = key_held RightShift evs
    \<and> kb_left_ctrl kb = key_held LeftCtrl evs \<and> kb_right_ctrl kb = key_held RightCtrl evs
    \<and> kb_left_alt kb = key_held LeftAlt evs \<and> kb_right_alt kb = key_held RightAlt evs
    \<and> kb_caps_lock kb = odd (presses CapsLock evs) \<and> kb_num_lock kb = odd (presses NumLock evs)
    \<and> kb_scroll_lock kb = odd (presses ScrollLock evs)"
proof -
  have "tracks [] Keyboard_new" by (simp add: tracks_def Keyboard_new_def key_held_def presses_def)
  from tracks_all [OF this assms] show ?thesis by (simp add: tracks_def)
qed

theorem modifiers_follow_keys_witness:
  "kb_caps_lock (snd (process_all [0x3A, 0xBA, 0x2A] Keyboard_new))
    = odd (presses CapsLock (fst (process_all [0x3A, 0xBA, 0x2A] Keyboard_new)))"
  using modifiers_follow_keys [OF surjective_pairing [of "process_all [0x3A, 0xBA, 0x2A] Keyboard_new"]] by blast

end
