(* ===== verification/Key_Queue.thy ===== *)
theory Key_Queue
  imports Fifo_Spec
begin

unbundle bit_operations_syntax

text \<open>
  The shell's key queue of \<open>shell/mod.rs\<close>: a ring of 256 cells with one producer, the keyboard
  interrupt handler, and one consumer, the shell. The head and tail indices are separate atomic
  variables, and an interrupt can come between any two accesses of the consumer. \<open>dequeue_key\<close>
  is given both as one operation, which refines the bounded queue contract, and as the sequence of
  its four accesses, interleaved with interrupts in \<open>key_step\<close>.
\<close>

definition QUEUE_CAPACITY :: nat where "QUEUE_CAPACITY = 256"
definition QUEUE_MASK :: nat where "QUEUE_MASK = QUEUE_CAPACITY - 1"

record KeyQueue =
  kq_cells :: "byte list"
  kq_head :: nat
  kq_tail :: nat

definition KeyQueue_new :: KeyQueue where
  "KeyQueue_new = \<lparr>kq_cells = replicate QUEUE_CAPACITY 0, kq_head = 0, kq_tail = 0\<rparr>"

definition enqueue_key :: "byte \<Rightarrow> KeyQueue \<Rightarrow> KeyQueue" where
  "enqueue_key b q =
    (let head = kq_head q; next_index = (head + 1) AND QUEUE_MASK
     in if next_index = kq_tail q then q
        else q\<lparr>kq_cells := (kq_cells q)[head := b], kq_head := next_index\<rparr>)"

definition dequeue_key :: "KeyQueue \<Rightarrow> (byte \<times> KeyQueue) option" where
  "dequeue_key q =
    (let tail = kq_tail q
     in if tail = kq_head q then None
        else Some (kq_cells q ! tail, q\<lparr>kq_tail := (tail + 1) AND QUEUE_MASK\<rparr>))"

section \<open>The queue contract\<close>

definition kq_invar :: "KeyQueue \<Rightarrow> bool" where
  "kq_invar q \<longleftrightarrow> length (kq_cells q) = QUEUE_CAPACITY \<and> kq_head q < QUEUE_CAPACITY \<and> kq_tail q < QUEUE_CAPACITY"

definition kq_length :: "KeyQueue \<Rightarrow> nat" where
  "kq_length q = (kq_head q + (QUEUE_CAPACITY - kq_tail q)) mod QUEUE_CAPACITY"

definition kq_contents :: "KeyQueue \<Rightarrow> byte list" where
  "kq_contents q = ring_contents (kq_cells q) (kq_tail q) (kq_length q)"

lemma mask_mod: "n AND QUEUE_MASK = n mod QUEUE_CAPACITY"
proof -
  have "n AND mask 8 = n mod 2 ^ 8" by (simp only: take_bit_eq_mask [symmetric] take_bit_eq_mod)
  then show ?thesis by (simp add: QUEUE_MASK_def QUEUE_CAPACITY_def mask_eq_exp_minus_1)
qed

lemma kq_new: "kq_invar KeyQueue_new" "kq_contents KeyQueue_new = []"
  by (simp_all add: kq_invar_def kq_contents_def kq_length_def KeyQueue_new_def QUEUE_CAPACITY_def)

lemma length_kq_contents [simp]: "length (kq_contents q) = kq_length q"
  by (simp add: kq_contents_def)

text \<open>Index arithmetic: with head and tail inside the ring, the length is their distance, and the
  queue is full exactly when the next head would meet the tail.\<close>

lemma kq_length_cases:
  assumes "kq_invar q"
  shows "kq_length q = (if kq_tail q \<le> kq_head q then kq_head q - kq_tail q
    else kq_head q + QUEUE_CAPACITY - kq_tail q)"
  using assms by (auto simp: kq_invar_def kq_length_def QUEUE_CAPACITY_def mod_if)

lemma kq_head_eq: "kq_invar q \<Longrightarrow> (kq_tail q + kq_length q) mod QUEUE_CAPACITY = kq_head q"
  by (auto simp: kq_length_cases) (auto simp: kq_invar_def)

lemma kq_full:
  assumes "kq_invar q"
  shows "(kq_head q + 1) AND QUEUE_MASK = kq_tail q \<longleftrightarrow> kq_length q = QUEUE_CAPACITY - 1"
  using assms by (auto simp: mask_mod kq_length_cases kq_invar_def QUEUE_CAPACITY_def mod_if)

lemma kq_length_less: "kq_invar q \<Longrightarrow> kq_length q < QUEUE_CAPACITY"
  by (simp add: kq_length_def QUEUE_CAPACITY_def)

lemma kq_empty: "kq_invar q \<Longrightarrow> kq_tail q = kq_head q \<longleftrightarrow> kq_length q = 0"
  by (auto simp: kq_length_cases kq_invar_def)

lemma enqueue_key_invar: "kq_invar q \<Longrightarrow> kq_invar (enqueue_key b q)"
  by (auto simp: kq_invar_def enqueue_key_def Let_def mask_mod QUEUE_CAPACITY_def)

lemma enqueue_key_contents:
  assumes q: "kq_invar q"
  shows "kq_contents (enqueue_key b q)
    = (if kq_length q < QUEUE_CAPACITY - 1 then kq_contents q @ [b] else kq_contents q)"
proof (cases "kq_length q = QUEUE_CAPACITY - 1")
  case True
  then show ?thesis using kq_full [OF q] by (simp add: enqueue_key_def Let_def)
next
  case False
  then have less: "kq_length q < QUEUE_CAPACITY - 1" using kq_length_less [OF q] by simp
  define q' where "q' = q\<lparr>kq_cells := (kq_cells q)[kq_head q := b], kq_head := (kq_head q + 1) mod QUEUE_CAPACITY\<rparr>"
  have e: "enqueue_key b q = q'" using False kq_full [OF q] by (simp add: enqueue_key_def Let_def q'_def mask_mod)
  have inv: "kq_invar q'" using enqueue_key_invar [OF q, of b] e by simp
  have len: "kq_length q' = Suc (kq_length q)"
    using less q unfolding kq_length_cases [OF inv] kq_length_cases [OF q]
    by (auto simp: q'_def kq_invar_def QUEUE_CAPACITY_def mod_if split: if_split_asm)
  have "ring_contents ((kq_cells q)[(kq_tail q + kq_length q) mod length (kq_cells q) := b]) (kq_tail q) (Suc (kq_length q))
      = ring_contents (kq_cells q) (kq_tail q) (kq_length q) @ [b]"
    using less q by (intro ring_contents_push) (simp add: kq_invar_def)
  moreover have "(kq_tail q + kq_length q) mod length (kq_cells q) = kq_head q"
    using kq_head_eq [OF q] q by (simp add: kq_invar_def)
  ultimately show ?thesis using less by (simp add: e kq_contents_def len) (simp add: q'_def)
qed

lemma dequeue_key_Some:
  assumes q: "kq_invar q" and d: "dequeue_key q = Some (b, q')"
  shows "kq_contents q = b # kq_contents q'" "kq_invar q'"
proof -
  have ne: "kq_tail q \<noteq> kq_head q" and b: "b = kq_cells q ! kq_tail q"
    and q': "q' = q\<lparr>kq_tail := (kq_tail q + 1) mod QUEUE_CAPACITY\<rparr>"
    using d by (auto simp: dequeue_key_def Let_def mask_mod split: if_split_asm)
  show inv: "kq_invar q'" using q by (auto simp: q' kq_invar_def QUEUE_CAPACITY_def)
  have pos: "0 < kq_length q" using kq_empty [OF q] ne by simp
  have "kq_length q' = kq_length q - 1"
    using pos q unfolding kq_length_cases [OF inv] kq_length_cases [OF q]
    by (auto simp: q' kq_invar_def QUEUE_CAPACITY_def mod_if split: if_split_asm)
  then show "kq_contents q = b # kq_contents q'"
    using ring_contents_pop [OF pos, of "kq_tail q" "kq_cells q"] q
    by (simp add: kq_contents_def b q' kq_invar_def)
qed

interpretation kq: bounded_fifo enqueue_key dequeue_key kq_contents kq_invar "QUEUE_CAPACITY - 1"
proof unfold_locales
  fix q b q'
  assume q: "kq_invar q"
  show "dequeue_key q = None \<longleftrightarrow> kq_contents q = []"
    using kq_empty [OF q] by (auto simp: dequeue_key_def Let_def simp flip: length_0_conv)
  show "length (kq_contents q) \<le> QUEUE_CAPACITY - 1" using kq_length_less [OF q] by simp
  show "kq_invar (enqueue_key b q)" by (rule enqueue_key_invar [OF q])
  show "kq_contents (enqueue_key b q) = (if length (kq_contents q) < QUEUE_CAPACITY - 1
      then kq_contents q @ [b] else kq_contents q)" by (simp add: enqueue_key_contents [OF q])
  assume "dequeue_key q = Some (b, q')"
  then show "kq_contents q = b # kq_contents q'" "kq_invar q'" using dequeue_key_Some [OF q] by blast+
qed

section \<open>Interrupts between the accesses of the consumer\<close>

text \<open>Where the consumer is inside \<open>dequeue_key\<close>: outside it, after its load of the tail, after its
  comparison with the head, or after its load of the byte.\<close>

datatype Consumer = Outside | LoadedTail nat | NonEmpty nat | LoadedByte nat byte

record KeyRun =
  kr_queue :: KeyQueue
  kr_consumer :: Consumer
  kr_accepted :: "byte list"
  kr_delivered :: "byte list"

inductive key_step :: "KeyRun \<Rightarrow> KeyRun \<Rightarrow> bool" where
  interrupt: "q' = enqueue_key b (kr_queue r) \<Longrightarrow>
    key_step r (r\<lparr>kr_queue := q', kr_accepted := kr_accepted r @ (if q' = kr_queue r then [] else [b])\<rparr>)"
| load_tail: "kr_consumer r = Outside \<Longrightarrow>
    key_step r (r\<lparr>kr_consumer := LoadedTail (kq_tail (kr_queue r))\<rparr>)"
| none: "kr_consumer r = LoadedTail tail \<Longrightarrow> tail = kq_head (kr_queue r) \<Longrightarrow>
    key_step r (r\<lparr>kr_consumer := Outside\<rparr>)"
| check: "kr_consumer r = LoadedTail tail \<Longrightarrow> tail \<noteq> kq_head (kr_queue r) \<Longrightarrow>
    key_step r (r\<lparr>kr_consumer := NonEmpty tail\<rparr>)"
| load_byte: "kr_consumer r = NonEmpty tail \<Longrightarrow>
    key_step r (r\<lparr>kr_consumer := LoadedByte tail (kq_cells (kr_queue r) ! tail)\<rparr>)"
| store_tail: "kr_consumer r = LoadedByte tail b \<Longrightarrow>
    key_step r (r\<lparr>kr_consumer := Outside, kr_queue := (kr_queue r)\<lparr>kq_tail := (tail + 1) AND QUEUE_MASK\<rparr>,
      kr_delivered := kr_delivered r @ [b]\<rparr>)"

inductive_cases key_stepE: "key_step r r'"

definition key_start :: KeyRun where
  "key_start = \<lparr>kr_queue = KeyQueue_new, kr_consumer = Outside, kr_accepted = [], kr_delivered = []\<rparr>"

definition consumer_ok :: "KeyRun \<Rightarrow> bool" where
  "consumer_ok r \<longleftrightarrow> (case kr_consumer r of
      Outside \<Rightarrow> True
    | LoadedTail tail \<Rightarrow> tail = kq_tail (kr_queue r)
    | NonEmpty tail \<Rightarrow> tail = kq_tail (kr_queue r) \<and> kq_length (kr_queue r) \<noteq> 0
    | LoadedByte tail b \<Rightarrow> tail = kq_tail (kr_queue r) \<and> kq_length (kr_queue r) \<noteq> 0
        \<and> b = kq_cells (kr_queue r) ! tail)"

definition run_ok :: "KeyRun \<Rightarrow> bool" where
  "run_ok r \<longleftrightarrow> kq_invar (kr_queue r) \<and> consumer_ok r
    \<and> kr_accepted r = kr_delivered r @ kq_contents (kr_queue r)"

lemma enqueue_unchanged:
  assumes "kq_invar q"
  shows "enqueue_key b q = q \<longleftrightarrow> \<not> kq_length q < QUEUE_CAPACITY - 1"
proof
  assume "enqueue_key b q = q"
  then show "\<not> kq_length q < QUEUE_CAPACITY - 1" using enqueue_key_contents [OF assms, of b] by (auto split: if_split_asm)
next
  assume "\<not> kq_length q < QUEUE_CAPACITY - 1"
  then show "enqueue_key b q = q"
    using kq_full [OF assms] kq_length_less [OF assms] by (simp add: enqueue_key_def Let_def)
qed

text \<open>The producer touches neither the tail nor the cell the consumer is about to read.\<close>

lemma enqueue_frame:
  assumes "kq_invar q" "kq_length q \<noteq> 0"
  shows "kq_tail (enqueue_key b q) = kq_tail q" "kq_length (enqueue_key b q) \<noteq> 0"
    "kq_cells (enqueue_key b q) ! kq_tail q = kq_cells q ! kq_tail q"
proof -
  show "kq_tail (enqueue_key b q) = kq_tail q" by (simp add: enqueue_key_def Let_def)
  show "kq_length (enqueue_key b q) \<noteq> 0"
    using arg_cong [OF enqueue_key_contents [OF assms(1), of b], of length] assms(2)
    unfolding length_kq_contents if_distrib [of length] length_append by (simp split: if_split_asm)
  show "kq_cells (enqueue_key b q) ! kq_tail q = kq_cells q ! kq_tail q"
    using kq_empty [OF assms(1)] assms(2) by (auto simp: enqueue_key_def Let_def)
qed

lemma run_ok_step:
  assumes "key_step r r'" "run_ok r"
  shows "run_ok r'"
  using assms
proof (induction rule: key_step.induct)
  case (interrupt q' b r)
  have q: "kq_invar (kr_queue r)" using interrupt(2) by (simp add: run_ok_def)
  have "consumer_ok (r\<lparr>kr_queue := q', kr_accepted := x\<rparr>)" for x
    using interrupt enqueue_frame [OF q, of b] enqueue_frame(1) [OF q]
    by (auto simp: run_ok_def consumer_ok_def enqueue_key_def Let_def split: Consumer.splits)
  then show ?case
    using interrupt enqueue_key_invar [OF q] enqueue_key_contents [OF q] enqueue_unchanged [OF q]
    by (auto simp: run_ok_def)
next
  case (store_tail r tail b)
  have q: "kq_invar (kr_queue r)" and t: "tail = kq_tail (kr_queue r)" "kq_length (kr_queue r) \<noteq> 0"
    "b = kq_cells (kr_queue r) ! tail"
    using store_tail by (auto simp: run_ok_def consumer_ok_def)
  have "dequeue_key (kr_queue r) = Some (b, (kr_queue r)\<lparr>kq_tail := (tail + 1) AND QUEUE_MASK\<rparr>)"
    using t kq_empty [OF q] by (simp add: dequeue_key_def Let_def)
  from dequeue_key_Some [OF q this] show ?case
    using store_tail by (auto simp: run_ok_def consumer_ok_def)
qed (auto simp: run_ok_def consumer_ok_def kq_empty)

lemma run_ok_start: "run_ok key_start"
  by (simp add: run_ok_def consumer_ok_def key_start_def kq_new)

lemma run_ok_reachable:
  assumes "key_step\<^sup>*\<^sup>* key_start r"
  shows "run_ok r"
  using assms by (induction rule: rtranclp_induct) (auto simp: run_ok_start run_ok_step)

text \<open>C32. Keys reach the shell in order and none is lost once it is accepted, with interrupts
  allowed between any two accesses of the consumer: at every moment the keys accepted so far are
  those the shell has taken, in order, followed by those in the queue, and a key is refused only
  when 255 keys wait.\<close>

theorem key_queue_interleaved:
  assumes "key_step\<^sup>*\<^sup>* key_start r"
  shows "kr_accepted r = kr_delivered r @ kq_contents (kr_queue r)
    \<and> length (kq_contents (kr_queue r)) \<le> 255
    \<and> (enqueue_key b (kr_queue r) = kr_queue r \<longleftrightarrow> length (kq_contents (kr_queue r)) = 255)"
  using run_ok_reachable [OF assms] kq_length_less [of "kr_queue r"] enqueue_unchanged [of "kr_queue r" b]
  by (auto simp: run_ok_def QUEUE_CAPACITY_def)

theorem key_queue_interleaved_witness:
  "\<exists>r. key_step\<^sup>*\<^sup>* key_start r \<and> kr_accepted r = kr_delivered r @ kq_contents (kr_queue r) \<and> kr_accepted r = [0x61]"
proof -
  let ?q = "enqueue_key 0x61 KeyQueue_new"
  have "?q \<noteq> KeyQueue_new"
    using enqueue_unchanged [OF kq_new(1), of "0x61"] by (simp add: kq_length_def KeyQueue_new_def QUEUE_CAPACITY_def)
  then have "key_step\<^sup>*\<^sup>* key_start (key_start\<lparr>kr_queue := ?q, kr_accepted := [0x61]\<rparr>)"
    using key_step.interrupt [of ?q "0x61" key_start] by (intro r_into_rtranclp) (simp add: key_start_def)
  from conjunct1 [OF key_queue_interleaved [OF this]] this show ?thesis by (intro exI) auto
qed

end
