(* ===== verification/Interrupts.thy ===== *)
theory Interrupts
  imports Sample_User Keyboard Key_Queue
begin

unbundle bit_operations_syntax

text \<open>
  The interrupt and exception handlers of \<open>arch/interrupts.rs\<close> and the interrupt controller of
  \<open>drivers/pic8259.rs\<close>. A handler acts on the machine: the kernel of the task operations, the
  decoder behind the lock \<open>KEYBOARD\<close>, the shell's key queue and the port writes to the controller.
  The outcome of a handler says whether it returns to the interrupted code, never returns because
  another task runs, waits for a lock that is held, halts or panics.
\<close>

section \<open>The interrupt controller\<close>

definition MASTER_COMMAND_PORT :: nat where "MASTER_COMMAND_PORT = 0x20"
definition MASTER_DATA_PORT :: nat where "MASTER_DATA_PORT = 0x21"
definition SLAVE_COMMAND_PORT :: nat where "SLAVE_COMMAND_PORT = 0xA0"
definition SLAVE_DATA_PORT :: nat where "SLAVE_DATA_PORT = 0xA1"
definition IO_WAIT_PORT :: nat where "IO_WAIT_PORT = 0x80"
definition ICW1_INITIALIZE :: byte where "ICW1_INITIALIZE = 0x10"
definition ICW1_EXPECT_ICW4 :: byte where "ICW1_EXPECT_ICW4 = 0x01"
definition ICW4_8086_MODE :: byte where "ICW4_8086_MODE = 0x01"
definition EOI :: byte where "EOI = 0x20"
definition SLAVE_IRQ_BASE :: byte where "SLAVE_IRQ_BASE = 8"
definition IRQ_COUNT :: byte where "IRQ_COUNT = 16"

record Pic8259 =
  pic_master_command :: nat
  pic_master_data :: nat
  pic_slave_command :: nat
  pic_slave_data :: nat
  pic_master_offset :: byte
  pic_slave_offset :: byte

definition Pic8259_new :: "byte \<Rightarrow> byte \<Rightarrow> Pic8259" where
  "Pic8259_new master_offset slave_offset = \<lparr>pic_master_command = MASTER_COMMAND_PORT,
    pic_master_data = MASTER_DATA_PORT, pic_slave_command = SLAVE_COMMAND_PORT,
    pic_slave_data = SLAVE_DATA_PORT, pic_master_offset = master_offset, pic_slave_offset = slave_offset\<rparr>"

text \<open>A port write is a pair of a port and a byte; \<open>io_wait\<close> is one too.\<close>

definition io_wait :: "(nat \<times> byte) list" where
  "io_wait = [(IO_WAIT_PORT, 0)]"

definition pic_initialize :: "Pic8259 \<Rightarrow> (nat \<times> byte) list" where
  "pic_initialize pic =
    [(pic_master_command pic, ICW1_INITIALIZE OR ICW1_EXPECT_ICW4)] @ io_wait
    @ [(pic_slave_command pic, ICW1_INITIALIZE OR ICW1_EXPECT_ICW4)] @ io_wait
    @ [(pic_master_data pic, pic_master_offset pic)] @ io_wait
    @ [(pic_slave_data pic, pic_slave_offset pic)] @ io_wait
    @ [(pic_master_data pic, push_bit 2 1)] @ io_wait
    @ [(pic_slave_data pic, 2)] @ io_wait
    @ [(pic_master_data pic, ICW4_8086_MODE)] @ io_wait
    @ [(pic_slave_data pic, ICW4_8086_MODE)] @ io_wait
    @ [(pic_master_data pic, 0xFC)] @ io_wait
    @ [(pic_slave_data pic, 0xFF)] @ io_wait"

text \<open>\<open>None\<close> is the failing assertion on the line number.\<close>

definition signal_eoi :: "byte \<Rightarrow> Pic8259 \<Rightarrow> (nat \<times> byte) list option" where
  "signal_eoi interrupt_id pic =
    (if \<not> interrupt_id < IRQ_COUNT then None
     else Some ((if SLAVE_IRQ_BASE \<le> interrupt_id then [(pic_slave_command pic, EOI)] @ io_wait else [])
       @ [(pic_master_command pic, EOI)] @ io_wait))"

section \<open>The machine\<close>

definition PIC_1_OFFSET :: byte where "PIC_1_OFFSET = 32"
definition PIC_2_OFFSET :: byte where "PIC_2_OFFSET = PIC_1_OFFSET + 8"

datatype InterruptIndex = TimerIrq | KeyboardIrq

definition InterruptIndex_as_u8 :: "InterruptIndex \<Rightarrow> byte" where
  "InterruptIndex_as_u8 i = (case i of TimerIrq \<Rightarrow> PIC_1_OFFSET | KeyboardIrq \<Rightarrow> PIC_1_OFFSET + 1)"

definition PICS :: Pic8259 where
  "PICS = Pic8259_new PIC_1_OFFSET PIC_2_OFFSET"

record ('d, 'pt) Machine =
  m_kernel :: "('d, 'pt) Kernel"
  m_keyboard :: Keyboard
  m_keyboard_locked :: bool
  m_keys :: KeyQueue
  m_ports :: "(nat \<times> byte) list"

datatype 'm Outcome =
    Returned 'm
  | Diverted 'm
  | Spins
  | Halts
  | Panics

definition interrupted_from_user :: "16 word \<Rightarrow> bool" where
  "interrupted_from_user code_segment \<longleftrightarrow> code_segment AND 3 = 3"

text \<open>The end of an interrupt is signalled to the controller before or after the rest of a handler;
  \<open>k\<close> is what follows.\<close>

definition with_eoi :: "InterruptIndex \<Rightarrow> ('d, 'pt) Machine \<Rightarrow> (('d, 'pt) Machine \<Rightarrow> ('d, 'pt) Machine Outcome)
    \<Rightarrow> ('d, 'pt) Machine Outcome" where
  "with_eoi i m k = (case signal_eoi (InterruptIndex_as_u8 i - PIC_1_OFFSET) PICS of
      None \<Rightarrow> Panics
    | Some writes \<Rightarrow> k (m\<lparr>m_ports := m_ports m @ writes\<rparr>))"

definition diverted :: "('d, 'pt) Kernel option \<Rightarrow> ('d, 'pt) Machine \<Rightarrow> ('d, 'pt) Machine Outcome" where
  "diverted r m = (case r of None \<Rightarrow> Panics | Some k \<Rightarrow> Diverted (m\<lparr>m_kernel := k\<rparr>))"

section \<open>Exceptions and the timer\<close>

definition breakpoint_handler :: "16 word \<Rightarrow> ('d, 'pt) Machine \<Rightarrow> ('d, 'pt) Machine Outcome" where
  "breakpoint_handler code_segment m =
    (if interrupted_from_user code_segment then diverted (exit_current (m_kernel m)) m else Returned m)"

definition double_fault_handler :: "16 word \<Rightarrow> ('d, 'pt) Machine \<Rightarrow> ('d, 'pt) Machine Outcome" where
  "double_fault_handler code_segment m =
    (if interrupted_from_user code_segment then diverted (exit_current (m_kernel m)) m else Panics)"

definition page_fault_handler :: "16 word \<Rightarrow> ('d, 'pt) Machine \<Rightarrow> ('d, 'pt) Machine Outcome" where
  "page_fault_handler code_segment m =
    (if interrupted_from_user code_segment then diverted (exit_current (m_kernel m)) m else Halts)"

text \<open>The preemption at the end may leave another task running; the interrupted code continues when
  it is switched back.\<close>

definition timer_interrupt_handler :: "('d, 'pt) Machine \<Rightarrow> ('d, 'pt) Machine Outcome" where
  "timer_interrupt_handler m =
    with_eoi TimerIrq (m\<lparr>m_kernel := on_interrupt (m_kernel m)\<rparr>) (\<lambda>m1.
      case preempt_from_timer (m_kernel m1) of
        None \<Rightarrow> Panics
      | Some k \<Rightarrow> Returned (m1\<lparr>m_kernel := k\<rparr>))"

section \<open>The keyboard\<close>

definition accepted_byte :: "byte \<Rightarrow> bool" where
  "accepted_byte b \<longleftrightarrow> b \<in> {0x0A, 0x09, 0x08, 0x03, 0x11, 0x13, 0x1B} \<or> 0x20 \<le> b \<and> b \<le> 0x7E"

definition special_key :: "KeyCode \<Rightarrow> byte option" where
  "special_key code = (case code of
      ArrowLeft \<Rightarrow> Some 0x80
    | ArrowRight \<Rightarrow> Some 0x81
    | ArrowUp \<Rightarrow> Some 0x82
    | ArrowDown \<Rightarrow> Some 0x83
    | Home \<Rightarrow> Some 0x84
    | End \<Rightarrow> Some 0x85
    | Delete \<Rightarrow> Some 0x86
    | PageUp \<Rightarrow> Some 0x87
    | PageDown \<Rightarrow> Some 0x88
    | _ \<Rightarrow> None)"

text \<open>\<open>drivers::input::enqueue\<close>.\<close>

definition input_enqueue :: "byte \<Rightarrow> ('d, 'pt) Kernel \<Rightarrow> ('d, 'pt) Kernel" where
  "input_enqueue b k = k\<lparr>k_world := (k_world k)\<lparr>w_input := InputBuffer_push b (w_input (k_world k))\<rparr>\<rparr>"

definition to_shell :: "byte \<Rightarrow> ('d, 'pt) Machine \<Rightarrow> ('d, 'pt) Machine" where
  "to_shell b m = m\<lparr>m_keys := enqueue_key b (m_keys m)\<rparr>"

text \<open>The guard of \<open>KEYBOARD\<close> is taken when the scan code has been read and released when the handler
  returns; the group exit in the middle does not return, so on that path it is not released.\<close>

definition keyboard_interrupt_handler :: "byte \<Rightarrow> ('d, 'pt) Machine \<Rightarrow> ('d, 'pt) Machine Outcome" where
  "keyboard_interrupt_handler scancode m =
    (let user_task_running = current_task_is_user (m_kernel m);
         finish = (\<lambda>m. with_eoi KeyboardIrq m (\<lambda>m. Returned (m\<lparr>m_keyboard_locked := False\<rparr>)))
     in if m_keyboard_locked m then Spins
        else
          let (event, keyboard) = process_scancode scancode (m_keyboard m);
              m1 = m\<lparr>m_keyboard_locked := True, m_keyboard := keyboard\<rparr>
          in case event of
               None \<Rightarrow> finish m1
             | Some e \<Rightarrow>
                 if ke_state e \<noteq> Pressed then finish m1
                 else case ke_ascii e of
                   Some b \<Rightarrow>
                     if \<not> accepted_byte b then finish m1
                     else if user_task_running \<and> b = 0x03 then
                       with_eoi KeyboardIrq m1 (\<lambda>m2. diverted (exit_current_group_with_code 130 (m_kernel m2)) m2)
                     else if user_task_running then
                       finish (m1\<lparr>m_kernel := wake_all_blocked_tasks (input_enqueue b (m_kernel m1))\<rparr>)
                     else finish (to_shell b m1)
                 | None \<Rightarrow>
                     (case special_key (ke_code e) of
                        None \<Rightarrow> finish m1
                      | Some key \<Rightarrow>
                          if user_task_running then finish (m1\<lparr>m_kernel := input_enqueue key (m_kernel m1)\<rparr>)
                          else finish (to_shell key m1)))"

section \<open>Where a key goes\<close>

text \<open>The byte a scan code stands for, if it stands for one: the translated character when it is one
  of the accepted ones, or the code of an editing key.\<close>

definition key_byte :: "byte \<Rightarrow> Keyboard \<Rightarrow> byte option" where
  "key_byte scancode kb = Option.bind (fst (process_scancode scancode kb)) (\<lambda>e.
    if ke_state e \<noteq> Pressed then None
    else case ke_ascii e of
      Some b \<Rightarrow> if accepted_byte b then Some b else None
    | None \<Rightarrow> special_key (ke_code e))"

definition is_interrupt_key :: "byte \<Rightarrow> ('d, 'pt) Machine \<Rightarrow> bool" where
  "is_interrupt_key scancode m \<longleftrightarrow> current_task_is_user (m_kernel m) \<and> key_byte scancode (m_keyboard m) = Some 0x03"

definition keyboard_eoi :: "(nat \<times> byte) list" where
  "keyboard_eoi = [(0x20, 0x20), (0x80, 0)]"

lemma with_eoi_keyboard: "with_eoi KeyboardIrq m k = k (m\<lparr>m_ports := m_ports m @ keyboard_eoi\<rparr>)"
  by (simp add: with_eoi_def signal_eoi_def InterruptIndex_as_u8_def PIC_1_OFFSET_def IRQ_COUNT_def SLAVE_IRQ_BASE_def
      PICS_def Pic8259_new_def MASTER_COMMAND_PORT_def EOI_def io_wait_def IO_WAIT_PORT_def keyboard_eoi_def word_le_nat_alt)

lemma special_key_high: "special_key code = Some b \<Longrightarrow> 0x80 \<le> b"
  by (cases code) (auto simp: special_key_def)

lemma key_byte_ascii:
  assumes "process_scancode scancode kb = (Some e, kb')" "key_byte scancode kb = Some b"
  shows "b < 0x80 \<longleftrightarrow> ke_ascii e = Some b"
  using assms process_scancode_ascii [OF assms(1)] special_key_high [of "ke_code e" b]
  by (auto simp: key_byte_def split: if_split_asm option.split_asm)

text \<open>A machine whose keyboard lock is free; the handler in terms of the byte of the key.\<close>

lemma keyboard_handler_free:
  assumes free: "\<not> m_keyboard_locked m" and no: "\<not> is_interrupt_key scancode m"
  shows "keyboard_interrupt_handler scancode m = Returned (m\<lparr>m_keyboard := snd (process_scancode scancode (m_keyboard m)),
    m_kernel := (case key_byte scancode (m_keyboard m) of
        Some b \<Rightarrow> if current_task_is_user (m_kernel m)
          then (if b < 0x80 then wake_all_blocked_tasks else id) (input_enqueue b (m_kernel m)) else m_kernel m
      | None \<Rightarrow> m_kernel m),
    m_keys := (case key_byte scancode (m_keyboard m) of
        Some b \<Rightarrow> if current_task_is_user (m_kernel m) then m_keys m else enqueue_key b (m_keys m)
      | None \<Rightarrow> m_keys m),
    m_ports := m_ports m @ keyboard_eoi\<rparr>)"
proof -
  obtain event kb where p: "process_scancode scancode (m_keyboard m) = (event, kb)" by fastforce
  show ?thesis
  proof (cases "key_byte scancode (m_keyboard m)")
    case None
    then show ?thesis
      using free p by (cases event) (auto simp: keyboard_interrupt_handler_def key_byte_def with_eoi_keyboard
          Let_def split: option.split if_split_asm)
  next
    case (Some b)
    then obtain e where e: "event = Some e" "ke_state e = Pressed" using p by (cases event) (auto simp: key_byte_def split: if_split_asm)
    note a = key_byte_ascii [OF p [unfolded e] Some]
    show ?thesis
      using free no Some p e a
      by (auto simp: keyboard_interrupt_handler_def is_interrupt_key_def key_byte_def with_eoi_keyboard to_shell_def
          split: option.splits if_splits)
  qed
qed

lemma keyboard_handler_interrupt:
  assumes free: "\<not> m_keyboard_locked m" and key: "is_interrupt_key scancode m"
  shows "keyboard_interrupt_handler scancode m =
    diverted (exit_current_group_with_code 130 (m_kernel m))
      (m\<lparr>m_keyboard_locked := True, m_keyboard := snd (process_scancode scancode (m_keyboard m)),
         m_ports := m_ports m @ keyboard_eoi\<rparr>)"
proof -
  obtain event kb where p: "process_scancode scancode (m_keyboard m) = (event, kb)" by fastforce
  have s: "key_byte scancode (m_keyboard m) = Some 0x03" using key by (simp add: is_interrupt_key_def)
  then obtain e where e: "event = Some e" "ke_state e = Pressed" using p by (cases event) (auto simp: key_byte_def split: if_split_asm)
  note a = key_byte_ascii [OF p [unfolded e] s]
  show ?thesis
    using free key p e a
    by (simp add: keyboard_interrupt_handler_def is_interrupt_key_def with_eoi_keyboard accepted_byte_def)
qed

lemma user_not_idle:
  assumes "kernel_ok k" "current_task_is_user k"
  shows "\<exists>c. s_current (k_sched k) = Some c" "\<not> idle_runs k"
proof -
  obtain c where c: "s_current (k_sched k) = Some c"
    using assms(2) by (cases "s_current (k_sched k)") (auto simp: current_task_is_user_def running_task_def)
  then show "\<exists>c. s_current (k_sched k) = Some c" by blast
  obtain t where t: "running_task k = Some t" "t_user t \<noteq> None"
    using assms(2) by (auto simp: current_task_is_user_def split: option.split_asm)
  have "t_is_idle t \<longrightarrow> t_user t = None"
    using sched_okD(8) [OF kernel_okD(1) [OF assms(1)] sched_okD(4) [OF kernel_okD(1) [OF assms(1)] c], of t] t(1) c
    by (auto simp: task_ok_def running_task_def)
  then show "\<not> idle_runs k" using t by (auto simp: idle_runs_def)
qed

text \<open>The other handlers are steps of the kernel: the timer preempts, a fault in user mode ends the
  faulting task alone.\<close>

lemma timer_handler_step:
  assumes "kernel_ok (m_kernel m)" "s_current (k_sched (m_kernel m)) = Some c"
  shows "\<exists>m'. timer_interrupt_handler m = Returned m' \<and> kstep T D Timer (m_kernel m) (m_kernel m')"
proof -
  have o: "kernel_ok (on_interrupt (m_kernel m))" "s_current (k_sched (on_interrupt (m_kernel m))) = Some c"
    using assms kernel_ok_ticks by (simp_all add: on_interrupt_def)
  obtain k where k: "preempt_from_timer (on_interrupt (m_kernel m)) = Some k" using preempt_step [OF o] by blast
  have "\<exists>w. signal_eoi (InterruptIndex_as_u8 TimerIrq - PIC_1_OFFSET) PICS = Some w"
    by (simp add: signal_eoi_def InterruptIndex_as_u8_def IRQ_COUNT_def)
  then obtain w where w: "signal_eoi (InterruptIndex_as_u8 TimerIrq - PIC_1_OFFSET) PICS = Some w" by blast
  show ?thesis
    using kstep.timer [OF k] by (simp add: timer_interrupt_handler_def with_eoi_def w k)
qed

lemma user_fault_step:
  assumes "kernel_ok (m_kernel m)" "current_task_is_user (m_kernel m)" "interrupted_from_user cs"
    and "h \<in> {breakpoint_handler, double_fault_handler, page_fault_handler}"
  shows "\<exists>m'. h cs m = Diverted m' \<and> kstep T D (Exit None False) (m_kernel m) (m_kernel m')"
proof -
  obtain c where c: "s_current (k_sched (m_kernel m)) = Some c" using user_not_idle(1) [OF assms(1,2)] by blast
  obtain k where k: "exit_current (m_kernel m) = Some k"
    using exit_step [OF assms(1) c user_not_idle(2) [OF assms(1,2)]] unfolding exit_current_def by blast
  have "h cs m = Diverted (m\<lparr>m_kernel := k\<rparr>)"
    using assms(3,4) k by (auto simp: breakpoint_handler_def double_fault_handler_def page_fault_handler_def diverted_def)
  moreover have "kstep T D (Exit None False) (m_kernel m) k"
    by (rule kstep.exit [OF user_not_idle(2) [OF assms(1,2)]]) (use k in \<open>simp add: exit_current_def\<close>)
  ultimately show ?thesis by simp
qed

section \<open>Properties\<close>

text \<open>C31. Every key press reaches exactly one reader and the handler always finishes: with the
  keyboard lock free, and unless the interrupt character is typed while a user task runs, the handler
  returns with the lock free and one end-of-interrupt sent, the decoder has seen the scan code, and
  the byte of the key, if it has one, goes to the input queue of the user task when one runs and to
  the shell's queue otherwise. Codes of editing keys never collide with characters; a character wakes
  the blocked tasks, an editing key does not.\<close>

theorem keyboard_routes_keys:
  assumes "\<not> m_keyboard_locked m" and "\<not> is_interrupt_key scancode m"
  shows "\<exists>m'. keyboard_interrupt_handler scancode m = Returned m'
    \<and> \<not> m_keyboard_locked m' \<and> m_ports m' = m_ports m @ [(0x20, 0x20), (0x80, 0)]
    \<and> m_keyboard m' = snd (process_scancode scancode (m_keyboard m))
    \<and> (case key_byte scancode (m_keyboard m) of
        None \<Rightarrow> m_kernel m' = m_kernel m \<and> m_keys m' = m_keys m
      | Some b \<Rightarrow>
          (if current_task_is_user (m_kernel m)
           then m_keys m' = m_keys m
             \<and> w_input (k_world (m_kernel m')) = InputBuffer_push b (w_input (k_world (m_kernel m)))
             \<and> k_sched (m_kernel m') = (if b < 0x80 then wake_all_blocked (k_sched (m_kernel m)) else k_sched (m_kernel m))
           else m_kernel m' = m_kernel m \<and> m_keys m' = enqueue_key b (m_keys m)))"
  unfolding keyboard_handler_free [OF assms]
  using assms(1) by (auto simp: keyboard_eoi_def wake_all_blocked_tasks_def input_enqueue_def split: option.split)


definition sample_machine :: "(unit, nat \<rightharpoonup> nat) Machine" where
  "sample_machine = \<lparr>m_kernel = user_running, m_keyboard = Keyboard_new\<lparr>kb_left_ctrl := True\<rparr>,
    m_keyboard_locked = False, m_keys = KeyQueue_new, m_ports = []\<rparr>"

lemma sample_control_c: "key_byte 0x2E (Keyboard_new\<lparr>kb_left_ctrl := True\<rparr>) = Some 0x03"
  by code_simp

lemma sample_letter: "key_byte 0x1E (Keyboard_new\<lparr>kb_left_ctrl := True\<rparr>) = None"
  by code_simp

theorem keyboard_routes_keys_witness:
  "\<exists>m'. keyboard_interrupt_handler 0x1E sample_machine = Returned m' \<and> \<not> m_keyboard_locked m'"
  using keyboard_routes_keys [of sample_machine "0x1E"] sample_letter
  by (auto simp: sample_machine_def is_interrupt_key_def)


end
