(* ===== verification/Shell_Line.thy ===== *)
theory Shell_Line
  imports LeafOS_Prelude
begin

text \<open>
  The shell's command line of \<open>shell/mod.rs\<close>: \<open>LineEditor\<close>, a fixed buffer with a cursor, and
  \<open>CommandHistory\<close>, a ring of the last eight lines with the draft that browsing sets aside.
  An operation returns \<open>None\<close> where the code would panic on an index out of range. The line editor
  refines a pair of the text before and after the cursor, and the history a list of lines, newest
  first.
\<close>

section \<open>Slices of fixed buffers\<close>

text \<open>\<open>copy_within\<close> and \<open>buffer[..n].copy_from_slice(source)\<close>, where \<open>source\<close> has \<open>n\<close> bytes.\<close>

definition copy_within :: "nat \<Rightarrow> nat \<Rightarrow> nat \<Rightarrow> 'a list \<Rightarrow> 'a list option" where
  "copy_within start stop dest xs =
    (if stop < start \<or> length xs < stop \<or> length xs - (stop - start) < dest then None
     else Some (take dest xs @ take (stop - start) (drop start xs) @ drop (dest + (stop - start)) xs))"

definition copy_prefix :: "'a list \<Rightarrow> 'a list \<Rightarrow> 'a list option" where
  "copy_prefix source xs = (if length xs < length source then None else Some (source @ drop (length source) xs))"

section \<open>The line editor\<close>

definition LINE_CAPACITY :: nat where "LINE_CAPACITY = 256"

record LineEditor =
  le_bytes :: "byte list"
  le_length :: nat
  le_cursor :: nat

definition LineEditor_new :: LineEditor where
  "LineEditor_new = \<lparr>le_bytes = replicate LINE_CAPACITY 0, le_length = 0, le_cursor = 0\<rparr>"

definition le_as_bytes :: "LineEditor \<Rightarrow> byte list" where
  "le_as_bytes e = take (le_length e) (le_bytes e)"

definition le_replace :: "byte list \<Rightarrow> LineEditor \<Rightarrow> LineEditor option" where
  "le_replace bytes e =
    (let n = min (length bytes) LINE_CAPACITY
     in map_option (\<lambda>bs. e\<lparr>le_length := n, le_bytes := bs, le_cursor := n\<rparr>) (copy_prefix (take n bytes) (le_bytes e)))"

definition le_insert :: "byte \<Rightarrow> LineEditor \<Rightarrow> (bool \<times> LineEditor) option" where
  "le_insert b e =
    (if le_length e = LINE_CAPACITY then Some (False, e)
     else Option.bind (copy_within (le_cursor e) (le_length e) (le_cursor e + 1) (le_bytes e)) (\<lambda>bs.
       if length bs \<le> le_cursor e then None
       else Some (True, e\<lparr>le_bytes := bs[le_cursor e := b], le_cursor := le_cursor e + 1, le_length := le_length e + 1\<rparr>)))"

definition le_backspace :: "LineEditor \<Rightarrow> (bool \<times> LineEditor) option" where
  "le_backspace e =
    (if le_cursor e = 0 then Some (False, e)
     else let cursor = le_cursor e - 1
       in Option.bind (copy_within (cursor + 1) (le_length e) cursor (le_bytes e)) (\<lambda>bs.
            Some (True, e\<lparr>le_cursor := cursor, le_bytes := bs, le_length := le_length e - 1\<rparr>)))"

definition le_delete :: "LineEditor \<Rightarrow> (bool \<times> LineEditor) option" where
  "le_delete e =
    (if le_cursor e = le_length e then Some (False, e)
     else Option.bind (copy_within (le_cursor e + 1) (le_length e) (le_cursor e) (le_bytes e)) (\<lambda>bs.
       Some (True, e\<lparr>le_bytes := bs, le_length := le_length e - 1\<rparr>)))"

definition le_move_left :: "LineEditor \<Rightarrow> bool \<times> LineEditor" where
  "le_move_left e = (if le_cursor e = 0 then (False, e) else (True, e\<lparr>le_cursor := le_cursor e - 1\<rparr>))"

definition le_move_right :: "LineEditor \<Rightarrow> bool \<times> LineEditor" where
  "le_move_right e = (if le_cursor e = le_length e then (False, e) else (True, e\<lparr>le_cursor := le_cursor e + 1\<rparr>))"

definition le_clear :: "LineEditor \<Rightarrow> LineEditor" where
  "le_clear e = e\<lparr>le_length := 0, le_cursor := 0\<rparr>"

text \<open>What the editor shows: the text before and after the cursor.\<close>

definition le_invar :: "LineEditor \<Rightarrow> bool" where
  "le_invar e \<longleftrightarrow> length (le_bytes e) = LINE_CAPACITY \<and> le_length e \<le> LINE_CAPACITY \<and> le_cursor e \<le> le_length e"

definition le_view :: "LineEditor \<Rightarrow> byte list \<times> byte list" where
  "le_view e = (take (le_cursor e) (le_as_bytes e), drop (le_cursor e) (le_as_bytes e))"

text \<open>The views an operation may lead to.\<close>

definition le_shows :: "LineEditor \<Rightarrow> byte list \<Rightarrow> byte list \<Rightarrow> bool" where
  "le_shows e before after \<longleftrightarrow> le_invar e \<and> le_bytes e = before @ after @ drop (le_length e) (le_bytes e)
    \<and> le_cursor e = length before \<and> le_length e = length before + length after"

lemma le_shows_bytes:
  assumes "le_shows e before after"
  shows "le_as_bytes e = before @ after"
proof -
  obtain rest where "le_bytes e = before @ after @ rest" "le_length e = length before + length after"
    using assms by (auto simp: le_shows_def)
  then show ?thesis by (simp add: le_as_bytes_def)
qed

lemma le_shows_view: "le_shows e before after \<longleftrightarrow> le_invar e \<and> le_view e = (before, after)"
proof
  assume s: "le_shows e before after"
  then show "le_invar e \<and> le_view e = (before, after)"
    using le_shows_bytes [OF s] by (simp add: le_view_def le_shows_def)
next
  assume v: "le_invar e \<and> le_view e = (before, after)"
  then have "before @ after = le_as_bytes e" by (auto simp: le_view_def)
  then have "le_bytes e = before @ after @ drop (le_length e) (le_bytes e)"
    by (simp add: le_as_bytes_def flip: append_assoc)
  then show "le_shows e before after" using v by (auto simp: le_shows_def le_view_def le_as_bytes_def le_invar_def)
qed

lemma le_shows_new: "le_shows LineEditor_new [] []"
  by (simp add: le_shows_def le_invar_def LineEditor_new_def)

lemma le_showsD:
  assumes "le_shows e before after"
  shows "length (le_bytes e) = LINE_CAPACITY" "length before + length after \<le> LINE_CAPACITY"
    "le_as_bytes e = before @ after" "le_cursor e = length before" "le_length e = length before + length after"
  using assms le_shows_bytes [OF assms] by (auto simp: le_shows_def le_invar_def)

text \<open>Moving the tail of a buffer one place up or down.\<close>

lemma copy_up:
  "rest \<noteq> [] \<Longrightarrow> copy_within (length before) (length before + length after) (length before + 1) (before @ after @ rest)
    = Some (before @ hd (after @ rest) # after @ tl rest)"
  by (cases rest; cases after) (auto simp: copy_within_def)

lemma copy_down:
  "copy_within (length before + 1) (length before + 1 + length after) (length before) (before @ x # after @ rest)
    = Some (before @ after @ last (x # after) # rest)"
  by (cases after rule: rev_cases) (auto simp: copy_within_def)

lemma le_insert_shows:
  assumes "le_shows e before after" "length before + length after < LINE_CAPACITY"
  shows "\<exists>e'. le_insert b e = Some (True, e') \<and> le_shows e' (before @ [b]) after"
proof -
  note d = le_showsD [OF assms(1)]
  obtain rest where r: "le_bytes e = before @ after @ rest" using assms(1) by (auto simp: le_shows_def)
  have "rest \<noteq> []" using d(1) assms(2) r by auto
  then show ?thesis
    using assms d r copy_up [of rest before after]
    by (auto simp: le_insert_def le_shows_def le_invar_def list_update_append drop_Suc)
qed

lemma le_insert_full:
  "le_shows e before after \<Longrightarrow> length before + length after = LINE_CAPACITY \<Longrightarrow> le_insert b e = Some (False, e)"
  by (simp add: le_insert_def le_showsD)

lemma le_backspace_shows:
  assumes "le_shows e (before @ [x]) after"
  shows "\<exists>e'. le_backspace e = Some (True, e') \<and> le_shows e' before after"
proof -
  note d = le_showsD [OF assms]
  obtain rest where r: "le_bytes e = before @ x # after @ rest" using assms by (auto simp: le_shows_def)
  show ?thesis
    using assms d r copy_down [of before after x rest]
    by (auto simp: le_backspace_def le_shows_def le_invar_def Let_def)
qed

lemma le_delete_shows:
  assumes "le_shows e before (x # after)"
  shows "\<exists>e'. le_delete e = Some (True, e') \<and> le_shows e' before after"
proof -
  note d = le_showsD [OF assms]
  obtain rest where r: "le_bytes e = before @ x # after @ rest" using assms by (auto simp: le_shows_def)
  show ?thesis
    using assms d r copy_down [of before after x rest]
    by (auto simp: le_delete_def le_shows_def le_invar_def)
qed

lemma le_edges:
  assumes "le_shows e before after"
  shows "before = [] \<Longrightarrow> le_backspace e = Some (False, e)" "after = [] \<Longrightarrow> le_delete e = Some (False, e)"
    "before = [] \<Longrightarrow> le_move_left e = (False, e)" "after = [] \<Longrightarrow> le_move_right e = (False, e)"
  using le_showsD [OF assms]
  by (simp_all add: le_backspace_def le_delete_def le_move_left_def le_move_right_def)

lemma le_moves:
  "le_shows e (before @ [x]) after \<Longrightarrow> \<exists>e'. le_move_left e = (True, e') \<and> le_shows e' before (x # after)"
  "le_shows e before (x # after) \<Longrightarrow> \<exists>e'. le_move_right e = (True, e') \<and> le_shows e' (before @ [x]) after"
  by (auto simp: le_move_left_def le_move_right_def le_shows_def le_invar_def)

lemma le_clear_shows: "le_shows e before after \<Longrightarrow> le_shows (le_clear e) [] []"
  by (simp add: le_clear_def le_shows_def le_invar_def)

lemma le_replace_shows:
  assumes "le_shows e before after"
  shows "\<exists>e'. le_replace bytes e = Some e' \<and> le_shows e' (take LINE_CAPACITY bytes) []"
  using le_showsD [OF assms]
  by (auto simp: le_replace_def copy_prefix_def le_shows_def le_invar_def Let_def min_def)

text \<open>The operations together, and what they do to the text before and after the cursor.\<close>

datatype LineOp = InsertByte byte | BackspaceOp | DeleteOp | MoveLeft | MoveRight | ClearOp | ReplaceOp "byte list"

fun line_apply :: "LineOp \<Rightarrow> LineEditor \<Rightarrow> (bool \<times> LineEditor) option" where
  "line_apply (InsertByte b) e = le_insert b e"
| "line_apply BackspaceOp e = le_backspace e"
| "line_apply DeleteOp e = le_delete e"
| "line_apply MoveLeft e = Some (le_move_left e)"
| "line_apply MoveRight e = Some (le_move_right e)"
| "line_apply ClearOp e = Some (True, le_clear e)"
| "line_apply (ReplaceOp bytes) e = map_option (Pair True) (le_replace bytes e)"

fun line_spec :: "LineOp \<Rightarrow> byte list \<times> byte list \<Rightarrow> bool \<times> byte list \<times> byte list" where
  "line_spec (InsertByte b) (before, after) =
    (if length before + length after = LINE_CAPACITY then (False, before, after) else (True, before @ [b], after))"
| "line_spec BackspaceOp (before, after) = (if before = [] then (False, before, after) else (True, butlast before, after))"
| "line_spec DeleteOp (before, after) = (case after of [] \<Rightarrow> (False, before, []) | _ # rest \<Rightarrow> (True, before, rest))"
| "line_spec MoveLeft (before, after) =
    (if before = [] then (False, before, after) else (True, butlast before, last before # after))"
| "line_spec MoveRight (before, after) = (case after of [] \<Rightarrow> (False, before, []) | x # rest \<Rightarrow> (True, before @ [x], rest))"
| "line_spec ClearOp _ = (True, [], [])"
| "line_spec (ReplaceOp bytes) _ = (True, take LINE_CAPACITY bytes, [])"

lemma line_apply_shows:
  assumes "le_shows e before after"
  shows "\<exists>e'. line_apply op e = Some (fst (line_spec op (before, after)), e')
    \<and> le_shows e' (fst (snd (line_spec op (before, after)))) (snd (snd (line_spec op (before, after))))"
proof (cases op)
  case (InsertByte b)
  then show ?thesis
    using le_insert_shows [OF assms, of b] le_insert_full [OF assms, of b] le_showsD(2) [OF assms] assms
    by (cases "length before + length after = LINE_CAPACITY") auto
next
  case BackspaceOp
  then show ?thesis
    using le_edges(1) [OF assms] le_backspace_shows [of e "butlast before" "last before" after] assms
    by (cases before rule: rev_cases) auto
next
  case DeleteOp
  then show ?thesis
    using le_edges(2) [OF assms] le_delete_shows [of e before] assms by (cases after) auto
next
  case MoveLeft
  then show ?thesis
    using le_edges(3) [OF assms] le_moves(1) [of e "butlast before" "last before" after] assms
    by (cases before rule: rev_cases) auto
next
  case MoveRight
  then show ?thesis
    using le_edges(4) [OF assms] le_moves(2) [of e before] assms by (cases after) auto
next
  case ClearOp
  then show ?thesis using le_clear_shows [OF assms] by simp
next
  case (ReplaceOp bytes)
  then show ?thesis using le_replace_shows [OF assms, of bytes] by auto
qed

section \<open>The command history\<close>

definition HISTORY_CAPACITY :: nat where "HISTORY_CAPACITY = 8"

record CommandHistory =
  ch_entries :: "byte list list"
  ch_lengths :: "nat list"
  ch_next :: nat
  ch_count :: nat
  ch_browsing :: "nat option"
  ch_draft :: "byte list"
  ch_draft_len :: nat

definition CommandHistory_new :: CommandHistory where
  "CommandHistory_new = \<lparr>ch_entries = replicate HISTORY_CAPACITY (replicate LINE_CAPACITY 0),
    ch_lengths = replicate HISTORY_CAPACITY 0, ch_next = 0, ch_count = 0, ch_browsing = None,
    ch_draft = replicate LINE_CAPACITY 0, ch_draft_len = 0\<rparr>"

text \<open>\<open>&self.entries[index][..self.lengths[index]]\<close>.\<close>

definition ch_entry :: "CommandHistory \<Rightarrow> nat \<Rightarrow> byte list" where
  "ch_entry h index = take (ch_lengths h ! index) (ch_entries h ! index)"

definition ch_record :: "byte list \<Rightarrow> CommandHistory \<Rightarrow> CommandHistory option" where
  "ch_record line h =
    (if line = [] then Some (h\<lparr>ch_browsing := None\<rparr>)
     else if 0 < ch_count h
         \<and> ch_entry h ((ch_next h + HISTORY_CAPACITY - 1) mod HISTORY_CAPACITY) = line
       then Some (h\<lparr>ch_browsing := None\<rparr>)
     else map_option (\<lambda>entry. h\<lparr>ch_entries := (ch_entries h)[ch_next h := entry],
         ch_lengths := (ch_lengths h)[ch_next h := length line],
         ch_next := (ch_next h + 1) mod HISTORY_CAPACITY,
         ch_count := min (ch_count h + 1) HISTORY_CAPACITY, ch_browsing := None\<rparr>)
       (copy_prefix line (ch_entries h ! ch_next h)))"

definition ch_abandon_browsing :: "CommandHistory \<Rightarrow> CommandHistory" where
  "ch_abandon_browsing h = h\<lparr>ch_browsing := None\<rparr>"

definition ch_older :: "CommandHistory \<Rightarrow> LineEditor \<Rightarrow> (bool \<times> CommandHistory \<times> LineEditor) option" where
  "ch_older h editor =
    (if ch_count h = 0 then Some (False, h, editor)
     else Option.bind
       (case ch_browsing h of
          Some age \<Rightarrow> Some (min (age + 1) (ch_count h - 1), h)
        | None \<Rightarrow> map_option (\<lambda>draft. (0, h\<lparr>ch_draft_len := le_length editor, ch_draft := draft\<rparr>))
            (copy_prefix (le_as_bytes editor) (ch_draft h)))
       (\<lambda>(age, h1).
         let h2 = h1\<lparr>ch_browsing := Some age\<rparr>;
             index = (ch_next h + HISTORY_CAPACITY - 1 - age) mod HISTORY_CAPACITY
         in map_option (\<lambda>e. (True, h2, e)) (le_replace (ch_entry h2 index) editor)))"

definition ch_newer :: "CommandHistory \<Rightarrow> LineEditor \<Rightarrow> (bool \<times> CommandHistory \<times> LineEditor) option" where
  "ch_newer h editor = (case ch_browsing h of
      None \<Rightarrow> Some (False, h, editor)
    | Some age \<Rightarrow>
        if age = 0 then
          map_option (\<lambda>e. (True, h\<lparr>ch_browsing := None\<rparr>, e)) (le_replace (take (ch_draft_len h) (ch_draft h)) editor)
        else
          let h2 = h\<lparr>ch_browsing := Some (age - 1)\<rparr>;
              index = (ch_next h + HISTORY_CAPACITY - age) mod HISTORY_CAPACITY
          in map_option (\<lambda>e. (True, h2, e)) (le_replace (ch_entry h2 index) editor))"

text \<open>The lines of the history, newest first.\<close>

definition ch_invar :: "CommandHistory \<Rightarrow> bool" where
  "ch_invar h \<longleftrightarrow> length (ch_entries h) = HISTORY_CAPACITY \<and> length (ch_lengths h) = HISTORY_CAPACITY
    \<and> (\<forall>entry \<in> set (ch_entries h). length entry = LINE_CAPACITY) \<and> (\<forall>n \<in> set (ch_lengths h). n \<le> LINE_CAPACITY)
    \<and> ch_next h < HISTORY_CAPACITY \<and> ch_count h \<le> HISTORY_CAPACITY
    \<and> (\<forall>age. ch_browsing h = Some age \<longrightarrow> age < ch_count h)
    \<and> length (ch_draft h) = LINE_CAPACITY \<and> ch_draft_len h \<le> LINE_CAPACITY"

definition ch_lines :: "CommandHistory \<Rightarrow> byte list list" where
  "ch_lines h = map (\<lambda>age. ch_entry h ((ch_next h + HISTORY_CAPACITY - 1 - age) mod HISTORY_CAPACITY)) [0..<ch_count h]"

definition ch_draft_line :: "CommandHistory \<Rightarrow> byte list" where
  "ch_draft_line h = take (ch_draft_len h) (ch_draft h)"

lemma ch_new: "ch_invar CommandHistory_new" "ch_lines CommandHistory_new = []"
  by (simp_all add: ch_invar_def CommandHistory_new_def ch_lines_def HISTORY_CAPACITY_def)

lemma length_ch_lines [simp]: "length (ch_lines h) = ch_count h"
  by (simp add: ch_lines_def)

lemma ch_lines_nth: "age < ch_count h \<Longrightarrow>
    ch_lines h ! age = ch_entry h ((ch_next h + HISTORY_CAPACITY - 1 - age) mod HISTORY_CAPACITY)"
  by (simp add: ch_lines_def)

lemma ch_entry_length:
  assumes "ch_invar h" "i < HISTORY_CAPACITY"
  shows "length (ch_entry h i) \<le> LINE_CAPACITY"
proof -
  have "ch_entries h ! i \<in> set (ch_entries h)" using assms by (simp add: ch_invar_def)
  then show ?thesis using assms(1) by (auto simp: ch_entry_def ch_invar_def)
qed

lemma ch_lines_length:
  assumes "ch_invar h" "line \<in> set (ch_lines h)"
  shows "length line \<le> LINE_CAPACITY"
  using assms ch_entry_length by (auto simp: ch_lines_def HISTORY_CAPACITY_def)

text \<open>Recording: the new line comes first, and the oldest of nine is forgotten.\<close>

lemma ch_record_lines:
  assumes inv: "ch_invar h" and len: "length line \<le> LINE_CAPACITY"
  shows "\<exists>h'. ch_record line h = Some h' \<and> ch_invar h' \<and> ch_browsing h' = None
    \<and> ch_lines h' = (if line = [] \<or> ch_lines h \<noteq> [] \<and> hd (ch_lines h) = line then ch_lines h
        else take HISTORY_CAPACITY (line # ch_lines h))"
proof -
  have latest: "hd (ch_lines h) = ch_entry h ((ch_next h + HISTORY_CAPACITY - 1) mod HISTORY_CAPACITY)" if "0 < ch_count h"
    using that by (simp add: ch_lines_def upt_conv_Cons)
  have empty: "ch_lines h = [] \<longleftrightarrow> ch_count h = 0" by (simp flip: length_0_conv)
  have same: "ch_lines (h\<lparr>ch_browsing := b\<rparr>) = ch_lines h" for b by (simp add: ch_lines_def ch_entry_def)
  show ?thesis
  proof (cases "line = [] \<or> ch_lines h \<noteq> [] \<and> hd (ch_lines h) = line")
    case True
    then show ?thesis
      using inv latest empty by (auto simp: ch_record_def ch_invar_def same)
  next
    case False
    let ?n = "ch_next h"
    have n: "?n < HISTORY_CAPACITY" "length (ch_entries h ! ?n) = LINE_CAPACITY"
      using inv by (auto simp: ch_invar_def)
    define h' where "h' = h\<lparr>ch_entries := (ch_entries h)[?n := line @ drop (length line) (ch_entries h ! ?n)],
        ch_lengths := (ch_lengths h)[?n := length line], ch_next := (?n + 1) mod HISTORY_CAPACITY,
        ch_count := min (ch_count h + 1) HISTORY_CAPACITY, ch_browsing := None\<rparr>"
    have r: "ch_record line h = Some h'"
      using False latest empty len n by (auto simp: ch_record_def copy_prefix_def h'_def)
    have inv': "ch_invar h'"
      using inv len n by (auto simp: ch_invar_def h'_def HISTORY_CAPACITY_def dest!: set_update_subset_insert [THEN subsetD])
    have entry: "ch_entry h' i = (if i = ?n then line else ch_entry h i)" if "i < HISTORY_CAPACITY" for i
      using that inv by (auto simp: ch_entry_def h'_def ch_invar_def nth_list_update)
    have "ch_lines h' = take HISTORY_CAPACITY (line # ch_lines h)"
    proof (rule nth_equalityI)
      show "length (ch_lines h') = length (take HISTORY_CAPACITY (line # ch_lines h))" by (simp add: h'_def)
      fix age assume "age < length (ch_lines h')"
      then have a: "age < min (ch_count h + 1) HISTORY_CAPACITY" by (simp add: h'_def)
      show "ch_lines h' ! age = take HISTORY_CAPACITY (line # ch_lines h) ! age"
      proof (cases age)
        case 0
        have "((?n + 1) mod HISTORY_CAPACITY + HISTORY_CAPACITY - 1 - 0) mod HISTORY_CAPACITY = ?n"
          using n(1) by (auto simp: HISTORY_CAPACITY_def mod_if)
        then show ?thesis using a n(1) 0 by (simp add: ch_lines_nth entry h'_def [THEN arg_cong [of _ _ ch_next]]
              h'_def [THEN arg_cong [of _ _ ch_count]])
      next
        case (Suc k)
        have "((?n + 1) mod HISTORY_CAPACITY + HISTORY_CAPACITY - 1 - age) mod HISTORY_CAPACITY
            = (?n + HISTORY_CAPACITY - 1 - k) mod HISTORY_CAPACITY"
          "(?n + HISTORY_CAPACITY - 1 - k) mod HISTORY_CAPACITY \<noteq> ?n"
          using n(1) a Suc by (auto simp: HISTORY_CAPACITY_def mod_if)
        then show ?thesis using a Suc by (simp add: ch_lines_nth entry h'_def [THEN arg_cong [of _ _ ch_next]]
              h'_def [THEN arg_cong [of _ _ ch_count]] HISTORY_CAPACITY_def)
      qed
    qed
    then show ?thesis using r inv' False by (auto simp: h'_def)
  qed
qed

text \<open>Browsing: position 0 is the draft, position \<open>n + 1\<close> the line of age \<open>n\<close>.\<close>

definition browse_at :: "byte list \<Rightarrow> byte list list \<Rightarrow> nat \<Rightarrow> CommandHistory \<Rightarrow> LineEditor \<Rightarrow> bool" where
  "browse_at draft lines pos h e \<longleftrightarrow> ch_invar h \<and> ch_lines h = lines \<and> pos \<le> ch_count h
    \<and> ch_browsing h = (if pos = 0 then None else Some (pos - 1))
    \<and> (pos = 0 \<or> ch_draft_line h = draft) \<and> le_invar e \<and> le_as_bytes e = (draft # lines) ! pos"

lemma le_replace_fits:
  assumes "le_invar e" "length bytes \<le> LINE_CAPACITY"
  shows "\<exists>e'. le_replace bytes e = Some e' \<and> le_invar e' \<and> le_as_bytes e' = bytes"
proof -
  have "le_shows e (fst (le_view e)) (snd (le_view e))" using assms(1) by (simp add: le_shows_view)
  from le_replace_shows [OF this, of bytes] show ?thesis
    using assms(2) le_showsD(3) le_shows_view by fastforce
qed

lemma ch_entry_update [simp]: "ch_entry (h\<lparr>ch_browsing := b\<rparr>) = ch_entry h"
    "ch_entry (h\<lparr>ch_draft := d\<rparr>) = ch_entry h" "ch_entry (h\<lparr>ch_draft_len := n\<rparr>) = ch_entry h"
  by (auto simp: ch_entry_def)

lemma ch_lines_update [simp]: "ch_lines (h\<lparr>ch_browsing := b\<rparr>) = ch_lines h"
    "ch_lines (h\<lparr>ch_draft := d\<rparr>) = ch_lines h" "ch_lines (h\<lparr>ch_draft_len := n\<rparr>) = ch_lines h"
  by (auto simp: ch_lines_def)

lemma ch_lines_empty: "ch_lines h = [] \<longleftrightarrow> ch_count h = 0"
  by (simp flip: length_0_conv)

lemma ch_line_fits: "ch_invar h \<Longrightarrow> age < ch_count h \<Longrightarrow> length (ch_lines h ! age) \<le> LINE_CAPACITY"
  by (rule ch_lines_length [of h]) (simp_all flip: length_ch_lines)

lemma browse_older:
  assumes "browse_at draft lines pos h e"
  shows "\<exists>r h' e'. ch_older h e = Some (r, h', e') \<and> browse_at draft lines (min (pos + 1) (length lines)) h' e'"
proof (cases "ch_count h = 0")
  case True
  then show ?thesis using assms by (auto simp: ch_older_def browse_at_def ch_lines_empty)
next
  case False
  have inv: "ch_invar h" and e: "le_invar e" and lines: "ch_lines h = lines" "length lines = ch_count h"
    using assms by (auto simp: browse_at_def)
  define age where "age = min pos (ch_count h - 1)"
  have age: "age < ch_count h" using False by (auto simp: age_def)
  obtain e' where e': "le_replace (ch_lines h ! age) e = Some e'" "le_invar e'" "le_as_bytes e' = ch_lines h ! age"
    using le_replace_fits [OF e ch_line_fits [OF inv age]] by blast
  show ?thesis
  proof (cases "pos = 0")
    case True
    have len: "length (le_as_bytes e) = le_length e" "le_length e \<le> LINE_CAPACITY" "length (ch_draft h) = LINE_CAPACITY"
      using e inv by (auto simp: le_as_bytes_def le_invar_def ch_invar_def)
    show ?thesis
      using assms True False e' len age lines
      by (auto simp: ch_older_def browse_at_def copy_prefix_def ch_lines_nth age_def ch_invar_def ch_draft_line_def min_def)
  next
    case pos: False
    have a: "min (pos - 1 + 1) (ch_count h - 1) = age" using pos by (simp add: age_def)
    have p: "min (pos + 1) (length lines) = age + 1" using False assms by (auto simp: age_def browse_at_def)
    have o: "ch_older h e = Some (True, h\<lparr>ch_browsing := Some age\<rparr>, e')"
      using assms pos False e'(1) [unfolded ch_lines_nth [OF age]] a by (simp add: ch_older_def browse_at_def)
    show ?thesis
      unfolding o p using assms e' age inv lines pos by (auto simp: browse_at_def ch_invar_def ch_draft_line_def)
  qed
qed

lemma browse_newer:
  assumes "browse_at draft lines pos h e"
  shows "\<exists>r h' e'. ch_newer h e = Some (r, h', e') \<and> browse_at draft lines (pos - 1) h' e'"
proof -
  have inv: "ch_invar h" and e: "le_invar e" and lines: "ch_lines h = lines" "length lines = ch_count h"
    using assms by (auto simp: browse_at_def)
  consider "pos = 0" | "pos = 1" | age where "pos = Suc (Suc age)" by (metis One_nat_def not0_implies_Suc)
  then show ?thesis
  proof cases
    case 1
    then show ?thesis using assms by (auto simp: ch_newer_def browse_at_def)
  next
    case 2
    then have d: "ch_draft_line h = draft" "length draft \<le> LINE_CAPACITY"
      using assms inv by (auto simp: browse_at_def ch_draft_line_def ch_invar_def)
    from le_replace_fits [OF e d(2)] show ?thesis
      using assms 2 d(1) by (auto simp: ch_newer_def browse_at_def ch_draft_line_def ch_invar_def)
  next
    case 3
    then have age: "age < ch_count h" using assms by (simp add: browse_at_def)
    have i: "ch_next h + HISTORY_CAPACITY - Suc age = ch_next h + HISTORY_CAPACITY - 1 - age" by simp
    obtain e' where e': "le_replace (ch_lines h ! age) e = Some e'" "le_invar e'" "le_as_bytes e' = ch_lines h ! age"
      using le_replace_fits [OF e ch_line_fits [OF inv age]] by blast
    then have o: "ch_newer h e = Some (True, h\<lparr>ch_browsing := Some age\<rparr>, e')"
      using assms 3 by (simp add: ch_newer_def browse_at_def ch_lines_nth [OF age] i [simplified] Let_def)
    show ?thesis
      unfolding o using assms e' age inv lines 3 by (auto simp: browse_at_def ch_invar_def ch_draft_line_def)
  qed
qed

text \<open>Arrow keys: \<open>True\<close> is up, to the older line.\<close>

fun browse :: "bool list \<Rightarrow> CommandHistory \<Rightarrow> LineEditor \<Rightarrow> (CommandHistory \<times> LineEditor) option" where
  "browse [] h e = Some (h, e)"
| "browse (up # keys) h e = Option.bind (if up then ch_older h e else ch_newer h e) (\<lambda>(_, h1, e1). browse keys h1 e1)"

definition browse_move :: "nat \<Rightarrow> bool \<Rightarrow> nat \<Rightarrow> nat" where
  "browse_move count up pos = (if up then min (pos + 1) count else pos - 1)"

lemma browse_keys:
  assumes "browse_at draft lines pos h e"
  shows "\<exists>h' e'. browse keys h e = Some (h', e') \<and> browse_at draft lines (fold (browse_move (length lines)) keys pos) h' e'"
  using assms
proof (induction keys arbitrary: pos h e)
  case (Cons up keys)
  obtain r h1 e1 where "(if up then ch_older h e else ch_newer h e) = Some (r, h1, e1)"
      "browse_at draft lines (browse_move (length lines) up pos) h1 e1"
    using browse_older [OF Cons.prems] browse_newer [OF Cons.prems] by (cases up) (auto simp: browse_move_def)
  with Cons.IH [OF this(2)] show ?case by auto
qed auto

section \<open>Properties\<close>

text \<open>The line editor does to the text what its operations say, at every cursor position and
  with the buffer empty or full: it refines the text before and after the cursor, its result says
  whether anything changed, and no index is ever out of range.\<close>

theorem line_editor_refines:
  assumes "le_invar e"
  shows "\<exists>e'. line_apply op e = Some (fst (line_spec op (le_view e)), e')
    \<and> le_invar e' \<and> le_view e' = snd (line_spec op (le_view e))"
proof -
  have "le_shows e (fst (le_view e)) (snd (le_view e))" using assms by (simp add: le_shows_view)
  from line_apply_shows [OF this, of op] show ?thesis by (auto simp: le_shows_view)
qed

theorem line_editor_refines_witness:
  "\<exists>e'. line_apply (InsertByte 0x61) LineEditor_new = Some (True, e') \<and> le_view e' = ([0x61], [])"
proof -
  have "le_invar LineEditor_new" "le_view LineEditor_new = ([], [])"
    by (simp_all add: le_invar_def LineEditor_new_def le_view_def le_as_bytes_def)
  with line_editor_refines [OF this(1), of "InsertByte 0x61"] show ?thesis by (auto simp: LINE_CAPACITY_def)
qed

text \<open>Browsing the history loses nothing: after any sequence of up and down keys the editor shows
  the line at the position the keys lead to, position 0 being the line that was being typed, and the
  history is unchanged.\<close>

theorem history_browsing:
  assumes "ch_invar h" and "ch_browsing h = None" and "le_invar e"
  shows "\<exists>h' e'. browse keys h e = Some (h', e')
    \<and> le_as_bytes e' = (le_as_bytes e # ch_lines h) ! fold (browse_move (length (ch_lines h))) keys 0
    \<and> ch_lines h' = ch_lines h"
proof -
  have "browse_at (le_as_bytes e) (ch_lines h) 0 h e" using assms by (simp add: browse_at_def)
  from browse_keys [OF this, of keys] show ?thesis by (auto simp: browse_at_def)
qed

theorem history_browsing_witness:
  "\<exists>h h' e'. ch_record [0x6C, 0x73] CommandHistory_new = Some h
    \<and> browse [True, True, False] h LineEditor_new = Some (h', e') \<and> le_as_bytes e' = []"
proof -
  obtain h where h: "ch_record [0x6C, 0x73] CommandHistory_new = Some h" "ch_invar h" "ch_browsing h = None"
      "ch_lines h = [[0x6C, 0x73]]"
    using ch_record_lines [OF ch_new(1), of "[0x6C, 0x73]"] ch_new(2)
    by (auto simp: LINE_CAPACITY_def HISTORY_CAPACITY_def)
  have "le_invar LineEditor_new" "le_as_bytes LineEditor_new = []"
    by (simp_all add: le_invar_def LineEditor_new_def le_as_bytes_def)
  with history_browsing [OF h(2,3) this(1), of "[True, True, False]"] h show ?thesis
    by (auto simp: browse_move_def)
qed

end
