(* ===== verification/Shell_Parse.thy ===== *)
theory Shell_Parse
  imports Byte_Strings
begin

text \<open>
  The language of the shell of \<open>shell/mod.rs\<close>: the commands and their parser, numbers, colours and
  resolutions, quoted words, redirections and pipelines, and the resolution of paths against the
  working directory. The loop over the redirections of a command is a partial function, whose
  termination is a theorem. A path is the filled part of the output buffer of \<open>resolve_path\<close>.
\<close>

section \<open>Words\<close>

definition is_ascii_whitespace :: "byte \<Rightarrow> bool" where
  "is_ascii_whitespace b \<longleftrightarrow> b \<in> {0x20, 0x09, 0x0A, 0x0D}"

definition to_ascii_lowercase :: "byte \<Rightarrow> byte" where
  "to_ascii_lowercase b = (if 0x41 \<le> b \<and> b \<le> 0x5A then b + 0x20 else b)"

definition eq_ignore_ascii_case :: "byte list \<Rightarrow> byte list \<Rightarrow> bool" where
  "eq_ignore_ascii_case xs ys \<longleftrightarrow> map to_ascii_lowercase xs = map to_ascii_lowercase ys"

definition trim_spaces :: "byte list \<Rightarrow> byte list" where
  "trim_spaces v = rev (dropWhile is_ascii_whitespace (rev (dropWhile is_ascii_whitespace v)))"

definition split_first_word :: "byte list \<Rightarrow> byte list \<times> byte list" where
  "split_first_word v =
    (let plain =
       (let separator = (case position is_ascii_whitespace v of Some i \<Rightarrow> i | None \<Rightarrow> length v)
        in (take separator v, if separator < length v then trim_spaces (drop separator v) else []))
     in case v of
          [] \<Rightarrow> plain
        | quote # _ \<Rightarrow>
            if quote = 0x27 \<or> quote = 0x22 then
              (case position (\<lambda>b. b = quote) (drop 1 v) of
                 Some i \<Rightarrow> let stop = i + 1
                   in (slice v 1 stop, if stop < length v then trim_spaces (drop (stop + 1) v) else [])
               | None \<Rightarrow> plain)
            else plain)"

definition strip_command_arguments :: "byte list \<Rightarrow> byte list \<Rightarrow> byte list option" where
  "strip_command_arguments input command =
    (if length input < length command then None
     else let remainder = drop (length command) input
       in if \<not> eq_ignore_ascii_case (take (length command) input) command
             \<or> \<not> (case remainder of [] \<Rightarrow> False | b # _ \<Rightarrow> is_ascii_whitespace b) then None
          else Some (trim_spaces remainder))"

section \<open>Numbers, colours, resolutions\<close>

definition number_step :: "byte \<Rightarrow> nat \<Rightarrow> nat option" where
  "number_step b n = (if \<not> is_ascii_digit b then None
    else Option.bind (checked_mul n 10) (\<lambda>m. checked_add m (unat (b - 0x30))))"

fun try_number :: "byte list \<Rightarrow> nat \<Rightarrow> nat option" where
  "try_number [] n = Some n"
| "try_number (b # bs) n = Option.bind (number_step b n) (try_number bs)"

definition parse_sleep_seconds :: "byte list \<Rightarrow> nat option" where
  "parse_sleep_seconds v = (if v = [] then None else try_number v 0)"

definition parse_task_id :: "byte list \<Rightarrow> nat option" where
  "parse_task_id v = (if v = [] then None else try_number v 0)"

definition hex_digit :: "byte \<Rightarrow> byte option" where
  "hex_digit b =
    (if 0x30 \<le> b \<and> b \<le> 0x39 then Some (b - 0x30)
     else if 0x61 \<le> b \<and> b \<le> 0x66 then Some (b - 0x61 + 10)
     else if 0x41 \<le> b \<and> b \<le> 0x46 then Some (b - 0x41 + 10)
     else None)"

definition color_component :: "byte list \<Rightarrow> nat \<Rightarrow> byte option" where
  "color_component v index =
    Option.bind (hex_digit (v ! (1 + index * 2))) (\<lambda>high.
    Option.bind (hex_digit (v ! (2 + index * 2))) (\<lambda>low. Some (high * 16 + low)))"

definition parse_color :: "byte list \<Rightarrow> (byte \<times> byte \<times> byte) option" where
  "parse_color v =
    (if v = ascii ''default'' \<or> v = ascii ''green'' then Some (0, 255, 0)
     else if v = ascii ''white'' then Some (255, 255, 255)
     else if v = ascii ''red'' then Some (255, 64, 64)
     else if v = ascii ''yellow'' then Some (255, 255, 0)
     else if v = ascii ''cyan'' then Some (0, 255, 255)
     else if length v = 7 \<and> v ! 0 = 0x23 then
       Option.bind (color_component v 0) (\<lambda>r. Option.bind (color_component v 1) (\<lambda>g.
       Option.bind (color_component v 2) (\<lambda>b. Some (r, g, b))))
     else None)"

definition valid_resolution :: "byte list \<Rightarrow> bool" where
  "valid_resolution v = (case position (\<lambda>b. b = 0x3A) v of
      None \<Rightarrow> False
    | Some separator \<Rightarrow>
        let width = take separator v; height = drop 1 (drop separator v)
        in width \<noteq> [] \<and> height \<noteq> [] \<and> list_all is_ascii_digit width \<and> list_all is_ascii_digit height
          \<and> list_ex (\<lambda>digit. digit \<noteq> 0x30) width \<and> list_ex (\<lambda>digit. digit \<noteq> 0x30) height)"

section \<open>Commands\<close>

datatype Command =
    Help
  | Clear
  | Echo "byte list"
  | Memory
  | Uptime
  | SleepCmd "byte list"
  | ListFiles "byte list"
  | Cat "byte list"
  | DiskList "byte list"
  | DiskCat "byte list"
  | DiskWrite "byte list" "byte list"
  | MakeDirectory "byte list"
  | RemoveFile "byte list"
  | RemoveDirectory "byte list"
  | Edit "byte list"
  | RunCmd "byte list"
  | DiskRun "byte list"
  | ChangeDirectory "byte list"
  | PrintWorkingDirectory
  | Settings
  | SetColor "byte list"
  | SetResolution "byte list"
  | Info
  | InfoOs
  | InfoHardware
  | InfoSoftware
  | Processes
  | KillCmd "byte list"
  | Shutdown
  | UnknownCommand
  | EmptyCommand

definition disk_write_command :: "byte list \<Rightarrow> Command option" where
  "disk_write_command arguments = (case position is_ascii_whitespace arguments of
      Some separator \<Rightarrow>
        let name = trim_spaces (take separator arguments);
            contents = trim_spaces (drop (separator + 1) arguments)
        in if name \<noteq> [] then Some (DiskWrite name contents) else None
    | None \<Rightarrow> if arguments \<noteq> [] then Some (DiskWrite arguments []) else None)"

definition set_command :: "byte list \<Rightarrow> Command" where
  "set_command v = (case split_first_word v of (target, payload) \<Rightarrow>
    if eq_ignore_ascii_case target (ascii ''col'') then SetColor (trim_spaces payload)
    else if eq_ignore_ascii_case target (ascii ''res'') then SetResolution (trim_spaces payload)
    else Settings)"

definition info_command :: "byte list \<Rightarrow> Command option" where
  "info_command v = (case split_first_word v of (target, _) \<Rightarrow>
    if eq_ignore_ascii_case target (ascii ''-os'') then Some InfoOs
    else if eq_ignore_ascii_case target (ascii ''-hw'') then Some InfoHardware
    else if eq_ignore_ascii_case target (ascii ''-sw'') then Some InfoSoftware
    else None)"

definition edit_command :: "byte list \<Rightarrow> Command option" where
  "edit_command name = (if name \<noteq> [] then Some (Edit name) else None)"

text \<open>The tests of \<open>parse_command\<close> in their order; each either returns a command or falls through to
  the next.\<close>

definition when_word :: "byte list \<Rightarrow> string list \<Rightarrow> Command \<Rightarrow> Command option" where
  "when_word line names command =
    (if list_ex (\<lambda>name. eq_ignore_ascii_case line (ascii name)) names then Some command else None)"

definition when_arguments :: "byte list \<Rightarrow> string \<Rightarrow> (byte list \<Rightarrow> Command option) \<Rightarrow> Command option" where
  "when_arguments line name f = Option.bind (strip_command_arguments line (ascii name)) f"

fun first_command :: "Command option list \<Rightarrow> Command" where
  "first_command [] = UnknownCommand"
| "first_command (Some command # _) = command"
| "first_command (None # rest) = first_command rest"

definition parse_command :: "byte list \<Rightarrow> Command" where
  "parse_command input =
    (let line = trim_spaces input
     in if line = [] then EmptyCommand
        else first_command
         [when_word line [''help''] Help,
          when_word line [''shutdown'', ''sd''] Shutdown,
          when_word line [''clear'', ''cls'', ''clr''] Clear,
          when_word line [''mem''] Memory,
          when_word line [''uptime''] Uptime,
          when_word line [''sleep''] (SleepCmd []),
          when_arguments line ''sleep'' (Some \<circ> SleepCmd),
          when_word line [''ls'', ''dir''] (ListFiles []),
          when_arguments line ''ls'' (Some \<circ> ListFiles),
          when_arguments line ''dir'' (Some \<circ> ListFiles),
          when_arguments line ''cat'' (Some \<circ> Cat),
          when_word line [''diskls''] (DiskList []),
          when_arguments line ''diskls'' (Some \<circ> DiskList),
          when_arguments line ''diskcat'' (Some \<circ> DiskCat),
          when_arguments line ''diskwrite'' disk_write_command,
          when_arguments line ''mkdir'' (Some \<circ> MakeDirectory),
          when_arguments line ''rm'' (Some \<circ> RemoveFile),
          when_arguments line ''rmdir'' (Some \<circ> RemoveDirectory),
          when_arguments line ''edit'' edit_command,
          when_word line [''run''] (RunCmd []),
          when_arguments line ''run'' (Some \<circ> RunCmd),
          when_word line [''diskrun''] (DiskRun []),
          when_arguments line ''diskrun'' (Some \<circ> DiskRun),
          when_word line [''cd''] (ChangeDirectory []),
          when_arguments line ''cd'' (Some \<circ> ChangeDirectory),
          when_word line [''pwd''] PrintWorkingDirectory,
          when_word line [''info''] Info,
          when_word line [''ps'', ''processes''] Processes,
          when_word line [''kill''] (KillCmd []),
          when_arguments line ''kill'' (Some \<circ> KillCmd),
          when_word line [''set'', ''settings''] Settings,
          when_arguments line ''set'' (Some \<circ> set_command),
          when_arguments line ''info'' info_command,
          when_word line [''echo''] (Echo []),
          when_arguments line ''echo'' (Some \<circ> Echo)])"

section \<open>Redirections and pipelines\<close>

partial_function (option) redirections :: "byte list \<Rightarrow> byte list \<Rightarrow> byte list option \<Rightarrow> byte list option
    \<Rightarrow> (byte list \<times> byte list option \<times> byte list option \<times> bool) option" where
  [code]: "redirections command_part remainder input_path output_path = (case remainder of
      [] \<Rightarrow> Some (command_part, input_path, output_path, True)
    | operator # rest \<Rightarrow>
        if operator \<noteq> 0x3C \<and> operator \<noteq> 0x3E then Some (command_part, None, None, False)
        else case split_first_word (trim_spaces rest) of (path, extra) \<Rightarrow>
          if path = [] then Some (command_part, None, None, False)
          else if operator = 0x3C then
            if input_path \<noteq> None then Some (command_part, None, None, False)
            else redirections command_part (trim_spaces extra) (Some path) output_path
          else
            if output_path \<noteq> None then Some (command_part, None, None, False)
            else redirections command_part (trim_spaces extra) input_path (Some path))"

definition split_redirections :: "byte list \<Rightarrow> (byte list \<times> byte list option \<times> byte list option \<times> bool) option" where
  "split_redirections command = (case position (\<lambda>b. b = 0x3C \<or> b = 0x3E) command of
      None \<Rightarrow> Some (command, None, None, True)
    | Some separator \<Rightarrow>
        redirections (trim_spaces (take separator command)) (trim_spaces (drop separator command)) None None)"

definition pipeline_command :: "byte list \<Rightarrow> bool \<Rightarrow> byte list \<times> bool" where
  "pipeline_command command current_dir_is_ext2 = (case split_first_word command of (name, arguments) \<Rightarrow>
    if eq_ignore_ascii_case name (ascii ''run'') then (trim_spaces arguments, current_dir_is_ext2)
    else if eq_ignore_ascii_case name (ascii ''diskrun'') then (trim_spaces arguments, True)
    else (command, True))"

section \<open>Paths\<close>

definition PATH_CAPACITY :: nat where "PATH_CAPACITY = 255"

definition path_byte :: "byte \<Rightarrow> bool" where
  "path_byte b \<longleftrightarrow> is_ascii_alphanumeric b \<or> b \<in> {0x2E, 0x5F, 0x2D}"

text \<open>\<open>output[..length].iter().rposition(...)\<close> cuts the path at its last separator.\<close>

definition parent_path :: "byte list \<Rightarrow> byte list" where
  "parent_path path = (case position (\<lambda>b. b = 0x2F) (rev path) of
      Some i \<Rightarrow> take (length path - 1 - i) path
    | None \<Rightarrow> [])"

definition push_component :: "byte list \<Rightarrow> byte list \<Rightarrow> byte list option" where
  "push_component component path =
    (if component = [] \<or> component = ascii ''.'' then Some path
     else if component = ascii ''..'' then Some (parent_path path)
     else if 100 < length component \<or> \<not> list_all path_byte component then None
     else
       let separator_len = (if path \<noteq> [] then 1 else 0)
       in Option.bind (Option.bind (checked_add (length path) separator_len) (\<lambda>n. checked_add n (length component)))
            (\<lambda>new_length.
              if PATH_CAPACITY < new_length then None
              else Some (path @ (if separator_len \<noteq> 0 then [0x2F] else []) @ component)))"

fun push_components :: "byte list list \<Rightarrow> byte list \<Rightarrow> byte list option" where
  "push_components [] path = Some path"
| "push_components (c # cs) path = Option.bind (push_component c path) (push_components cs)"

definition resolve_path :: "byte list \<Rightarrow> byte list \<Rightarrow> byte list option" where
  "resolve_path current input =
    (if starts_with (ascii ''/'') input then push_components (split_on (\<lambda>b. b = 0x2F) input) []
     else if PATH_CAPACITY < length current then None
     else push_components (split_on (\<lambda>b. b = 0x2F) input) current)"

definition resolve_directory_path :: "byte list \<Rightarrow> byte list \<Rightarrow> byte list option" where
  "resolve_directory_path current requested = resolve_path current (if requested = [] then ascii ''.'' else requested)"

definition resolve_ext2_command_path :: "byte list \<Rightarrow> byte list \<Rightarrow> bool \<Rightarrow> byte list option" where
  "resolve_ext2_command_path current input current_dir_is_ext2 =
    resolve_path (if current_dir_is_ext2 then current else []) input"

section \<open>Trimming and splitting\<close>

lemma dropWhile_idem [simp]: "dropWhile P (dropWhile P xs) = dropWhile P xs"
  by (induction xs) auto

lemma trim_spaces_alt:
  "trim_spaces v = dropWhile is_ascii_whitespace (rev (dropWhile is_ascii_whitespace (rev v)))"
proof (cases "dropWhile is_ascii_whitespace v = []")
  case True
  then have "dropWhile is_ascii_whitespace (rev v) = []" by simp
  with True show ?thesis by (simp only: trim_spaces_def rev.simps dropWhile.simps)
next
  case False
  obtain ws x vs where v: "v = ws @ x # vs" "\<forall>y \<in> set ws. is_ascii_whitespace y" "\<not> is_ascii_whitespace x"
    using False by (metis dropWhile_eq_Cons_conv dropWhile_eq_Nil_conv list.exhaust set_takeWhileD takeWhile_dropWhile_id)
  then have "dropWhile is_ascii_whitespace v = x # vs" by (simp add: dropWhile_append2)
  moreover have "dropWhile is_ascii_whitespace (rev vs @ [x]) = rev (x # rev (dropWhile is_ascii_whitespace (rev vs)))"
    using v(3) by (induction vs rule: rev_induct) auto
  moreover have "dropWhile is_ascii_whitespace (rev v) = dropWhile is_ascii_whitespace (rev vs) @ x # rev ws"
    using v(1,3) by (induction vs arbitrary: v rule: rev_induct) auto
  ultimately show ?thesis using v by (simp add: trim_spaces_def dropWhile_append2)
qed

lemma trim_spaces_idem [simp]: "trim_spaces (trim_spaces v) = trim_spaces v"
proof -
  have "dropWhile is_ascii_whitespace (trim_spaces v) = trim_spaces v" by (simp add: trim_spaces_alt)
  then show ?thesis by (simp add: trim_spaces_def)
qed

lemma trim_spaces_Nil [simp]: "trim_spaces [] = []"
  by (simp add: trim_spaces_def)

lemma trim_spaces_length: "length (trim_spaces v) \<le> length v"
  unfolding trim_spaces_def by (metis length_dropWhile_le length_rev order_trans)

lemma trim_spaces_Cons: "is_ascii_whitespace b \<Longrightarrow> trim_spaces (b # v) = trim_spaces v"
  by (simp add: trim_spaces_def)

lemma trim_drop_length: "length (trim_spaces (drop n v)) < Suc (length v)"
  using trim_spaces_length [of "drop n v"] by simp

lemma split_first_word_shorter:
  assumes "split_first_word v = (word, rest)" "word \<noteq> []"
  shows "length rest < length v"
  using assms trim_drop_length
  by (cases v) (auto simp: split_first_word_def Let_def split: if_split_asm option.split_asm)

text \<open>What the loop over the redirections may return.\<close>

definition redirect_ok :: "byte list \<Rightarrow> (byte list \<times> byte list option \<times> byte list option \<times> bool) option \<Rightarrow> bool" where
  "redirect_ok command_part r \<longleftrightarrow> (\<exists>i out ok. r = Some (command_part, i, out, ok)
    \<and> i \<noteq> Some [] \<and> out \<noteq> Some [] \<and> (\<not> ok \<longrightarrow> i = None \<and> out = None))"

lemma redirect_ok_simps [simp]:
  "redirect_ok p (Some (p, None, None, False))"
  "redirect_ok p (Some (p, i, out, True)) \<longleftrightarrow> i \<noteq> Some [] \<and> out \<noteq> Some []"
  by (auto simp: redirect_ok_def)

lemma redirections_terminate:
  "input_path \<noteq> Some [] \<Longrightarrow> output_path \<noteq> Some [] \<Longrightarrow>
    redirect_ok command_part (redirections command_part remainder input_path output_path)"
proof (induction "length remainder" arbitrary: remainder input_path output_path rule: less_induct)
  case less
  show ?case
  proof (cases remainder)
    case Nil
    then show ?thesis using less.prems by (subst redirections.simps) simp
  next
    case (Cons operator rest)
    obtain path extra where w: "split_first_word (trim_spaces rest) = (path, extra)" by fastforce
    have "redirect_ok command_part (redirections command_part (trim_spaces extra) i out)"
      if "path \<noteq> []" "i \<noteq> Some []" "out \<noteq> Some []" for i out
    proof (rule less.hyps)
      show "length (trim_spaces extra) < length remainder"
        using split_first_word_shorter [OF w that(1)] trim_spaces_length [of rest] trim_spaces_length [of extra] Cons
        by simp
    qed (use that in auto)
    then show ?thesis using Cons w less.prems by (subst redirections.simps) simp
  qed
qed

section \<open>Canonical paths\<close>

definition component_ok :: "byte list \<Rightarrow> bool" where
  "component_ok c \<longleftrightarrow> c \<noteq> [] \<and> c \<noteq> ascii ''.'' \<and> c \<noteq> ascii ''..'' \<and> length c \<le> 100 \<and> list_all path_byte c"

definition path_stack :: "byte list \<Rightarrow> byte list list" where
  "path_stack path = (if path = [] then [] else split_on (\<lambda>b. b = 0x2F) path)"

definition canonical_path :: "byte list \<Rightarrow> bool" where
  "canonical_path path \<longleftrightarrow> list_all component_ok (path_stack path) \<and> length path \<le> PATH_CAPACITY"

fun join_components :: "byte list list \<Rightarrow> byte list" where
  "join_components [] = []"
| "join_components [c] = c"
| "join_components (c # cs) = c @ 0x2F # join_components cs"

text \<open>The meaning of one component of a path: nothing, one level up, or one level down.\<close>

definition stack_step :: "byte list \<Rightarrow> byte list list \<Rightarrow> byte list list" where
  "stack_step c stack =
    (if c = [] \<or> c = ascii ''.'' then stack else if c = ascii ''..'' then butlast stack else stack @ [c])"

lemma path_byte_slash: "\<not> path_byte 0x2F"
  by (simp add: path_byte_def is_ascii_alphanumeric_def is_ascii_digit_def)

lemma component_no_slash: "component_ok c \<Longrightarrow> 0x2F \<notin> set c"
  using path_byte_slash by (auto simp: component_ok_def list_all_iff)

lemma join_snoc: "join_components (cs @ [c]) = (if cs = [] then c else join_components cs @ 0x2F # c)"
proof (induction cs rule: join_components.induct)
  case (3 c1 c2 cs)
  then show ?case by (cases cs) auto
qed auto

lemma join_empty: "list_all component_ok cs \<Longrightarrow> join_components cs = [] \<longleftrightarrow> cs = []"
  by (cases cs rule: join_components.cases) (auto simp: component_ok_def)

lemma split_join: "list_all component_ok cs \<Longrightarrow> cs \<noteq> [] \<Longrightarrow> split_on (\<lambda>b. b = 0x2F) (join_components cs) = cs"
proof (induction cs rule: join_components.induct)
  case (2 c)
  then show ?case using component_no_slash [of c] by (auto intro!: split_on_none)
next
  case (3 c1 c2 cs)
  then have "split_on (\<lambda>b. b = 0x2F) c1 = [c1]" using component_no_slash [of c1] by (auto intro!: split_on_none)
  then show ?case using 3 split_on_append_sep [of "\<lambda>b. b = 0x2F" "0x2F" c1 "join_components (c2 # cs)"] by simp
qed simp

lemma stack_join: "list_all component_ok cs \<Longrightarrow> path_stack (join_components cs) = cs"
  by (cases "cs = []") (simp_all add: path_stack_def split_join join_empty)

lemma join_split: "join_components (split_on (\<lambda>b. b = 0x2F) p) = p"
proof (induction p)
  case (Cons b p)
  then show ?case by (cases "split_on (\<lambda>b. b = 0x2F) p" rule: join_components.cases) auto
qed simp

lemma join_stack: "join_components (path_stack p) = p"
  by (simp add: path_stack_def join_split)

lemma canonical_join: "canonical_path p \<Longrightarrow> \<exists>cs. p = join_components cs \<and> list_all component_ok cs"
  by (intro exI [of _ "path_stack p"]) (simp add: join_stack canonical_path_def)

lemma join_canonical: "list_all component_ok cs \<Longrightarrow> length (join_components cs) \<le> PATH_CAPACITY \<Longrightarrow> canonical_path (join_components cs)"
  by (simp add: canonical_path_def stack_join)

lemma position_rev_snoc:
  assumes "0x2F \<notin> set c"
  shows "position (\<lambda>b. b = 0x2F) (rev c @ 0x2F # xs) = Some (length c)" "position (\<lambda>b. b = 0x2F) (rev c) = None"
  using assms by (auto simp: position_Some position_None nth_append rev_nth in_set_conv_nth)

lemma parent_join:
  assumes "list_all component_ok cs"
  shows "parent_path (join_components cs) = join_components (butlast cs)"
proof (cases cs rule: rev_cases)
  case (snoc cs' c)
  then have c: "0x2F \<notin> set c" using assms component_no_slash by simp
  show ?thesis
    using position_rev_snoc [OF c] by (simp add: snoc join_snoc parent_path_def)
qed (simp add: parent_path_def)

lemma push_component_join:
  assumes cs: "list_all component_ok cs" and push: "push_component c (join_components cs) = Some p"
    and len: "length (join_components cs) \<le> PATH_CAPACITY"
  shows "p = join_components (stack_step c cs) \<and> list_all component_ok (stack_step c cs) \<and> length p \<le> PATH_CAPACITY"
proof -
  have b: "list_all component_ok (butlast cs)" using cs by (auto simp: list_all_iff dest: in_set_butlastD)
  have "length (join_components (butlast cs)) \<le> length (join_components cs)"
    by (cases cs rule: rev_cases) (auto simp: join_snoc)
  then show ?thesis
    using push len cs b join_empty [OF cs]
    by (auto simp: push_component_def stack_step_def parent_join component_ok_def join_snoc Let_def
        bind_eq_Some_conv split: if_split_asm)
qed

lemma push_components_join:
  assumes "list_all component_ok cs" "push_components comps (join_components cs) = Some p"
    "length (join_components cs) \<le> PATH_CAPACITY"
  shows "p = join_components (fold stack_step comps cs) \<and> list_all component_ok (fold stack_step comps cs) \<and> length p \<le> PATH_CAPACITY"
  using assms
proof (induction comps arbitrary: cs)
  case (Cons c comps)
  then obtain q where q: "push_component c (join_components cs) = Some q" "push_components comps q = Some p"
    by (auto simp: bind_eq_Some_conv)
  note step = push_component_join [OF Cons.prems(1) q(1) Cons.prems(3)]
  then show ?case using Cons.IH [of "stack_step c cs"] q(2) by auto
qed simp

lemma resolve_path_join:
  assumes "canonical_path current" "resolve_path current input = Some p"
  shows "path_stack p = fold stack_step (split_on (\<lambda>b. b = 0x2F) input)
      (if starts_with (ascii ''/'') input then [] else path_stack current)" "canonical_path p"
proof -
  obtain cs where cs: "current = join_components cs" "list_all component_ok cs" using canonical_join [OF assms(1)] by blast
  let ?start = "if starts_with (ascii ''/'') input then [] else cs"
  have "push_components (split_on (\<lambda>b. b = 0x2F) input) (join_components ?start) = Some p"
    using assms(2) cs by (auto simp: resolve_path_def split: if_split_asm)
  moreover have "list_all component_ok ?start" "length (join_components ?start) \<le> PATH_CAPACITY"
    using cs assms(1) by (auto simp: canonical_path_def)
  ultimately have r: "p = join_components (fold stack_step (split_on (\<lambda>b. b = 0x2F) input) ?start)"
      "list_all component_ok (fold stack_step (split_on (\<lambda>b. b = 0x2F) input) ?start)" "length p \<le> PATH_CAPACITY"
    using push_components_join by blast+
  show "path_stack p = fold stack_step (split_on (\<lambda>b. b = 0x2F) input)
      (if starts_with (ascii ''/'') input then [] else path_stack current)"
    unfolding r(1) stack_join [OF r(2)] by (simp add: cs(1) stack_join [OF cs(2)])
  show "canonical_path p" using r join_canonical by blast
qed

text \<open>An absolute path of canonical components resolves to itself.\<close>

lemma push_component_new:
  assumes "component_ok c" "list_all component_ok cs" "length (join_components (cs @ [c])) \<le> PATH_CAPACITY"
  shows "push_component c (join_components cs) = Some (join_components (cs @ [c]))"
  using assms join_empty [OF assms(2)]
  by (auto simp: push_component_def component_ok_def join_snoc PATH_CAPACITY_def u64_limit_def checked_add_def Let_def)

lemma join_append_length: "length (join_components cs) \<le> length (join_components (cs @ ds))"
proof (induction ds rule: rev_induct)
  case (snoc d ds)
  have "length (join_components (cs @ ds)) \<le> length (join_components ((cs @ ds) @ [d]))" by (subst join_snoc) simp
  with snoc show ?case by simp
qed simp

lemma push_components_new:
  "list_all component_ok (cs @ ds) \<Longrightarrow> length (join_components (cs @ ds)) \<le> PATH_CAPACITY \<Longrightarrow>
    push_components ds (join_components cs) = Some (join_components (cs @ ds))"
proof (induction ds arbitrary: cs)
  case (Cons d ds)
  have "length (join_components (cs @ [d])) \<le> PATH_CAPACITY" using Cons.prems(2) join_append_length [of "cs @ [d]" ds] by simp
  then have "push_component d (join_components cs) = Some (join_components (cs @ [d]))"
    using Cons.prems(1) by (intro push_component_new) auto
  then show ?case using Cons.IH [of "cs @ [d]"] Cons.prems by simp
qed simp

lemma resolve_absolute:
  assumes "canonical_path p"
  shows "resolve_path current (0x2F # p) = Some p"
proof -
  obtain cs where cs: "p = join_components cs" "list_all component_ok cs" using canonical_join [OF assms] by blast
  have "push_components (split_on (\<lambda>b. b = 0x2F) (0x2F # p)) [] = Some p"
  proof (cases "cs = []")
    case False
    then show ?thesis
      using push_components_new [of "[]" cs] cs assms by (simp add: split_join push_component_def canonical_path_def)
  qed (simp add: cs push_component_def)
  then show ?thesis by (simp add: resolve_path_def starts_with_def)
qed

section \<open>Printing commands\<close>

definition with_arguments :: "string \<Rightarrow> byte list \<Rightarrow> byte list" where
  "with_arguments name arguments = ascii name @ (if arguments = [] then [] else 0x20 # arguments)"

fun show_command :: "Command \<Rightarrow> byte list" where
  "show_command Help = ascii ''help''"
| "show_command Clear = ascii ''clear''"
| "show_command (Echo message) = with_arguments ''echo'' message"
| "show_command Memory = ascii ''mem''"
| "show_command Uptime = ascii ''uptime''"
| "show_command (SleepCmd seconds) = with_arguments ''sleep'' seconds"
| "show_command (ListFiles path) = with_arguments ''ls'' path"
| "show_command (Cat path) = with_arguments ''cat'' path"
| "show_command (DiskList path) = with_arguments ''diskls'' path"
| "show_command (DiskCat path) = with_arguments ''diskcat'' path"
| "show_command (DiskWrite name contents) =
    with_arguments ''diskwrite'' (name @ (if contents = [] then [] else 0x20 # contents))"
| "show_command (MakeDirectory name) = with_arguments ''mkdir'' name"
| "show_command (RemoveFile name) = with_arguments ''rm'' name"
| "show_command (RemoveDirectory name) = with_arguments ''rmdir'' name"
| "show_command (Edit name) = with_arguments ''edit'' name"
| "show_command (RunCmd path) = with_arguments ''run'' path"
| "show_command (DiskRun path) = with_arguments ''diskrun'' path"
| "show_command (ChangeDirectory path) = with_arguments ''cd'' path"
| "show_command PrintWorkingDirectory = ascii ''pwd''"
| "show_command Settings = ascii ''set''"
| "show_command (SetColor color) = with_arguments ''set col'' color"
| "show_command (SetResolution resolution) = with_arguments ''set res'' resolution"
| "show_command Info = ascii ''info''"
| "show_command InfoOs = ascii ''info -os''"
| "show_command InfoHardware = ascii ''info -hw''"
| "show_command InfoSoftware = ascii ''info -sw''"
| "show_command Processes = ascii ''ps''"
| "show_command (KillCmd task) = with_arguments ''kill'' task"
| "show_command Shutdown = ascii ''shutdown''"
| "show_command UnknownCommand = ascii ''?''"
| "show_command EmptyCommand = []"

text \<open>The commands that a line can express: arguments are trimmed, those that a command needs are not
  empty, and a file name of \<open>diskwrite\<close> has no white space.\<close>

definition trimmed :: "byte list \<Rightarrow> bool" where
  "trimmed v \<longleftrightarrow> trim_spaces v = v"

fun command_ok :: "Command \<Rightarrow> bool" where
  "command_ok (Echo v) = trimmed v"
| "command_ok (SleepCmd v) = trimmed v"
| "command_ok (ListFiles v) = trimmed v"
| "command_ok (Cat v) = (trimmed v \<and> v \<noteq> [])"
| "command_ok (DiskList v) = trimmed v"
| "command_ok (DiskCat v) = (trimmed v \<and> v \<noteq> [])"
| "command_ok (DiskWrite v w) = (v \<noteq> [] \<and> list_all (\<lambda>b. \<not> is_ascii_whitespace b) v \<and> trimmed w)"
| "command_ok (MakeDirectory v) = (trimmed v \<and> v \<noteq> [])"
| "command_ok (RemoveFile v) = (trimmed v \<and> v \<noteq> [])"
| "command_ok (RemoveDirectory v) = (trimmed v \<and> v \<noteq> [])"
| "command_ok (Edit v) = (trimmed v \<and> v \<noteq> [])"
| "command_ok (RunCmd v) = trimmed v"
| "command_ok (DiskRun v) = trimmed v"
| "command_ok (ChangeDirectory v) = trimmed v"
| "command_ok (SetColor v) = trimmed v"
| "command_ok (SetResolution v) = trimmed v"
| "command_ok (KillCmd v) = trimmed v"
| "command_ok _ = True"

lemma trimmed_iff: "trimmed v \<longleftrightarrow> v = [] \<or> \<not> is_ascii_whitespace (hd v) \<and> \<not> is_ascii_whitespace (last v)"
proof (cases "v = []")
  case False
  show ?thesis
  proof
    assume "v = [] \<or> \<not> is_ascii_whitespace (hd v) \<and> \<not> is_ascii_whitespace (last v)"
    then have "dropWhile is_ascii_whitespace v = v" "dropWhile is_ascii_whitespace (rev v) = rev v"
      using False by (auto simp: neq_Nil_conv dropWhile_eq_self_iff hd_rev)
    then show "trimmed v" by (simp add: trimmed_def trim_spaces_def)
  next
    assume "trimmed v"
    then have a: "rev (dropWhile is_ascii_whitespace (rev (dropWhile is_ascii_whitespace v))) = v"
      "dropWhile is_ascii_whitespace (rev (dropWhile is_ascii_whitespace (rev v))) = v"
      by (simp_all add: trimmed_def trim_spaces_def trim_spaces_alt flip: trim_spaces_alt)
    have "\<not> is_ascii_whitespace (hd v)"
      using False a(2) hd_dropWhile [of is_ascii_whitespace] by metis
    moreover have "\<not> is_ascii_whitespace (hd (rev v))"
      using False a(1) hd_dropWhile [of is_ascii_whitespace] by (metis Nil_is_rev_conv rev_rev_ident)
    ultimately show "v = [] \<or> \<not> is_ascii_whitespace (hd v) \<and> \<not> is_ascii_whitespace (last v)"
      using False by (simp add: hd_rev)
  qed
qed (simp add: trimmed_def)

lemma trimmed_append: "trimmed v \<Longrightarrow> v \<noteq> [] \<Longrightarrow> u \<noteq> [] \<Longrightarrow> \<not> is_ascii_whitespace (hd u) \<Longrightarrow> trimmed (u @ w @ v)"
  by (auto simp: trimmed_iff)

lemma trimmed_trim: "trimmed v \<Longrightarrow> trim_spaces v = v"
  by (simp add: trimmed_def)

lemma white_space_bytes: "is_ascii_whitespace 0x20"
  by (simp add: is_ascii_whitespace_def)

lemma trimmed_plain: "list_all (\<lambda>b. \<not> is_ascii_whitespace b) v \<Longrightarrow> trimmed v"
  by (cases "v = []") (auto simp: trimmed_iff list_all_iff)

text \<open>A command word with its arguments: one test of the parser after the other.\<close>

lemma with_arguments_trimmed:
  assumes "trimmed arguments" "name \<noteq> []" "trimmed (ascii name)"
  shows "trim_spaces (with_arguments name arguments) = with_arguments name arguments"
proof (cases "arguments = []")
  case False
  have "trimmed (ascii name @ [0x20] @ arguments)"
    using assms False by (intro trimmed_append) (auto simp: trimmed_iff ascii_def)
  then show ?thesis using False by (simp add: with_arguments_def trimmed_def)
qed (use assms in \<open>simp add: with_arguments_def trimmed_def\<close>)

lemma eq_ignore_Cons:
  "eq_ignore_ascii_case [] []" "\<not> eq_ignore_ascii_case [] (y # ys)" "\<not> eq_ignore_ascii_case (x # xs) []"
  "eq_ignore_ascii_case (x # xs) (y # ys) \<longleftrightarrow> to_ascii_lowercase x = to_ascii_lowercase y \<and> eq_ignore_ascii_case xs ys"
  by (auto simp: eq_ignore_ascii_case_def)

lemma strip_Cons:
  "strip_command_arguments [] (c # command) = None"
  "strip_command_arguments (x # input) (c # command) =
    (if to_ascii_lowercase x = to_ascii_lowercase c then strip_command_arguments input command else None)"
  "strip_command_arguments input [] =
    (case input of [] \<Rightarrow> None | b # _ \<Rightarrow> if is_ascii_whitespace b then Some (trim_spaces input) else None)"
  by (auto simp: strip_command_arguments_def eq_ignore_Cons Let_def split: list.split)

text \<open>The bytes of the words of the language, so that the parser computes on them.\<close>

lemma word_bytes:
  "ascii ''help'' = [0x68, 0x65, 0x6C, 0x70]"
  "ascii ''shutdown'' = [0x73, 0x68, 0x75, 0x74, 0x64, 0x6F, 0x77, 0x6E]"
  "ascii ''sd'' = [0x73, 0x64]"
  "ascii ''clear'' = [0x63, 0x6C, 0x65, 0x61, 0x72]"
  "ascii ''cls'' = [0x63, 0x6C, 0x73]"
  "ascii ''clr'' = [0x63, 0x6C, 0x72]"
  "ascii ''mem'' = [0x6D, 0x65, 0x6D]"
  "ascii ''uptime'' = [0x75, 0x70, 0x74, 0x69, 0x6D, 0x65]"
  "ascii ''sleep'' = [0x73, 0x6C, 0x65, 0x65, 0x70]"
  "ascii ''ls'' = [0x6C, 0x73]"
  "ascii ''dir'' = [0x64, 0x69, 0x72]"
  "ascii ''cat'' = [0x63, 0x61, 0x74]"
  "ascii ''diskls'' = [0x64, 0x69, 0x73, 0x6B, 0x6C, 0x73]"
  "ascii ''diskcat'' = [0x64, 0x69, 0x73, 0x6B, 0x63, 0x61, 0x74]"
  "ascii ''diskwrite'' = [0x64, 0x69, 0x73, 0x6B, 0x77, 0x72, 0x69, 0x74, 0x65]"
  "ascii ''mkdir'' = [0x6D, 0x6B, 0x64, 0x69, 0x72]"
  "ascii ''rm'' = [0x72, 0x6D]"
  "ascii ''rmdir'' = [0x72, 0x6D, 0x64, 0x69, 0x72]"
  "ascii ''edit'' = [0x65, 0x64, 0x69, 0x74]"
  "ascii ''run'' = [0x72, 0x75, 0x6E]"
  "ascii ''diskrun'' = [0x64, 0x69, 0x73, 0x6B, 0x72, 0x75, 0x6E]"
  "ascii ''cd'' = [0x63, 0x64]"
  "ascii ''pwd'' = [0x70, 0x77, 0x64]"
  "ascii ''info'' = [0x69, 0x6E, 0x66, 0x6F]"
  "ascii ''ps'' = [0x70, 0x73]"
  "ascii ''processes'' = [0x70, 0x72, 0x6F, 0x63, 0x65, 0x73, 0x73, 0x65, 0x73]"
  "ascii ''kill'' = [0x6B, 0x69, 0x6C, 0x6C]"
  "ascii ''set'' = [0x73, 0x65, 0x74]"
  "ascii ''settings'' = [0x73, 0x65, 0x74, 0x74, 0x69, 0x6E, 0x67, 0x73]"
  "ascii ''echo'' = [0x65, 0x63, 0x68, 0x6F]"
  "ascii ''set col'' = [0x73, 0x65, 0x74, 0x20, 0x63, 0x6F, 0x6C]"
  "ascii ''set res'' = [0x73, 0x65, 0x74, 0x20, 0x72, 0x65, 0x73]"
  "ascii ''info -os'' = [0x69, 0x6E, 0x66, 0x6F, 0x20, 0x2D, 0x6F, 0x73]"
  "ascii ''info -hw'' = [0x69, 0x6E, 0x66, 0x6F, 0x20, 0x2D, 0x68, 0x77]"
  "ascii ''info -sw'' = [0x69, 0x6E, 0x66, 0x6F, 0x20, 0x2D, 0x73, 0x77]"
  "ascii ''?'' = [0x3F]"
  "ascii ''col'' = [0x63, 0x6F, 0x6C]"
  "ascii ''res'' = [0x72, 0x65, 0x73]"
  "ascii ''-os'' = [0x2D, 0x6F, 0x73]"
  "ascii ''-hw'' = [0x2D, 0x68, 0x77]"
  "ascii ''-sw'' = [0x2D, 0x73, 0x77]"
  by simp_all

lemma word_bytes_lowercase:
  "to_ascii_lowercase 0x20 = 0x20"
  "to_ascii_lowercase 0x2D = 0x2D"
  "to_ascii_lowercase 0x3F = 0x3F"
  "to_ascii_lowercase 0x61 = 0x61"
  "to_ascii_lowercase 0x63 = 0x63"
  "to_ascii_lowercase 0x64 = 0x64"
  "to_ascii_lowercase 0x65 = 0x65"
  "to_ascii_lowercase 0x66 = 0x66"
  "to_ascii_lowercase 0x67 = 0x67"
  "to_ascii_lowercase 0x68 = 0x68"
  "to_ascii_lowercase 0x69 = 0x69"
  "to_ascii_lowercase 0x6B = 0x6B"
  "to_ascii_lowercase 0x6C = 0x6C"
  "to_ascii_lowercase 0x6D = 0x6D"
  "to_ascii_lowercase 0x6E = 0x6E"
  "to_ascii_lowercase 0x6F = 0x6F"
  "to_ascii_lowercase 0x70 = 0x70"
  "to_ascii_lowercase 0x72 = 0x72"
  "to_ascii_lowercase 0x73 = 0x73"
  "to_ascii_lowercase 0x74 = 0x74"
  "to_ascii_lowercase 0x75 = 0x75"
  "to_ascii_lowercase 0x77 = 0x77"
  by (simp_all add: to_ascii_lowercase_def)

lemma word_bytes_no_space:
  "\<not> is_ascii_whitespace 0x2D"
  "\<not> is_ascii_whitespace 0x3F"
  "\<not> is_ascii_whitespace 0x61"
  "\<not> is_ascii_whitespace 0x63"
  "\<not> is_ascii_whitespace 0x64"
  "\<not> is_ascii_whitespace 0x65"
  "\<not> is_ascii_whitespace 0x66"
  "\<not> is_ascii_whitespace 0x67"
  "\<not> is_ascii_whitespace 0x68"
  "\<not> is_ascii_whitespace 0x69"
  "\<not> is_ascii_whitespace 0x6B"
  "\<not> is_ascii_whitespace 0x6C"
  "\<not> is_ascii_whitespace 0x6D"
  "\<not> is_ascii_whitespace 0x6E"
  "\<not> is_ascii_whitespace 0x6F"
  "\<not> is_ascii_whitespace 0x70"
  "\<not> is_ascii_whitespace 0x72"
  "\<not> is_ascii_whitespace 0x73"
  "\<not> is_ascii_whitespace 0x74"
  "\<not> is_ascii_whitespace 0x75"
  "\<not> is_ascii_whitespace 0x77"
  by (simp_all add: is_ascii_whitespace_def)

lemmas parse_simps = when_word_def when_arguments_def eq_ignore_Cons strip_Cons word_bytes word_bytes_lowercase
  word_bytes_no_space white_space_bytes

lemma trim_arguments: "trimmed v \<Longrightarrow> trim_spaces (0x20 # v) = v"
  by (simp add: trim_spaces_Cons white_space_bytes trimmed_trim)

lemma position_append_first: "list_all (\<lambda>b. \<not> P b) xs \<Longrightarrow> P y \<Longrightarrow> position P (xs @ y # ys) = Some (length xs)"
  by (induction xs) auto

lemma position_none: "list_all (\<lambda>b. \<not> P b) xs \<Longrightarrow> position P xs = None"
  by (induction xs) auto

lemma disk_write_arguments:
  assumes "v \<noteq> []" "list_all (\<lambda>b. \<not> is_ascii_whitespace b) v" "trimmed w"
  shows "disk_write_command (v @ (if w = [] then [] else 0x20 # w)) = Some (DiskWrite v w)"
    "trimmed (v @ (if w = [] then [] else 0x20 # w))"
  using assms position_append_first [of is_ascii_whitespace v "0x20" w] position_none [of is_ascii_whitespace v]
    trimmed_plain [OF assms(2)] trimmed_append [of w v "[0x20]"]
  by (auto simp: disk_write_command_def white_space_bytes trimmed_trim trimmed_iff)

lemma trim_fixed: "\<not> is_ascii_whitespace b \<Longrightarrow> \<not> is_ascii_whitespace (last (b # v)) \<Longrightarrow> trim_spaces (b # v) = b # v"
  using trimmed_iff [of "b # v"] by (simp add: trimmed_def)

lemma set_command_arguments:
  "trimmed v \<Longrightarrow> v \<noteq> [] \<Longrightarrow> set_command (0x63 # 0x6F # 0x6C # 0x20 # v) = SetColor v"
  "trimmed v \<Longrightarrow> v \<noteq> [] \<Longrightarrow> set_command (0x72 # 0x65 # 0x73 # 0x20 # v) = SetResolution v"
  "set_command [0x63, 0x6F, 0x6C] = SetColor []" "set_command [0x72, 0x65, 0x73] = SetResolution []"
  by (simp_all add: set_command_def split_first_word_def is_ascii_whitespace_def eq_ignore_Cons to_ascii_lowercase_def
      trim_arguments trimmed_trim)

lemma trim_set_arguments:
  assumes "trimmed v" "v \<noteq> []"
  shows "trim_spaces (0x20 # 0x63 # 0x6F # 0x6C # 0x20 # v) = 0x63 # 0x6F # 0x6C # 0x20 # v"
    "trim_spaces (0x20 # 0x72 # 0x65 # 0x73 # 0x20 # v) = 0x72 # 0x65 # 0x73 # 0x20 # v"
  using trim_arguments [of "0x63 # 0x6F # 0x6C # 0x20 # v"] trim_arguments [of "0x72 # 0x65 # 0x73 # 0x20 # v"] assms
  by (simp_all add: trimmed_iff is_ascii_whitespace_def)

text \<open>The commands without arguments, with an optional argument left out, and with an argument.\<close>

definition plain_commands :: "Command set" where
  "plain_commands = {Help, Clear, Memory, Uptime, PrintWorkingDirectory, Settings, Info, InfoOs, InfoHardware,
    InfoSoftware, Processes, Shutdown, UnknownCommand, EmptyCommand}"

definition bare_commands :: "Command set" where
  "bare_commands = {Echo [], SleepCmd [], ListFiles [], DiskList [], RunCmd [], DiskRun [], ChangeDirectory [],
    KillCmd [], SetColor [], SetResolution []}"

definition argument_commands :: "byte list \<Rightarrow> Command set" where
  "argument_commands v = {Echo v, SleepCmd v, ListFiles v, Cat v, DiskList v, DiskCat v, MakeDirectory v, RemoveFile v, RemoveDirectory v,
    Edit v, RunCmd v, DiskRun v, ChangeDirectory v, KillCmd v, SetColor v, SetResolution v}"

lemma parse_show_plain:
  assumes "c \<in> plain_commands"
  shows "parse_command (show_command c) = c"
  using assms unfolding parse_command_def Let_def plain_commands_def
  by (elim insertE emptyE; hypsubst; simp add: parse_simps trim_fixed trim_spaces_Cons info_command_def
      split_first_word_def del: ascii_Cons)

lemma parse_show_bare:
  assumes "c \<in> bare_commands"
  shows "parse_command (show_command c) = c"
  using assms unfolding parse_command_def Let_def bare_commands_def
  by (elim insertE emptyE; hypsubst; simp add: parse_simps with_arguments_def trim_fixed trim_spaces_Cons
      set_command_arguments del: ascii_Cons)

lemma parse_show_arguments:
  assumes "trimmed v" "v \<noteq> []" "c \<in> argument_commands v"
  shows "parse_command (show_command c) = c"
proof -
  have l: "\<not> is_ascii_whitespace (last v)" using assms(1,2) by (simp add: trimmed_iff)
  show ?thesis
    using assms(3) unfolding parse_command_def Let_def argument_commands_def
    by (elim insertE emptyE; hypsubst; simp add: with_arguments_def assms(2) trim_fixed
        l parse_simps trim_arguments [OF assms(1)]
        trim_set_arguments [OF assms(1,2)] set_command_arguments(1,2) [OF assms(1,2)] edit_command_def del: ascii_Cons)
qed

lemma command_ok_cases:
  assumes "command_ok c"
  shows "c \<in> plain_commands \<or> c \<in> bare_commands \<or> (\<exists>v w. c = DiskWrite v w)
    \<or> (\<exists>v. trimmed v \<and> v \<noteq> [] \<and> c \<in> argument_commands v)"
  using assms by (cases c) (auto simp: plain_commands_def bare_commands_def argument_commands_def)

lemma parse_show_disk_write:
  assumes "command_ok (DiskWrite v w)"
  shows "parse_command (show_command (DiskWrite v w)) = DiskWrite v w"
proof -
  define u where "u = v @ (if w = [] then [] else 0x20 # w)"
  have u: "trimmed u" "u \<noteq> []" "disk_write_command u = Some (DiskWrite v w)"
    using assms disk_write_arguments [of v w] by (auto simp: u_def)
  have l: "\<not> is_ascii_whitespace (last u)" using u(1,2) by (simp add: trimmed_iff)
  show ?thesis
    unfolding parse_command_def Let_def show_command.simps u_def [symmetric]
    by (simp add: with_arguments_def u(2,3) trim_fixed l parse_simps trim_arguments [OF u(1)] del: ascii_Cons)
qed

section \<open>Properties\<close>

text \<open>C22. Paths are canonical, whatever is typed: from a canonical working directory, \<open>resolve_path\<close>
  only returns paths of at most 255 bytes whose components are not empty, not \<open>.\<close> or \<open>..\<close>, at most
  100 bytes long and made of safe bytes; the components are those that the input leads to, a \<open>..\<close> at
  the root staying there; and an absolute canonical path resolves to itself from anywhere.\<close>

theorem resolve_path_canonical:
  assumes "canonical_path current" and "resolve_path current input = Some p"
  shows "canonical_path p \<and> path_stack p = fold stack_step (split_on (\<lambda>b. b = 0x2F) input)
      (if starts_with (ascii ''/'') input then [] else path_stack current)
    \<and> (\<forall>d. resolve_path d (0x2F # p) = Some p)"
  using resolve_path_join [OF assms] resolve_absolute by blast

theorem resolve_path_canonical_witness:
  "resolve_path (ascii ''a/b'') (ascii ''../c'') = Some (ascii ''a/c'') \<and> canonical_path (ascii ''a/c'')"
proof -
  have c: "canonical_path (ascii ''a/b'')" "resolve_path (ascii ''a/b'') (ascii ''../c'') = Some (ascii ''a/c'')"
    by (simp_all add: canonical_path_def path_stack_def component_ok_def path_byte_def is_ascii_alphanumeric_def PATH_CAPACITY_def
        resolve_path_def starts_with_def push_component_def parent_path_def checked_add_def u64_limit_def)
  from resolve_path_canonical [OF c] c(2) show ?thesis by blast
qed

text \<open>C37. The parser of redirections always returns, for every command line: each round of its loop
  takes at least the operator and one byte of a path. It returns the trimmed command before the first
  redirection, paths that are not empty, and no paths at all when the syntax is wrong.\<close>

theorem split_redirections_terminates:
  "\<exists>part i out ok. split_redirections command = Some (part, i, out, ok)
    \<and> i \<noteq> Some [] \<and> out \<noteq> Some [] \<and> (ok \<or> i = None \<and> out = None)
    \<and> part = (case position (\<lambda>b. b = 0x3C \<or> b = 0x3E) command of
        None \<Rightarrow> command | Some separator \<Rightarrow> trim_spaces (take separator command))"
  using redirections_terminate [of None None]
  by (fastforce simp: split_redirections_def redirect_ok_def split: option.split)

text \<open>Every command can be typed: the parser reads back what \<open>show_command\<close> prints, for each of
  the commands with trimmed arguments.\<close>

theorem parse_show_command:
  assumes "command_ok c"
  shows "parse_command (show_command c) = c"
  using command_ok_cases [OF assms] parse_show_plain parse_show_bare parse_show_arguments parse_show_disk_write assms
  by blast

theorem parse_show_command_witness:
  "parse_command (show_command (Cat (ascii ''notes.txt''))) = Cat (ascii ''notes.txt'')"
  by (rule parse_show_command) (simp add: trimmed_iff is_ascii_whitespace_def)

end
