(* ===== verification/Utf8_Chars.thy ===== *)
theory Utf8_Chars
  imports Byte_Strings
begin

text \<open>
  Well-formed UTF-8 as a sequence of encoded characters: the operations of \<open>str\<close> that the editor uses
  (\<open>is_char_boundary\<close>, \<open>chars\<close>, slicing, \<open>find\<close>) and how they act on the characters.
\<close>

text \<open>The encodings of one character.\<close>

definition utf8_char :: "byte list \<Rightarrow> bool" where
  "utf8_char c \<longleftrightarrow> (case c of
      [a] \<Rightarrow> a < 0x80
    | [a, b] \<Rightarrow> 0xC2 \<le> a \<and> a \<le> 0xDF \<and> utf8_cont b
    | [a, b, c] \<Rightarrow> 0xE0 \<le> a \<and> a \<le> 0xEF \<and> utf8_cont b \<and> utf8_cont c
        \<and> (a = 0xE0 \<longrightarrow> 0xA0 \<le> b) \<and> (a = 0xED \<longrightarrow> b \<le> 0x9F)
    | [a, b, c, d] \<Rightarrow> 0xF0 \<le> a \<and> a \<le> 0xF4 \<and> utf8_cont b \<and> utf8_cont c \<and> utf8_cont d
        \<and> (a = 0xF0 \<longrightarrow> 0x90 \<le> b) \<and> (a = 0xF4 \<longrightarrow> b \<le> 0x8F)
    | _ \<Rightarrow> False)"

definition is_char_boundary :: "byte list \<Rightarrow> nat \<Rightarrow> bool" where
  "is_char_boundary text i \<longleftrightarrow> i = 0 \<or> i = length text \<or> i < length text \<and> \<not> utf8_cont (text ! i)"

text \<open>\<open>chars\<close>: a leading byte with the continuation bytes after it.\<close>

function chars :: "byte list \<Rightarrow> byte list list" where
  "chars [] = []"
| "chars (b # rest) = (b # takeWhile utf8_cont rest) # chars (dropWhile utf8_cont rest)"
  by pat_completeness auto
termination by (relation "measure length") (auto simp: less_Suc_eq_le length_dropWhile_le)

text \<open>\<open>&text[a..b]\<close>, \<open>None\<close> the panic off a boundary; \<open>rposition\<close> and \<open>rfind\<close>.\<close>

definition str_slice :: "byte list \<Rightarrow> nat \<Rightarrow> nat \<Rightarrow> byte list option" where
  "str_slice text a b =
    (if a \<le> b \<and> b \<le> length text \<and> is_char_boundary text a \<and> is_char_boundary text b
     then Some (slice text a b) else None)"

definition rposition :: "('a \<Rightarrow> bool) \<Rightarrow> 'a list \<Rightarrow> nat option" where
  "rposition P xs = map_option (\<lambda>i. length xs - 1 - i) (position P (rev xs))"

lemma utf8_charE:
  assumes "utf8_char c"
  obtains a rest where "c = a # rest" "\<not> utf8_cont a" "\<forall>b \<in> set rest. utf8_cont b" "a < 0x80 \<longleftrightarrow> rest = []"
  using assms
  by (auto simp: utf8_char_def utf8_cont_def word_le_nat_alt word_less_nat_alt split: list.split_asm)

lemma utf8_char_ascii: "utf8_char [b] \<longleftrightarrow> b < 0x80"
  by (simp add: utf8_char_def)

lemmas byte_nat = word_le_nat_alt word_less_nat_alt word_unat_eq_iff

text \<open>The check, by the class of the leading byte.\<close>

lemma utf8_valid_2: "0xC2 \<le> a \<and> a \<le> 0xDF \<Longrightarrow> utf8_valid (a # b # s) \<longleftrightarrow> utf8_char [a, b] \<and> utf8_valid s"
  by (simp add: utf8_valid.simps(2) utf8_char_def byte_nat)

lemma utf8_valid_3:
  "0xE0 \<le> a \<and> a \<le> 0xEF \<Longrightarrow> utf8_valid (a # b # c # s) \<longleftrightarrow> utf8_char [a, b, c] \<and> utf8_valid s"
  by (auto simp: utf8_valid.simps(2) [of a] utf8_char_def utf8_cont_def byte_nat)

lemma utf8_valid_4:
  "0xF0 \<le> a \<and> a \<le> 0xF4 \<Longrightarrow> utf8_valid (a # b # c # d # s) \<longleftrightarrow> utf8_char [a, b, c, d] \<and> utf8_valid s"
  by (auto simp: utf8_valid.simps(2) [of a] utf8_char_def utf8_cont_def byte_nat)

lemma utf8_valid_cases:
  assumes "utf8_valid (a # s)"
  obtains "a < 0x80" | b s2 where "0xC2 \<le> a \<and> a \<le> 0xDF" "s = b # s2"
    | b c s3 where "0xE0 \<le> a \<and> a \<le> 0xEF" "s = b # c # s3"
    | b c d s4 where "0xF0 \<le> a \<and> a \<le> 0xF4" "s = b # c # d # s4"
  using assms by (auto simp: utf8_valid.simps(2) [of a] byte_nat split: list.split_asm if_split_asm)

lemma utf8_valid_char:
  assumes "utf8_char c"
  shows "utf8_valid (c @ rest) = utf8_valid rest"
proof -
  consider (1) a where "c = [a]" | (2) a b where "c = [a, b]" | (3) a b d where "c = [a, b, d]"
    | (4) a b d e where "c = [a, b, d, e]"
    using assms by (auto simp: utf8_char_def split: list.split_asm)
  then show ?thesis
  proof cases
    case 1
    then show ?thesis using assms by (simp add: utf8_char_def)
  next
    case 2
    then show ?thesis using assms utf8_valid_2 [of a b rest] by (simp add: utf8_char_def)
  next
    case 3
    then show ?thesis using assms utf8_valid_3 [of a b d rest] by (simp add: utf8_char_def)
  next
    case 4
    then show ?thesis using assms utf8_valid_4 [of a b d e rest] by (simp add: utf8_char_def)
  qed
qed

lemma utf8_valid_concat: "list_all utf8_char cs \<Longrightarrow> utf8_valid (concat cs)"
  by (induction cs) (simp_all add: utf8_valid_char)

lemma utf8_valid_first:
  assumes "utf8_valid bs" "bs \<noteq> []"
  shows "\<exists>c rest. bs = c @ rest \<and> utf8_char c \<and> utf8_valid rest"
proof -
  obtain a s where bs: "bs = a # s" using assms(2) by (cases bs) auto
  from assms(1) [unfolded bs] show ?thesis
  proof (cases rule: utf8_valid_cases)
    case 1
    then show ?thesis using assms(1) by (intro exI [of _ "[a]"] exI [of _ s]) (simp add: bs utf8_char_def)
  next
    case (2 b s2)
    then show ?thesis using assms(1) utf8_valid_2 [of a b s2] by (intro exI [of _ "[a, b]"] exI [of _ s2]) (simp add: bs)
  next
    case (3 b c s3)
    then show ?thesis using assms(1) utf8_valid_3 [of a b c s3] by (intro exI [of _ "[a, b, c]"] exI [of _ s3]) (simp add: bs)
  next
    case (4 b c d s4)
    then show ?thesis using assms(1) utf8_valid_4 [of a b c d s4]
      by (intro exI [of _ "[a, b, c, d]"] exI [of _ s4]) (simp add: bs)
  qed
qed

lemma utf8_valid_split: "utf8_valid bs \<Longrightarrow> \<exists>cs. list_all utf8_char cs \<and> concat cs = bs"
proof (induction "length bs" arbitrary: bs rule: less_induct)
  case less
  show ?case
  proof (cases "bs = []")
    case False
    obtain c rest where c: "bs = c @ rest" "utf8_char c" "utf8_valid rest" using utf8_valid_first [OF less.prems False] by blast
    have "length rest < length bs" using c(1,2) by (auto elim!: utf8_charE)
    then obtain cs where "list_all utf8_char cs" "concat cs = rest" using less.hyps [OF _ c(3)] by blast
    then show ?thesis using c by (intro exI [of _ "c # cs"]) simp
  qed (auto intro: exI [of _ "[]"])
qed

lemma utf8_valid_iff: "utf8_valid bs \<longleftrightarrow> (\<exists>cs. list_all utf8_char cs \<and> concat cs = bs)"
  using utf8_valid_split utf8_valid_concat by blast

section \<open>Operations on the characters\<close>

lemma while_none: "ys = [] \<or> \<not> P (hd ys) \<Longrightarrow> takeWhile P ys = [] \<and> dropWhile P ys = ys"
  by (cases ys) auto

lemma chars_concat: "list_all utf8_char cs \<Longrightarrow> chars (concat cs) = cs"
proof (induction cs)
  case (Cons c cs)
  then obtain a rest where c: "c = a # rest" "\<forall>b \<in> set rest. utf8_cont b" by (auto elim: utf8_charE)
  have "concat cs = [] \<or> \<not> utf8_cont (hd (concat cs))"
  proof (cases cs)
    case (Cons d ds)
    then show ?thesis using Cons.prems by (auto elim!: utf8_charE)
  qed simp
  then have "takeWhile utf8_cont (rest @ concat cs) = rest" "dropWhile utf8_cont (rest @ concat cs) = concat cs"
    using c(2) while_none [of "concat cs" utf8_cont] by (simp_all add: takeWhile_append2 dropWhile_append2)
  then show ?case using Cons c by simp
qed simp

lemma boundary_concat:
  assumes "list_all utf8_char cs" "list_all utf8_char ds"
  shows "is_char_boundary (concat cs @ concat ds) (length (concat cs))"
proof (cases ds)
  case (Cons d ds')
  then show ?thesis using assms by (auto simp: is_char_boundary_def nth_append elim!: utf8_charE)
qed (simp add: is_char_boundary_def)

lemma utf8_nl: "utf8_char c \<Longrightarrow> b \<in> set c \<Longrightarrow> b < 0x80 \<Longrightarrow> c = [b]"
  by (fastforce simp: utf8_cont_def byte_nat elim!: utf8_charE)

text \<open>Searching for a newline: the bytes before the first one are the characters before it.\<close>

definition nl :: "byte list" where "nl = [0x0A]"

lemma nl_in_char: "utf8_char c \<Longrightarrow> 0x0A \<in> set c \<longleftrightarrow> c = nl"
  using utf8_nl [of c "0x0A"] by (auto simp: nl_def)

lemma position_concat:
  assumes "list_all utf8_char cs"
  shows "position (\<lambda>b. b = 0x0A) (concat cs) = map_option (\<lambda>k. length (concat (take k cs))) (position (\<lambda>c. c = nl) cs)"
  using assms
proof (induction cs)
  case (Cons c cs)
  have skip: "position P (xs @ ys) = map_option (\<lambda>i. length xs + i) (position P ys)" if "\<forall>x \<in> set xs. \<not> P x"
    for P and xs ys :: "byte list"
    using that by (induction xs) (cases "position P ys"; simp)+
  show ?case
  proof (cases "c = nl")
    case False
    then have "\<forall>x \<in> set c. x \<noteq> 0x0A" using nl_in_char Cons.prems by auto
    then show ?thesis using Cons False by (simp add: skip option.map_comp comp_def)
  qed (simp add: nl_def)
qed simp

end
