(* ===== verification/Shell_Editor.thy ===== *)
theory Shell_Editor
  imports Utf8_Chars
begin

text \<open>
  The file editor of \<open>shell/mod.rs\<close>: \<open>TextEditor\<close> over a buffer of UTF-8 bytes, and the session of
  \<open>edit_disk_file\<close> that opens a file, handles keys and saves. \<open>None\<close> is a panic: a buffer that is not
  UTF-8, or a slice off a character boundary. The editor refines a list of characters with a cursor
  between two of them. The file system is a parameter.
\<close>

definition EDITOR_MAX_BYTES :: nat where "EDITOR_MAX_BYTES = 12 * 1024"

record TextEditor =
  te_bytes :: "byte list"
  te_cursor :: nat
  te_dirty :: bool

section \<open>The editor\<close>

definition te_insert :: "byte \<Rightarrow> TextEditor \<Rightarrow> (bool \<times> TextEditor) option" where
  "te_insert b e =
    (if EDITOR_MAX_BYTES \<le> length (te_bytes e) then Some (False, e)
     else if length (te_bytes e) < te_cursor e then None
     else Some (True, e\<lparr>te_bytes := take (te_cursor e) (te_bytes e) @ b # drop (te_cursor e) (te_bytes e),
       te_cursor := te_cursor e + 1, te_dirty := True\<rparr>))"

text \<open>The loops of \<open>previous_boundary\<close> and \<open>next_boundary\<close>.\<close>

fun boundary_down :: "byte list \<Rightarrow> nat \<Rightarrow> nat" where
  "boundary_down text 0 = 0"
| "boundary_down text (Suc i) = (if is_char_boundary text (Suc i) then Suc i else boundary_down text i)"

function boundary_up :: "byte list \<Rightarrow> nat \<Rightarrow> nat" where
  "boundary_up text i = (if i < length text \<and> \<not> is_char_boundary text i then boundary_up text (i + 1) else i)"
  by pat_completeness auto
termination by (relation "measure (\<lambda>(text, i). length text - i)") auto

definition te_previous_boundary :: "TextEditor \<Rightarrow> nat option" where
  "te_previous_boundary e =
    (if utf8_valid (te_bytes e) then Some (boundary_down (te_bytes e) (te_cursor e - 1)) else None)"

definition te_next_boundary :: "TextEditor \<Rightarrow> nat option" where
  "te_next_boundary e =
    (if utf8_valid (te_bytes e) then Some (boundary_up (te_bytes e) (min (te_cursor e + 1) (length (te_bytes e)))) else None)"

text \<open>\<open>bytes.drain(a..b)\<close>.\<close>

definition drain_range :: "nat \<Rightarrow> nat \<Rightarrow> 'a list \<Rightarrow> 'a list option" where
  "drain_range a b xs = (if a \<le> b \<and> b \<le> length xs then Some (take a xs @ drop b xs) else None)"

definition te_backspace :: "TextEditor \<Rightarrow> (bool \<times> TextEditor) option" where
  "te_backspace e =
    (if te_cursor e = 0 then Some (False, e)
     else Option.bind (te_previous_boundary e) (\<lambda>previous.
       map_option (\<lambda>bs. (True, e\<lparr>te_bytes := bs, te_cursor := previous, te_dirty := True\<rparr>))
         (drain_range previous (te_cursor e) (te_bytes e))))"

definition te_delete :: "TextEditor \<Rightarrow> (bool \<times> TextEditor) option" where
  "te_delete e =
    (if te_cursor e = length (te_bytes e) then Some (False, e)
     else Option.bind (te_next_boundary e) (\<lambda>next_boundary.
       map_option (\<lambda>bs. (True, e\<lparr>te_bytes := bs, te_dirty := True\<rparr>))
         (drain_range (te_cursor e) next_boundary (te_bytes e))))"

definition te_move_left :: "TextEditor \<Rightarrow> (bool \<times> TextEditor) option" where
  "te_move_left e =
    (if te_cursor e = 0 then Some (False, e)
     else map_option (\<lambda>i. (True, e\<lparr>te_cursor := i\<rparr>)) (te_previous_boundary e))"

definition te_move_right :: "TextEditor \<Rightarrow> (bool \<times> TextEditor) option" where
  "te_move_right e =
    (if te_cursor e = length (te_bytes e) then Some (False, e)
     else map_option (\<lambda>i. (True, e\<lparr>te_cursor := i\<rparr>)) (te_next_boundary e))"

definition newline :: "byte \<Rightarrow> bool" where
  "newline b \<longleftrightarrow> b = 0x0A"

definition te_move_line_boundary :: "bool \<Rightarrow> TextEditor \<Rightarrow> (bool \<times> TextEditor) option" where
  "te_move_line_boundary to_end e =
    (if length (te_bytes e) < te_cursor e then None
     else
       let target =
         (if to_end then
            (case position newline (drop (te_cursor e) (te_bytes e)) of
               None \<Rightarrow> length (te_bytes e) | Some offset \<Rightarrow> te_cursor e + offset)
          else
            (case rposition newline (take (te_cursor e) (te_bytes e)) of None \<Rightarrow> 0 | Some offset \<Rightarrow> offset + 1))
       in Some (target \<noteq> te_cursor e, e\<lparr>te_cursor := target\<rparr>))"

text \<open>\<open>text.char_indices().nth(n)\<close>, its offset.\<close>

definition char_offset :: "byte list \<Rightarrow> nat \<Rightarrow> nat option" where
  "char_offset text n =
    (if n < length (chars text) then Some (length (concat (take n (chars text)))) else None)"

text \<open>The first byte of the line to go to: \<open>None\<close> a panic, \<open>Some None\<close> no such line.\<close>

definition vertical_target_start :: "byte list \<Rightarrow> nat \<Rightarrow> bool \<Rightarrow> nat option option" where
  "vertical_target_start text cursor down =
    Option.bind (str_slice text 0 cursor) (\<lambda>before.
      let current_start = (case rposition newline before of None \<Rightarrow> 0 | Some offset \<Rightarrow> offset + 1)
      in if down then
           map_option (\<lambda>after. map_option (\<lambda>offset. cursor + offset + 1) (position newline after))
             (str_slice text cursor (length text))
         else if 0 < current_start then
           map_option (\<lambda>above. Some (case rposition newline above of None \<Rightarrow> 0 | Some offset \<Rightarrow> offset + 1))
             (str_slice text 0 (current_start - 1))
         else Some None)"

definition vertical_cursor_target :: "byte list \<Rightarrow> nat \<Rightarrow> bool \<Rightarrow> nat option option" where
  "vertical_cursor_target text cursor down =
    Option.bind (str_slice text 0 cursor) (\<lambda>before.
      let column = length (takeWhile (\<lambda>character. character \<noteq> nl) (rev (chars before)))
      in Option.bind (vertical_target_start text cursor down) (\<lambda>start.
        case start of
          None \<Rightarrow> Some None
        | Some target_start \<Rightarrow>
            Option.bind (str_slice text target_start (length text)) (\<lambda>rest.
              let target_end = (case position newline rest of
                    None \<Rightarrow> length text | Some offset \<Rightarrow> target_start + offset)
              in map_option (\<lambda>line. Some (case char_offset line column of
                    None \<Rightarrow> target_end | Some offset \<Rightarrow> target_start + offset))
                  (str_slice text target_start target_end))))"

definition te_move_vertical :: "bool \<Rightarrow> TextEditor \<Rightarrow> (bool \<times> TextEditor) option" where
  "te_move_vertical down e =
    (if \<not> utf8_valid (te_bytes e) then None
     else map_option (\<lambda>target. case target of
          None \<Rightarrow> (False, e)
        | Some i \<Rightarrow> (i \<noteq> te_cursor e, e\<lparr>te_cursor := i\<rparr>))
       (vertical_cursor_target (te_bytes e) (te_cursor e) down))"

text \<open>The loop of \<open>move_page\<close>, at most \<open>n\<close> rounds.\<close>

fun te_page :: "nat \<Rightarrow> bool \<Rightarrow> bool \<Rightarrow> TextEditor \<Rightarrow> (bool \<times> TextEditor) option" where
  "te_page 0 down moved e = Some (moved, e)"
| "te_page (Suc n) down moved e = Option.bind (te_move_vertical down e) (\<lambda>(changed, e1).
    if changed then te_page n down True e1 else Some (moved, e1))"

definition te_move_page :: "bool \<Rightarrow> TextEditor \<Rightarrow> (bool \<times> TextEditor) option" where
  "te_move_page down e = te_page 12 down False e"

section \<open>The session\<close>

text \<open>The file system: whether a directory exists, the bytes read with the size of the file, and the
  disk after a write.\<close>

record ('d, 'e) EditorDisk =
  ed_directory_exists :: "byte list \<Rightarrow> 'd \<Rightarrow> 'e + bool"
  ed_read_file :: "byte list \<Rightarrow> nat \<Rightarrow> 'd \<Rightarrow> 'e + (byte list \<times> nat) option"
  ed_write_file :: "byte list \<Rightarrow> byte list \<Rightarrow> 'd \<Rightarrow> ('e + unit) \<times> 'd"

definition ext2_parent_path :: "byte list \<Rightarrow> byte list" where
  "ext2_parent_path path = (case rposition (\<lambda>b. b = 0x2F) path of None \<Rightarrow> [] | Some separator \<Rightarrow> take separator path)"

definition unsafe_component :: "byte list \<Rightarrow> bool" where
  "unsafe_component c \<longleftrightarrow> c = [] \<or> 255 < length c \<or> c = ascii ''.'' \<or> c = ascii ''..''
    \<or> \<not> list_all (\<lambda>b. is_ascii_alphanumeric b \<or> b \<in> {0x2E, 0x5F, 0x2D}) c"

definition open_editor :: "('d, 'e) EditorDisk \<Rightarrow> byte list \<Rightarrow> 'd \<Rightarrow> TextEditor option" where
  "open_editor D name d =
    (if name = [] \<or> list_ex unsafe_component (split_on (\<lambda>b. b = 0x2F) name) then None
     else case ed_directory_exists D (ext2_parent_path name) d of
       Inl _ \<Rightarrow> None
     | Inr False \<Rightarrow> None
     | Inr True \<Rightarrow>
         case (case ed_read_file D name EDITOR_MAX_BYTES d of
             Inr (Some (copied, full_size)) \<Rightarrow> if full_size \<le> EDITOR_MAX_BYTES then Some copied else None
           | Inr None \<Rightarrow> Some []
           | Inl _ \<Rightarrow> None) of
           None \<Rightarrow> None
         | Some bytes \<Rightarrow>
             if \<not> utf8_valid bytes then None
             else Some \<lparr>te_bytes = bytes, te_cursor = length bytes, te_dirty = False\<rparr>)"

text \<open>The keys that edit or move; 0x13 saves and 0x11 and 0x1B leave.\<close>

definition editor_key :: "byte \<Rightarrow> TextEditor \<Rightarrow> (bool \<times> TextEditor) option" where
  "editor_key key e =
    (if key = 0x0A then te_insert 0x0A e
     else if key = 0x08 then te_backspace e
     else if key = 0x80 then te_move_left e
     else if key = 0x81 then te_move_right e
     else if key = 0x82 then te_move_vertical False e
     else if key = 0x83 then te_move_vertical True e
     else if key = 0x87 then te_move_page False e
     else if key = 0x88 then te_move_page True e
     else if key = 0x84 then te_move_line_boundary False e
     else if key = 0x85 then te_move_line_boundary True e
     else if key = 0x86 then te_delete e
     else if 0x20 \<le> key \<and> key \<le> 0x7E then te_insert key e
     else Some (False, e))"

text \<open>A session on the keys typed so far, with the disk: it may have ended, or wait for a key, in the
  text or at the question whether to discard the changes.\<close>

datatype SessionState =
    SessionSaved
  | SessionDiscarded
  | SessionClosed
  | SessionEditing TextEditor
  | SessionConfirming TextEditor

definition is_y :: "byte \<Rightarrow> bool" where
  "is_y b \<longleftrightarrow> b = 0x79 \<or> b = 0x59"

definition session_key :: "('d, 'e) EditorDisk \<Rightarrow> byte list \<Rightarrow> byte \<Rightarrow> SessionState \<Rightarrow> 'd \<Rightarrow> (SessionState \<times> 'd) option" where
  "session_key D name key s d = (case s of
      SessionEditing e \<Rightarrow>
        if key = 0x13 then
          (case ed_write_file D name (te_bytes e) d of
             (Inr _, d') \<Rightarrow> Some (SessionSaved, d')
           | (Inl _, d') \<Rightarrow> Some (SessionEditing e, d'))
        else if key = 0x11 \<or> key = 0x1B then
          if te_dirty e then Some (SessionConfirming e, d) else Some (SessionClosed, d)
        else map_option (\<lambda>(_, e'). (SessionEditing e', d)) (editor_key key e)
    | SessionConfirming e \<Rightarrow> Some (if is_y key then SessionDiscarded else SessionEditing e, d)
    | _ \<Rightarrow> Some (s, d))"

fun session_keys :: "('d, 'e) EditorDisk \<Rightarrow> byte list \<Rightarrow> byte list \<Rightarrow> SessionState \<Rightarrow> 'd \<Rightarrow> (SessionState \<times> 'd) option" where
  "session_keys D name [] s d = Some (s, d)"
| "session_keys D name (key # keys) s d =
    Option.bind (session_key D name key s d) (\<lambda>(s', d'). session_keys D name keys s' d')"

declare boundary_up.simps [simp del]

section \<open>The characters of the buffer\<close>

text \<open>The byte offset of the character with index \<open>k\<close>.\<close>

definition off :: "byte list list \<Rightarrow> nat \<Rightarrow> nat" where
  "off cs k = length (concat (take k cs))"

definition te_shows :: "TextEditor \<Rightarrow> byte list list \<Rightarrow> nat \<Rightarrow> bool" where
  "te_shows e cs k \<longleftrightarrow> list_all utf8_char cs \<and> k \<le> length cs \<and> te_bytes e = concat cs
    \<and> te_cursor e = off cs k \<and> length (te_bytes e) \<le> EDITOR_MAX_BYTES"

lemma off_0 [simp]: "off cs 0 = 0"
  by (simp add: off_def)

lemma off_Suc: "k < length cs \<Longrightarrow> off cs (Suc k) = off cs k + length (cs ! k)"
  by (simp add: off_def take_Suc_conv_app_nth)

lemma off_length [simp]: "off cs (length cs) = length (concat cs)"
  by (simp add: off_def)

lemma split_concat: "concat cs = concat (take k cs) @ concat (drop k cs)"
  by (metis append_take_drop_id concat_append)

lemma take_off [simp]: "take (off cs k) (concat cs) = concat (take k cs)"
  by (subst split_concat [of cs k]) (simp add: off_def)

lemma drop_off [simp]: "drop (off cs k) (concat cs) = concat (drop k cs)"
  by (subst split_concat [of cs k]) (simp add: off_def)

lemma off_le: "off cs k \<le> length (concat cs)"
  by (subst split_concat [of cs k]) (simp add: off_def)

lemma off_add: "off cs (k + n) = off cs k + off (drop k cs) n"
  by (simp add: off_def take_add)

lemma off_take: "n \<le> k \<Longrightarrow> off (take k cs) n = off cs n"
  by (simp add: off_def min_absorb1)

lemma off_less:
  assumes "list_all utf8_char cs" "k < length cs"
  shows "off cs k < off cs (Suc k)"
proof -
  have "utf8_char (cs ! k)" using assms by (simp add: list_all_length)
  then have "cs ! k \<noteq> []" by (auto elim: utf8_charE)
  then show ?thesis using assms by (simp add: off_Suc)
qed

lemma off_boundary: "list_all utf8_char cs \<Longrightarrow> is_char_boundary (concat cs) (off cs k)"
  using boundary_concat [of "take k cs" "drop k cs"]
  by (simp add: off_def list_all_iff flip: split_concat) (meson in_set_dropD in_set_takeD)

lemma te_shows_valid: "te_shows e cs k \<Longrightarrow> utf8_valid (te_bytes e)"
  by (simp add: te_shows_def utf8_valid_concat)

lemma te_shows_slice:
  assumes "list_all utf8_char cs" "j \<le> k"
  shows "str_slice (concat cs) (off cs j) (off cs k) = Some (concat (take (k - j) (drop j cs)))"
proof -
  have "off cs j \<le> off cs k" using assms(2) off_add [of cs j "k - j"] by simp
  moreover have "slice (concat cs) (off cs j) (off cs k) = concat (take (k - j) (drop j cs))"
  proof -
    have "off cs k - off cs j = off (drop j cs) (k - j)" using assms(2) off_add [of cs j "k - j"] by simp
    then show ?thesis by (simp add: slice_def)
  qed
  ultimately show ?thesis using off_boundary [OF assms(1)] off_le [of cs k] by (simp add: str_slice_def)
qed

text \<open>Inside a character every byte but the first is a continuation byte.\<close>

lemma inside_char:
  assumes "list_all utf8_char cs" "k < length cs" "off cs k < i" "i < off cs (Suc k)"
  shows "\<not> is_char_boundary (concat cs) i"
proof -
  have c: "utf8_char (cs ! k)" using assms by (simp add: list_all_length)
  have "concat cs ! i = concat (drop k cs) ! (i - off cs k)"
    using assms(3) off_le [of cs k] by (subst split_concat [of cs k]) (simp add: nth_append off_def)
  also have "\<dots> = cs ! k ! (i - off cs k)"
    using assms less_diff_conv2 by (simp add: off_Suc nth_append flip: Cons_nth_drop_Suc)
  finally have i: "concat cs ! i = cs ! k ! (i - off cs k)" .
  have "utf8_cont (cs ! k ! (i - off cs k))"
    using c assms by (auto simp: off_Suc nth_Cons' elim!: utf8_charE)
  moreover have "i < length (concat cs)" using assms(4) off_le [of cs "Suc k"] by simp
  ultimately show ?thesis using i assms(3) by (auto simp: is_char_boundary_def)
qed

lemma boundary_down_char:
  assumes "list_all utf8_char cs" "k < length cs" "off cs k \<le> i" "i < off cs (Suc k)"
  shows "boundary_down (concat cs) i = off cs k"
  using assms(3,4)
proof (induction i)
  case (Suc i)
  show ?case
  proof (cases "off cs k = Suc i")
    case True
    then show ?thesis using off_boundary [OF assms(1), of k] by simp
  next
    case False
    then show ?thesis using Suc inside_char [OF assms(1,2), of "Suc i"] by simp
  qed
qed simp

lemma boundary_up_char:
  assumes "list_all utf8_char cs" "k < length cs" "off cs k < i" "i \<le> off cs (Suc k)"
  shows "boundary_up (concat cs) i = off cs (Suc k)"
  using assms(3,4)
proof (induction "off cs (Suc k) - i" arbitrary: i)
  case 0
  then have "i = off cs (Suc k)" by simp
  then show ?case using off_boundary [OF assms(1), of "Suc k"] by (simp add: boundary_up.simps)
next
  case (Suc n)
  have i: "i < off cs (Suc k)" using Suc by simp
  then have "boundary_up (concat cs) i = boundary_up (concat cs) (i + 1)"
    using inside_char [OF assms(1,2) Suc(3) i] off_le [of cs "Suc k"] by (subst boundary_up.simps) simp
  then show ?case using Suc i by simp
qed

lemma te_previous:
  assumes "te_shows e cs (Suc k)"
  shows "te_previous_boundary e = Some (off cs k)"
proof -
  have cs: "list_all utf8_char cs" "k < length cs" "te_bytes e = concat cs" "te_cursor e = off cs (Suc k)"
    using assms by (auto simp: te_shows_def)
  then show ?thesis
    using te_shows_valid [OF assms] off_less [OF cs(1,2)] boundary_down_char [OF cs(1,2)]
    by (simp add: te_previous_boundary_def)
qed

lemma te_next:
  assumes "te_shows e cs k" "k < length cs"
  shows "te_next_boundary e = Some (off cs (Suc k))"
proof -
  have cs: "list_all utf8_char cs" "te_bytes e = concat cs" "te_cursor e = off cs k"
    using assms by (auto simp: te_shows_def)
  then show ?thesis
    using te_shows_valid [OF assms(1)] off_less [OF cs(1) assms(2)] boundary_up_char [OF cs(1) assms(2)] off_le [of cs "Suc k"]
    by (simp add: te_next_boundary_def)
qed

lemma te_cursor_0: "te_shows e cs k \<Longrightarrow> te_cursor e = 0 \<longleftrightarrow> k = 0"
  using off_less [of cs "k - 1"] by (cases k) (auto simp: te_shows_def)

lemma te_cursor_end: "te_shows e cs k \<Longrightarrow> te_cursor e = length (te_bytes e) \<longleftrightarrow> k = length cs"
  using off_less [of cs k] off_le [of cs "Suc k"] by (cases "k < length cs") (auto simp: te_shows_def)

section \<open>Editing\<close>

lemma list_all_take_drop: "list_all P xs \<Longrightarrow> list_all P (take n xs) \<and> list_all P (drop n xs)"
  by (auto simp: list_all_iff dest: in_set_takeD in_set_dropD)

lemma off_append: "k \<le> length cs \<Longrightarrow> off (take k cs @ ds) k = off cs k" "off (cs @ ds) (length cs + n) = off cs (length cs) + off ds n"
  by (simp_all add: off_def)

lemma te_insert_shows:
  assumes "te_shows e cs k" "length (te_bytes e) < EDITOR_MAX_BYTES" "b < 0x80"
  shows "\<exists>e'. te_insert b e = Some (True, e') \<and> te_shows e' (take k cs @ [b] # drop k cs) (Suc k)"
proof -
  have cs: "list_all utf8_char cs" "k \<le> length cs" "te_bytes e = concat cs" "te_cursor e = off cs k"
    using assms(1) by (auto simp: te_shows_def)
  have "off (take k cs @ [b] # drop k cs) (Suc k) = off cs k + 1"
    using cs(2) by (simp add: off_Suc nth_append off_append)
  moreover have "Suc (off cs k + length (concat (drop k cs))) \<le> EDITOR_MAX_BYTES"
    using assms(2) cs(3) by (subst (asm) split_concat [of cs k]) (simp add: off_def)
  ultimately show ?thesis
    using assms(2,3) cs off_le [of cs k] list_all_take_drop [OF cs(1), of k]
    by (simp add: te_insert_def te_shows_def utf8_char_ascii) (simp add: off_def)
qed

lemma te_insert_full: "te_shows e cs k \<Longrightarrow> length (te_bytes e) = EDITOR_MAX_BYTES \<Longrightarrow> te_insert b e = Some (False, e)"
  by (simp add: te_insert_def)

lemma te_drain_shows:
  assumes "te_shows e cs j" "k < length cs"
  shows "drain_range (off cs k) (off cs (Suc k)) (te_bytes e) = Some (concat (take k cs @ drop (Suc k) cs))"
    "te_shows (e\<lparr>te_bytes := concat (take k cs @ drop (Suc k) cs), te_cursor := off cs k, te_dirty := d\<rparr>)
      (take k cs @ drop (Suc k) cs) k"
proof -
  have cs: "list_all utf8_char cs" "te_bytes e = concat cs" "length (concat cs) \<le> EDITOR_MAX_BYTES"
    using assms(1) by (auto simp: te_shows_def)
  show "drain_range (off cs k) (off cs (Suc k)) (te_bytes e) = Some (concat (take k cs @ drop (Suc k) cs))"
    using off_less [OF cs(1) assms(2)] off_le [of cs "Suc k"] by (simp add: drain_range_def cs(2))
  have "length (concat (take k cs @ drop (Suc k) cs)) \<le> length (concat cs)"
    using assms(2) by (subst id_take_nth_drop [of k cs]) simp_all
  then show "te_shows (e\<lparr>te_bytes := concat (take k cs @ drop (Suc k) cs), te_cursor := off cs k, te_dirty := d\<rparr>)
      (take k cs @ drop (Suc k) cs) k"
    using assms(2) cs list_all_take_drop [OF cs(1), of k] list_all_take_drop [OF cs(1), of "Suc k"]
    unfolding te_shows_def by (simp add: off_append)
qed

lemma te_backspace_shows:
  assumes "te_shows e cs (Suc k)"
  shows "\<exists>e'. te_backspace e = Some (True, e') \<and> te_shows e' (take k cs @ drop (Suc k) cs) k"
proof -
  have k: "k < length cs" "te_cursor e = off cs (Suc k)" using assms by (auto simp: te_shows_def)
  show ?thesis
    using te_cursor_0 [OF assms] te_previous [OF assms] te_drain_shows [OF assms k(1)] k(2)
    by (simp add: te_backspace_def)
qed

lemma te_delete_shows:
  assumes "te_shows e cs k" "k < length cs"
  shows "\<exists>e'. te_delete e = Some (True, e') \<and> te_shows e' (take k cs @ drop (Suc k) cs) k"
proof -
  have c: "te_cursor e = off cs k" using assms by (auto simp: te_shows_def)
  show ?thesis
    using te_cursor_end [OF assms(1)] te_next [OF assms] te_drain_shows(1) [OF assms]
      te_drain_shows(2) [OF assms, of True, unfolded c [symmetric], simplified] assms(2)
    by (simp add: te_delete_def c)
qed

lemma te_edges:
  assumes "te_shows e cs k"
  shows "k = 0 \<Longrightarrow> te_backspace e = Some (False, e)" "k = 0 \<Longrightarrow> te_move_left e = Some (False, e)"
    "k = length cs \<Longrightarrow> te_delete e = Some (False, e)" "k = length cs \<Longrightarrow> te_move_right e = Some (False, e)"
  using te_cursor_0 [OF assms] te_cursor_end [OF assms]
  by (simp_all add: te_backspace_def te_move_left_def te_delete_def te_move_right_def)

lemma te_cursor_shows: "te_shows e cs k \<Longrightarrow> j \<le> length cs \<Longrightarrow> te_shows (e\<lparr>te_cursor := off cs j\<rparr>) cs j"
  by (auto simp: te_shows_def)

lemma te_moves:
  "te_shows e cs (Suc k) \<Longrightarrow> \<exists>e'. te_move_left e = Some (True, e') \<and> te_shows e' cs k"
  "te_shows e cs k \<Longrightarrow> k < length cs \<Longrightarrow> \<exists>e'. te_move_right e = Some (True, e') \<and> te_shows e' cs (Suc k)"
proof -
  assume s: "te_shows e cs (Suc k)"
  then have "k \<le> length cs" by (simp add: te_shows_def)
  then show "\<exists>e'. te_move_left e = Some (True, e') \<and> te_shows e' cs k"
    using te_cursor_0 [OF s] te_previous [OF s] te_cursor_shows [OF s] by (simp add: te_move_left_def)
next
  assume s: "te_shows e cs k" and k: "k < length cs"
  then show "\<exists>e'. te_move_right e = Some (True, e') \<and> te_shows e' cs (Suc k)"
    using te_cursor_end [OF s] te_next [OF s k] te_cursor_shows [OF s, of "Suc k"] by (simp add: te_move_right_def)
qed

section \<open>Lines\<close>

text \<open>The line of the cursor: the characters before it back to the last newline, and after it up to
  the next.\<close>

definition column :: "byte list list \<Rightarrow> nat \<Rightarrow> nat" where
  "column cs k = length (takeWhile (\<lambda>c. c \<noteq> nl) (rev (take k cs)))"

definition line_rest :: "byte list list \<Rightarrow> nat \<Rightarrow> nat" where
  "line_rest cs k = length (takeWhile (\<lambda>c. c \<noteq> nl) (drop k cs))"

lemma column_le: "column cs k \<le> k"
  by (simp add: column_def) (metis length_rev length_take length_takeWhile_le min.cobounded2 le_trans)

lemma line_rest_le: "k \<le> length cs \<Longrightarrow> k + line_rest cs k \<le> length cs"
  using length_takeWhile_le [of "\<lambda>c. c \<noteq> nl" "drop k cs"] by (simp add: line_rest_def)

lemma position_takeWhile:
  "position P xs = (if length (takeWhile (\<lambda>x. \<not> P x) xs) = length xs then None else Some (length (takeWhile (\<lambda>x. \<not> P x) xs)))"
  by (induction xs) auto

lemma newline_position:
  assumes "list_all utf8_char cs" "k \<le> length cs"
  shows "(case position newline (concat (drop k cs)) of None \<Rightarrow> length (concat cs) | Some offset \<Rightarrow> off cs k + offset)
    = off cs (k + line_rest cs k)"
proof -
  have "list_all utf8_char (drop k cs)" using list_all_take_drop [OF assms(1)] by blast
  note p = position_concat [OF this]
  have n: "newline = (\<lambda>b. b = 0x0A)" by (simp add: fun_eq_iff newline_def)
  show ?thesis
    unfolding n p position_takeWhile [of "\<lambda>c. c = nl"] line_rest_def [symmetric]
    using assms(2) arg_cong [OF split_concat [of cs k], of length] by (simp add: off_add) (simp add: off_def)
qed

lemma newline_found:
  assumes "list_all utf8_char cs" "k \<le> length cs"
  shows "position newline (concat (drop k cs)) =
    (if k + line_rest cs k = length cs then None else Some (off (drop k cs) (line_rest cs k)))"
proof -
  have "list_all utf8_char (drop k cs)" using list_all_take_drop [OF assms(1)] by blast
  note p = position_concat [OF this]
  have n: "newline = (\<lambda>b. b = 0x0A)" by (simp add: fun_eq_iff newline_def)
  show ?thesis
    unfolding n p position_takeWhile [of "\<lambda>c. c = nl"] line_rest_def [symmetric]
    using assms(2) by (auto simp: off_def)
qed

lemma position_append_none: "\<forall>x \<in> set xs. \<not> P x \<Longrightarrow> position P (xs @ ys) = map_option (\<lambda>i. length xs + i) (position P ys)"
  by (induction xs) (cases "position P ys"; simp)+

lemma rposition_snoc: "rposition P (xs @ [x]) = (if P x then Some (length xs) else rposition P xs)"
  by (cases "position P (rev xs)") (auto simp: rposition_def)

lemma rposition_append_none: "\<forall>y \<in> set ys. \<not> P y \<Longrightarrow> rposition P (xs @ ys) = rposition P xs"
  by (induction ys rule: rev_induct) (auto simp: rposition_snoc simp flip: append_assoc)

lemma rposition_concat:
  assumes "list_all utf8_char cs"
  shows "(case rposition newline (concat cs) of None \<Rightarrow> 0 | Some offset \<Rightarrow> offset + 1)
    = off cs (length cs - length (takeWhile (\<lambda>c. c \<noteq> nl) (rev cs)))"
  using assms
proof (induction cs rule: rev_induct)
  case (snoc c cs)
  show ?case
  proof (cases "c = nl")
    case True
    then show ?thesis by (simp add: nl_def rposition_snoc newline_def off_def)
  next
    case False
    then have "\<forall>b \<in> set c. \<not> newline b" using nl_in_char snoc.prems by (auto simp: newline_def)
    then show ?thesis
      using snoc False length_takeWhile_le [of "\<lambda>c. c \<noteq> nl" "rev cs"]
      by (simp add: rposition_append_none Suc_diff_le) (simp add: off_def)
  qed
qed (simp add: rposition_def)

lemma line_start_position:
  assumes "list_all utf8_char cs" "k \<le> length cs"
  shows "(case rposition newline (concat (take k cs)) of None \<Rightarrow> 0 | Some offset \<Rightarrow> offset + 1) = off cs (k - column cs k)"
proof -
  have "list_all utf8_char (take k cs)" using list_all_take_drop [OF assms(1)] by blast
  from rposition_concat [OF this] show ?thesis using assms(2) by (simp add: column_def off_def min_absorb1)
qed

lemma te_line_boundary_shows:
  assumes "te_shows e cs k"
  shows "\<exists>r e'. te_move_line_boundary to_end e = Some (r, e')
    \<and> te_shows e' cs (if to_end then k + line_rest cs k else k - column cs k)"
proof -
  have cs: "list_all utf8_char cs" "k \<le> length cs" "te_bytes e = concat cs" "te_cursor e = off cs k"
    using assms(1) by (auto simp: te_shows_def)
  have "off cs k \<le> length (concat cs)" by (rule off_le)
  moreover have "k - column cs k \<le> length cs" using cs(2) by simp
  ultimately show ?thesis
    unfolding te_move_line_boundary_def Let_def cs(3,4) drop_off take_off newline_position [OF cs(1,2)]
      line_start_position [OF cs(1,2)]
    using te_cursor_shows [OF assms] line_rest_le [OF cs(2)] by simp
qed

text \<open>The character to go to, one line up or down: the same column, or the end of a shorter line.\<close>

definition vertical_start :: "byte list list \<Rightarrow> nat \<Rightarrow> bool \<Rightarrow> nat option" where
  "vertical_start cs k down =
    (if down then (if k + line_rest cs k = length cs then None else Some (k + line_rest cs k + 1))
     else if k - column cs k = 0 then None
     else Some (k - column cs k - 1 - column cs (k - column cs k - 1)))"

definition vertical_char :: "byte list list \<Rightarrow> nat \<Rightarrow> bool \<Rightarrow> nat option" where
  "vertical_char cs k down =
    map_option (\<lambda>start. start + min (column cs k) (line_rest cs start)) (vertical_start cs k down)"

definition vertical_to :: "byte list list \<Rightarrow> nat \<Rightarrow> bool \<Rightarrow> nat" where
  "vertical_to cs k down = (case vertical_char cs k down of None \<Rightarrow> k | Some t \<Rightarrow> t)"

lemma vertical_start_le: "k \<le> length cs \<Longrightarrow> vertical_start cs k down = Some t \<Longrightarrow> t \<le> length cs"
  using line_rest_le [of k cs] by (auto simp: vertical_start_def split: if_split_asm)

lemma vertical_char_le: "k \<le> length cs \<Longrightarrow> vertical_char cs k down = Some t \<Longrightarrow> t \<le> length cs"
  using line_rest_le vertical_start_le by (fastforce simp: vertical_char_def)

lemma line_start_newline:
  assumes "0 < k - column cs k" "k \<le> length cs"
  shows "cs ! (k - column cs k - 1) = nl"
proof -
  let ?xs = "rev (take k cs)"
  have l: "length (takeWhile (\<lambda>c. c \<noteq> nl) ?xs) < length ?xs" using assms by (simp add: column_def)
  have "?xs ! length (takeWhile (\<lambda>c. c \<noteq> nl) ?xs) = nl" using nth_length_takeWhile [OF l] by simp
  then show ?thesis using l assms(2) by (simp add: rev_nth column_def nth_take)
qed

lemma line_end_newline:
  assumes "k + line_rest cs k < length cs"
  shows "cs ! (k + line_rest cs k) = nl"
proof -
  have l: "length (takeWhile (\<lambda>c. c \<noteq> nl) (drop k cs)) < length (drop k cs)" using assms by (simp add: line_rest_def)
  show ?thesis using nth_length_takeWhile [OF l] assms by (simp add: line_rest_def)
qed

lemma off_newline: "k < length cs \<Longrightarrow> cs ! k = nl \<Longrightarrow> off cs (Suc k) = off cs k + 1"
  by (simp add: off_Suc nl_def)

lemma off_pos: "list_all utf8_char cs \<Longrightarrow> k \<le> length cs \<Longrightarrow> 0 < off cs k \<longleftrightarrow> 0 < k"
  using off_less [of cs "k - 1"] by (cases k) auto

lemma slice_to:
  "list_all utf8_char cs \<Longrightarrow> str_slice (concat cs) 0 (off cs k) = Some (concat (take k cs))"
  "list_all utf8_char cs \<Longrightarrow> k \<le> length cs \<Longrightarrow> str_slice (concat cs) (off cs k) (length (concat cs)) = Some (concat (drop k cs))"
  using te_shows_slice [of cs 0 k] te_shows_slice [of cs k "length cs"] by simp_all

lemma vertical_target_start_chars:
  assumes "list_all utf8_char cs" "k \<le> length cs"
  shows "vertical_target_start (concat cs) (off cs k) down = Some (map_option (off cs) (vertical_start cs k down))"
proof (cases down)
  case True
  have "off cs k + off (drop k cs) (line_rest cs k) + 1 = off cs (k + line_rest cs k + 1)"
    if "k + line_rest cs k < length cs"
    using that off_newline [OF that line_end_newline [OF that]] by (simp add: off_add)
  then show ?thesis
    using True assms line_rest_le [OF assms(2)]
    by (auto simp: vertical_target_start_def slice_to newline_found [OF assms] vertical_start_def)
next
  case False
  let ?s = "k - column cs k"
  have s: "?s \<le> length cs" using assms(2) by simp
  show ?thesis
  proof (cases "?s = 0")
    case True
    then show ?thesis
      using False assms by (simp add: vertical_target_start_def slice_to line_start_position [OF assms] vertical_start_def)
  next
    case gt: False
    have q: "Suc (?s - 1) = ?s" "?s - 1 < length cs" using gt assms(2) by auto
    have "cs ! (?s - 1) = nl" by (rule line_start_newline) (use gt assms(2) in auto)
    from off_newline [OF q(2) this] have "off cs ?s = off cs (?s - 1) + 1" unfolding q(1) .
    then have o: "off cs ?s - 1 = off cs (?s - 1)" "0 < off cs ?s" by auto
    have s1: "?s - 1 \<le> length cs" using s by simp
    show ?thesis
      using False gt
      unfolding vertical_target_start_def slice_to(1) [OF assms(1)] bind.simps Let_def line_start_position [OF assms] o(1)
        line_start_position [OF assms(1) s1]
      by (simp add: o(2) slice_to assms(1) vertical_start_def line_start_position [OF assms(1) s1, simplified])
  qed
qed

lemma char_offset_line:
  assumes "list_all utf8_char cs" "t \<le> length cs"
  shows "(case char_offset (concat (take (line_rest cs t) (drop t cs))) n of
      None \<Rightarrow> off cs (t + line_rest cs t) | Some offset \<Rightarrow> off cs t + offset) = off cs (t + min n (line_rest cs t))"
proof -
  let ?line = "take (line_rest cs t) (drop t cs)"
  have "list_all utf8_char ?line" using assms(1) list_all_take_drop by blast
  then have c: "chars (concat ?line) = ?line" by (rule chars_concat)
  have len: "length ?line = line_rest cs t" using line_rest_le [OF assms(2)] by simp
  show ?thesis
    unfolding char_offset_def c len using off_add [of cs t n]
    by (auto simp: off_def min_def)
qed

lemma vertical_target_chars:
  assumes "list_all utf8_char cs" "k \<le> length cs"
  shows "vertical_cursor_target (concat cs) (off cs k) down = Some (map_option (off cs) (vertical_char cs k down))"
proof -
  have "list_all utf8_char (take k cs)" using list_all_take_drop [OF assms(1)] by blast
  then have col: "length (takeWhile (\<lambda>character. character \<noteq> nl) (rev (chars (concat (take k cs))))) = column cs k"
    by (simp add: chars_concat column_def)
  show ?thesis
  proof (cases "vertical_start cs k down")
    case None
    then show ?thesis
      by (simp add: vertical_cursor_target_def slice_to(1) [OF assms(1)] vertical_target_start_chars [OF assms] vertical_char_def)
  next
    case (Some t)
    have t: "t \<le> length cs" by (rule vertical_start_le [OF assms(2) Some])
    have sl: "str_slice (concat cs) (off cs t) (off cs (t + line_rest cs t)) = Some (concat (take (line_rest cs t) (drop t cs)))"
      using te_shows_slice [OF assms(1), of t "t + line_rest cs t"] by simp
    show ?thesis
      unfolding vertical_cursor_target_def slice_to(1) [OF assms(1)] bind.simps Let_def vertical_target_start_chars [OF assms]
        Some option.map option.case slice_to(2) [OF assms(1) t] newline_position [OF assms(1) t] sl col
        char_offset_line [OF assms(1) t] vertical_char_def ..
  qed
qed

lemma off_mono: "j \<le> k \<Longrightarrow> off cs j \<le> off cs k"
  using off_add [of cs j "k - j"] by simp

lemma off_inj:
  assumes "list_all utf8_char cs" "j \<le> length cs" "k \<le> length cs"
  shows "off cs j = off cs k \<longleftrightarrow> j = k"
proof -
  have "off cs a < off cs b" if "a < b" "b \<le> length cs" for a b
    using off_less [OF assms(1), of a] off_mono [of "Suc a" b cs] that by simp
  then show ?thesis using assms(2,3) by (metis linorder_neqE_nat order_less_irrefl)
qed

lemma te_vertical_shows:
  assumes "te_shows e cs k"
  shows "\<exists>e'. te_move_vertical down e = Some (vertical_to cs k down \<noteq> k, e') \<and> te_shows e' cs (vertical_to cs k down)"
proof -
  have cs: "list_all utf8_char cs" "k \<le> length cs" "te_bytes e = concat cs" "te_cursor e = off cs k"
    using assms(1) by (auto simp: te_shows_def)
  show ?thesis
    using te_shows_valid [OF assms(1)] vertical_target_chars [OF cs(1,2), of down] vertical_char_le [OF cs(2), of down]
      te_cursor_shows [OF assms(1)] assms(1) off_inj [OF cs(1) _ cs(2)]
    by (cases "vertical_char cs k down") (auto simp: te_move_vertical_def cs(3,4) vertical_to_def)
qed

fun page_char :: "nat \<Rightarrow> byte list list \<Rightarrow> bool \<Rightarrow> nat \<Rightarrow> nat" where
  "page_char 0 cs down k = k"
| "page_char (Suc n) cs down k =
    (if vertical_to cs k down = k then k else page_char n cs down (vertical_to cs k down))"

lemma te_page_shows:
  "te_shows e cs k \<Longrightarrow> \<exists>r e'. te_page n down moved e = Some (r, e') \<and> te_shows e' cs (page_char n cs down k)"
proof (induction n arbitrary: moved e k)
  case (Suc n)
  obtain e1 where s: "te_move_vertical down e = Some (vertical_to cs k down \<noteq> k, e1)" "te_shows e1 cs (vertical_to cs k down)"
    using te_vertical_shows [OF Suc.prems, of down] by blast
  then show ?case using Suc.IH [OF s(2), of True] by auto
qed auto

section \<open>Keys on characters\<close>

text \<open>What a key does to the list of characters and the place of the cursor in it.\<close>

definition key_char :: "byte \<Rightarrow> byte list list \<times> nat \<Rightarrow> byte list list \<times> nat" where
  "key_char key = (\<lambda>(cs, k).
    if key = 0x0A \<or> 0x20 \<le> key \<and> key \<le> 0x7E then
      if length (concat cs) = EDITOR_MAX_BYTES then (cs, k) else (take k cs @ [key] # drop k cs, k + 1)
    else if key = 0x08 then if k = 0 then (cs, k) else (take (k - 1) cs @ drop k cs, k - 1)
    else if key = 0x86 then (take k cs @ drop (k + 1) cs, k)
    else if key = 0x80 then (cs, k - 1)
    else if key = 0x81 then (cs, min (k + 1) (length cs))
    else if key = 0x82 \<or> key = 0x83 then (cs, vertical_to cs k (key = 0x83))
    else if key = 0x87 \<or> key = 0x88 then (cs, page_char 12 cs (key = 0x88) k)
    else if key = 0x84 then (cs, k - column cs k)
    else if key = 0x85 then (cs, k + line_rest cs k)
    else (cs, k))"

lemma key_insert:
  assumes "te_shows e cs k" "b < 0x80"
  shows "\<exists>r e'. te_insert b e = Some (r, e')
    \<and> te_shows e' (fst (if length (concat cs) = EDITOR_MAX_BYTES then (cs, k) else (take k cs @ [b] # drop k cs, k + 1)))
        (snd (if length (concat cs) = EDITOR_MAX_BYTES then (cs, k) else (take k cs @ [b] # drop k cs, k + 1)))"
proof (cases "length (concat cs) = EDITOR_MAX_BYTES")
  case True
  then have "te_insert b e = Some (False, e)" using te_insert_full [OF assms(1)] assms(1) by (auto simp: te_shows_def)
  then show ?thesis using True assms(1) by auto
next
  case False
  then have "length (te_bytes e) < EDITOR_MAX_BYTES" using assms(1) by (auto simp: te_shows_def)
  then show ?thesis using te_insert_shows [OF assms(1) _ assms(2)] False by auto
qed

lemma key_backspace:
  assumes "te_shows e cs k"
  shows "\<exists>r e'. te_backspace e = Some (r, e')
    \<and> te_shows e' (if k = 0 then cs else take (k - 1) cs @ drop k cs) (k - 1)"
  using te_edges(1) [OF assms] te_backspace_shows [of e cs "k - 1"] assms by (cases k) auto

lemma key_delete:
  assumes "te_shows e cs k"
  shows "\<exists>r e'. te_delete e = Some (r, e') \<and> te_shows e' (take k cs @ drop (k + 1) cs) k"
proof (cases "k = length cs")
  case True
  then show ?thesis using te_edges(3) [OF assms] assms by auto
next
  case False
  then show ?thesis using te_delete_shows [OF assms] assms by (auto simp: te_shows_def)
qed

lemma key_move:
  assumes "te_shows e cs k"
  shows "\<exists>r e'. te_move_left e = Some (r, e') \<and> te_shows e' cs (k - 1)"
    "\<exists>r e'. te_move_right e = Some (r, e') \<and> te_shows e' cs (min (k + 1) (length cs))"
proof -
  show "\<exists>r e'. te_move_left e = Some (r, e') \<and> te_shows e' cs (k - 1)"
    using te_edges(2) [OF assms] te_moves(1) [of e cs "k - 1"] assms by (cases k) auto
  have "k \<le> length cs" using assms by (simp add: te_shows_def)
  then show "\<exists>r e'. te_move_right e = Some (r, e') \<and> te_shows e' cs (min (k + 1) (length cs))"
    using te_edges(4) [OF assms] te_moves(2) [OF assms] assms by (cases "k = length cs") (auto simp: min_def)
qed

lemma editor_key_shows:
  assumes "te_shows e cs k"
  shows "\<exists>r e'. editor_key key e = Some (r, e') \<and> te_shows e' (fst (key_char key (cs, k))) (snd (key_char key (cs, k)))"
proof -
  consider (insert) "key = 0x0A \<or> 0x20 \<le> key \<and> key \<le> 0x7E" | (other) "\<not> (key = 0x0A \<or> 0x20 \<le> key \<and> key \<le> 0x7E)" by blast
  then show ?thesis
  proof cases
    case insert
    have b: "key < 0x80" using insert by (auto simp: byte_nat)
    have "key \<notin> {0x08, 0x80, 0x81, 0x82, 0x83, 0x87, 0x88, 0x84, 0x85, 0x86}" using insert by (auto simp: byte_nat)
    then have k: "editor_key key e = te_insert key e" using insert by (auto simp: editor_key_def)
    show ?thesis unfolding k key_char_def using key_insert [OF assms b] insert by simp
  next
    case other
    consider "key = 0x08" | "key = 0x86" | "key = 0x80" | "key = 0x81" | "key = 0x82" | "key = 0x83" | "key = 0x87"
      | "key = 0x88" | "key = 0x84" | "key = 0x85" | "key \<notin> {0x08, 0x86, 0x80, 0x81, 0x82, 0x83, 0x87, 0x88, 0x84, 0x85}"
      by blast
    then show ?thesis
    proof cases
      case 1 then show ?thesis using key_backspace [OF assms] by (auto simp: editor_key_def key_char_def)
    next
      case 2 then show ?thesis using key_delete [OF assms] by (auto simp: editor_key_def key_char_def)
    next
      case 3 then show ?thesis using key_move(1) [OF assms] by (auto simp: editor_key_def key_char_def)
    next
      case 4 then show ?thesis using key_move(2) [OF assms] by (auto simp: editor_key_def key_char_def)
    next
      case 5 then show ?thesis using te_vertical_shows [OF assms, of False] by (auto simp: editor_key_def key_char_def)
    next
      case 6 then show ?thesis using te_vertical_shows [OF assms, of True] by (auto simp: editor_key_def key_char_def)
    next
      case 7 then show ?thesis using te_page_shows [OF assms, of 12 False False]
        by (auto simp: editor_key_def key_char_def te_move_page_def simp del: te_page.simps page_char.simps)
    next
      case 8 then show ?thesis using te_page_shows [OF assms, of 12 True False]
        by (auto simp: editor_key_def key_char_def te_move_page_def simp del: te_page.simps page_char.simps)
    next
      case 9 then show ?thesis using te_line_boundary_shows [OF assms, of False] by (auto simp: editor_key_def key_char_def)
    next
      case 10 then show ?thesis using te_line_boundary_shows [OF assms, of True] by (auto simp: editor_key_def key_char_def)
    next
      case 11
      then have "editor_key key e = Some (False, e)" "key_char key (cs, k) = (cs, k)"
        using other by (simp add: editor_key_def; blast) (use 11 other in \<open>simp add: key_char_def\<close>)
      then show ?thesis using assms by auto
    qed
  qed
qed

section \<open>Sessions\<close>

text \<open>A buffer that has not been changed since it was opened is not dirty.\<close>

definition te_ok :: "byte list \<Rightarrow> TextEditor \<Rightarrow> bool" where
  "te_ok original e \<longleftrightarrow> (\<exists>cs k. te_shows e cs k) \<and> (te_dirty e \<or> te_bytes e = original)"

definition session_ok :: "byte list \<Rightarrow> SessionState \<Rightarrow> bool" where
  "session_ok original s \<longleftrightarrow> (case s of SessionEditing e \<Rightarrow> te_ok original e | SessionConfirming e \<Rightarrow> te_ok original e | _ \<Rightarrow> True)"

lemma move_clean:
  "te_move_left e = Some (r, e') \<Longrightarrow> te_bytes e' = te_bytes e \<and> te_dirty e' = te_dirty e"
  "te_move_right e = Some (r, e') \<Longrightarrow> te_bytes e' = te_bytes e \<and> te_dirty e' = te_dirty e"
  "te_move_line_boundary b e = Some (r, e') \<Longrightarrow> te_bytes e' = te_bytes e \<and> te_dirty e' = te_dirty e"
  "te_move_vertical b e = Some (r, e') \<Longrightarrow> te_bytes e' = te_bytes e \<and> te_dirty e' = te_dirty e"
  by (auto simp: te_move_left_def te_move_right_def te_move_line_boundary_def te_move_vertical_def Let_def
      split: if_split_asm option.split_asm)

lemma page_clean:
  "te_page n b moved e = Some (r, e') \<Longrightarrow> te_bytes e' = te_bytes e \<and> te_dirty e' = te_dirty e"
proof (induction n arbitrary: moved e)
  case (Suc n)
  obtain c e1 where v: "te_move_vertical b e = Some (c, e1)" "(if c then te_page n b True e1 else Some (moved, e1)) = Some (r, e')"
    using Suc.prems by (auto simp: bind_eq_Some_conv)
  then show ?case using move_clean(4) [OF v(1)] Suc.IH [of True e1] by (cases c) auto
qed simp

lemma edit_clean:
  "te_insert b e = Some (r, e') \<Longrightarrow> te_dirty e' \<or> e' = e"
  "te_backspace e = Some (r, e') \<Longrightarrow> te_dirty e' \<or> e' = e"
  "te_delete e = Some (r, e') \<Longrightarrow> te_dirty e' \<or> e' = e"
  by (auto simp: te_insert_def te_backspace_def te_delete_def bind_eq_Some_conv split: if_split_asm)

lemma editor_key_clean:
  assumes "editor_key key e = Some (r, e')"
  shows "te_dirty e' \<or> te_bytes e' = te_bytes e \<and> te_dirty e' = te_dirty e"
  using assms move_clean(1,2) [of e r e'] move_clean(3,4) [of _ e r e'] page_clean [of 12 _ False e r e']
    edit_clean(1) [of _ e r e'] edit_clean(2,3) [of e r e']
  unfolding editor_key_def te_move_page_def by (auto split: if_split_asm simp del: te_page.simps)

lemma editor_key_ok:
  assumes "te_ok original e"
  shows "\<exists>r e'. editor_key key e = Some (r, e') \<and> te_ok original e'"
proof -
  obtain cs k where s: "te_shows e cs k" "te_dirty e \<or> te_bytes e = original" using assms by (auto simp: te_ok_def)
  obtain r e' where k: "editor_key key e = Some (r, e')" "te_shows e' (fst (key_char key (cs, k))) (snd (key_char key (cs, k)))"
    using editor_key_shows [OF s(1), of key] by blast
  then show ?thesis using editor_key_clean [OF k(1)] s(2) by (auto simp: te_ok_def)
qed

lemma session_key_ok:
  assumes "session_ok original s"
  shows "\<exists>s' d'. session_key D name key s d = Some (s', d') \<and> session_ok original s'"
proof (cases s)
  case (SessionEditing e)
  then have "te_ok original e" using assms by (simp add: session_ok_def)
  with editor_key_ok [OF this, of key] SessionEditing show ?thesis
    by (auto simp: session_key_def session_ok_def split: prod.split sum.split)
qed (use assms in \<open>auto simp: session_key_def session_ok_def\<close>)

lemma session_keys_ok:
  "session_ok original s \<Longrightarrow> \<exists>s' d'. session_keys D name keys s d = Some (s', d') \<and> session_ok original s'"
proof (induction keys arbitrary: s d)
  case (Cons key keys)
  obtain s' d' where "session_key D name key s d = Some (s', d')" "session_ok original s'"
    using session_key_ok [OF Cons.prems, of D name key d] by blast
  then show ?case using Cons.IH by simp
qed auto

text \<open>A file system that does not return more bytes than the buffer that it was given.\<close>

definition reads_fit :: "('d, 'e) EditorDisk \<Rightarrow> 'd \<Rightarrow> bool" where
  "reads_fit D d \<longleftrightarrow> (\<forall>n m bs full. ed_read_file D n m d = Inr (Some (bs, full)) \<longrightarrow> length bs \<le> m)"

lemma reads_fitD: "reads_fit D d \<Longrightarrow> ed_read_file D n m d = Inr (Some (bs, full)) \<Longrightarrow> length bs \<le> m"
  by (auto simp: reads_fit_def)

lemma open_editor_ok:
  assumes "open_editor D name d = Some e" and fits: "reads_fit D d"
  shows "session_ok (te_bytes e) (SessionEditing e)"
proof -
  have e: "utf8_valid (te_bytes e)" "te_cursor e = length (te_bytes e)" "length (te_bytes e) \<le> EDITOR_MAX_BYTES"
    using assms(1) reads_fitD [OF fits]
    by (auto simp: open_editor_def split: if_split_asm sum.split_asm bool.split_asm option.split_asm prod.split_asm)
  obtain cs where "list_all utf8_char cs" "concat cs = te_bytes e" using utf8_valid_split [OF e(1)] by blast
  then have "te_shows e cs (length cs)" using e by (simp add: te_shows_def)
  then show ?thesis by (auto simp: session_ok_def te_ok_def)
qed

section \<open>Properties\<close>

text \<open>C25. Every key acts on whole characters: on a buffer that holds the characters \<open>cs\<close> with the
  cursor before the one with index \<open>k\<close>, a key that inserts, deletes or moves, also by lines and pages,
  leads to the characters and the place that the same edit gives on the list of characters; the buffer
  stays well-formed UTF-8, at most 12288 bytes long, and nothing panics.\<close>

theorem editor_edits_characters:
  assumes "te_shows e cs k"
  shows "\<exists>r e'. editor_key key e = Some (r, e')
    \<and> te_shows e' (fst (key_char key (cs, k))) (snd (key_char key (cs, k)))
    \<and> utf8_valid (te_bytes e') \<and> is_char_boundary (te_bytes e') (te_cursor e') \<and> length (te_bytes e') \<le> 12288"
proof -
  obtain r e' where e': "editor_key key e = Some (r, e')" "te_shows e' (fst (key_char key (cs, k))) (snd (key_char key (cs, k)))"
    using editor_key_shows [OF assms, of key] by blast
  moreover have "utf8_valid (te_bytes e')" "is_char_boundary (te_bytes e') (te_cursor e')" "length (te_bytes e') \<le> 12288"
    using te_shows_valid [OF e'(2)] e'(2) off_boundary by (auto simp: te_shows_def EDITOR_MAX_BYTES_def)
  ultimately show ?thesis by blast
qed

theorem editor_edits_characters_witness:
  "\<exists>r e'. editor_key 0x08 \<lparr>te_bytes = [0xC3, 0xA9], te_cursor = 2, te_dirty = False\<rparr> = Some (r, e') \<and> te_bytes e' = []"
proof -
  have "te_shows \<lparr>te_bytes = [0xC3, 0xA9], te_cursor = 2, te_dirty = False\<rparr> [[0xC3, 0xA9]] 1"
    by (simp add: te_shows_def utf8_char_def utf8_cont_def off_def EDITOR_MAX_BYTES_def)
  from editor_edits_characters [OF this, of "0x08"] show ?thesis
    by (auto simp: key_char_def te_shows_def)
qed

text \<open>C33. Work is never lost silently: a session on any keys never panics, and when it ends it was
  saved, or the user confirmed that the changes be discarded, or it is closed with the buffer equal to
  the file as it was opened; what is saved is exactly the buffer. The file system must not return more
  bytes than the buffer that it was given.\<close>

theorem editor_session_keeps_work:
  assumes "open_editor D name d = Some e" and "reads_fit D d"
  shows "\<exists>s1 d1 s2 d2. session_keys D name keys (SessionEditing e) d = Some (s1, d1)
    \<and> session_key D name key s1 d1 = Some (s2, d2)
    \<and> (\<forall>e1. s1 = SessionEditing e1 \<longrightarrow>
        (s2 = SessionSaved \<longrightarrow> key = 0x13 \<and> ed_write_file D name (te_bytes e1) d1 = (Inr (), d2))
        \<and> (s2 = SessionClosed \<longrightarrow> te_bytes e1 = te_bytes e \<and> d2 = d1)
        \<and> s2 \<noteq> SessionDiscarded)
    \<and> (\<forall>e1. s1 = SessionConfirming e1 \<longrightarrow>
        s2 = (if is_y key then SessionDiscarded else SessionEditing e1) \<and> d2 = d1)"
proof -
  obtain s1 d1 where s1: "session_keys D name keys (SessionEditing e) d = Some (s1, d1)" "session_ok (te_bytes e) s1"
    using session_keys_ok [OF open_editor_ok [OF assms], of D name keys d] by blast
  obtain s2 d2 where s2: "session_key D name key s1 d1 = Some (s2, d2)"
    using session_key_ok [OF s1(2), of D name key d1] by blast
  show ?thesis
    using s1 s2
    by (intro exI [of _ s1] exI [of _ d1] exI [of _ s2] exI [of _ d2])
      (auto simp: session_key_def session_ok_def te_ok_def split: if_split_asm prod.split_asm sum.split_asm)
qed

definition sample_disk :: "(byte list, unit) EditorDisk" where
  "sample_disk = \<lparr>ed_directory_exists = (\<lambda>_ _. Inr True),
    ed_read_file = (\<lambda>_ m d. Inr (Some (take m d, length d))), ed_write_file = (\<lambda>_ bs _. (Inr (), bs))\<rparr>"

theorem editor_session_keeps_work_witness:
  "session_keys sample_disk (ascii ''a'') [0x62] (SessionEditing \<lparr>te_bytes = [0x61], te_cursor = 1, te_dirty = False\<rparr>) [0x61]
      = Some (SessionEditing \<lparr>te_bytes = [0x61, 0x62], te_cursor = 2, te_dirty = True\<rparr>, [0x61])
    \<and> session_key sample_disk (ascii ''a'') 0x13 (SessionEditing \<lparr>te_bytes = [0x61, 0x62], te_cursor = 2, te_dirty = True\<rparr>) [0x61]
      = Some (SessionSaved, [0x61, 0x62])"
proof -
  have o: "open_editor sample_disk (ascii ''a'') [0x61] = Some \<lparr>te_bytes = [0x61], te_cursor = 1, te_dirty = False\<rparr>"
    by (simp add: open_editor_def unsafe_component_def is_ascii_alphanumeric_def sample_disk_def EDITOR_MAX_BYTES_def)
  have k: "session_keys sample_disk (ascii ''a'') [0x62] (SessionEditing \<lparr>te_bytes = [0x61], te_cursor = 1, te_dirty = False\<rparr>) [0x61]
      = Some (SessionEditing \<lparr>te_bytes = [0x61, 0x62], te_cursor = 2, te_dirty = True\<rparr>, [0x61])"
    by (simp add: session_key_def editor_key_def te_insert_def EDITOR_MAX_BYTES_def)
  have f: "reads_fit sample_disk [0x61]" by (auto simp: reads_fit_def sample_disk_def)
  have "session_key sample_disk (ascii ''a'') 0x13 (SessionEditing \<lparr>te_bytes = [0x61, 0x62], te_cursor = 2, te_dirty = True\<rparr>) [0x61]
      = Some (SessionSaved, [0x61, 0x62])"
    by (simp add: session_key_def sample_disk_def)
  with editor_session_keeps_work [OF o f, of "[0x62]" "0x13"] k show ?thesis by auto
qed

end
