(* ===== verification/Ext2_Types.thy ===== *)
theory Ext2_Types
  imports Byte_Strings
begin

text \<open>
  The errors of the disk driver (\<open>drivers/ata.rs\<close>) and of the ext2 file system (\<open>fs/ext2.rs\<close>), which
  the program loader passes on, and little-endian encodings.
\<close>

datatype AtaError = InvalidRequest | NoDevice | Timeout | DeviceError

datatype Ext2Error =
    Disk AtaError
  | InvalidFilesystem
  | InvalidPath
  | NotFound
  | AlreadyExists
  | NotEmpty
  | NoSpace
  | Ext2AllocationFailed
  | FileTooLarge
  | RecoveryFailed
  | UnsupportedFeature
  | Ext2NotInitialized

text \<open>\<open>to_le_bytes\<close> of an integer of \<open>n\<close> bytes.\<close>

primrec le_bytes :: "nat \<Rightarrow> nat \<Rightarrow> byte list" where
  "le_bytes 0 v = []"
| "le_bytes (Suc n) v = word_of_nat v # le_bytes n (v div 256)"

lemma length_le_bytes [simp]: "length (le_bytes n v) = n"
  by (induction n arbitrary: v) auto

lemma le_nat_le_bytes: "v < 256 ^ n \<Longrightarrow> le_nat (le_bytes n v) = v"
proof (induction n arbitrary: v)
  case (Suc n)
  have "v div 256 < 256 ^ n" using Suc.prems by (simp add: less_mult_imp_div_less mult.commute)
  then have "le_nat (le_bytes n (v div 256)) = v div 256" by (rule Suc.IH)
  then show ?case by (simp add: unat_of_nat)
qed simp

lemma le_bytes_le_nat: "le_bytes (length bs) (le_nat bs) = bs"
proof (induction bs)
  case (Cons b bs)
  have b: "unat b < 256" using unsigned_less [of b] by simp
  have "(word_of_nat (unat b + 256 * le_nat bs) :: byte) = b"
    using b by (intro word_unat_eq_iff [THEN iffD2]) (simp only: unat_of_nat, simp)
  moreover have "(unat b + 256 * le_nat bs) div 256 = le_nat bs" using b by simp
  ultimately show ?case using Cons by simp
qed simp

text \<open>Writing a slice into a buffer, \<open>None\<close> when it does not fit: \<open>buffer[a..a + n].copy_from_slice\<close>.\<close>

definition put_slice :: "nat \<Rightarrow> 'a list \<Rightarrow> 'a list \<Rightarrow> 'a list option" where
  "put_slice a source xs =
    (if a + length source \<le> length xs then Some (take a xs @ source @ drop (a + length source) xs) else None)"

lemma put_slice_append: "length as = a \<Longrightarrow> length ms = length source \<Longrightarrow>
    put_slice a source (as @ ms @ bs) = Some (as @ source @ bs)"
  by (simp add: put_slice_def)

end
