(* ===== verification/User_Program.thy ===== *)
theory User_Program
  imports Task_Ops Ustar Ext2_Types
begin

text \<open>
  The program loader, \<open>user_program.rs\<close>: the \<open>.app\<close> format, the argument vector, and the mapping
  and filling of a program's pages. A frame's bytes are reached through the direct map: \<open>pm\<close> is
  the memory at direct-map addresses. The reservations of vectors, which fail when the kernel
  heap is exhausted, are outcomes given by a record. An outer \<open>None\<close> is a panic.
\<close>

section \<open>Constants, errors and programs\<close>

definition RAW_PROGRAM_BASE :: nat where "RAW_PROGRAM_BASE = USER_SPACE_START + PAGE_SIZE"
definition RAW_PROGRAM_MAX_SIZE :: nat where "RAW_PROGRAM_MAX_SIZE = 64 * 1024"
definition APP_MAGIC :: "byte list" where "APP_MAGIC = [0x4C, 0x45, 0x41, 0x46, 0x41, 0x50, 0x50, 0]"
definition APP_VERSION :: nat where "APP_VERSION = 1"
definition APP_HEADER_SIZE :: nat where "APP_HEADER_SIZE = 48"
definition APP_MAX_MEMORY_SIZE :: nat where "APP_MAX_MEMORY_SIZE = 64 * 1024"
definition MAX_PROGRAM_ARGUMENTS :: nat where "MAX_PROGRAM_ARGUMENTS = 16"
definition MAX_PROGRAM_ARGUMENT_BYTES :: nat where "MAX_PROGRAM_ARGUMENT_BYTES = 1024"
definition USER_STACK_SIZE :: nat where "USER_STACK_SIZE = 16 * 1024"
definition USER_STACK_TOP :: nat where "USER_STACK_TOP = USER_SPACE_START + 0x200000"
definition USER_STACK_ARGUMENT_RESERVE :: nat where "USER_STACK_ARGUMENT_RESERVE = 256"

datatype 'e ProgramError =
    InvalidExtension
  | FileNotFound
  | PE_FileSystem FsError
  | PE_Ext2 Ext2Error
  | EmptyImage
  | ImageTooLarge
  | InvalidAppFormat
  | UnsupportedAppVersion
  | InvalidArguments
  | PE_Memory MemoryError
  | PE_AddressSpace "'e AddressSpaceError"
  | PE_AddressSpaceCleanup "'e AddressSpaceError"
  | InvalidPhysicalAddress
  | PE_Scheduler SchedulerError

record LoadedProgram =
  lp_address_space :: AddressSpace
  lp_entry :: nat
  lp_stack :: nat
  lp_argument_count :: nat
  lp_argument_vector :: nat
  lp_data_start :: "nat option"

text \<open>The outcomes of \<open>try_reserve_exact\<close> for the argument vector and the three page lists, and of
  \<open>try_reserve\<close> in \<open>map_user_page\<close> for each page.\<close>

record Reservations =
  rv_arguments :: bool
  rv_code :: bool
  rv_data :: bool
  rv_stack :: bool
  rv_page :: "nat \<Rightarrow> bool"

definition lp_user_page_access :: "LoadedProgram \<Rightarrow> nat \<Rightarrow> UserPageAccess option" where
  "lp_user_page_access p address = user_page_access (lp_address_space p) (page_floor address)"

section \<open>The application format\<close>

record AppLayout =
  al_entry_offset :: nat
  al_code_len :: nat
  al_data_offset :: nat
  al_data_len :: nat
  al_bss_len :: nat

definition read_u16 :: "byte list \<Rightarrow> nat \<Rightarrow> nat option" where
  "read_u16 img offset = map_option le_nat (get_range img offset (offset + 2))"

definition read_u32 :: "byte list \<Rightarrow> nat \<Rightarrow> nat option" where
  "read_u32 img offset = map_option le_nat (get_range img offset (offset + 4))"

definition read_u64 :: "byte list \<Rightarrow> nat \<Rightarrow> nat option" where
  "read_u64 img offset = map_option le_nat (get_range img offset (offset + 8))"

definition parse_app_image :: "byte list \<Rightarrow> 'e ProgramError + AppLayout" where
  "parse_app_image img =
    (if length img < APP_HEADER_SIZE \<or> get_range img 0 8 \<noteq> Some APP_MAGIC then Inl InvalidAppFormat
     else bind_res (ok_or InvalidAppFormat (read_u16 img 8)) (\<lambda>version.
       if version \<noteq> APP_VERSION then Inl UnsupportedAppVersion
       else if read_u16 img 10 \<noteq> Some APP_HEADER_SIZE \<or> read_u32 img 12 \<noteq> Some 0
         then Inl InvalidAppFormat
       else bind_res (ok_or InvalidAppFormat (read_u64 img 16)) (\<lambda>entry_offset.
         bind_res (ok_or InvalidAppFormat (read_u64 img 24)) (\<lambda>code_len.
         bind_res (ok_or InvalidAppFormat (read_u64 img 32)) (\<lambda>data_len.
         bind_res (ok_or InvalidAppFormat (read_u64 img 40)) (\<lambda>bss_len.
         if code_len = 0 then Inl EmptyImage
         else if code_len \<le> entry_offset then Inl InvalidAppFormat
         else bind_res (ok_or ImageTooLarge (Option.bind (checked_add code_len data_len)
             (\<lambda>n. checked_add n bss_len))) (\<lambda>memory_size.
           if APP_MAX_MEMORY_SIZE < memory_size then Inl ImageTooLarge
           else bind_res (ok_or InvalidAppFormat (checked_add APP_HEADER_SIZE code_len)) (\<lambda>data_offset.
             bind_res (ok_or InvalidAppFormat (checked_add data_offset data_len)) (\<lambda>file_size.
               if file_size \<noteq> length img then Inl InvalidAppFormat
               else Inr \<lparr>al_entry_offset = entry_offset, al_code_len = code_len,
                 al_data_offset = data_offset, al_data_len = data_len, al_bss_len = bss_len\<rparr>)))))))))"

section \<open>The argument vector\<close>

definition strings_size :: "byte list \<Rightarrow> byte list list \<Rightarrow> nat option" where
  "strings_size path arguments = Option.bind (checked_add (length path) 1) (\<lambda>start.
    fold (\<lambda>argument n. Option.bind n (\<lambda>n. Option.bind (checked_add n (length argument))
      (\<lambda>m. checked_add m 1))) arguments (Some start))"

text \<open>The loop over the strings: their pointers from the start of the vector, their bytes from
  \<open>string_offset\<close> on, each followed by a zero byte.\<close>

fun place_arguments :: "nat \<Rightarrow> nat \<Rightarrow> nat \<Rightarrow> byte list list \<Rightarrow> byte list
    \<Rightarrow> ('e ProgramError + byte list) option" where
  "place_arguments stack_start index string_offset [] stack_data = Some (Inr stack_data)"
| "place_arguments stack_start index string_offset (argument # rest) stack_data =
    (case checked_add stack_start string_offset of
       None \<Rightarrow> Some (Inl InvalidArguments)
     | Some string_address \<Rightarrow>
    case checked_mul index 8 of
       None \<Rightarrow> Some (Inl InvalidArguments)
     | Some pointer_offset \<Rightarrow>
    case put_slice pointer_offset (le_bytes 8 string_address) stack_data of
       None \<Rightarrow> None
     | Some stack_data1 \<Rightarrow>
    case checked_add string_offset (length argument) of
       None \<Rightarrow> Some (Inl InvalidArguments)
     | Some string_end \<Rightarrow>
    case put_slice string_offset argument stack_data1 of
       None \<Rightarrow> None
     | Some stack_data2 \<Rightarrow> place_arguments stack_start (index + 1) (string_end + 1) rest stack_data2)"

definition build_argument_vector :: "bool \<Rightarrow> byte list \<Rightarrow> byte list list
    \<Rightarrow> ('e ProgramError + byte list \<times> nat) option" where
  "build_argument_vector can_reserve path arguments =
    (if MAX_PROGRAM_ARGUMENTS < length arguments \<or> 0 \<in> set path \<or> (\<exists>a \<in> set arguments. 0 \<in> set a)
     then Some (Inl InvalidArguments)
     else case checked_add (length arguments) 1 of None \<Rightarrow> Some (Inl InvalidArguments)
     | Some argument_count \<Rightarrow>
     case Option.bind (checked_add argument_count 1) (\<lambda>n. checked_mul n 8) of
       None \<Rightarrow> Some (Inl InvalidArguments)
     | Some pointer_bytes \<Rightarrow>
     case strings_size path arguments of None \<Rightarrow> Some (Inl InvalidArguments)
     | Some strings_bytes \<Rightarrow>
     if MAX_PROGRAM_ARGUMENT_BYTES < strings_bytes then Some (Inl InvalidArguments)
     else case checked_add pointer_bytes strings_bytes of None \<Rightarrow> Some (Inl InvalidArguments)
     | Some unaligned_size \<Rightarrow>
     case map_option (\<lambda>n. n - n mod 8) (checked_add unaligned_size 7) of
       None \<Rightarrow> Some (Inl InvalidArguments)
     | Some total_size \<Rightarrow>
     if USER_STACK_SIZE < total_size then Some (Inl InvalidArguments)
     else case Option.bind (checked_sub USER_STACK_TOP USER_STACK_ARGUMENT_RESERVE)
         (\<lambda>a. checked_sub a total_size) of
       None \<Rightarrow> Some (Inl InvalidArguments)
     | Some stack_start \<Rightarrow>
     if \<not> can_reserve then Some (Inl InvalidArguments)
     else map_option (\<lambda>r. bind_res r (\<lambda>stack_data. Inr (stack_data, argument_count)))
       (place_arguments stack_start 0 pointer_bytes (path # arguments) (replicate total_size 0)))"

section \<open>Mapping and filling pages\<close>

definition memory_create_address_space :: "('pt, 'e) PageTables \<Rightarrow> 'pt manager_cell
    \<Rightarrow> (('e AddressSpaceError + AddressSpace) \<times> 'pt manager_cell) option" where
  "memory_create_address_space T cell = map_option (\<lambda>(r, cell').
      (bind_res (map_err AS_Memory r) (map_err AS_Memory), cell'))
    (with_manager (create_address_space T) cell)"

definition write_bytes :: "nat \<Rightarrow> byte list \<Rightarrow> (nat \<Rightarrow> byte) \<Rightarrow> nat \<Rightarrow> byte" where
  "write_bytes address bs pm =
    (\<lambda>x. if address \<le> x \<and> x < address + length bs then bs ! (x - address) else pm x)"

text \<open>A mapping loop: \<open>n\<close> pages from \<open>address\<close> on, each on a frame that \<open>map_user_page\<close> has zeroed.
  It returns the pages mapped so far with their frames.\<close>

primrec map_segment :: "('pt, 'e) PageTables \<Rightarrow> (nat \<Rightarrow> bool) \<Rightarrow> nat \<Rightarrow> nat \<Rightarrow> UserPageAccess \<Rightarrow> nat
    \<Rightarrow> AddressSpace \<times> 'pt manager_cell \<times> (nat \<Rightarrow> byte)
    \<Rightarrow> (('e ProgramError + (nat \<times> nat) list) \<times> AddressSpace \<times> 'pt manager_cell \<times> (nat \<Rightarrow> byte)) option"
where
  "map_segment T reserve physical_offset 0 access address st = Some (Inr [], st)"
| "map_segment T reserve physical_offset (Suc n) access address st =
    (let (s, cell, pm) = st; page = page_floor address
     in case as_map_user_page T (reserve page) page access s cell of
       None \<Rightarrow> None
     | Some (Inl e, s1, cell1) \<Rightarrow> Some (Inl (PE_AddressSpace e), s1, cell1, pm)
     | Some (Inr frame, s1, cell1) \<Rightarrow>
         map_option (\<lambda>(r, st'). (bind_res r (\<lambda>pages. Inr ((page, frame) # pages)), st'))
           (map_segment T reserve physical_offset n access (address + PAGE_SIZE)
             (s1, cell1, write_bytes (physical_offset + frame) (replicate PAGE_SIZE 0) pm)))"

text \<open>The loop of \<open>copy_to_pages\<close>: the remaining bytes go to \<open>current_address\<close>. The assertion after
  the loop is that none remain.\<close>

fun copy_to_pages :: "byte list \<Rightarrow> (nat \<times> nat) list \<Rightarrow> nat \<Rightarrow> nat \<Rightarrow> (nat \<Rightarrow> byte)
    \<Rightarrow> (('e ProgramError + unit) \<times> (nat \<Rightarrow> byte)) option" where
  "copy_to_pages bytes [] physical_offset current_address pm =
    (if bytes = [] then Some (Inr (), pm) else None)"
| "copy_to_pages bytes ((page_start, frame) # pages) physical_offset current_address pm =
    (if bytes = [] then Some (Inr (), pm)
     else if page_start + PAGE_SIZE \<le> current_address
       then copy_to_pages bytes pages physical_offset current_address pm
     else if current_address < page_start then Some (Inl (PE_AddressSpace UserPageNotMapped), pm)
     else
       let page_offset = current_address - page_start;
           chunk_len = min (length bytes) (PAGE_SIZE - page_offset)
       in case Option.bind (checked_add physical_offset frame)
           (\<lambda>a. Option.bind (checked_add a page_offset) try_new_virt) of
         None \<Rightarrow> Some (Inl InvalidPhysicalAddress, pm)
       | Some destination \<Rightarrow>
           copy_to_pages (drop chunk_len bytes) pages physical_offset (current_address + chunk_len)
             (write_bytes destination (take chunk_len bytes) pm))"

text \<open>Sequencing of fallible steps over a state.\<close>

definition and_then :: "(('x + 'a) \<times> 's) option \<Rightarrow> ('a \<Rightarrow> 's \<Rightarrow> (('x + 'b) \<times> 's) option)
    \<Rightarrow> (('x + 'b) \<times> 's) option" where
  "and_then m f = (case m of
      None \<Rightarrow> None | Some (Inl e, s) \<Rightarrow> Some (Inl e, s) | Some (Inr a, s) \<Rightarrow> f a s)"

definition copy_step :: "byte list \<Rightarrow> (nat \<times> nat) list \<Rightarrow> nat \<Rightarrow> nat
    \<Rightarrow> AddressSpace \<times> 'pt manager_cell \<times> (nat \<Rightarrow> byte)
    \<Rightarrow> (('e ProgramError + unit) \<times> AddressSpace \<times> 'pt manager_cell \<times> (nat \<Rightarrow> byte)) option" where
  "copy_step bytes pages physical_offset address st =
    (let (s, cell, pm) = st
     in map_option (\<lambda>(r, pm'). (r, s, cell, pm')) (copy_to_pages bytes pages physical_offset address pm))"

text \<open>Where the parts of a program go.\<close>

record Segments =
  sg_code_pages :: nat
  sg_data_pages :: nat
  sg_data_start :: nat
  sg_stack_start :: nat

definition div_ceil :: "nat \<Rightarrow> nat \<Rightarrow> nat" where
  "div_ceil n d = (n + d - 1) div d"

definition segment_layout :: "nat \<Rightarrow> nat \<Rightarrow> nat \<Rightarrow> nat \<Rightarrow> 'e ProgramError + Segments" where
  "segment_layout code_len data_len bss_len entry_offset =
    (if code_len = 0 then Inl EmptyImage
     else bind_res (ok_or ImageTooLarge (checked_add data_len bss_len)) (\<lambda>data_memory_len.
       bind_res (ok_or ImageTooLarge (checked_add code_len data_memory_len)) (\<lambda>memory_size.
         if APP_MAX_MEMORY_SIZE < memory_size then Inl ImageTooLarge
         else if code_len \<le> entry_offset then Inl InvalidAppFormat
         else let code_page_count = div_ceil code_len PAGE_SIZE;
                  data_page_count = div_ceil data_memory_len PAGE_SIZE
           in bind_res (ok_or ImageTooLarge (Option.bind (checked_mul code_page_count PAGE_SIZE)
               (\<lambda>n. checked_add RAW_PROGRAM_BASE n))) (\<lambda>data_start.
             bind_res (ok_or ImageTooLarge (checked_mul data_page_count PAGE_SIZE)) (\<lambda>data_mapped_size.
             bind_res (ok_or ImageTooLarge (checked_add data_start data_mapped_size)) (\<lambda>data_end.
             bind_res (ok_or ImageTooLarge (checked_sub USER_STACK_TOP USER_STACK_SIZE)) (\<lambda>stack_start.
               if stack_start - PAGE_SIZE < data_end then Inl ImageTooLarge
               else Inr \<lparr>sg_code_pages = code_page_count, sg_data_pages = data_page_count,
                 sg_data_start = data_start, sg_stack_start = stack_start\<rparr>)))))))"

text \<open>The closure of \<open>load_segments\<close>: map the three segments, then fill them.\<close>

definition fill_segments :: "('pt, 'e) PageTables \<Rightarrow> (nat \<Rightarrow> bool) \<Rightarrow> nat \<Rightarrow> Segments
    \<Rightarrow> byte list \<Rightarrow> byte list \<Rightarrow> byte list \<Rightarrow> nat
    \<Rightarrow> AddressSpace \<times> 'pt manager_cell \<times> (nat \<Rightarrow> byte)
    \<Rightarrow> (('e ProgramError + unit) \<times> AddressSpace \<times> 'pt manager_cell \<times> (nat \<Rightarrow> byte)) option" where
  "fill_segments T reserve physical_offset g code data argument_data argument_vector st =
    and_then (map_segment T reserve physical_offset (sg_code_pages g) ReadExecute RAW_PROGRAM_BASE st)
      (\<lambda>code_pages st. and_then
        (map_segment T reserve physical_offset (sg_data_pages g) ReadWrite (sg_data_start g) st)
      (\<lambda>data_pages st. and_then
        (map_segment T reserve physical_offset (USER_STACK_SIZE div PAGE_SIZE) ReadWrite
          (sg_stack_start g) st)
      (\<lambda>stack_pages st. and_then (copy_step code code_pages physical_offset RAW_PROGRAM_BASE st)
      (\<lambda>_ st. and_then (copy_step data data_pages physical_offset (sg_data_start g) st)
      (\<lambda>_ st. copy_step argument_data stack_pages physical_offset argument_vector st)))))"

text \<open>\<open>destroy().map_err(AddressSpaceCleanup)?\<close> followed by the error.\<close>

definition abandon :: "('pt, 'e) PageTables \<Rightarrow> nat \<Rightarrow> 'e ProgramError
    \<Rightarrow> AddressSpace \<times> 'pt manager_cell \<times> (nat \<Rightarrow> byte)
    \<Rightarrow> (('e ProgramError + 'a) \<times> 'pt manager_cell \<times> (nat \<Rightarrow> byte)) option" where
  "abandon T cr3 error st = (let (s, cell, pm) = st
    in map_option (\<lambda>(r, _, cell'). (bind_res (map_err PE_AddressSpaceCleanup r) (\<lambda>_. Inl error), cell', pm))
      (as_destroy T cr3 s cell))"

definition load_segments :: "('pt, 'e) PageTables \<Rightarrow> Reservations \<Rightarrow> nat \<Rightarrow> byte list \<Rightarrow> byte list \<Rightarrow> nat
    \<Rightarrow> nat \<Rightarrow> byte list \<Rightarrow> byte list list \<Rightarrow> 'pt manager_cell \<times> (nat \<Rightarrow> byte)
    \<Rightarrow> (('e ProgramError + LoadedProgram) \<times> 'pt manager_cell \<times> (nat \<Rightarrow> byte)) option" where
  "load_segments T rv cr3 code data bss_len entry_offset path arguments st =
    (let (cell, pm) = st
     in case segment_layout (length code) (length data) bss_len entry_offset of
       Inl e \<Rightarrow> Some (Inl e, st)
     | Inr g \<Rightarrow>
     case build_argument_vector (rv_arguments rv) path arguments of
       None \<Rightarrow> None
     | Some (Inl e) \<Rightarrow> Some (Inl e, st)
     | Some (Inr (argument_data, argument_count)) \<Rightarrow>
     case Option.bind (checked_sub USER_STACK_TOP USER_STACK_ARGUMENT_RESERVE)
         (\<lambda>a. checked_sub a (length argument_data)) of
       None \<Rightarrow> Some (Inl InvalidArguments, st)
     | Some argument_vector \<Rightarrow>
     if \<not> rv_code rv \<or> \<not> rv_data rv \<or> \<not> rv_stack rv then Some (Inl (PE_AddressSpace AllocationFailed), st)
     else case memory_create_address_space T cell of
       None \<Rightarrow> None
     | Some (Inl e, cell1) \<Rightarrow> Some (Inl (PE_AddressSpace e), cell1, pm)
     | Some (Inr s, cell1) \<Rightarrow>
     case with_manager (\<lambda>m. Some (mm_phys_offset m, m)) cell1 of
       None \<Rightarrow> None
     | Some (Inl e, cell2) \<Rightarrow> abandon T cr3 (PE_Memory e) (s, cell2, pm)
     | Some (Inr physical_offset, cell2) \<Rightarrow>
     case fill_segments T (rv_page rv) physical_offset g code data argument_data argument_vector
         (s, cell2, pm) of
       None \<Rightarrow> None
     | Some (Inl e, st3) \<Rightarrow> abandon T cr3 e st3
     | Some (Inr _, s3, cell3, pm3) \<Rightarrow>
         Some (Inr \<lparr>lp_address_space = s3, lp_entry = RAW_PROGRAM_BASE + entry_offset,
           lp_stack = USER_STACK_TOP, lp_argument_count = argument_count,
           lp_argument_vector = argument_vector,
           lp_data_start = (if sg_data_pages g \<noteq> 0 then Some (sg_data_start g) else None)\<rparr>,
           cell3, pm3))"

section \<open>Loading and launching\<close>

definition load_app_image :: "('pt, 'e) PageTables \<Rightarrow> Reservations \<Rightarrow> nat \<Rightarrow> byte list \<Rightarrow> byte list
    \<Rightarrow> byte list list \<Rightarrow> 'pt manager_cell \<times> (nat \<Rightarrow> byte)
    \<Rightarrow> (('e ProgramError + LoadedProgram) \<times> 'pt manager_cell \<times> (nat \<Rightarrow> byte)) option" where
  "load_app_image T rv cr3 img path arguments st =
    (case bind_res (parse_app_image img) (\<lambda>layout.
        bind_res (ok_or InvalidAppFormat (checked_add (al_data_offset layout) (al_data_len layout)))
          (\<lambda>data_end.
        bind_res (ok_or InvalidAppFormat (get_range img APP_HEADER_SIZE (al_data_offset layout)))
          (\<lambda>code.
        bind_res (ok_or InvalidAppFormat (get_range img (al_data_offset layout) data_end))
          (\<lambda>data. Inr (layout, code, data))))) of
       Inl e \<Rightarrow> Some (Inl e, st)
     | Inr (layout, code, data) \<Rightarrow>
         load_segments T rv cr3 code data (al_bss_len layout) (al_entry_offset layout) path arguments st)"

definition load_raw_image :: "('pt, 'e) PageTables \<Rightarrow> Reservations \<Rightarrow> nat \<Rightarrow> byte list \<Rightarrow> byte list
    \<Rightarrow> byte list list \<Rightarrow> 'pt manager_cell \<times> (nat \<Rightarrow> byte)
    \<Rightarrow> (('e ProgramError + LoadedProgram) \<times> 'pt manager_cell \<times> (nat \<Rightarrow> byte)) option" where
  "load_raw_image T rv cr3 img path arguments st =
    (if img = [] then Some (Inl EmptyImage, st)
     else if RAW_PROGRAM_MAX_SIZE < length img then Some (Inl ImageTooLarge, st)
     else load_segments T rv cr3 img [] 0 0 path arguments st)"

definition ends_with :: "'a list \<Rightarrow> 'a list \<Rightarrow> bool" where
  "ends_with suffix xs \<longleftrightarrow> length suffix \<le> length xs \<and> drop (length xs - length suffix) xs = suffix"

definition BIN_SUFFIX :: "byte list" where "BIN_SUFFIX = ascii ''.bin''"
definition APP_SUFFIX :: "byte list" where "APP_SUFFIX = ascii ''.app''"

definition load_image :: "('pt, 'e) PageTables \<Rightarrow> Reservations \<Rightarrow> nat \<Rightarrow> byte list \<Rightarrow> byte list
    \<Rightarrow> byte list list \<Rightarrow> 'pt manager_cell \<times> (nat \<Rightarrow> byte)
    \<Rightarrow> (('e ProgramError + LoadedProgram) \<times> 'pt manager_cell \<times> (nat \<Rightarrow> byte)) option" where
  "load_image T rv cr3 path img arguments st =
    (if ends_with BIN_SUFFIX path then load_raw_image T rv cr3 img path arguments st
     else if ends_with APP_SUFFIX path then load_app_image T rv cr3 img path arguments st
     else Some (Inl InvalidExtension, st))"

definition load_with_arguments :: "('pt, 'e) PageTables \<Rightarrow> Reservations \<Rightarrow> nat \<Rightarrow> archive_cell \<Rightarrow> byte list
    \<Rightarrow> byte list list \<Rightarrow> 'pt manager_cell \<times> (nat \<Rightarrow> byte)
    \<Rightarrow> (('e ProgramError + LoadedProgram) \<times> 'pt manager_cell \<times> (nat \<Rightarrow> byte)) option" where
  "load_with_arguments T rv cr3 archive path arguments st =
    (if \<not> ends_with BIN_SUFFIX path \<and> \<not> ends_with APP_SUFFIX path then Some (Inl InvalidExtension, st)
     else case bind_res (map_err PE_FileSystem (fs_read_file path archive)) (ok_or FileNotFound) of
       Inl e \<Rightarrow> Some (Inl e, st)
     | Inr img \<Rightarrow> load_image T rv cr3 path img arguments st)"

text \<open>\<open>read_file_vec\<close> is the operation of \<open>fs/ext2.rs\<close>.\<close>

definition load_from_ext2_with_arguments :: "(byte list \<Rightarrow> nat \<Rightarrow> Ext2Error + byte list option)
    \<Rightarrow> ('pt, 'e) PageTables \<Rightarrow> Reservations \<Rightarrow> nat \<Rightarrow> byte list \<Rightarrow> byte list list
    \<Rightarrow> 'pt manager_cell \<times> (nat \<Rightarrow> byte)
    \<Rightarrow> (('e ProgramError + LoadedProgram) \<times> 'pt manager_cell \<times> (nat \<Rightarrow> byte)) option" where
  "load_from_ext2_with_arguments read_file_vec T rv cr3 path arguments st =
    (case (if ends_with BIN_SUFFIX path then Inr RAW_PROGRAM_MAX_SIZE
         else if ends_with APP_SUFFIX path
           then ok_or ImageTooLarge (checked_add APP_HEADER_SIZE APP_MAX_MEMORY_SIZE)
         else Inl InvalidExtension) of
       Inl e \<Rightarrow> Some (Inl e, st)
     | Inr max_size \<Rightarrow>
     (case bind_res (map_err (\<lambda>error. if error = FileTooLarge then ImageTooLarge else PE_Ext2 error)
         (read_file_vec path max_size)) (ok_or FileNotFound) of
       Inl e \<Rightarrow> Some (Inl e, st)
     | Inr img \<Rightarrow> load_image T rv cr3 path img arguments st))"

definition spawn_with_fd_mappings_and_closes :: "('pt, 'e) PageTables \<Rightarrow> nat \<Rightarrow> nat \<Rightarrow> LoadedProgram
    \<Rightarrow> FdMapping list \<Rightarrow> nat list \<Rightarrow> ('d, 'pt) Kernel
    \<Rightarrow> (('e ProgramError + nat) \<times> ('d, 'pt) Kernel) option" where
  "spawn_with_fd_mappings_and_closes T trampoline stack_base p fd_mappings fd_closes k =
    map_option (\<lambda>(r, k'). (map_err PE_Scheduler r, k'))
      (spawn_user_with_arguments_and_fds T trampoline stack_base (lp_address_space p) (lp_entry p)
        (lp_stack p) (lp_argument_count p) (lp_argument_vector p) fd_mappings fd_closes k)"

definition lp_spawn :: "('pt, 'e) PageTables \<Rightarrow> nat \<Rightarrow> nat \<Rightarrow> LoadedProgram \<Rightarrow> ('d, 'pt) Kernel
    \<Rightarrow> (('e ProgramError + nat) \<times> ('d, 'pt) Kernel) option" where
  "lp_spawn T trampoline stack_base p k = spawn_with_fd_mappings_and_closes T trampoline stack_base p [] [] k"

text \<open>\<open>load(path)?.spawn()\<close>: the four \<open>launch\<close> functions differ in the loading.\<close>

definition launch_loaded :: "('pt, 'e) PageTables \<Rightarrow> nat \<Rightarrow> nat
    \<Rightarrow> ('pt manager_cell \<times> (nat \<Rightarrow> byte)
        \<Rightarrow> (('e ProgramError + LoadedProgram) \<times> 'pt manager_cell \<times> (nat \<Rightarrow> byte)) option)
    \<Rightarrow> ('d, 'pt) Kernel \<times> (nat \<Rightarrow> byte)
    \<Rightarrow> (('e ProgramError + nat) \<times> ('d, 'pt) Kernel \<times> (nat \<Rightarrow> byte)) option" where
  "launch_loaded T trampoline stack_base loading kp =
    (let (k, pm) = kp
     in case loading (k_mem k, pm) of
       None \<Rightarrow> None
     | Some (Inl e, cell, pm') \<Rightarrow> Some (Inl e, k\<lparr>k_mem := cell\<rparr>, pm')
     | Some (Inr p, cell, pm') \<Rightarrow>
         map_option (\<lambda>(r, k'). (r, k', pm')) (lp_spawn T trampoline stack_base p (k\<lparr>k_mem := cell\<rparr>)))"

definition launch_with_arguments :: "('pt, 'e) PageTables \<Rightarrow> Reservations \<Rightarrow> nat \<Rightarrow> nat \<Rightarrow> archive_cell
    \<Rightarrow> byte list \<Rightarrow> byte list list \<Rightarrow> ('d, 'pt) Kernel \<times> (nat \<Rightarrow> byte)
    \<Rightarrow> (('e ProgramError + nat) \<times> ('d, 'pt) Kernel \<times> (nat \<Rightarrow> byte)) option" where
  "launch_with_arguments T rv trampoline stack_base archive path arguments kp =
    launch_loaded T trampoline stack_base
      (load_with_arguments T rv (k_cr3 (fst kp)) archive path arguments) kp"

definition launch_from_ext2_with_arguments :: "(byte list \<Rightarrow> nat \<Rightarrow> Ext2Error + byte list option)
    \<Rightarrow> ('pt, 'e) PageTables \<Rightarrow> Reservations \<Rightarrow> nat \<Rightarrow> nat
    \<Rightarrow> byte list \<Rightarrow> byte list list \<Rightarrow> ('d, 'pt) Kernel \<times> (nat \<Rightarrow> byte)
    \<Rightarrow> (('e ProgramError + nat) \<times> ('d, 'pt) Kernel \<times> (nat \<Rightarrow> byte)) option" where
  "launch_from_ext2_with_arguments read_file_vec T rv trampoline stack_base path arguments kp =
    launch_loaded T trampoline stack_base
      (load_from_ext2_with_arguments read_file_vec T rv (k_cr3 (fst kp)) path arguments) kp"


text \<open>The variants without arguments.\<close>

definition load :: "('pt, 'e) PageTables \<Rightarrow> Reservations \<Rightarrow> nat \<Rightarrow> archive_cell \<Rightarrow> byte list
    \<Rightarrow> 'pt manager_cell \<times> (nat \<Rightarrow> byte)
    \<Rightarrow> (('e ProgramError + LoadedProgram) \<times> 'pt manager_cell \<times> (nat \<Rightarrow> byte)) option" where
  "load T rv cr3 archive path st = load_with_arguments T rv cr3 archive path [] st"

definition load_from_ext2 :: "(byte list \<Rightarrow> nat \<Rightarrow> Ext2Error + byte list option)
    \<Rightarrow> ('pt, 'e) PageTables \<Rightarrow> Reservations \<Rightarrow> nat \<Rightarrow> byte list \<Rightarrow> 'pt manager_cell \<times> (nat \<Rightarrow> byte)
    \<Rightarrow> (('e ProgramError + LoadedProgram) \<times> 'pt manager_cell \<times> (nat \<Rightarrow> byte)) option" where
  "load_from_ext2 read_file_vec T rv cr3 path st =
    load_from_ext2_with_arguments read_file_vec T rv cr3 path [] st"

definition launch :: "('pt, 'e) PageTables \<Rightarrow> Reservations \<Rightarrow> nat \<Rightarrow> nat \<Rightarrow> archive_cell \<Rightarrow> byte list
    \<Rightarrow> ('d, 'pt) Kernel \<times> (nat \<Rightarrow> byte)
    \<Rightarrow> (('e ProgramError + nat) \<times> ('d, 'pt) Kernel \<times> (nat \<Rightarrow> byte)) option" where
  "launch T rv trampoline stack_base archive path kp =
    launch_loaded T trampoline stack_base (load T rv (k_cr3 (fst kp)) archive path) kp"

definition launch_from_ext2 :: "(byte list \<Rightarrow> nat \<Rightarrow> Ext2Error + byte list option)
    \<Rightarrow> ('pt, 'e) PageTables \<Rightarrow> Reservations \<Rightarrow> nat \<Rightarrow> nat \<Rightarrow> byte list \<Rightarrow> ('d, 'pt) Kernel \<times> (nat \<Rightarrow> byte)
    \<Rightarrow> (('e ProgramError + nat) \<times> ('d, 'pt) Kernel \<times> (nat \<Rightarrow> byte)) option" where
  "launch_from_ext2 read_file_vec T rv trampoline stack_base path kp =
    launch_loaded T trampoline stack_base (load_from_ext2 read_file_vec T rv (k_cr3 (fst kp)) path) kp"

end
