(* ===== verification/Program_Format.thy ===== *)
theory Program_Format
  imports User_Program
begin

text \<open>
  The two byte formats of the program loader: the header of an \<open>.app\<close> file, which
  \<open>parse_app_image\<close> accepts exactly when an encoder of the documented layout produced it, and the
  argument vector, whose pointers and strings are read back as a C program does.
\<close>

section \<open>Fields of a byte string\<close>

lemma le_field:
  "le_nat bs = v \<and> length bs = n \<longleftrightarrow> bs = le_bytes n v \<and> v < 256 ^ n"
  using le_bytes_le_nat [of bs] le_nat_le_bytes [of v n] le_nat_less [of bs] by auto

lemma get_range_middle:
  "length xs = a \<Longrightarrow> b = a + length ys \<Longrightarrow> get_range (xs @ ys @ zs) a b = Some ys"
  by (simp add: get_range_def)

lemma slice_split: "a \<le> b \<Longrightarrow> drop a xs = slice xs a b @ drop b xs"
  by (metis append_take_drop_id drop_drop le_add_diff_inverse2 slice_def)

lemma get_range_slice: "get_range xs a b = Some ys \<longleftrightarrow> a \<le> b \<and> b \<le> length xs \<and> ys = slice xs a b"
  by (auto simp: get_range_def slice_def)

lemma length_slice [simp]: "b \<le> length xs \<Longrightarrow> length (slice xs a b) = b - a"
  by (simp add: slice_def)

lemma slice_skip: "length xs \<le> a \<Longrightarrow> slice (xs @ ys) a b = slice ys (a - length xs) (b - length xs)"
  by (simp add: slice_def)

lemma slice_head: "length xs = b \<Longrightarrow> slice (xs @ ys) 0 b = xs"
  by (simp add: slice_def)

lemma length_APP_MAGIC: "length APP_MAGIC = 8"
  by (simp add: APP_MAGIC_def)

lemma read_field:
  "a + n \<le> length xs \<Longrightarrow>
    map_option le_nat (get_range xs a (a + n)) = Some v \<longleftrightarrow> slice xs a (a + n) = le_bytes n v \<and> v < 256 ^ n"
  using le_field [of "slice xs a (a + n)" v n] by (auto simp: get_range_slice)

section \<open>The application format\<close>

text \<open>An encoder of the layout: magic, version, header size, a reserved word, the four sizes, then the
  code and the data.\<close>

definition make_app :: "nat \<Rightarrow> byte list \<Rightarrow> byte list \<Rightarrow> nat \<Rightarrow> byte list" where
  "make_app entry code data bss = APP_MAGIC @ le_bytes 2 APP_VERSION @ le_bytes 2 APP_HEADER_SIZE
    @ le_bytes 4 0 @ le_bytes 8 entry @ le_bytes 8 (length code) @ le_bytes 8 (length data)
    @ le_bytes 8 bss @ code @ data"

lemma app_header_split:
  assumes "48 \<le> length img"
  shows "img = slice img 0 8 @ slice img 8 10 @ slice img 10 12 @ slice img 12 16 @ slice img 16 24
    @ slice img 24 32 @ slice img 32 40 @ slice img 40 48 @ drop 48 img"
proof -
  have "img = drop 0 img" by simp
  also have "\<dots> = slice img 0 8 @ drop 8 img" by (rule slice_split) simp
  also have "drop 8 img = slice img 8 10 @ drop 10 img" by (rule slice_split) simp
  also have "drop 10 img = slice img 10 12 @ drop 12 img" by (rule slice_split) simp
  also have "drop 12 img = slice img 12 16 @ drop 16 img" by (rule slice_split) simp
  also have "drop 16 img = slice img 16 24 @ drop 24 img" by (rule slice_split) simp
  also have "drop 24 img = slice img 24 32 @ drop 32 img" by (rule slice_split) simp
  also have "drop 32 img = slice img 32 40 @ drop 40 img" by (rule slice_split) simp
  also have "drop 40 img = slice img 40 48 @ drop 48 img" by (rule slice_split) simp
  finally show ?thesis .
qed

text \<open>The header fields of an image, read as slices.\<close>

definition app_fields :: "byte list \<Rightarrow> nat \<Rightarrow> nat \<Rightarrow> nat \<Rightarrow> nat \<Rightarrow> bool" where
  "app_fields img e c d b \<longleftrightarrow> 48 \<le> length img \<and> slice img 0 8 = APP_MAGIC
    \<and> slice img 8 10 = le_bytes 2 1 \<and> slice img 10 12 = le_bytes 2 48 \<and> slice img 12 16 = le_bytes 4 0
    \<and> slice img 16 24 = le_bytes 8 e \<and> slice img 24 32 = le_bytes 8 c \<and> slice img 32 40 = le_bytes 8 d
    \<and> slice img 40 48 = le_bytes 8 b \<and> e < 2 ^ 64 \<and> c < 2 ^ 64 \<and> d < 2 ^ 64 \<and> b < 2 ^ 64"

lemma read_fields:
  assumes "48 \<le> length img"
  shows "read_u16 img 8 = Some v \<longleftrightarrow> slice img 8 10 = le_bytes 2 v \<and> v < 2 ^ 16"
    "read_u16 img 10 = Some v \<longleftrightarrow> slice img 10 12 = le_bytes 2 v \<and> v < 2 ^ 16"
    "read_u32 img 12 = Some v \<longleftrightarrow> slice img 12 16 = le_bytes 4 v \<and> v < 2 ^ 32"
    "read_u64 img 16 = Some v \<longleftrightarrow> slice img 16 24 = le_bytes 8 v \<and> v < 2 ^ 64"
    "read_u64 img 24 = Some v \<longleftrightarrow> slice img 24 32 = le_bytes 8 v \<and> v < 2 ^ 64"
    "read_u64 img 32 = Some v \<longleftrightarrow> slice img 32 40 = le_bytes 8 v \<and> v < 2 ^ 64"
    "read_u64 img 40 = Some v \<longleftrightarrow> slice img 40 48 = le_bytes 8 v \<and> v < 2 ^ 64"
  using assms read_field [of 8 2 img v] read_field [of 10 2 img v] read_field [of 12 4 img v]
    read_field [of 16 8 img v] read_field [of 24 8 img v] read_field [of 32 8 img v]
    read_field [of 40 8 img v]
  unfolding read_u16_def read_u32_def read_u64_def by simp_all

lemma parse_app_image_fields:
  "parse_app_image img = Inr l \<longleftrightarrow> (\<exists>e c d b. app_fields img e c d b \<and> e < c
    \<and> c + d + b \<le> APP_MAX_MEMORY_SIZE \<and> length img = 48 + c + d
    \<and> l = \<lparr>al_entry_offset = e, al_code_len = c, al_data_offset = 48 + c, al_data_len = d,
      al_bss_len = b\<rparr>)" (is "?parse \<longleftrightarrow> ?fields")
proof (cases "48 \<le> length img")
  case False
  then show ?thesis
    by (simp add: parse_app_image_def APP_HEADER_SIZE_def app_fields_def)
next
  case True
  have magic: "get_range img 0 8 = Some APP_MAGIC \<longleftrightarrow> slice img 0 8 = APP_MAGIC"
    using True by (auto simp: get_range_slice)
  show ?thesis
  proof
    assume ?parse
    then show ?fields
      using True unfolding parse_app_image_def magic
      by (auto simp: read_fields [OF True] APP_HEADER_SIZE_def APP_VERSION_def app_fields_def
          bind_eq_Some_conv split: if_splits)
  next
    assume ?fields
    then obtain e c d b where f: "app_fields img e c d b" "e < c"
      "c + d + b \<le> APP_MAX_MEMORY_SIZE" "length img = 48 + c + d"
      "l = \<lparr>al_entry_offset = e, al_code_len = c, al_data_offset = 48 + c, al_data_len = d,
        al_bss_len = b\<rparr>"
      by blast
    have reads: "read_u16 img 8 = Some 1" "read_u16 img 10 = Some 48" "read_u32 img 12 = Some 0"
      "read_u64 img 16 = Some e" "read_u64 img 24 = Some c" "read_u64 img 32 = Some d"
      "read_u64 img 40 = Some b"
      using f(1) by (simp_all add: read_fields [OF True] app_fields_def)
    have lim: "c + d < u64_limit" "c + d + b < u64_limit" "48 + c < u64_limit" "48 + c + d < u64_limit"
      using f(3) by (simp_all add: APP_MAX_MEMORY_SIZE_def u64_limit_def)
    have "slice img 0 8 = APP_MAGIC" using f(1) by (simp add: app_fields_def)
    then show ?parse
      unfolding parse_app_image_def magic using f(2-5) True lim
      by (simp add: reads APP_VERSION_def APP_HEADER_SIZE_def checked_add_def)
  qed
qed

lemma make_app_fields:
  assumes "e < 2 ^ 64" "length code < 2 ^ 64" "length data < 2 ^ 64" "b < 2 ^ 64"
  shows "app_fields (make_app e code data b) e (length code) (length data) b"
  using assms by (simp add: app_fields_def make_app_def slice_skip slice_head APP_VERSION_def
      APP_HEADER_SIZE_def length_APP_MAGIC)

lemma fields_make_app:
  assumes "app_fields img e (length code) (length data) b" "drop 48 img = code @ data"
  shows "img = make_app e code data b"
  using app_header_split [of img] assms
  by (simp add: app_fields_def make_app_def APP_VERSION_def APP_HEADER_SIZE_def)

section \<open>The argument vector\<close>

text \<open>Where the strings start, from an offset on, and the whole vector.\<close>

fun string_offsets :: "nat \<Rightarrow> byte list list \<Rightarrow> nat list" where
  "string_offsets offset [] = []"
| "string_offsets offset (s # ss) = offset # string_offsets (offset + length s + 1) ss"

definition terminated :: "byte list list \<Rightarrow> byte list" where
  "terminated ss = concat (map (\<lambda>s. s @ [0]) ss)"

lemma terminated_simps [simp]: "terminated [] = []" "terminated (s # ss) = s @ 0 # terminated ss"
  by (simp_all add: terminated_def)

lemma place_arguments_spec:
  assumes "length ps = 8 * index" "offset = length ps + 8 * length ss + 8 + length placed"
    and "start + offset + length (terminated ss) < u64_limit"
  shows "(place_arguments start index offset ss
      (ps @ replicate (8 * length ss + 8) 0 @ placed @ replicate (length (terminated ss) + pad) 0)
      :: ('e ProgramError + byte list) option)
    = Some (Inr (ps @ concat (map (\<lambda>k. le_bytes 8 (start + k)) (string_offsets offset ss))
        @ replicate 8 0 @ placed @ terminated ss @ replicate pad 0))"
  using assms
proof (induction ss arbitrary: ps index offset placed)
  case (Cons s ss)
  let ?ptr = "le_bytes 8 (start + offset)"
  let ?zs = "replicate (8 * length ss + 8) 0 :: byte list"
  let ?tail = "replicate (length (terminated ss) + pad) 0 :: byte list"
  have zeros: "replicate (8 * length (s # ss) + 8) (0::byte) = replicate 8 0 @ ?zs"
    "replicate (length (terminated (s # ss)) + pad) (0::byte)
      = replicate (length s) 0 @ 0 # ?tail"
    by (simp_all add: replicate_add [symmetric] flip: replicate_Suc)
  have put1: "put_slice (index * 8) ?ptr (ps @ replicate (8 * length (s # ss) + 8) 0 @ placed
      @ replicate (length (terminated (s # ss)) + pad) 0)
    = Some (ps @ ?ptr @ ?zs @ placed @ replicate (length s) 0 @ 0 # ?tail)"
    unfolding zeros using Cons.prems(1) by (simp add: put_slice_append)
  have put2: "put_slice offset s ((ps @ ?ptr @ ?zs @ placed) @ replicate (length s) 0 @ 0 # ?tail)
    = Some ((ps @ ?ptr @ ?zs @ placed) @ s @ 0 # ?tail)"
    using Cons.prems(2) by (intro put_slice_append) simp_all
  have adds: "checked_add start offset = Some (start + offset)"
    "checked_mul index 8 = Some (index * 8)" "checked_add offset (length s) = Some (offset + length s)"
    using Cons.prems by (simp_all add: checked_add_def checked_mul_def)
  have "(place_arguments start index offset (s # ss)
      (ps @ replicate (8 * length (s # ss) + 8) 0 @ placed
        @ replicate (length (terminated (s # ss)) + pad) 0) :: ('e ProgramError + byte list) option)
    = place_arguments start (index + 1) (offset + length s + 1) ss
        ((ps @ ?ptr) @ ?zs @ (placed @ s @ [0]) @ ?tail)"
    using put2 by (simp only: place_arguments.simps adds put1 option.case append_assoc append.simps)
  also have "\<dots> = Some (Inr ((ps @ ?ptr)
        @ concat (map (\<lambda>k. le_bytes 8 (start + k)) (string_offsets (offset + length s + 1) ss))
        @ replicate 8 0 @ (placed @ s @ [0]) @ terminated ss @ replicate pad 0))"
    using Cons.prems by (intro Cons.IH) simp_all
  finally show ?case by simp
qed simp


lemma strings_size_fold:
  "fold (\<lambda>argument n. Option.bind n (\<lambda>n. Option.bind (checked_add n (length argument))
      (\<lambda>m. checked_add m 1))) ss (if n < u64_limit then Some n else None)
    = (if n + length (terminated ss) < u64_limit then Some (n + length (terminated ss)) else None)"
proof (induction ss arbitrary: n)
  case (Cons s ss)
  have "Option.bind (if n < u64_limit then Some n else None) (\<lambda>n. Option.bind (checked_add n (length s))
      (\<lambda>m. checked_add m 1)) = (if n + length s + 1 < u64_limit then Some (n + length s + 1) else None)"
    by (auto simp: checked_add_def)
  then show ?case
    using Cons.IH [of "n + length s + 1"] by simp
qed simp

lemma strings_size_eq:
  "strings_size path arguments = (let n = length (terminated (path # arguments))
    in if n < u64_limit then Some n else None)"
  using strings_size_fold [of arguments "length path + 1"]
  by (cases "length path + 1 < u64_limit") (auto simp: strings_size_def checked_add_def)

text \<open>The size of the vector with and without its padding, and its bytes.\<close>

definition vector_size :: "byte list list \<Rightarrow> nat" where
  "vector_size ss = 8 * length ss + 8 + length (terminated ss)"

definition padded_size :: "byte list list \<Rightarrow> nat" where
  "padded_size ss = vector_size ss + 7 - (vector_size ss + 7) mod 8"

definition vector_start :: "byte list list \<Rightarrow> nat" where
  "vector_start ss = USER_STACK_TOP - USER_STACK_ARGUMENT_RESERVE - padded_size ss"

definition vector_bytes :: "byte list list \<Rightarrow> byte list" where
  "vector_bytes ss =
    concat (map (\<lambda>k. le_bytes 8 (vector_start ss + k)) (string_offsets (8 * length ss + 8) ss))
    @ replicate 8 0 @ terminated ss @ replicate (padded_size ss - vector_size ss) 0"

definition arguments_ok :: "byte list \<Rightarrow> byte list list \<Rightarrow> bool" where
  "arguments_ok path arguments \<longleftrightarrow> length arguments \<le> MAX_PROGRAM_ARGUMENTS
    \<and> (\<forall>s \<in> set (path # arguments). 0 \<notin> set s)
    \<and> length (terminated (path # arguments)) \<le> MAX_PROGRAM_ARGUMENT_BYTES"

lemma padded_size_bounds:
  "vector_size ss \<le> padded_size ss" "padded_size ss \<le> vector_size ss + 7" "padded_size ss mod 8 = 0"
  by (simp_all add: padded_size_def minus_mod_eq_mult_div)

lemma arguments_fit:
  assumes "arguments_ok path arguments"
  shows "padded_size (path # arguments) \<le> 1175"
    "padded_size (path # arguments) + USER_STACK_ARGUMENT_RESERVE \<le> USER_STACK_TOP"
    "USER_STACK_TOP < 2 ^ 48"
proof -
  show p: "padded_size (path # arguments) \<le> 1175"
    using padded_size_bounds(2) [of "path # arguments"] assms
    by (simp add: vector_size_def arguments_ok_def MAX_PROGRAM_ARGUMENTS_def MAX_PROGRAM_ARGUMENT_BYTES_def)
  show "padded_size (path # arguments) + USER_STACK_ARGUMENT_RESERVE \<le> USER_STACK_TOP"
    using p by (simp add: USER_STACK_ARGUMENT_RESERVE_def USER_STACK_TOP_def)
  show "USER_STACK_TOP < 2 ^ 48"
    by (simp add: USER_STACK_TOP_def USER_SPACE_START_def USER_PML4_INDEX_def)
qed

lemma build_argument_vector_eq:
  "build_argument_vector can_reserve path arguments = Some
    (if arguments_ok path arguments \<and> can_reserve
     then Inr (vector_bytes (path # arguments), length arguments + 1) else Inl InvalidArguments)"
proof (cases "arguments_ok path arguments")
  case False
  then show ?thesis
    by (auto simp: build_argument_vector_def arguments_ok_def strings_size_eq Let_def split: option.splits if_splits)
next
  case True
  define ss where "ss = path # arguments"
  let ?n = "length (terminated ss)"
  have n: "?n \<le> 1024" "length ss \<le> 17" "length ss = length arguments + 1"
    using True by (simp_all add: ss_def arguments_ok_def MAX_PROGRAM_ARGUMENT_BYTES_def MAX_PROGRAM_ARGUMENTS_def)
  note fit = arguments_fit [OF True, folded ss_def]
  have start: "USER_STACK_ARGUMENT_RESERVE \<le> USER_STACK_TOP"
    "padded_size ss \<le> USER_STACK_TOP - USER_STACK_ARGUMENT_RESERVE"
    using fit(2) by linarith+
  have small: "x \<le> 2000 \<Longrightarrow> x < u64_limit" for x by (simp add: u64_limit_def)
  have vs: "vector_size ss \<le> 1168" using n by (simp add: vector_size_def)
  have "checked_add (length arguments) 1 = Some (length ss)"
    "checked_add (length ss) 1 = Some (length ss + 1)"
    "checked_mul (length ss + 1) 8 = Some (8 * length ss + 8)"
    "checked_add (8 * length ss + 8) ?n = Some (vector_size ss)"
    "checked_add (vector_size ss) 7 = Some (vector_size ss + 7)"
    using n(1,2) vs unfolding checked_add_Some checked_mul_Some
    by (auto simp: n(3) vector_size_def intro!: small)
  moreover have "strings_size path arguments = Some ?n"
    using small [of ?n] n(1) by (simp add: strings_size_eq flip: ss_def)
  moreover have "checked_sub USER_STACK_TOP USER_STACK_ARGUMENT_RESERVE
      = Some (USER_STACK_TOP - USER_STACK_ARGUMENT_RESERVE)"
    "checked_sub (USER_STACK_TOP - USER_STACK_ARGUMENT_RESERVE) (padded_size ss) = Some (vector_start ss)"
    using start by (simp_all add: checked_sub_def vector_start_def)
  ultimately have steps: "checked_add (length arguments) 1 = Some (length ss)"
    "Option.bind (checked_add (length ss) 1) (\<lambda>n. checked_mul n 8) = Some (8 * length ss + 8)"
    "strings_size path arguments = Some ?n"
    "checked_add (8 * length ss + 8) ?n = Some (vector_size ss)"
    "map_option (\<lambda>n. n - n mod 8) (checked_add (vector_size ss) 7) = Some (padded_size ss)"
    "Option.bind (checked_sub USER_STACK_TOP USER_STACK_ARGUMENT_RESERVE) (\<lambda>a. checked_sub a (padded_size ss))
      = Some (vector_start ss)"
    by (simp_all only: Option.bind.bind_lunit option.map padded_size_def)
  have "padded_size ss = (8 * length ss + 8) + (?n + (padded_size ss - vector_size ss))"
    using padded_size_bounds(1) [of ss] by (simp add: vector_size_def)
  then have zeros: "replicate (padded_size ss) (0::byte) = [] @ replicate (8 * length ss + 8) 0 @ []
      @ replicate (?n + (padded_size ss - vector_size ss)) 0"
    by (metis replicate_add append_Nil)
  have "place_arguments (vector_start ss) 0 (8 * length ss + 8) ss (replicate (padded_size ss) 0)
    = Some (Inr (vector_bytes ss) :: 'a ProgramError + byte list)"
    unfolding zeros by (subst place_arguments_spec)
      (use n fit in \<open>simp_all add: vector_bytes_def vector_start_def u64_limit_def\<close>)
  moreover have "\<not> USER_STACK_SIZE < padded_size ss" "\<not> MAX_PROGRAM_ARGUMENT_BYTES < ?n"
    using fit(1) n by (simp_all add: USER_STACK_SIZE_def MAX_PROGRAM_ARGUMENT_BYTES_def)
  moreover have "\<not> (MAX_PROGRAM_ARGUMENTS < length arguments \<or> 0 \<in> set path \<or> (\<exists>a \<in> set arguments. 0 \<in> set a))"
    using True by (auto simp: arguments_ok_def)
  ultimately show ?thesis
    using True unfolding build_argument_vector_def ss_def [symmetric]
    by (simp only: steps option.case if_False) (simp add: n(3))
qed

lemma length_string_offsets [simp]: "length (string_offsets k ss) = length ss"
  by (induction ss arbitrary: k) auto

lemma string_offsets_nth:
  "i < length ss \<Longrightarrow> string_offsets k ss ! i = k + length (terminated (take i ss))"
proof (induction ss arbitrary: k i)
  case (Cons s ss)
  then show ?case by (cases i) auto
qed simp

lemma terminated_drop:
  "i < length ss \<Longrightarrow> drop (length (terminated (take i ss))) (terminated ss)
    = ss ! i @ 0 # terminated (drop (Suc i) ss)"
proof (induction ss arbitrary: i)
  case (Cons s ss)
  then show ?case by (cases i) auto
qed simp

lemma terminated_take_less:
  assumes "i < length ss"
  shows "length (terminated (take i ss)) < length (terminated ss)"
  using terminated_drop [OF assms] by (metis drop_all not_less list.distinct(1) Nil_is_append_conv)

lemma length_concat_fixed: "\<forall>x \<in> set xs. length (f x) = n \<Longrightarrow> length (concat (map f xs)) = n * length xs"
  by (induction xs) auto

lemma slice_concat_fixed:
  assumes "\<And>x. length (f x) = n" "i < length xs"
  shows "slice (concat (map f xs) @ rest) (n * i) (n * i + n) = f (xs ! i)"
  using assms(2)
proof (induction xs arbitrary: i)
  case (Cons x xs)
  then show ?case by (cases i) (simp_all add: slice_def assms(1))
qed simp

lemma length_vector_bytes: "length (vector_bytes ss) = padded_size ss"
proof -
  have "length (concat (map (\<lambda>k. le_bytes 8 (vector_start ss + k)) (string_offsets (8 * length ss + 8) ss)))
      = 8 * length (string_offsets (8 * length ss + 8) ss)"
    by (rule length_concat_fixed) simp
  then show ?thesis
    using padded_size_bounds(1) [of ss] by (simp add: vector_bytes_def vector_size_def)
qed

text \<open>What a C program reads at an address inside the vector.\<close>

definition c_string :: "byte list \<Rightarrow> byte list" where
  "c_string bs = takeWhile (\<lambda>b. b \<noteq> 0) bs"

lemma vector_pointer:
  assumes "i < length ss" "vector_start ss + padded_size ss < u64_limit"
  shows "le_nat (slice (vector_bytes ss) (8 * i) (8 * i + 8))
    = vector_start ss + (8 * length ss + 8 + length (terminated (take i ss)))"
proof -
  let ?k = "8 * length ss + 8 + length (terminated (take i ss))"
  have "slice (vector_bytes ss) (8 * i) (8 * i + 8) = le_bytes 8 (vector_start ss + ?k)"
    unfolding vector_bytes_def
    using assms slice_concat_fixed [of "\<lambda>k. le_bytes 8 (vector_start ss + k)" 8 i "string_offsets (8 * length ss + 8) ss"]
    by (simp add: string_offsets_nth)
  moreover have "vector_start ss + ?k < 256 ^ 8"
    using assms terminated_take_less [OF assms(1)] padded_size_bounds(1) [of ss]
    by (simp add: vector_size_def u64_limit_def)
  ultimately show ?thesis by (simp add: le_nat_le_bytes)
qed

lemma vector_tail:
  "drop (8 * length ss) (vector_bytes ss)
    = replicate 8 0 @ terminated ss @ replicate (padded_size ss - vector_size ss) 0"
proof -
  have "length (concat (map (\<lambda>k. le_bytes 8 (vector_start ss + k)) (string_offsets (8 * length ss + 8) ss)))
      = 8 * length ss"
    using length_concat_fixed [of "string_offsets (8 * length ss + 8) ss" "\<lambda>k. le_bytes 8 (vector_start ss + k)" 8]
    by simp
  then show ?thesis by (simp add: vector_bytes_def)
qed

lemma vector_string:
  assumes "i < length ss" "0 \<notin> set (ss ! i)"
  shows "c_string (drop (8 * length ss + 8 + length (terminated (take i ss))) (vector_bytes ss)) = ss ! i"
proof -
  have "drop (8 * length ss + 8 + length (terminated (take i ss))) (vector_bytes ss)
    = drop (length (terminated (take i ss))) (drop 8 (drop (8 * length ss) (vector_bytes ss)))"
    by (simp add: add.commute)
  also have "\<dots> = ss ! i @ 0 # terminated (drop (Suc i) ss) @ replicate (padded_size ss - vector_size ss) 0"
    using terminated_take_less [OF assms(1)] terminated_drop [OF assms(1)] by (simp add: vector_tail)
  finally have eq: "drop (8 * length ss + 8 + length (terminated (take i ss))) (vector_bytes ss)
    = ss ! i @ 0 # terminated (drop (Suc i) ss) @ replicate (padded_size ss - vector_size ss) 0" .
  show ?thesis
    unfolding eq c_string_def using assms(2) by (subst takeWhile_append2) auto
qed


section \<open>Properties\<close>

text \<open>C26. The loader accepts an \<open>.app\<close> file exactly when it is the encoding of a program: a
  header with the right magic, version, size and reserved word, an entry point inside a non-empty
  code segment, at most 64 KiB of code, data and zero-initialised memory together, and a file that
  ends where the data end. What it reads from the header are the parts that were encoded.\<close>

theorem parse_app_image_exact:
  "parse_app_image img = Inr layout \<longleftrightarrow> (\<exists>entry code data bss. img = make_app entry code data bss
    \<and> entry < length code \<and> length code + length data + bss \<le> APP_MAX_MEMORY_SIZE
    \<and> layout = \<lparr>al_entry_offset = entry, al_code_len = length code,
        al_data_offset = APP_HEADER_SIZE + length code, al_data_len = length data, al_bss_len = bss\<rparr>)"
  (is "?parse \<longleftrightarrow> ?encoded")
proof
  assume ?parse
  then obtain e c d b where f: "app_fields img e c d b" "e < c" "c + d + b \<le> APP_MAX_MEMORY_SIZE"
    "length img = 48 + c + d" "layout = \<lparr>al_entry_offset = e, al_code_len = c, al_data_offset = 48 + c,
      al_data_len = d, al_bss_len = b\<rparr>"
    unfolding parse_app_image_fields by blast
  let ?code = "take c (drop 48 img)"
  let ?data = "drop c (drop 48 img)"
  have len: "length ?code = c" "length ?data = d" using f(4) by simp_all
  have "img = make_app e ?code ?data b"
    using f(1) by (intro fields_make_app) (simp_all only: len append_take_drop_id)
  then show ?encoded
    using f(2,3,5) len unfolding APP_HEADER_SIZE_def by metis
next
  assume ?encoded
  then obtain e code data b where f: "img = make_app e code data b" "e < length code"
    "length code + length data + b \<le> APP_MAX_MEMORY_SIZE" "layout = \<lparr>al_entry_offset = e,
      al_code_len = length code, al_data_offset = 48 + length code, al_data_len = length data, al_bss_len = b\<rparr>"
    unfolding APP_HEADER_SIZE_def by blast
  have "app_fields img e (length code) (length data) b"
    unfolding f(1) using f(2,3) by (intro make_app_fields) (simp_all add: APP_MAX_MEMORY_SIZE_def)
  moreover have "length img = 48 + length code + length data"
    by (simp add: f(1) make_app_def APP_MAGIC_def)
  ultimately show ?parse
    unfolding parse_app_image_fields using f(2-4) by blast
qed

text \<open>C28. The argument vector that a program receives is what a C program expects. Building it never
  panics and fails only for more than 16 arguments, an argument with a zero byte, more than 1024
  bytes of strings, or a failed reservation. Otherwise the vector is 8-byte aligned, its \<open>i\<close>-th
  pointer points into it, at the zero-terminated \<open>i\<close>-th string (the path first), and a null pointer
  follows the last one.\<close>

theorem argument_vector_readable:
  "\<exists>r. build_argument_vector can_reserve path arguments = Some r \<and> (case r of
      Inl e \<Rightarrow> e = InvalidArguments \<and> \<not> (can_reserve \<and> arguments_ok path arguments)
    | Inr (data, argc) \<Rightarrow>
        let argv = USER_STACK_TOP - USER_STACK_ARGUMENT_RESERVE - length data
        in argc = length arguments + 1 \<and> argv mod 8 = 0
          \<and> slice data (8 * argc) (8 * argc + 8) = replicate 8 0
          \<and> (\<forall>i < argc. \<exists>a < length data. le_nat (slice data (8 * i) (8 * i + 8)) = argv + a
              \<and> c_string (drop a data) = (path # arguments) ! i))"
proof (cases "can_reserve \<and> arguments_ok path arguments")
  case False
  then show ?thesis by (auto simp: build_argument_vector_eq)
next
  case True
  define ss where "ss = path # arguments"
  let ?data = "vector_bytes ss"
  note fit = arguments_fit [OF True [THEN conjunct2], folded ss_def]
  have start: "vector_start ss + padded_size ss + 256 = USER_STACK_TOP"
    using fit(2) by (simp add: vector_start_def USER_STACK_ARGUMENT_RESERVE_def)
  then have limit: "vector_start ss + padded_size ss < u64_limit"
    using fit(3) by (simp add: u64_limit_def)
  have argv: "USER_STACK_TOP - USER_STACK_ARGUMENT_RESERVE - length ?data = vector_start ss"
    by (simp add: length_vector_bytes vector_start_def)
  have "8 dvd vector_start ss + (padded_size ss + 256)"
    unfolding add.assoc [symmetric] start
    by (simp add: USER_STACK_TOP_def USER_SPACE_START_def USER_PML4_INDEX_def)
  moreover have "8 dvd padded_size ss + 256"
    using padded_size_bounds(3) [of ss] by (intro dvd_add) (simp_all add: dvd_eq_mod_eq_0)
  ultimately have aligned: "vector_start ss mod 8 = 0"
    using dvd_add_left_iff [of 8 "padded_size ss + 256" "vector_start ss"] by (simp only: dvd_eq_mod_eq_0)
  have null: "slice ?data (8 * length ss) (8 * length ss + 8) = replicate 8 0"
    by (simp add: slice_def vector_tail)
  have "\<exists>a < length ?data. le_nat (slice ?data (8 * i) (8 * i + 8)) = vector_start ss + a
      \<and> c_string (drop a ?data) = ss ! i" if i: "i < length ss" for i
  proof -
    have "0 \<notin> set (ss ! i)"
      using True nth_mem [OF i] by (simp add: arguments_ok_def flip: ss_def)
    then show ?thesis
      using vector_pointer [OF i limit] vector_string [OF i] terminated_take_less [OF i]
        padded_size_bounds(1) [of ss]
      by (intro exI [of _ "8 * length ss + 8 + length (terminated (take i ss))"])
        (simp add: length_vector_bytes vector_size_def)
  qed
  moreover have "length ss = length arguments + 1" by (simp add: ss_def)
  ultimately show ?thesis
    using True aligned null argv
    by (simp add: build_argument_vector_eq Let_def del: diff_diff_left flip: ss_def)
qed

theorem argument_vector_readable_witness:
  "\<exists>data. (build_argument_vector True [0x61] [[0x62]] :: (unit ProgramError + byte list \<times> nat) option)
      = Some (Inr (data, 2)) \<and> (\<exists>a < length data. c_string (drop a data) = [0x62])"
proof -
  have ok: "arguments_ok [0x61] [[0x62]]"
    by (simp add: arguments_ok_def MAX_PROGRAM_ARGUMENTS_def MAX_PROGRAM_ARGUMENT_BYTES_def)
  obtain r :: "unit ProgramError + byte list \<times> nat"
    where r: "build_argument_vector True [0x61] [[0x62]] = Some r"
      and c: "case r of Inl e \<Rightarrow> e = InvalidArguments \<and> \<not> (True \<and> arguments_ok [0x61] [[0x62]])
      | Inr (data, argc) \<Rightarrow>
          let argv = USER_STACK_TOP - USER_STACK_ARGUMENT_RESERVE - length data
          in argc = length [[0x62::byte]] + 1 \<and> argv mod 8 = 0
            \<and> slice data (8 * argc) (8 * argc + 8) = replicate 8 0
            \<and> (\<forall>i < argc. \<exists>a < length data. le_nat (slice data (8 * i) (8 * i + 8)) = argv + a
                \<and> c_string (drop a data) = ([0x61] # [[0x62]]) ! i)"
    using argument_vector_readable [of True "[0x61]" "[[0x62]]"] by blast
  obtain data where d: "r = Inr (data, 2)"
    using c ok by (cases r) (auto simp: Let_def)
  have two: "length [[0x62::byte]] + 1 = 2" by simp
  have "\<forall>i < 2. \<exists>a < length data. c_string (drop a data) = ([0x61] # [[0x62]]) ! i"
    using c unfolding d sum.case prod.case Let_def two by blast
  then have "\<exists>a < length data. c_string (drop a data) = ([0x61] # [[0x62]]) ! 1"
    by (metis one_less_numeral_iff semiring_norm(76))
  then show ?thesis using r d by auto
qed

end
