(* ===== verification/Program_Loading.thy ===== *)
theory Program_Loading
  imports Program_Format
begin

text \<open>
  What a loaded program looks like from user mode: which pages it has, with which access, and which
  byte each address shows. The frames that back the pages are those the frame allocator hands out;
  the page-table library is assumed to take frames from the allocator without giving any back
  while it maps a page.
\<close>

section \<open>Frames taken while mapping\<close>

definition alloc_ok :: "FrameAllocator \<Rightarrow> bool" where
  "alloc_ok a \<longleftrightarrow> fa_wf a \<and> distinct (free_frames a) \<and> (\<forall>f \<in> set (free_frames a). page_aligned f)"

definition takes_frames :: "('pt, 'e) PageTables \<Rightarrow> bool" where
  "takes_frames T \<longleftrightarrow> (\<forall>r p f fl a pt u a' pt'. fa_wf a \<longrightarrow> pt_map_to T r p f fl (a, pt) = (Inr u, a', pt')
    \<longrightarrow> fa_wf a' \<and> (\<exists>n. free_frames a' = drop n (free_frames a)))"

lemma alloc_ok_frames_inv: "frames_inv ok (a, own) \<Longrightarrow> alloc_ok a"
  by (simp add: frames_inv_def alloc_ok_def)

lemma alloc_ok_drop:
  assumes "alloc_ok a" "fa_wf a'" "free_frames a' = drop n (free_frames a)"
  shows "alloc_ok a'"
  using assms by (auto simp: alloc_ok_def dest: in_set_dropD)

lemma as_map_frame:
  assumes "takes_frames T" "alloc_ok (mm_alloc m)"
    and "as_map_user_page T can_reserve page access s (Some (Inr m)) = Some (Inr frame, s', cell')"
  shows "\<exists>m'. cell' = Some (Inr m') \<and> mm_phys_offset m' = mm_phys_offset m \<and> alloc_ok (mm_alloc m')
    \<and> frame \<in> set (free_frames (mm_alloc m)) \<and> frame \<notin> set (free_frames (mm_alloc m'))
    \<and> set (free_frames (mm_alloc m')) \<subseteq> set (free_frames (mm_alloc m))"
proof -
  have wf: "fa_wf (mm_alloc m)" using assms(2) by (simp add: alloc_ok_def)
  from assms(3) obtain root a a' pt pt' fl u where
    n: "next_usable_frame (mm_alloc m) = Some (Some frame, a)"
    and t: "pt_map_to T root page frame fl (a, pt) = (Inr u, a', pt')"
    and c: "cell' = Some (Inr (m\<lparr>mm_alloc := a', mm_pt := pt'\<rparr>))"
    unfolding as_map_user_page_def with_manager_def mm_map_user_page_def
    by (auto simp: Let_def split: option.splits if_splits prod.splits sum.splits)
  have f: "free_frames (mm_alloc m) = frame # free_frames a" "fa_wf a"
    using next_usable_frame_spec [OF wf] n by (cases "free_frames (mm_alloc m)"; auto)+
  obtain k where k: "fa_wf a'" "free_frames a' = drop k (free_frames a)"
    using assms(1) [unfolded takes_frames_def, rule_format, OF f(2) t] by blast
  have "alloc_ok a'"
    by (rule alloc_ok_drop [OF assms(2) k(1), of "Suc k"]) (simp add: f(1) k(2))
  moreover have "set (free_frames a') \<subseteq> set (free_frames a)"
    using k(2) by (auto dest: in_set_dropD)
  moreover have "frame \<notin> set (free_frames a)"
    using assms(2) f(1) by (simp add: alloc_ok_def)
  ultimately show ?thesis
    using c f(1) by auto
qed

section \<open>Mapping a segment\<close>

definition in_frames :: "nat \<Rightarrow> nat set \<Rightarrow> nat \<Rightarrow> bool" where
  "in_frames offset frames x \<longleftrightarrow> (\<exists>f \<in> frames. offset + f \<le> x \<and> x < offset + f + PAGE_SIZE)"

definition segment_pages :: "nat \<Rightarrow> nat \<Rightarrow> nat list" where
  "segment_pages address n = map (\<lambda>i. address + i * PAGE_SIZE) [0..<n]"

lemma segment_pages_Suc:
  "segment_pages address (Suc n) = address # segment_pages (address + PAGE_SIZE) n"
proof -
  have "segment_pages address (Suc n) = address # map (\<lambda>i. address + i * PAGE_SIZE) (map Suc [0..<n])"
    by (simp add: segment_pages_def upt_conv_Cons map_Suc_upt del: upt_Suc)
  then show ?thesis by (simp add: segment_pages_def o_def)
qed

lemma segment_pages_iff:
  assumes "page_aligned address"
  shows "page_floor x \<in> set (segment_pages address n) \<longleftrightarrow> address \<le> x \<and> x < address + n * PAGE_SIZE"
  using assms
proof (induction n arbitrary: address)
  case 0
  then show ?case by (simp add: segment_pages_def)
next
  case (Suc n)
  have "page_floor x = address \<longleftrightarrow> address \<le> x \<and> x < address + PAGE_SIZE"
    using page_aligned_between [OF Suc.prems page_floor_aligned [of x]] page_floor_le [of x] page_floor_gt [of x]
      page_floor_mono [of address x] Suc.prems
    by (metis add_less_cancel_right le_less_trans page_floor_id)
  with Suc.IH [of "address + PAGE_SIZE"] Suc.prems show ?case
    by (auto simp: segment_pages_Suc)
qed

lemma map_segment_spec:
  assumes "takes_frames T" "page_aligned address" "alloc_ok (mm_alloc m)"
    and "map_segment T reserve (mm_phys_offset m) n access address (s, Some (Inr m), pm)
      = Some (Inr pages, s', cell', pm')"
  shows "\<exists>m'. cell' = Some (Inr m') \<and> mm_phys_offset m' = mm_phys_offset m \<and> alloc_ok (mm_alloc m')
    \<and> map fst pages = segment_pages address n \<and> distinct (map snd pages)
    \<and> set (map snd pages) \<subseteq> set (free_frames (mm_alloc m))
    \<and> set (free_frames (mm_alloc m')) \<subseteq> set (free_frames (mm_alloc m)) - set (map snd pages)
    \<and> as_user_pages s' = as_user_pages s @ map (\<lambda>page. (page, access)) (segment_pages address n)
    \<and> pm' = (\<lambda>x. if in_frames (mm_phys_offset m) (set (map snd pages)) x then 0 else pm x)"
  using assms(2-)
proof (induction n arbitrary: address m s pm pages)
  case 0
  then show ?case
    by (auto simp: segment_pages_def in_frames_def)
next
  case (Suc n)
  let ?o = "mm_phys_offset m"
  have floor: "page_floor address = address" using Suc.prems(1) by simp
  obtain frame s1 cell1 rest where
    a: "as_map_user_page T (reserve address) address access s (Some (Inr m)) = Some (Inr frame, s1, cell1)"
    and r: "map_segment T reserve ?o n access (address + PAGE_SIZE)
      (s1, cell1, write_bytes (?o + frame) (replicate PAGE_SIZE 0) pm) = Some (Inr rest, s', cell', pm')"
    and p: "pages = (address, frame) # rest"
    using Suc.prems(3) by (auto simp: Let_def floor split: option.splits sum.splits)
  obtain m1 where m1: "cell1 = Some (Inr m1)" "mm_phys_offset m1 = ?o" "alloc_ok (mm_alloc m1)"
    "frame \<in> set (free_frames (mm_alloc m))" "frame \<notin> set (free_frames (mm_alloc m1))"
    "set (free_frames (mm_alloc m1)) \<subseteq> set (free_frames (mm_alloc m))"
    using as_map_frame [OF assms(1) Suc.prems(2) a] by blast
  have s1: "as_user_pages s1 = as_user_pages s @ [(address, access)]"
    using as_map_cases [OF a] by auto
  have "page_aligned (address + PAGE_SIZE)" using Suc.prems(1) by simp
  from Suc.IH [OF this m1(3), unfolded m1(2), OF r [unfolded m1(1)]] obtain m' where
    m': "cell' = Some (Inr m')" "mm_phys_offset m' = ?o" "alloc_ok (mm_alloc m')"
    "map fst rest = segment_pages (address + PAGE_SIZE) n" "distinct (map snd rest)"
    "set (map snd rest) \<subseteq> set (free_frames (mm_alloc m1))"
    "set (free_frames (mm_alloc m')) \<subseteq> set (free_frames (mm_alloc m1)) - set (map snd rest)"
    "as_user_pages s' = as_user_pages s1 @ map (\<lambda>page. (page, access)) (segment_pages (address + PAGE_SIZE) n)"
    "pm' = (\<lambda>x. if in_frames ?o (set (map snd rest)) x then 0
      else write_bytes (?o + frame) (replicate PAGE_SIZE 0) pm x)"
    by blast
  have "pm' = (\<lambda>x. if in_frames ?o (set (map snd pages)) x then 0 else pm x)"
    unfolding m'(9) p by (rule ext) (auto simp: in_frames_def write_bytes_def)
  moreover have "frame \<notin> set (map snd rest)" "frame \<notin> set (free_frames (mm_alloc m'))"
    using m1(5) m'(6,7) by blast+
  ultimately show ?case
    using m1 m' s1 p by (auto simp: segment_pages_Suc)
qed

section \<open>The view of user mode\<close>

text \<open>The byte at a user address, through the page's frame and the direct map.\<close>

definition user_view :: "nat \<Rightarrow> (nat \<times> nat) list \<Rightarrow> (nat \<Rightarrow> byte) \<Rightarrow> nat \<Rightarrow> byte option" where
  "user_view offset pages pm x =
    map_option (\<lambda>frame. pm (offset + frame + x mod PAGE_SIZE)) (map_of pages (page_floor x))"

definition pages_ok :: "(nat \<times> nat) list \<Rightarrow> bool" where
  "pages_ok pages \<longleftrightarrow> distinct (map fst pages) \<and> distinct (map snd pages)
    \<and> (\<forall>(p, f) \<in> set pages. page_aligned p \<and> page_aligned f)"

lemma page_decompose: "x = page_floor x + x mod PAGE_SIZE" "x mod PAGE_SIZE < PAGE_SIZE"
  by (simp_all add: page_floor_def PAGE_SIZE_def)

lemma page_floor_unique:
  assumes "page_aligned p" "p \<le> x" "x < p + PAGE_SIZE"
  shows "page_floor x = p"
  using page_aligned_between [OF assms(1) page_floor_aligned, of x] page_floor_mono [OF assms(2)]
    page_floor_le [of x] assms by simp

lemma user_view_write:
  assumes ok: "pages_ok pages" and pf: "(p, f) \<in> set pages" and fits: "k + length bs \<le> PAGE_SIZE"
  shows "user_view offset pages (write_bytes (offset + f + k) bs pm) x
    = (if p + k \<le> x \<and> x < p + k + length bs then Some (bs ! (x - (p + k))) else user_view offset pages pm x)"
proof (cases "page_floor x = p")
  case True
  have "map_of pages p = Some f" using ok pf by (simp add: pages_ok_def)
  then have m: "map_of pages (page_floor x) = Some f" using True by simp
  have "x = p + x mod PAGE_SIZE" using True page_decompose(1) [of x] by simp
  then have eq: "x - (p + k) = x mod PAGE_SIZE - k" "p + k \<le> x \<longleftrightarrow> k \<le> x mod PAGE_SIZE"
    "x < p + k + length bs \<longleftrightarrow> x mod PAGE_SIZE < k + length bs"
    by linarith+
  show ?thesis
    unfolding eq by (simp add: user_view_def m write_bytes_def)
next
  case False
  have "page_aligned p" using ok pf by (auto simp: pages_ok_def)
  then have outside: "\<not> (p + k \<le> x \<and> x < p + k + length bs)"
    using False page_floor_unique [of p x] fits by auto
  show ?thesis
  proof (cases "map_of pages (page_floor x)")
    case None
    then show ?thesis using outside by (auto simp: user_view_def)
  next
    case (Some g)
    then have g: "(page_floor x, g) \<in> set pages" by (rule map_of_SomeD)
    have "g \<noteq> f"
      using ok pf g False unfolding pages_ok_def by (metis eq_key_imp_eq_value distinct_map inj_onD prod.inject snd_conv)
    moreover have "page_aligned g" "page_aligned f"
      using ok pf g by (auto simp: pages_ok_def)
    ultimately have "g + PAGE_SIZE \<le> f \<or> f + PAGE_SIZE \<le> g"
      using page_aligned_between by (metis linorder_not_less nat_le_linear)
    then have "\<not> (offset + f + k \<le> offset + g + x mod PAGE_SIZE
        \<and> offset + g + x mod PAGE_SIZE < offset + f + k + length bs)"
      using page_decompose(2) [of x] fits by linarith
    then show ?thesis
      using Some outside by (auto simp: user_view_def write_bytes_def)
  qed
qed

lemma copy_to_pages_view:
  assumes "pages_ok all_pages" "set pages \<subseteq> set all_pages"
    and "map fst pages = segment_pages p n" "p \<le> a"
    and "(copy_to_pages bytes pages offset a pm :: (('e ProgramError + unit) \<times> (nat \<Rightarrow> byte)) option) = Some (Inr u, pm')"
  shows "user_view offset all_pages pm' x
    = (if a \<le> x \<and> x < a + length bytes then Some (bytes ! (x - a)) else user_view offset all_pages pm x)"
  using assms(2-)
proof (induction pages arbitrary: bytes a pm p n)
  case Nil
  then show ?case by (auto split: if_splits)
next
  case (Cons page pages)
  obtain k where n: "n = Suc k" using Cons.prems(2) by (cases n) (auto simp: segment_pages_def)
  obtain f where page: "page = (p, f)" and rest: "map fst pages = segment_pages (p + PAGE_SIZE) k"
    using Cons.prems(2) unfolding n segment_pages_Suc by (cases page) auto
  have pf: "(p, f) \<in> set all_pages" using Cons.prems(1) page by simp
  have sub: "set pages \<subseteq> set all_pages" using Cons.prems(1) by simp
  consider "bytes = []" | "bytes \<noteq> []" "p + PAGE_SIZE \<le> a" | "bytes \<noteq> []" "a < p + PAGE_SIZE"
    by linarith
  then show ?case
  proof cases
    case 1
    then show ?thesis using Cons.prems(4) page by auto
  next
    case 2
    then show ?thesis
      using Cons.IH [OF sub rest] Cons.prems(4) page by simp
  next
    case 3
    define c where "c = min (length bytes) (PAGE_SIZE - (a - p))"
    define tail where "tail = drop c bytes"
    define pm1 where "pm1 = write_bytes (offset + f + (a - p)) (take c bytes) pm"
    have c: "c \<le> length bytes" "a - p + c \<le> PAGE_SIZE" "tail = [] \<or> p + PAGE_SIZE \<le> a + c"
      using 3 Cons.prems(3) by (auto simp: c_def tail_def min_def)
    have copy: "(copy_to_pages tail pages offset (a + c) pm1
        :: (('e ProgramError + unit) \<times> (nat \<Rightarrow> byte)) option) = Some (Inr u, pm')"
      using Cons.prems(3,4) 3 page unfolding c_def tail_def pm1_def
      by (auto simp: Let_def bind_eq_Some_conv try_new_virt_def add.assoc split: option.splits if_splits)
    have step: "user_view offset all_pages pm' x
      = (if a + c \<le> x \<and> x < a + c + length tail then Some (tail ! (x - (a + c)))
         else user_view offset all_pages pm1 x)"
    proof (cases "tail = []")
      case True
      then have "pm' = pm1" using copy by (cases pages) auto
      then show ?thesis using True by auto
    next
      case False
      then have "p + PAGE_SIZE \<le> a + c" using c(3) by simp
      then show ?thesis by (rule Cons.IH [OF sub rest _ copy])
    qed
    have "user_view offset all_pages pm1 x = (if p + (a - p) \<le> x \<and> x < p + (a - p) + length (take c bytes)
        then Some (take c bytes ! (x - (p + (a - p)))) else user_view offset all_pages pm x)"
      using c(2) unfolding pm1_def by (intro user_view_write [OF assms(1) pf]) simp
    then have "user_view offset all_pages pm1 x = (if a \<le> x \<and> x < a + c then Some (bytes ! (x - a))
        else user_view offset all_pages pm x)"
      using c(1) Cons.prems(3) by auto
    then show ?thesis
      unfolding step tail_def using c(1) by auto
  qed
qed


section \<open>The layout of a program\<close>

lemma segment_layout_Inr:
  assumes "segment_layout cl dl bss entry = Inr g"
  shows "sg_code_pages g = div_ceil cl PAGE_SIZE" "sg_data_pages g = div_ceil (dl + bss) PAGE_SIZE"
    "sg_data_start g = RAW_PROGRAM_BASE + sg_code_pages g * PAGE_SIZE"
    "sg_stack_start g = USER_STACK_TOP - USER_STACK_SIZE"
    "sg_data_start g + sg_data_pages g * PAGE_SIZE + PAGE_SIZE \<le> sg_stack_start g"
    "entry < cl" "cl + dl + bss \<le> APP_MAX_MEMORY_SIZE"
proof -
  obtain g1 g2 g3 where g: "g = \<lparr>sg_code_pages = div_ceil cl PAGE_SIZE,
      sg_data_pages = div_ceil (dl + bss) PAGE_SIZE, sg_data_start = g1, sg_stack_start = g2\<rparr>"
    and g1: "g1 = RAW_PROGRAM_BASE + div_ceil cl PAGE_SIZE * PAGE_SIZE"
    and g2: "g2 + USER_STACK_SIZE = USER_STACK_TOP"
    and fits: "\<not> g2 - PAGE_SIZE < g1 + div_ceil (dl + bss) PAGE_SIZE * PAGE_SIZE"
    and sizes: "entry < cl" "cl + (dl + bss) \<le> APP_MAX_MEMORY_SIZE"
    using assms by (auto simp: segment_layout_def Let_def bind_eq_Some_conv split: if_splits)
  have g2': "g2 = USER_STACK_TOP - USER_STACK_SIZE" using g2 by simp
  have "PAGE_SIZE \<le> g2"
    unfolding g2' by (simp add: USER_STACK_TOP_def USER_STACK_SIZE_def PAGE_SIZE_def)
  then show "sg_code_pages g = div_ceil cl PAGE_SIZE" "sg_data_pages g = div_ceil (dl + bss) PAGE_SIZE"
    "sg_data_start g = RAW_PROGRAM_BASE + sg_code_pages g * PAGE_SIZE"
    "sg_stack_start g = USER_STACK_TOP - USER_STACK_SIZE"
    "sg_data_start g + sg_data_pages g * PAGE_SIZE + PAGE_SIZE \<le> sg_stack_start g"
    "entry < cl" "cl + dl + bss \<le> APP_MAX_MEMORY_SIZE"
    using g g1 g2' fits sizes by simp_all
qed

lemma div_ceil_covers: "n \<le> div_ceil n PAGE_SIZE * PAGE_SIZE"
  using div_mult_mod_eq [of "n + 4095" 4096] mod_less_divisor [of 4096 "n + 4095"]
  by (simp add: div_ceil_def PAGE_SIZE_def)

lemma program_addresses:
  "page_aligned RAW_PROGRAM_BASE" "page_aligned (USER_STACK_TOP - USER_STACK_SIZE)"
  "USER_STACK_SIZE div PAGE_SIZE * PAGE_SIZE = USER_STACK_SIZE" "USER_STACK_SIZE \<le> USER_STACK_TOP"
  "USER_SPACE_START \<le> RAW_PROGRAM_BASE" "USER_STACK_TOP < USER_SPACE_END" "USER_STACK_TOP mod 16 = 0"
  by (simp_all add: page_aligned_def RAW_PROGRAM_BASE_def USER_STACK_TOP_def USER_STACK_SIZE_def
      PAGE_SIZE_def USER_SPACE_END_def USER_SPACE_START_def USER_PML4_INDEX_def)

text \<open>The access to a user address and the byte there, for a program with the given segments.\<close>

definition segment_access :: "Segments \<Rightarrow> nat \<Rightarrow> UserPageAccess option" where
  "segment_access g x =
    (if RAW_PROGRAM_BASE \<le> x \<and> x < RAW_PROGRAM_BASE + sg_code_pages g * PAGE_SIZE then Some ReadExecute
     else if sg_data_start g \<le> x \<and> x < sg_data_start g + sg_data_pages g * PAGE_SIZE then Some ReadWrite
     else if sg_stack_start g \<le> x \<and> x < USER_STACK_TOP then Some ReadWrite
     else None)"

definition segment_byte :: "Segments \<Rightarrow> byte list \<Rightarrow> byte list \<Rightarrow> nat \<Rightarrow> byte list \<Rightarrow> nat \<Rightarrow> byte option" where
  "segment_byte g code data argv vector x =
    (if segment_access g x = None then None
     else if argv \<le> x \<and> x < argv + length vector then Some (vector ! (x - argv))
     else if sg_data_start g \<le> x \<and> x < sg_data_start g + length data then Some (data ! (x - sg_data_start g))
     else if RAW_PROGRAM_BASE \<le> x \<and> x < RAW_PROGRAM_BASE + length code
       then Some (code ! (x - RAW_PROGRAM_BASE))
     else Some 0)"

lemma and_then_Inr:
  "and_then m f = Some (Inr b, s') \<longleftrightarrow> (\<exists>a s. m = Some (Inr a, s) \<and> f a s = Some (Inr b, s'))"
  by (auto simp: and_then_def split: option.splits sum.splits)

lemma copy_step_Inr:
  "copy_step bytes pages offset address (s, cell, pm)
      = Some (Inr u :: 'e ProgramError + unit, s', cell', pm') \<longleftrightarrow>
    s' = s \<and> cell' = cell
    \<and> copy_to_pages bytes pages offset address pm = Some (Inr u :: 'e ProgramError + unit, pm')"
  by (auto simp: copy_step_def)

lemma user_view_zero:
  assumes "\<And>x. in_frames offset (set (map snd pages)) x \<Longrightarrow> pm x = 0"
  shows "user_view offset pages pm x = (if page_floor x \<in> set (map fst pages) then Some 0 else None)"
proof (cases "map_of pages (page_floor x)")
  case None
  then show ?thesis by (simp add: user_view_def map_of_eq_None_iff)
next
  case (Some f)
  then have m: "(page_floor x, f) \<in> set pages" by (rule map_of_SomeD)
  then have "f \<in> set (map snd pages)" by force
  then have "in_frames offset (set (map snd pages)) (offset + f + x mod PAGE_SIZE)"
    using page_decompose(2) [of x] unfolding in_frames_def by (intro bexI [of _ f]) simp_all
  moreover have "page_floor x \<in> set (map fst pages)" using m by force
  ultimately show ?thesis
    using Some assms by (simp add: user_view_def)
qed


lemma distinct_segment_pages: "distinct (segment_pages a n)"
  by (simp add: segment_pages_def distinct_map inj_on_def PAGE_SIZE_def)

lemma segment_pages_aligned: "page_aligned a \<Longrightarrow> p \<in> set (segment_pages a n) \<Longrightarrow> page_aligned p"
  by (auto simp: segment_pages_def)

lemma segment_pages_bounds:
  assumes "page_aligned a" "p \<in> set (segment_pages a n)"
  shows "a \<le> p \<and> p < a + n * PAGE_SIZE"
  using segment_pages_iff [OF assms(1), of p n] segment_pages_aligned [OF assms] assms(2) by simp

text \<open>Three segments one after the other.\<close>

lemma segments_distinct:
  assumes "page_aligned a" "page_aligned b" "page_aligned c"
    and "a + n * PAGE_SIZE \<le> b" "b + k * PAGE_SIZE \<le> c"
  shows "distinct (segment_pages a n @ segment_pages b k @ segment_pages c l)"
proof -
  have "set (segment_pages a n) \<inter> set (segment_pages b k) = {}"
    "set (segment_pages a n) \<inter> set (segment_pages c l) = {}"
    "set (segment_pages b k) \<inter> set (segment_pages c l) = {}"
    using segment_pages_bounds [OF assms(1)] segment_pages_bounds [OF assms(2)]
      segment_pages_bounds [OF assms(3)] assms(4,5) by (force dest: le_trans)+
  then show ?thesis
    by (simp add: distinct_segment_pages) blast
qed

lemma user_page_access_segments:
  assumes "distinct (ps @ qs @ rs)"
    and "as_user_pages s = map (\<lambda>p. (p, ReadExecute)) ps @ map (\<lambda>p. (p, ReadWrite)) qs
      @ map (\<lambda>p. (p, ReadWrite)) rs"
  shows "user_page_access s p = (if p \<in> set ps then Some ReadExecute
    else if p \<in> set qs \<or> p \<in> set rs then Some ReadWrite else None)"
proof -
  have m: "map_of (map (\<lambda>p. (p, a)) xs) p = (if p \<in> set xs then Some a else None)"
    for a :: UserPageAccess and xs by (induction xs) auto
  show ?thesis
    by (simp add: user_page_access_def assms(2) map_add_def m)
qed

lemma fill_segments_mapped:
  assumes "takes_frames T" "alloc_ok (mm_alloc m)" "as_user_pages s = []"
    and g: "segment_layout cl dl bss entry = Inr g"
    and "fill_segments T reserve (mm_phys_offset m) g code data vector argv (s, Some (Inr m), pm)
      = Some (Inr u :: 'e ProgramError + unit, s', cell', pm')"
  obtains cps dps sps pm3 pm4 pm5 where
    "map fst cps = segment_pages RAW_PROGRAM_BASE (sg_code_pages g)"
    "map fst dps = segment_pages (sg_data_start g) (sg_data_pages g)"
    "map fst sps = segment_pages (sg_stack_start g) (USER_STACK_SIZE div PAGE_SIZE)"
    "distinct (map snd (cps @ dps @ sps))" "\<forall>f \<in> set (map snd (cps @ dps @ sps)). page_aligned f"
    "as_user_pages s' = map (\<lambda>p. (p, ReadExecute)) (map fst cps) @ map (\<lambda>p. (p, ReadWrite)) (map fst dps)
      @ map (\<lambda>p. (p, ReadWrite)) (map fst sps)"
    "\<And>x. in_frames (mm_phys_offset m) (set (map snd (cps @ dps @ sps))) x \<Longrightarrow> pm3 x = 0"
    "copy_to_pages code cps (mm_phys_offset m) RAW_PROGRAM_BASE pm3 = Some (Inr () :: 'e ProgramError + unit, pm4)"
    "copy_to_pages data dps (mm_phys_offset m) (sg_data_start g) pm4 = Some (Inr () :: 'e ProgramError + unit, pm5)"
    "copy_to_pages vector sps (mm_phys_offset m) argv pm5 = Some (Inr () :: 'e ProgramError + unit, pm')"
proof -
  let ?o = "mm_phys_offset m"
  note lay = segment_layout_Inr [OF g]
  have al: "page_aligned RAW_PROGRAM_BASE" "page_aligned (sg_data_start g)" "page_aligned (sg_stack_start g)"
    unfolding lay(3,4) using program_addresses(1,2) by simp_all
  obtain cps s1 c1 pm1 dps s2 c2 pm2 sps s3 c3 pm3 pm4 pm5 where
    ms: "map_segment T reserve ?o (sg_code_pages g) ReadExecute RAW_PROGRAM_BASE (s, Some (Inr m), pm)
        = Some (Inr cps :: 'e ProgramError + _, s1, c1, pm1)"
      "map_segment T reserve ?o (sg_data_pages g) ReadWrite (sg_data_start g) (s1, c1, pm1)
        = Some (Inr dps :: 'e ProgramError + _, s2, c2, pm2)"
      "map_segment T reserve ?o (USER_STACK_SIZE div PAGE_SIZE) ReadWrite (sg_stack_start g) (s2, c2, pm2)
        = Some (Inr sps :: 'e ProgramError + _, s3, c3, pm3)"
    and cs: "copy_to_pages code cps ?o RAW_PROGRAM_BASE pm3 = Some (Inr () :: 'e ProgramError + unit, pm4)"
      "copy_to_pages data dps ?o (sg_data_start g) pm4 = Some (Inr () :: 'e ProgramError + unit, pm5)"
      "copy_to_pages vector sps ?o argv pm5 = Some (Inr () :: 'e ProgramError + unit, pm')"
    and s': "s' = s3"
    using assms(5) unfolding fill_segments_def
    by (auto simp: and_then_Inr copy_step_Inr)
  obtain m1 where m1: "c1 = Some (Inr m1)" "mm_phys_offset m1 = ?o" "alloc_ok (mm_alloc m1)"
    "map fst cps = segment_pages RAW_PROGRAM_BASE (sg_code_pages g)" "distinct (map snd cps)"
    "set (map snd cps) \<subseteq> set (free_frames (mm_alloc m))"
    "set (free_frames (mm_alloc m1)) \<subseteq> set (free_frames (mm_alloc m)) - set (map snd cps)"
    "as_user_pages s1 = as_user_pages s @ map (\<lambda>p. (p, ReadExecute)) (segment_pages RAW_PROGRAM_BASE (sg_code_pages g))"
    "pm1 = (\<lambda>x. if in_frames ?o (set (map snd cps)) x then 0 else pm x)"
    using map_segment_spec [OF assms(1) al(1) assms(2) ms(1)] by blast
  obtain m2 where m2: "c2 = Some (Inr m2)" "mm_phys_offset m2 = ?o" "alloc_ok (mm_alloc m2)"
    "map fst dps = segment_pages (sg_data_start g) (sg_data_pages g)" "distinct (map snd dps)"
    "set (map snd dps) \<subseteq> set (free_frames (mm_alloc m1))"
    "set (free_frames (mm_alloc m2)) \<subseteq> set (free_frames (mm_alloc m1)) - set (map snd dps)"
    "as_user_pages s2 = as_user_pages s1 @ map (\<lambda>p. (p, ReadWrite)) (segment_pages (sg_data_start g) (sg_data_pages g))"
    "pm2 = (\<lambda>x. if in_frames ?o (set (map snd dps)) x then 0 else pm1 x)"
    using map_segment_spec [OF assms(1) al(2) m1(3)] ms(2) unfolding m1(1,2) by blast
  obtain m3 where m3: "map fst sps = segment_pages (sg_stack_start g) (USER_STACK_SIZE div PAGE_SIZE)"
    "distinct (map snd sps)" "set (map snd sps) \<subseteq> set (free_frames (mm_alloc m2))"
    "as_user_pages s3 = as_user_pages s2 @ map (\<lambda>p. (p, ReadWrite))
      (segment_pages (sg_stack_start g) (USER_STACK_SIZE div PAGE_SIZE))"
    "pm3 = (\<lambda>x. if in_frames ?o (set (map snd sps)) x then 0 else pm2 x)"
    using map_segment_spec [OF assms(1) al(3) m2(3)] ms(3) unfolding m2(1,2) by blast
  have "set (map snd dps) \<inter> set (map snd cps) = {}" "set (map snd sps) \<inter> set (map snd cps) = {}"
    "set (map snd sps) \<inter> set (map snd dps) = {}"
    using m1(7) m2(6,7) m3(3) by blast+
  then have dist: "distinct (map snd (cps @ dps @ sps))"
    using m1(5) m2(5) m3(2) unfolding map_append distinct_append set_append by blast
  have "set (map snd (cps @ dps @ sps)) \<subseteq> set (free_frames (mm_alloc m))"
    using m1(6,7) m2(6,7) m3(3) unfolding map_append set_append by blast
  then have aligned: "\<forall>f \<in> set (map snd (cps @ dps @ sps)). page_aligned f"
    using assms(2) unfolding alloc_ok_def by blast
  have zero: "pm3 x = 0" if "in_frames ?o (set (map snd (cps @ dps @ sps))) x" for x
  proof -
    have "in_frames ?o (set (map snd cps)) x \<or> in_frames ?o (set (map snd dps)) x
        \<or> in_frames ?o (set (map snd sps)) x"
      using that unfolding in_frames_def map_append set_append by blast
    then show ?thesis by (auto simp: m3(5) m2(9) m1(9))
  qed
  show thesis
    using that [OF m1(4) m2(4) m3(1) dist aligned _ zero cs] m1(4,8) m2(4,8) m3(1,4) assms(3) s'
    by simp
qed


lemma page_in_segment:
  "page_aligned a \<Longrightarrow> page_floor x \<in> set (segment_pages a n) \<longleftrightarrow> a \<le> x \<and> x < a + n * PAGE_SIZE"
  by (rule segment_pages_iff)

lemma fill_segments_image:
  assumes "takes_frames T" "alloc_ok (mm_alloc m)" "as_user_pages s = []"
    and g: "segment_layout (length code) (length data) bss entry = Inr g"
    and argv: "sg_stack_start g \<le> argv" "argv + length vector \<le> USER_STACK_TOP"
    and fill: "fill_segments T reserve (mm_phys_offset m) g code data vector argv (s, Some (Inr m), pm)
      = Some (Inr u :: 'e ProgramError + unit, s', cell', pm')"
  shows "user_page_access s' (page_floor x) = segment_access g x"
    "\<exists>pages. map fst pages = map fst (as_user_pages s')
      \<and> (\<forall>x. user_view (mm_phys_offset m) pages pm' x = segment_byte g code data argv vector x)"
proof -
  let ?o = "mm_phys_offset m"
  note lay = segment_layout_Inr [OF g]
  have al: "page_aligned RAW_PROGRAM_BASE" "page_aligned (sg_data_start g)" "page_aligned (sg_stack_start g)"
    unfolding lay(3,4) using program_addresses(1,2) by simp_all
  have top: "sg_stack_start g + USER_STACK_SIZE div PAGE_SIZE * PAGE_SIZE = USER_STACK_TOP"
    unfolding lay(4) program_addresses(3) using program_addresses(4) by simp
  have order: "RAW_PROGRAM_BASE + sg_code_pages g * PAGE_SIZE \<le> sg_data_start g"
    "sg_data_start g + sg_data_pages g * PAGE_SIZE \<le> sg_stack_start g"
    using lay(3,5) by simp_all
  from fill_segments_mapped [OF assms(1-3) g fill] obtain cps dps sps pm3 pm4 pm5 where
    ps: "map fst cps = segment_pages RAW_PROGRAM_BASE (sg_code_pages g)"
      "map fst dps = segment_pages (sg_data_start g) (sg_data_pages g)"
      "map fst sps = segment_pages (sg_stack_start g) (USER_STACK_SIZE div PAGE_SIZE)"
    and fr: "distinct (map snd (cps @ dps @ sps))" "\<forall>f \<in> set (map snd (cps @ dps @ sps)). page_aligned f"
    and up: "as_user_pages s' = map (\<lambda>p. (p, ReadExecute)) (map fst cps)
      @ map (\<lambda>p. (p, ReadWrite)) (map fst dps) @ map (\<lambda>p. (p, ReadWrite)) (map fst sps)"
    and z: "\<And>x. in_frames ?o (set (map snd (cps @ dps @ sps))) x \<Longrightarrow> pm3 x = 0"
    and cs: "copy_to_pages code cps ?o RAW_PROGRAM_BASE pm3 = Some (Inr () :: 'e ProgramError + unit, pm4)"
      "copy_to_pages data dps ?o (sg_data_start g) pm4 = Some (Inr () :: 'e ProgramError + unit, pm5)"
      "copy_to_pages vector sps ?o argv pm5 = Some (Inr () :: 'e ProgramError + unit, pm')"
    by blast
  let ?L = "cps @ dps @ sps"
  have dist: "distinct (map fst cps @ map fst dps @ map fst sps)"
    unfolding ps by (rule segments_distinct [OF al order])
  have mem: "page_floor x \<in> set (map fst cps) \<longleftrightarrow> RAW_PROGRAM_BASE \<le> x \<and> x < RAW_PROGRAM_BASE + sg_code_pages g * PAGE_SIZE"
    "page_floor x \<in> set (map fst dps) \<longleftrightarrow> sg_data_start g \<le> x \<and> x < sg_data_start g + sg_data_pages g * PAGE_SIZE"
    "page_floor x \<in> set (map fst sps) \<longleftrightarrow> sg_stack_start g \<le> x \<and> x < USER_STACK_TOP" for x
    unfolding ps using segment_pages_iff [OF al(1)] segment_pages_iff [OF al(2)] segment_pages_iff [OF al(3)] top
    by simp_all
  show "user_page_access s' (page_floor x) = segment_access g x"
    unfolding user_page_access_segments [OF dist up] mem segment_access_def by simp
  have pal: "page_aligned p" if "(p, f) \<in> set ?L" for p f
  proof -
    have "p \<in> set (map fst cps) \<or> p \<in> set (map fst dps) \<or> p \<in> set (map fst sps)"
      using that by force
    then show ?thesis
      unfolding ps using segment_pages_aligned [OF al(1)] segment_pages_aligned [OF al(2)]
        segment_pages_aligned [OF al(3)] by blast
  qed
  have fal: "page_aligned f" if "(p, f) \<in> set ?L" for p f
  proof -
    have "f \<in> set (map snd ?L)" using that by force
    then show ?thesis using fr(2) by blast
  qed
  have "distinct (map fst ?L)" using dist by simp
  then have ok: "pages_ok ?L"
    using fr(1) pal fal unfolding pages_ok_def by blast
  have access: "page_floor x \<in> set (map fst ?L) \<longleftrightarrow> segment_access g x \<noteq> None" for x
    unfolding map_append set_append Un_iff mem segment_access_def by auto
  note covers = div_ceil_covers [of "length code", folded lay(1)]
    order_trans [OF le_add1 div_ceil_covers [of "length data + bss", folded lay(2)]]
  have inside: "segment_access g x \<noteq> None" if "RAW_PROGRAM_BASE \<le> x \<and> x < RAW_PROGRAM_BASE + length code
      \<or> sg_data_start g \<le> x \<and> x < sg_data_start g + length data \<or> argv \<le> x \<and> x < argv + length vector" for x
    using that covers argv unfolding segment_access_def by auto
  have sub: "set cps \<subseteq> set ?L" "set dps \<subseteq> set ?L" "set sps \<subseteq> set ?L" by auto
  have zv: "user_view ?o ?L pm3 x = (if page_floor x \<in> set (map fst ?L) then Some 0 else None)" for x
    by (rule user_view_zero) (rule z)
  have "user_view ?o ?L pm' x = segment_byte g code data argv vector x" for x
    unfolding copy_to_pages_view [OF ok sub(3) ps(3) argv(1) cs(3)]
      copy_to_pages_view [OF ok sub(2) ps(2) order_refl cs(2)]
      copy_to_pages_view [OF ok sub(1) ps(1) order_refl cs(1)]
      zv access segment_byte_def
    using inside [of x] by auto
  then show "\<exists>pages. map fst pages = map fst (as_user_pages s')
      \<and> (\<forall>x. user_view ?o pages pm' x = segment_byte g code data argv vector x)"
    by (intro exI [of _ ?L]) (simp add: up o_def)
qed

section \<open>A successful load\<close>

lemma create_space_cases:
  assumes "memory_create_address_space T (Some (Inr m)) = Some (Inr s, cell)" "alloc_ok (mm_alloc m)"
  shows "\<exists>m'. cell = Some (Inr m') \<and> mm_phys_offset m' = mm_phys_offset m \<and> alloc_ok (mm_alloc m')
    \<and> as_user_pages s = [] \<and> as_root s \<noteq> None"
proof -
  have wf: "fa_wf (mm_alloc m)" using assms(2) by (simp add: alloc_ok_def)
  from assms(1) obtain m' where c: "create_address_space T m = Some (Inr s, m')" "cell = Some (Inr m')"
    by (auto simp: memory_create_address_space_def with_manager_def split: sum.splits)
  then obtain root a where n: "next_usable_frame (mm_alloc m) = Some (Some root, a)"
    and m': "mm_alloc m' = a" "mm_phys_offset m' = mm_phys_offset m" "as_user_pages s = []" "as_root s = Some root"
    unfolding create_address_space_def by (auto simp: Let_def split: if_splits option.splits)
  have "free_frames a = drop 1 (free_frames (mm_alloc m))" "fa_wf a"
    using next_usable_frame_spec [OF wf] n by (auto simp: drop_Suc)
  then have "alloc_ok a" using alloc_ok_drop [OF assms(2)] by blast
  then show ?thesis using c m' by simp
qed

lemma load_segments_Inr:
  fixes T :: "('pt, 'e) PageTables"
  assumes "load_segments T rv cr3 code data bss entry path arguments (Some (Inr m), pm)
      = Some (Inr p, cell', pm')" "alloc_ok (mm_alloc m)"
  obtains g m1 s where "(segment_layout (length code) (length data) bss entry :: 'e ProgramError + Segments) = Inr g"
    "arguments_ok path arguments" "as_user_pages s = []" "mm_phys_offset m1 = mm_phys_offset m"
    "alloc_ok (mm_alloc m1)"
    "fill_segments T (rv_page rv) (mm_phys_offset m1) g code data (vector_bytes (path # arguments))
      (vector_start (path # arguments)) (s, Some (Inr m1), pm) = Some (Inr (), lp_address_space p, cell', pm')"
    "lp_entry p = RAW_PROGRAM_BASE + entry" "lp_stack p = USER_STACK_TOP"
    "lp_argument_count p = length arguments + 1"
    "lp_argument_vector p = vector_start (path # arguments)"
    "lp_data_start p = (if sg_data_pages g \<noteq> 0 then Some (sg_data_start g) else None)"
proof -
  obtain g where g: "(segment_layout (length code) (length data) bss entry :: 'e ProgramError + Segments) = Inr g"
    using assms(1) by (auto simp: load_segments_def split: sum.splits)
  have ok: "arguments_ok path arguments" and rv: "rv_arguments rv"
    using assms(1) g by (auto simp: load_segments_def build_argument_vector_eq split: if_splits)
  let ?v = "vector_bytes (path # arguments)"
  note fit = arguments_fit [OF ok]
  have sub: "Option.bind (checked_sub USER_STACK_TOP USER_STACK_ARGUMENT_RESERVE)
      (\<lambda>a. checked_sub a (length ?v)) = Some (vector_start (path # arguments))"
  proof -
    have "checked_sub USER_STACK_TOP USER_STACK_ARGUMENT_RESERVE
        = Some (USER_STACK_TOP - USER_STACK_ARGUMENT_RESERVE)"
      "checked_sub (USER_STACK_TOP - USER_STACK_ARGUMENT_RESERVE) (length ?v)
        = Some (vector_start (path # arguments))"
      using fit(2) unfolding length_vector_bytes vector_start_def checked_sub_def by auto
    then show ?thesis by (simp only: Option.bind.bind_lunit)
  qed
  obtain s cell1 where c: "memory_create_address_space T (Some (Inr m)) = Some (Inr s, cell1)"
    using assms(1) g ok rv sub
    by (auto simp: load_segments_def build_argument_vector_eq split: if_splits option.splits sum.splits)
  obtain m1 where m1: "cell1 = Some (Inr m1)" "mm_phys_offset m1 = mm_phys_offset m" "alloc_ok (mm_alloc m1)"
    "as_user_pages s = []"
    using create_space_cases [OF c assms(2)] by blast
  have w: "with_manager (\<lambda>m. Some (mm_phys_offset m, m)) (Some (Inr m1))
      = Some (Inr (mm_phys_offset m1), Some (Inr m1))"
    by (simp add: with_manager_def)
  have no_ab: "abandon T cr3 e st \<noteq> Some (Inr q, st')" for e st q st'
    by (auto simp: abandon_def split: prod.splits sum.splits)
  have rvs: "rv_code rv" "rv_data rv" "rv_stack rv"
    using assms(1) by (simp_all add: load_segments_def g build_argument_vector_eq ok rv sub split: if_split_asm)
  obtain r s3 cell3 pm3 where f: "fill_segments T (rv_page rv) (mm_phys_offset m1) g code data ?v
      (vector_start (path # arguments)) (s, Some (Inr m1), pm) = Some (r, s3, cell3, pm3)"
    using assms(1)
    by (simp add: load_segments_def g build_argument_vector_eq ok rv sub c [unfolded m1(1)] w rvs
        split: option.split_asm prod.split_asm)
  have l: "(case r of Inl e \<Rightarrow> abandon T cr3 e (s3, cell3, pm3)
      | Inr _ \<Rightarrow> Some (Inr \<lparr>lp_address_space = s3, lp_entry = RAW_PROGRAM_BASE + entry,
           lp_stack = USER_STACK_TOP, lp_argument_count = length arguments + 1,
           lp_argument_vector = vector_start (path # arguments),
           lp_data_start = (if sg_data_pages g \<noteq> 0 then Some (sg_data_start g) else None)\<rparr>,
           cell3, pm3)) = Some (Inr p, cell', pm')"
    using assms(1)
    by (cases r; cases "sg_data_pages g = 0")
      (simp_all add: load_segments_def g build_argument_vector_eq ok rv sub c [unfolded m1(1)] w rvs f)
  obtain u where r: "r = Inr u"
    using l no_ab [of _ "(s3, cell3, pm3)" p "(cell', pm')"] by (cases r) simp_all
  show thesis
    using that [OF g ok m1(4,2,3)] f l unfolding r sum.case by force
qed

end
