(* ===== verification/Program_Image.thy ===== *)
theory Program_Image
  imports Program_Loading
begin

text \<open>
  The guarantees of the program loader for a program that has been loaded, and a concrete load.
\<close>

section \<open>A concrete load\<close>

lemma takes_frames_flat: "takes_frames flat_tables"
proof -
  have "\<exists>n. free_frames a = drop n (free_frames a)" for a by (rule exI [of _ 0]) simp
  then show ?thesis
    unfolding takes_frames_def by (auto simp: flat_tables_def)
qed

lemma sample_alloc_ok: "alloc_ok (mm_alloc sample_manager)"
  using alloc_ok_frames_inv [OF frames_inv_reachable [OF sample_new sample_limit rtranclp.rtrancl_refl]]
  by (simp add: sample_manager_def)

lemma sample_free: "free_frames sample_alloc = map (\<lambda>i. 1048576 + i * 4096) [0..<16]"
proof -
  have "reclaimed sample_alloc = []" by (simp add: reclaimed_def sample_alloc_def)
  moreover have "desc sample_alloc 0 = \<lparr>md_type = 7, md_physical_start = 1048576, md_number_of_pages = 16\<rparr>"
    by (simp add: desc_def sample_alloc_def sample_descriptor)
  moreover have "fa_excluded sample_alloc (1048576 + i * 4096) \<longleftrightarrow> False" if "i < 16" for i
    using that by (simp add: fa_excluded_def sample_alloc_def range_contains_def range_empty_def)
  then have "filter (\<lambda>x. \<not> fa_excluded sample_alloc x) (map (\<lambda>i. 1048576 + i * 4096) [0..<16])
      = map (\<lambda>i. 1048576 + i * 4096) [0..<16]"
    by (intro filter_True) auto
  ultimately show ?thesis
    by (simp add: free_frames_def pending_frames_def later_frames_def region_frames_def
        EFI_CONVENTIONAL_MEMORY_def PAGE_SIZE_def)
      (simp add: sample_alloc_def)
qed

text \<open>A manager over the flat page tables with enough low frames maps pages.\<close>

definition roomy :: "(nat \<rightharpoonup> nat) MemoryManager \<Rightarrow> nat \<Rightarrow> bool" where
  "roomy m n \<longleftrightarrow> fa_wf (mm_alloc m) \<and> n \<le> length (free_frames (mm_alloc m)) \<and> mm_phys_offset m = 0
    \<and> (\<forall>f \<in> set (free_frames (mm_alloc m)). f < 2 ^ 32)"

lemma low_address: "x < 2 ^ 32 \<Longrightarrow> mm_phys_offset m = 0 \<Longrightarrow> physical_to_virtual m x = Some x"
  by (simp add: physical_to_virtual_def checked_add_def u64_limit_def try_new_virt_def canonical_def)

lemma roomy_frame:
  assumes "roomy m (Suc n)"
  obtains f a where "next_usable_frame (mm_alloc m) = Some (Some f, a)" "f < 2 ^ 32"
    "\<And>pt. roomy (m\<lparr>mm_alloc := a, mm_pt := pt\<rparr>) n"
proof -
  have wf: "fa_wf (mm_alloc m)" using assms by (simp add: roomy_def)
  obtain f fs where ff: "free_frames (mm_alloc m) = f # fs"
    using assms by (cases "free_frames (mm_alloc m)") (auto simp: roomy_def)
  then obtain a where "next_usable_frame (mm_alloc m) = Some (Some f, a)" "free_frames a = fs" "fa_wf a"
    using next_usable_frame_spec [OF wf] by auto
  then show thesis
    using that assms ff by (auto simp: roomy_def)
qed

lemma flat_map_segment:
  assumes "roomy m (n + k)" "as_root s = Some root" "root < 2 ^ 32" "page_aligned address"
    and "\<forall>p \<in> set (segment_pages address n). p4_index p = USER_PML4_INDEX \<and> p \<notin> set (map fst (as_user_pages s))"
  shows "\<exists>pages s' m' pm'. map_segment flat_tables (\<lambda>_. True) 0 n access address (s, Some (Inr m), pm)
      = Some (Inr pages :: unit ProgramError + _, s', Some (Inr m'), pm')
    \<and> roomy m' k \<and> as_root s' = Some root \<and> mm_phys_offset m' = 0
    \<and> map fst pages = segment_pages address n \<and> (\<forall>f \<in> set (map snd pages). f < 2 ^ 32)
    \<and> map fst (as_user_pages s') = map fst (as_user_pages s) @ segment_pages address n"
  using assms
proof (induction n arbitrary: m s address pm)
  case 0
  then show ?case by (auto simp: segment_pages_def roomy_def)
next
  case (Suc n)
  have floor: "page_floor address = address" using Suc.prems(4) by simp
  have pages: "p4_index address = USER_PML4_INDEX" "address \<notin> set (map fst (as_user_pages s))"
    using Suc.prems(5) by (simp_all add: segment_pages_Suc)
  have room: "roomy m (Suc (n + k))" using Suc.prems(1) by simp
  obtain f a where f: "next_usable_frame (mm_alloc m) = Some (Some f, a)" "f < 2 ^ 32"
    "\<And>pt. roomy (m\<lparr>mm_alloc := a, mm_pt := pt\<rparr>) (n + k)"
    using roomy_frame [OF room] by metis
  let ?s1 = "s\<lparr>as_user_pages := as_user_pages s @ [(address, access)]\<rparr>"
  obtain m1 where m1: "as_map_user_page flat_tables True address access s (Some (Inr m))
      = Some (Inr f, ?s1, Some (Inr m1))" "roomy m1 (n + k)"
  proof -
    have "mm_phys_offset m = 0" using room by (simp add: roomy_def)
    then show thesis
      using that Suc.prems(2,3) pages f
      by (simp add: as_map_user_page_def with_manager_def mm_map_user_page_def low_address Let_def
          flat_tables_def)
  qed
  have "\<forall>p \<in> set (segment_pages (address + PAGE_SIZE) n). p4_index p = USER_PML4_INDEX
      \<and> p \<notin> set (map fst (as_user_pages ?s1))"
    using Suc.prems(5) distinct_segment_pages [of address "Suc n"] by (auto simp: segment_pages_Suc)
  from Suc.IH [OF m1(2) _ Suc.prems(3) _ this, of "write_bytes f (replicate PAGE_SIZE 0) pm"] Suc.prems(2,4)
  obtain rest s' m' pm' where "map_segment flat_tables (\<lambda>_. True) 0 n access (address + PAGE_SIZE)
      (?s1, Some (Inr m1), write_bytes f (replicate PAGE_SIZE 0) pm)
      = Some (Inr rest :: unit ProgramError + _, s', Some (Inr m'), pm')"
    "roomy m' k" "as_root s' = Some root" "mm_phys_offset m' = 0"
    "map fst rest = segment_pages (address + PAGE_SIZE) n" "\<forall>f \<in> set (map snd rest). f < 2 ^ 32"
    "map fst (as_user_pages s') = map fst (as_user_pages ?s1) @ segment_pages (address + PAGE_SIZE) n"
    by auto
  then show ?case
    using m1(1) f(2) by (simp add: floor segment_pages_Suc Let_def)
qed

text \<open>Copying to pages on low frames succeeds when the pages cover the bytes.\<close>

lemma copy_succeeds:
  assumes "map fst pages = segment_pages p n" "\<forall>f \<in> set (map snd pages). f < 2 ^ 32"
    and "p \<le> a" "a + length bytes \<le> p + n * PAGE_SIZE"
  shows "\<exists>pm'. copy_to_pages bytes pages 0 a pm = Some (Inr () :: 'e ProgramError + unit, pm')"
  using assms
proof (induction pages arbitrary: bytes a pm p n)
  case Nil
  then have "n = 0" by (cases n) (simp_all add: segment_pages_Suc)
  then have "a + length bytes \<le> p" using Nil.prems(4) by simp
  then have "length bytes = 0" using Nil.prems(3) by linarith
  then show ?case by simp
next
  case (Cons page pages)
  obtain k where n: "n = Suc k" using Cons.prems(1) by (cases n) (auto simp: segment_pages_def)
  obtain f where page: "page = (p, f)" and rest: "map fst pages = segment_pages (p + PAGE_SIZE) k"
    using Cons.prems(1) unfolding n segment_pages_Suc by (cases page) auto
  have low: "\<forall>f \<in> set (map snd pages). f < 2 ^ 32" "f < 2 ^ 32" using Cons.prems(2) page by simp_all
  consider "bytes = []" | "bytes \<noteq> []" "p + PAGE_SIZE \<le> a" | "bytes \<noteq> []" "a < p + PAGE_SIZE"
    by linarith
  then show ?case
  proof cases
    case 1
    then show ?thesis using page by simp
  next
    case 2
    then show ?thesis
      using Cons.IH [OF rest low(1) 2(2), of bytes pm] Cons.prems(4) page n by simp
  next
    case 3
    define c where "c = min (length bytes) (PAGE_SIZE - (a - p))"
    have c: "c \<le> length bytes" "drop c bytes = [] \<or> p + PAGE_SIZE \<le> a + c"
      using 3 Cons.prems(3) by (auto simp: c_def min_def)
    have "f + (a - p) < 2 ^ 47"
      using low(2) 3(2) Cons.prems(3) by (simp add: PAGE_SIZE_def)
    then have dest: "Option.bind (checked_add 0 f) (\<lambda>b. Option.bind (checked_add b (a - p)) try_new_virt)
        = Some (f + (a - p))"
      using low(2) by (simp add: checked_add_def u64_limit_def try_new_virt_def canonical_def)
    have "\<exists>pm'. copy_to_pages (drop c bytes) pages 0 (a + c)
        (write_bytes (f + (a - p)) (take c bytes) pm) = Some (Inr () :: 'e ProgramError + unit, pm')"
    proof (cases "drop c bytes = []")
      case True
      then show ?thesis by (cases pages) auto
    next
      case False
      then show ?thesis
        using c Cons.prems(4) n by (intro Cons.IH [OF rest low(1)]) auto
    qed
    then show ?thesis
      using 3 Cons.prems(3) page dest by (simp add: c_def Let_def)
  qed
qed


definition sample_rv :: Reservations where
  "sample_rv = \<lparr>rv_arguments = True, rv_code = True, rv_data = True, rv_stack = True, rv_page = (\<lambda>_. True)\<rparr>"

definition sample_segments :: Segments where
  "sample_segments = \<lparr>sg_code_pages = 1, sg_data_pages = 0, sg_data_start = RAW_PROGRAM_BASE + PAGE_SIZE,
    sg_stack_start = USER_STACK_TOP - USER_STACK_SIZE\<rparr>"

lemma sample_layout: "segment_layout 1 0 0 0 = Inr sample_segments"
  by (simp add: segment_layout_def sample_segments_def div_ceil_def checked_add_def checked_mul_def
      checked_sub_def u64_limit_def PAGE_SIZE_def RAW_PROGRAM_BASE_def USER_STACK_TOP_def
      USER_STACK_SIZE_def USER_SPACE_START_def USER_PML4_INDEX_def APP_MAX_MEMORY_SIZE_def Let_def)

lemma user_slot:
  assumes "USER_SPACE_START \<le> p" "p < USER_SPACE_START + 2 ^ 39"
  shows "p4_index p = USER_PML4_INDEX"
proof -
  have "255 * 2 ^ 39 \<le> p" "p < 256 * 2 ^ 39"
    using assms by (simp_all add: USER_SPACE_START_def USER_PML4_INDEX_def)
  then have "p div 2 ^ 39 = 255" by (intro div_nat_eqI) simp_all
  then show ?thesis by (simp add: p4_index_def USER_PML4_INDEX_def)
qed

lemma sample_create:
  "\<exists>m1. memory_create_address_space flat_tables (Some (Inr sample_manager))
      = Some (Inr \<lparr>as_root = Some 1048576, as_user_pages = []\<rparr>, Some (Inr m1)) \<and> roomy m1 15"
proof -
  have "roomy sample_manager (Suc 15)"
    using sample_manager_wf by (auto simp: roomy_def sample_manager_def sample_free)
  then obtain f a where f: "next_usable_frame (mm_alloc sample_manager) = Some (Some f, a)"
    "\<And>pt. roomy (sample_manager\<lparr>mm_alloc := a, mm_pt := pt\<rparr>) 15"
    using roomy_frame by metis
  have "f = 1048576"
    using f(1) sample_first by (auto simp: sample_manager_def)
  then have "create_address_space flat_tables sample_manager
      = Some (Inr \<lparr>as_root = Some 1048576, as_user_pages = []\<rparr>,
          sample_manager\<lparr>mm_alloc := a, mm_pt := mm_pt sample_manager\<rparr>)"
    using f(1) low_address [of 1048576 "sample_manager\<lparr>mm_alloc := a\<rparr>"]
    by (simp add: create_address_space_def flat_tables_def Let_def entry_unused_def USER_PML4_INDEX_def)
      (simp add: sample_manager_def)
  then show ?thesis
    using f(2) [of "mm_pt sample_manager"]
    by (simp add: memory_create_address_space_def with_manager_def)
qed

lemma sample_fill:
  assumes "roomy m 15"
  shows "\<exists>s' m' pm'. fill_segments flat_tables (\<lambda>_. True) 0 sample_segments [0xF4] []
      (vector_bytes [[0x61]]) (vector_start [[0x61]])
      (\<lparr>as_root = Some 1048576, as_user_pages = []\<rparr>, Some (Inr m), pm)
    = Some (Inr () :: unit ProgramError + unit, s', Some (Inr m'), pm')"
proof -
  note lay = segment_layout_Inr [OF sample_layout]
  have al: "page_aligned RAW_PROGRAM_BASE" "page_aligned (USER_STACK_TOP - USER_STACK_SIZE)"
    by (rule program_addresses)+
  have slot: "p4_index p = USER_PML4_INDEX" if "RAW_PROGRAM_BASE \<le> p" "p < USER_STACK_TOP" for p
    using that by (intro user_slot) (simp_all add: RAW_PROGRAM_BASE_def USER_STACK_TOP_def)
  have order: "RAW_PROGRAM_BASE + PAGE_SIZE \<le> USER_STACK_TOP - USER_STACK_SIZE"
    "RAW_PROGRAM_BASE + PAGE_SIZE < USER_STACK_TOP"
    by (simp_all add: RAW_PROGRAM_BASE_def USER_STACK_TOP_def USER_STACK_SIZE_def PAGE_SIZE_def
        USER_SPACE_START_def USER_PML4_INDEX_def)
  let ?s = "\<lparr>as_root = Some 1048576, as_user_pages = []\<rparr>"
  have room: "roomy m (1 + 14)" using assms by simp
  have low: "(1048576 :: nat) < 2 ^ 32" by simp
  have "\<forall>p \<in> set (segment_pages RAW_PROGRAM_BASE 1). p4_index p = USER_PML4_INDEX
      \<and> p \<notin> set (map fst (as_user_pages ?s))"
    using slot segment_pages_bounds [OF al(1), of _ 1] order by fastforce
  from flat_map_segment [OF room _ low al(1) this, of ReadExecute pm]
  obtain cps s1 m1 pm1 where c: "map_segment flat_tables (\<lambda>_. True) 0 1 ReadExecute RAW_PROGRAM_BASE
      (?s, Some (Inr m), pm) = Some (Inr cps :: unit ProgramError + _, s1, Some (Inr m1), pm1)"
    "roomy m1 14" "as_root s1 = Some 1048576" "map fst cps = segment_pages RAW_PROGRAM_BASE 1"
    "\<forall>f \<in> set (map snd cps). f < 2 ^ 32"
    "map fst (as_user_pages s1) = segment_pages RAW_PROGRAM_BASE 1"
    unfolding AddressSpace.simps list.map append_Nil by blast
  have room1: "roomy m1 (4 + 10)" using c(2) by simp
  have top: "USER_STACK_TOP - USER_STACK_SIZE + 4 * PAGE_SIZE = USER_STACK_TOP"
    by (simp add: USER_STACK_TOP_def USER_STACK_SIZE_def PAGE_SIZE_def)
  have "\<forall>p \<in> set (segment_pages (USER_STACK_TOP - USER_STACK_SIZE) 4). p4_index p = USER_PML4_INDEX
      \<and> p \<notin> set (map fst (as_user_pages s1))"
  proof
    fix p
    assume "p \<in> set (segment_pages (USER_STACK_TOP - USER_STACK_SIZE) 4)"
    then have p: "USER_STACK_TOP - USER_STACK_SIZE \<le> p" "p < USER_STACK_TOP"
      using segment_pages_bounds [OF al(2), of p 4] top by simp_all
    then show "p4_index p = USER_PML4_INDEX \<and> p \<notin> set (map fst (as_user_pages s1))"
      unfolding c(6) using slot order segment_pages_bounds [OF al(1), of p 1] by force
  qed
  from flat_map_segment [OF room1 c(3) low al(2) this, of ReadWrite pm1]
  obtain sps s2 m2 pm2 where st: "map_segment flat_tables (\<lambda>_. True) 0 4 ReadWrite
      (USER_STACK_TOP - USER_STACK_SIZE) (s1, Some (Inr m1), pm1)
      = Some (Inr sps :: unit ProgramError + _, s2, Some (Inr m2), pm2)"
    "map fst sps = segment_pages (USER_STACK_TOP - USER_STACK_SIZE) 4" "\<forall>f \<in> set (map snd sps). f < 2 ^ 32"
    by blast
  obtain pm3 where p3: "copy_to_pages [0xF4] cps 0 RAW_PROGRAM_BASE pm2 = Some (Inr () :: unit ProgramError + unit, pm3)"
    using copy_succeeds [OF c(4,5), of RAW_PROGRAM_BASE "[0xF4]" pm2] by (auto simp: PAGE_SIZE_def)
  have ok: "arguments_ok [0x61] []"
    by (simp add: arguments_ok_def MAX_PROGRAM_ARGUMENT_BYTES_def)
  have v: "USER_STACK_TOP - USER_STACK_SIZE \<le> vector_start [[0x61]]"
    "vector_start [[0x61]] + length (vector_bytes [[0x61]]) \<le> USER_STACK_TOP"
    using arguments_fit [OF ok] unfolding length_vector_bytes vector_start_def
    by (simp_all add: USER_STACK_SIZE_def USER_STACK_ARGUMENT_RESERVE_def)
  obtain pm4 where "copy_to_pages (vector_bytes [[0x61]]) sps 0 (vector_start [[0x61]]) pm3
      = Some (Inr () :: unit ProgramError + unit, pm4)"
    using copy_succeeds [OF st(2,3) v(1), of "vector_bytes [[0x61]]" pm3] v(2) top by auto
  moreover have "USER_STACK_SIZE div PAGE_SIZE = 4" by (simp add: USER_STACK_SIZE_def PAGE_SIZE_def)
  moreover have "copy_to_pages [] [] 0 x pm = Some (Inr () :: unit ProgramError + unit, pm)" for x pm by simp
  ultimately show ?thesis
    using c(1) st(1) p3
    by (simp add: fill_segments_def sample_segments_def and_then_def copy_step_def)
qed

lemma sample_load:
  "\<exists>p cell pm'. load_segments flat_tables sample_rv 0 [0xF4] [] 0 0 [0x61] []
    (Some (Inr sample_manager), \<lambda>_. 0) = Some (Inr p, cell, pm')"
proof -
  obtain m1 where c: "memory_create_address_space flat_tables (Some (Inr sample_manager))
      = Some (Inr \<lparr>as_root = Some 1048576, as_user_pages = []\<rparr>, Some (Inr m1))" and room: "roomy m1 15"
    using sample_create by blast
  have ok: "arguments_ok [0x61] []"
    by (simp add: arguments_ok_def MAX_PROGRAM_ARGUMENT_BYTES_def)
  have off: "mm_phys_offset m1 = 0" using room by (simp add: roomy_def)
  have sub: "Option.bind (checked_sub USER_STACK_TOP USER_STACK_ARGUMENT_RESERVE)
      (\<lambda>a. checked_sub a (length (vector_bytes [[0x61]]))) = Some (vector_start [[0x61]])"
    using arguments_fit(2) [OF ok]
    by (auto simp: length_vector_bytes vector_start_def checked_sub_def)
  show ?thesis
    using sample_fill [OF room, of "\<lambda>_. 0"] c ok sub
    by (auto simp: load_segments_def sample_layout [unfolded One_nat_def] build_argument_vector_eq
        sample_rv_def with_manager_def off)
qed


section \<open>Properties\<close>

lemma loaded_vector:
  assumes "arguments_ok path arguments" and g: "segment_layout cl dl bss entry = Inr g"
  shows "sg_stack_start g \<le> vector_start (path # arguments)"
    "vector_start (path # arguments) + length (vector_bytes (path # arguments)) + 256 = USER_STACK_TOP"
  using arguments_fit [OF assms(1)] unfolding length_vector_bytes vector_start_def segment_layout_Inr(4) [OF g]
  by (simp_all add: USER_STACK_SIZE_def USER_STACK_ARGUMENT_RESERVE_def)



text \<open>C24. A program that the loader accepts can always be started: its entry point is on an
  executable page, its stack pointer aligned and below a writable page, and its argument vector on a
  writable page, so the check that spawning a user task makes on the three never fails.\<close>

theorem loaded_program_enters:
  fixes T :: "('pt, 'e) PageTables"
  assumes "load_segments T rv cr3 code data bss entry path arguments (Some (Inr m), pm)
      = Some (Inr p, cell', pm')"
    and "alloc_ok (mm_alloc m)" and "takes_frames T"
  shows "for_address_space_with_arguments (lp_address_space p) (lp_entry p) (lp_stack p)
      (lp_argument_count p) (lp_argument_vector p)
    = Inr \<lparr>uc_entry = RAW_PROGRAM_BASE + entry, uc_stack = USER_STACK_TOP,
        uc_argument_count = length arguments + 1, uc_argument_vector = lp_argument_vector p\<rparr>"
proof -
  from load_segments_Inr [OF assms(1,2)] obtain g m1 s where
    l: "segment_layout (length code) (length data) bss entry = (Inr g :: 'e ProgramError + Segments)"
    "arguments_ok path arguments" "as_user_pages s = []" "mm_phys_offset m1 = mm_phys_offset m"
    "alloc_ok (mm_alloc m1)"
    and fill: "fill_segments T (rv_page rv) (mm_phys_offset m1) g code data (vector_bytes (path # arguments))
      (vector_start (path # arguments)) (s, Some (Inr m1), pm) = Some (Inr (), lp_address_space p, cell', pm')"
    and p: "lp_entry p = RAW_PROGRAM_BASE + entry" "lp_stack p = USER_STACK_TOP"
      "lp_argument_count p = length arguments + 1" "lp_argument_vector p = vector_start (path # arguments)"
    by metis
  note lay = segment_layout_Inr [OF l(1)]
  note lv = loaded_vector [OF l(2,1)]
  have fits: "sg_stack_start g \<le> vector_start (path # arguments)"
    "vector_start (path # arguments) + length (vector_bytes (path # arguments)) \<le> USER_STACK_TOP"
    using lv by simp_all
  note access = fill_segments_image(1) [OF assms(3) l(5,3,1) fits fill]
  have code: "entry < sg_code_pages g * PAGE_SIZE"
    using lay(6) div_ceil_covers [of "length code"] unfolding lay(1) by simp
  have base: "RAW_PROGRAM_BASE + sg_code_pages g * PAGE_SIZE \<le> sg_stack_start g"
    "sg_data_start g + sg_data_pages g * PAGE_SIZE \<le> sg_stack_start g"
    "RAW_PROGRAM_BASE + sg_code_pages g * PAGE_SIZE = sg_data_start g"
    using lay(3,5) by simp_all
  have stack: "sg_stack_start g \<le> USER_STACK_TOP - 1" "0 < USER_STACK_TOP"
    unfolding lay(4) by (simp_all add: USER_STACK_SIZE_def USER_STACK_TOP_def)
  have "segment_access g (RAW_PROGRAM_BASE + entry) = Some ReadExecute"
    "segment_access g (USER_STACK_TOP - 1) = Some ReadWrite"
    "segment_access g (vector_start (path # arguments)) = Some ReadWrite"
    using code base stack fits lv(2) unfolding segment_access_def by auto
  moreover have "contains_user_address (RAW_PROGRAM_BASE + entry)" "contains_user_address USER_STACK_TOP"
    "contains_user_address (vector_start (path # arguments))"
    using code base stack lv program_addresses(5,6) unfolding contains_user_address_def by linarith+
  ultimately show ?thesis
    using program_addresses(7)
    by (simp add: for_address_space_with_arguments_def UserContext_with_arguments_def p access)
qed

theorem loaded_program_enters_witness:
  "\<exists>p cell pm' context. load_segments flat_tables sample_rv 0 [0xF4] [] 0 0 [0x61] []
      (Some (Inr sample_manager), \<lambda>_. 0) = Some (Inr p, cell, pm')
    \<and> for_address_space_with_arguments (lp_address_space p) (lp_entry p) (lp_stack p)
        (lp_argument_count p) (lp_argument_vector p) = Inr context"
proof -
  obtain p cell pm' where l: "load_segments flat_tables sample_rv 0 [0xF4] [] 0 0 [0x61] []
      (Some (Inr sample_manager), \<lambda>_. 0) = Some (Inr p, cell, pm')"
    using sample_load by blast
  then show ?thesis
    using loaded_program_enters [OF l sample_alloc_ok takes_frames_flat] by blast
qed

text \<open>C36. The argument vector lies inside the stack, below the initial stack pointer: its last byte is
  the 257th below it. A program whose stack grows past 256 bytes therefore overwrites its own
  argument strings and pointers.\<close>

theorem argument_vector_below_stack:
  fixes T :: "('pt, 'e) PageTables"
  assumes "load_segments T rv cr3 code data bss entry path arguments (Some (Inr m), pm)
      = Some (Inr p, cell', pm')"
    and "alloc_ok (mm_alloc m)"
  shows "lp_stack p = lp_argument_vector p + length (vector_bytes (path # arguments)) + 256
    \<and> lp_stack p - USER_STACK_SIZE \<le> lp_argument_vector p \<and> 0 < length (vector_bytes (path # arguments))"
proof -
  from load_segments_Inr [OF assms] obtain g where
    l: "segment_layout (length code) (length data) bss entry = (Inr g :: 'e ProgramError + Segments)"
    "arguments_ok path arguments"
    and p: "lp_stack p = USER_STACK_TOP" "lp_argument_vector p = vector_start (path # arguments)"
    by metis
  have "0 < length (vector_bytes (path # arguments))"
    using padded_size_bounds(1) [of "path # arguments"] by (simp add: length_vector_bytes vector_size_def)
  then show ?thesis
    using loaded_vector [OF l(2,1)] unfolding p segment_layout_Inr(4) [OF l(1)] by simp
qed

theorem argument_vector_below_stack_witness:
  "\<exists>p cell pm'. load_segments flat_tables sample_rv 0 [0xF4] [] 0 0 [0x61] []
      (Some (Inr sample_manager), \<lambda>_. 0) = Some (Inr p, cell, pm')
    \<and> lp_argument_vector p < lp_stack p - 256"
proof -
  obtain p cell pm' where l: "load_segments flat_tables sample_rv 0 [0xF4] [] 0 0 [0x61] []
      (Some (Inr sample_manager), \<lambda>_. 0) = Some (Inr p, cell, pm')"
    using sample_load by blast
  then show ?thesis
    using argument_vector_below_stack [OF l sample_alloc_ok] by auto
qed

end
