(* ===== verification/Sector_Store.thy ===== *)
theory Sector_Store
  imports Ext2_Types
begin

text \<open>
  What the file system relies on of the disk driver. A read returns the sectors and changes none; a
  successful write stores what was given; a write that fails may have changed any of the sectors it
  was to write, but no other.
\<close>

text \<open>The sectors of a request, as one byte string.\<close>

definition sectors_of :: "(nat \<Rightarrow> byte list) \<Rightarrow> nat \<Rightarrow> nat \<Rightarrow> byte list" where
  "sectors_of sector lba n = concat (map sector [lba..<lba + n])"

locale sector_store =
  fixes rd :: "nat \<Rightarrow> nat \<Rightarrow> nat \<Rightarrow> 'v \<Rightarrow> (AtaError + byte list) \<times> 'v"
    and wr :: "nat \<Rightarrow> nat \<Rightarrow> byte list \<Rightarrow> 'v \<Rightarrow> (AtaError + unit) \<times> 'v"
    and sector :: "'v \<Rightarrow> nat \<Rightarrow> byte list"
  assumes sector_length: "length (sector v i) = 512"
    and rd_result: "rd lba n len v = (Inr bs, v') \<Longrightarrow> len = 512 * n \<and> bs = concat (map (sector v) [lba..<lba + n])"
    and rd_keeps: "rd lba n len v = (r, v') \<Longrightarrow> sector v' = sector v"
    and wr_stores: "wr lba n bs v = (Inr u, v') \<Longrightarrow>
      length bs = 512 * n \<and> concat (map (sector v') [lba..<lba + n]) = bs"
    and wr_frame: "wr lba n bs v = (w, v') \<Longrightarrow> i < lba \<or> lba + n \<le> i \<Longrightarrow> sector v' i = sector v i"
begin

lemma length_sectors: "length (sectors_of (sector v) lba n) = 512 * n"
  by (simp add: sectors_of_def length_concat o_def sector_length sum_list_triv)

lemma read_gives: "rd lba n len v = (Inr bs, v') \<Longrightarrow> bs = sectors_of (sector v) lba n \<and> length bs = len"
  using rd_result [of lba n len v bs v'] length_sectors [of v lba n] by (simp add: sectors_of_def)

lemma write_stores: "wr lba n bs v = (Inr u, v') \<Longrightarrow> sectors_of (sector v') lba n = bs"
  using wr_stores by (auto simp: sectors_of_def)

lemma write_outside:
  assumes "wr lba n bs v = (r, v')" "a + k \<le> lba \<or> lba + n \<le> a"
  shows "sectors_of (sector v') a k = sectors_of (sector v) a k"
proof -
  have "sector v' i = sector v i" if "i \<in> set [a..<a + k]" for i
    using that assms(2) by (intro wr_frame [OF assms(1)]) auto
  then show ?thesis unfolding sectors_of_def by (metis map_cong)
qed

end

end
