(* ===== verification/Ata.thy ===== *)
theory Ata
  imports Sector_Store
begin

text \<open>
  The disk driver, \<open>drivers/ata.rs\<close>: programmed input and output over the ports of an ATA channel.
  The device behind the ports is a record of port operations over its state \<open>'v\<close>. The sectors read
  are the result of a successful read; what a failed read leaves in the caller's buffer is not
  looked at by any caller.
\<close>

unbundle bit_operations_syntax

section \<open>The driver\<close>

definition DATA :: nat where "DATA = 0x1f0"
definition ERROR_FEATURES :: nat where "ERROR_FEATURES = 0x1f1"
definition SECTOR_COUNT :: nat where "SECTOR_COUNT = 0x1f2"
definition LBA_LOW :: nat where "LBA_LOW = 0x1f3"
definition LBA_MID :: nat where "LBA_MID = 0x1f4"
definition LBA_HIGH :: nat where "LBA_HIGH = 0x1f5"
definition DRIVE_HEAD :: nat where "DRIVE_HEAD = 0x1f6"
definition STATUS_COMMAND :: nat where "STATUS_COMMAND = 0x1f7"
definition ALT_STATUS_CONTROL :: nat where "ALT_STATUS_CONTROL = 0x3f6"

definition STATUS_ERROR :: byte where "STATUS_ERROR = 1"
definition STATUS_DEVICE_FAULT :: byte where "STATUS_DEVICE_FAULT = push_bit 5 1"
definition STATUS_DRQ :: byte where "STATUS_DRQ = push_bit 3 1"
definition STATUS_BUSY :: byte where "STATUS_BUSY = push_bit 7 1"
definition READ_SECTORS :: byte where "READ_SECTORS = 0x20"
definition WRITE_SECTORS :: byte where "WRITE_SECTORS = 0x30"
definition CACHE_FLUSH :: byte where "CACHE_FLUSH = 0xe7"
definition MAX_LBA28 :: nat where "MAX_LBA28 = 0x0fffffff"
definition WAIT_LIMIT :: nat where "WAIT_LIMIT = 1000000"

record 'v Ports =
  in8 :: "nat \<Rightarrow> 'v \<Rightarrow> byte \<times> 'v"
  out8 :: "nat \<Rightarrow> byte \<Rightarrow> 'v \<Rightarrow> 'v"
  in16 :: "nat \<Rightarrow> 'v \<Rightarrow> 16 word \<times> 'v"
  out16 :: "nat \<Rightarrow> 16 word \<Rightarrow> 'v \<Rightarrow> 'v"

primrec wait_rounds :: "nat \<Rightarrow> 'v Ports \<Rightarrow> 'v \<Rightarrow> (AtaError + byte) \<times> 'v" where
  "wait_rounds 0 P v = (Inl Timeout, v)"
| "wait_rounds (Suc n) P v =
    (let (status, v1) = in8 P STATUS_COMMAND v
     in if status = 0 \<or> status = 0xff then (Inl NoDevice, v1)
        else if status AND STATUS_BUSY = 0 then
          (if status AND (STATUS_ERROR OR STATUS_DEVICE_FAULT) \<noteq> 0 then (Inl DeviceError, v1)
           else (Inr status, v1))
        else wait_rounds n P v1)"

definition wait_not_busy :: "'v Ports \<Rightarrow> 'v \<Rightarrow> (AtaError + byte) \<times> 'v" where
  "wait_not_busy P v = wait_rounds WAIT_LIMIT P v"

definition delay_400ns :: "'v Ports \<Rightarrow> 'v \<Rightarrow> 'v" where
  "delay_400ns P v = ((\<lambda>v. snd (in8 P ALT_STATUS_CONTROL v)) ^^ 4) v"

definition validate_request :: "nat \<Rightarrow> nat \<Rightarrow> nat \<Rightarrow> AtaError + unit" where
  "validate_request lba n buffer_len =
    (if n = 0 \<or> buffer_len \<noteq> n * 512 \<or> MAX_LBA28 < lba
        \<or> (let last = lba + (n - 1) in 2 ^ 32 \<le> last \<or> MAX_LBA28 < last)
     then Inl InvalidRequest else Inr ())"

text \<open>The part that reading and writing have in common: select the drive, wait, load the registers and
  give the command.\<close>

definition start_command :: "byte \<Rightarrow> 'v Ports \<Rightarrow> nat \<Rightarrow> nat \<Rightarrow> 'v \<Rightarrow> (AtaError + unit) \<times> 'v" where
  "start_command command P lba n v =
    (let v1 = delay_400ns P (out8 P DRIVE_HEAD (0xf0 OR (word_of_nat (lba div 2 ^ 24) AND 0x0f)) v)
     in case wait_not_busy P v1 of
          (Inl e, v2) \<Rightarrow> (Inl e, v2)
        | (Inr _, v2) \<Rightarrow>
            let v3 = out8 P ERROR_FEATURES 0 v2;
                v4 = out8 P SECTOR_COUNT (word_of_nat n) v3;
                v5 = out8 P LBA_LOW (word_of_nat lba) v4;
                v6 = out8 P LBA_MID (word_of_nat (lba div 2 ^ 8)) v5;
                v7 = out8 P LBA_HIGH (word_of_nat (lba div 2 ^ 16)) v6
            in (Inr (), out8 P STATUS_COMMAND command v7))"

definition wait_data :: "'v Ports \<Rightarrow> 'v \<Rightarrow> (AtaError + unit) \<times> 'v" where
  "wait_data P v = (case wait_not_busy P (delay_400ns P v) of
      (Inl e, v1) \<Rightarrow> (Inl e, v1)
    | (Inr status, v1) \<Rightarrow> if status AND STATUS_DRQ = 0 then (Inl DeviceError, v1) else (Inr (), v1))"

definition wait_done :: "'v Ports \<Rightarrow> 'v \<Rightarrow> (AtaError + unit) \<times> 'v" where
  "wait_done P v = (case wait_not_busy P (delay_400ns P v) of
      (Inl e, v1) \<Rightarrow> (Inl e, v1) | (Inr _, v1) \<Rightarrow> (Inr (), v1))"

primrec read_words :: "nat \<Rightarrow> 'v Ports \<Rightarrow> 'v \<Rightarrow> byte list \<times> 'v" where
  "read_words 0 P v = ([], v)"
| "read_words (Suc n) P v =
    (let (w, v1) = in16 P DATA v; (bs, v2) = read_words n P v1
     in (le_bytes 2 (unat w) @ bs, v2))"

primrec read_chunks :: "nat \<Rightarrow> 'v Ports \<Rightarrow> 'v \<Rightarrow> (AtaError + byte list) \<times> 'v" where
  "read_chunks 0 P v = (Inr [], v)"
| "read_chunks (Suc n) P v = (case wait_data P v of
      (Inl e, v1) \<Rightarrow> (Inl e, v1)
    | (Inr _, v1) \<Rightarrow>
        let (sector, v2) = read_words 256 P v1
        in case read_chunks n P v2 of
             (Inl e, v3) \<Rightarrow> (Inl e, v3) | (Inr bs, v3) \<Rightarrow> (Inr (sector @ bs), v3))"

definition read_sectors_locked :: "'v Ports \<Rightarrow> nat \<Rightarrow> nat \<Rightarrow> nat \<Rightarrow> 'v \<Rightarrow> (AtaError + byte list) \<times> 'v" where
  "read_sectors_locked P lba n buffer_len v = (case validate_request lba n buffer_len of
      Inl e \<Rightarrow> (Inl e, v)
    | Inr _ \<Rightarrow>
    case start_command READ_SECTORS P lba n v of
      (Inl e, v1) \<Rightarrow> (Inl e, v1)
    | (Inr _, v1) \<Rightarrow>
    case read_chunks (buffer_len div 512) P v1 of
      (Inl e, v2) \<Rightarrow> (Inl e, v2)
    | (Inr bs, v2) \<Rightarrow>
    case wait_done P v2 of
      (Inl e, v3) \<Rightarrow> (Inl e, v3)
    | (Inr _, v3) \<Rightarrow> (Inr bs, v3))"

fun write_words :: "byte list \<Rightarrow> 'v Ports \<Rightarrow> 'v \<Rightarrow> 'v" where
  "write_words (a # b # bs) P v = write_words bs P (out16 P DATA (word_of_nat (le_nat [a, b])) v)"
| "write_words _ P v = v"

primrec write_chunks :: "nat \<Rightarrow> byte list \<Rightarrow> 'v Ports \<Rightarrow> 'v \<Rightarrow> (AtaError + unit) \<times> 'v" where
  "write_chunks 0 input P v = (Inr (), v)"
| "write_chunks (Suc n) input P v = (case wait_data P v of
      (Inl e, v1) \<Rightarrow> (Inl e, v1)
    | (Inr _, v1) \<Rightarrow> write_chunks n (drop 512 input) P (write_words (take 512 input) P v1))"

definition write_sectors_locked :: "'v Ports \<Rightarrow> nat \<Rightarrow> nat \<Rightarrow> byte list \<Rightarrow> 'v \<Rightarrow> (AtaError + unit) \<times> 'v" where
  "write_sectors_locked P lba n input v = (case validate_request lba n (length input) of
      Inl e \<Rightarrow> (Inl e, v)
    | Inr _ \<Rightarrow>
    case start_command WRITE_SECTORS P lba n v of
      (Inl e, v1) \<Rightarrow> (Inl e, v1)
    | (Inr _, v1) \<Rightarrow>
    case write_chunks (length input div 512) input P v1 of
      (Inl e, v2) \<Rightarrow> (Inl e, v2)
    | (Inr _, v2) \<Rightarrow>
    case wait_done P v2 of
      (Inl e, v3) \<Rightarrow> (Inl e, v3)
    | (Inr _, v3) \<Rightarrow> wait_done P (out8 P STATUS_COMMAND CACHE_FLUSH v3))"

text \<open>With interrupts disabled and the channel lock held, a request is one step.\<close>

definition read_sectors :: "'v Ports \<Rightarrow> nat \<Rightarrow> nat \<Rightarrow> nat \<Rightarrow> 'v \<Rightarrow> (AtaError + byte list) \<times> 'v" where
  "read_sectors P lba n buffer_len v = read_sectors_locked P lba n buffer_len v"

definition write_sectors :: "'v Ports \<Rightarrow> nat \<Rightarrow> nat \<Rightarrow> byte list \<Rightarrow> 'v \<Rightarrow> (AtaError + unit) \<times> 'v" where
  "write_sectors P lba n input v = write_sectors_locked P lba n input v"

section \<open>A reference device\<close>

text \<open>What the ATA standard says of a disk on the channel: the registers select sectors, a read or
  write command requests data until all sectors are transferred, and a command that fails sets the
  error bit, which stays set until the next command. \<open>dv_faults\<close> tells for each coming command
  whether it fails, and after how many sectors.\<close>

datatype Transfer = Idle | Failed | Reading nat nat | Writing nat nat

record Disk =
  dv_bytes :: "nat \<Rightarrow> byte"
  dv_registers :: "nat \<Rightarrow> byte"
  dv_transfer :: Transfer
  dv_fault :: "nat option"
  dv_faults :: "nat option list"

text \<open>A transfer has a next byte and an end. It has failed when the sectors before the fault are done.\<close>

definition dv_status :: "Disk \<Rightarrow> byte" where
  "dv_status d = (case dv_transfer d of
      Idle \<Rightarrow> 0x50
    | Failed \<Rightarrow> 0x51
    | Reading pos stop \<Rightarrow> if dv_fault d = Some pos then 0x51 else if pos < stop then 0x58 else 0x50
    | Writing pos stop \<Rightarrow> if dv_fault d = Some pos then 0x51 else if pos < stop then 0x58 else 0x50)"

definition dv_lba :: "Disk \<Rightarrow> nat" where
  "dv_lba d = unat (dv_registers d LBA_LOW) + 2 ^ 8 * unat (dv_registers d LBA_MID)
    + 2 ^ 16 * unat (dv_registers d LBA_HIGH) + 2 ^ 24 * unat (dv_registers d DRIVE_HEAD AND 0x0f)"

definition dv_command :: "byte \<Rightarrow> Disk \<Rightarrow> Disk" where
  "dv_command command d =
    (let start = 512 * dv_lba d; stop = start + 512 * unat (dv_registers d SECTOR_COUNT);
         fault = (case dv_faults d of [] \<Rightarrow> None | f # _ \<Rightarrow> map_option (\<lambda>n. start + 512 * n) f);
         d1 = d\<lparr>dv_fault := fault, dv_faults := tl (dv_faults d)\<rparr>
     in if command = READ_SECTORS then d1\<lparr>dv_transfer := Reading start stop\<rparr>
        else if command = WRITE_SECTORS then d1\<lparr>dv_transfer := Writing start stop\<rparr>
        else d1\<lparr>dv_transfer := if fault = None then Idle else Failed\<rparr>)"

definition disk_ports :: "Disk Ports" where
  "disk_ports = \<lparr>
    in8 = (\<lambda>port d. (if port = STATUS_COMMAND \<or> port = ALT_STATUS_CONTROL then dv_status d
      else dv_registers d port, d)),
    out8 = (\<lambda>port b d. if port = STATUS_COMMAND then dv_command b d
      else d\<lparr>dv_registers := (dv_registers d)(port := b)\<rparr>),
    in16 = (\<lambda>port d. case dv_transfer d of
        Reading pos stop \<Rightarrow> (word_of_nat (le_nat [dv_bytes d pos, dv_bytes d (pos + 1)]),
          d\<lparr>dv_transfer := Reading (pos + 2) stop\<rparr>)
      | _ \<Rightarrow> (0, d)),
    out16 = (\<lambda>port w d. case dv_transfer d of
        Writing pos stop \<Rightarrow> d\<lparr>dv_transfer := Writing (pos + 2) stop,
          dv_bytes := (dv_bytes d)(pos := word_of_nat (unat w), pos + 1 := word_of_nat (unat w div 256))\<rparr>
      | _ \<Rightarrow> d)\<rparr>"

definition disk_sector :: "Disk \<Rightarrow> nat \<Rightarrow> byte list" where
  "disk_sector d i = map (\<lambda>k. dv_bytes d (512 * i + k)) [0..<512]"


section \<open>The driver on the reference device\<close>

lemma word_pair: "unat (word_of_nat (le_nat [a, b]) :: 16 word) = le_nat [a, b]"
  using le_nat_less [of "[a, b]"] by (simp only: unat_of_nat) simp

lemma le_pair [simp]: "le_bytes 2 (le_nat [a, b]) = [a, b]"
  using le_bytes_le_nat [of "[a, b]"] by (simp add: numeral_2_eq_2)

lemma delay_disk [simp]: "delay_400ns disk_ports d = d"
  by (simp add: delay_400ns_def disk_ports_def eval_nat_numeral)

lemma dv_status_cases: "dv_status d \<in> {0x50, 0x51, 0x58}"
  by (auto simp: dv_status_def split: Transfer.split)

lemma wait_disk: "wait_not_busy disk_ports d
    = ((if dv_status d = 0x51 then Inl DeviceError else Inr (dv_status d)), d)"
proof -
  have w: "wait_not_busy disk_ports d = wait_rounds (Suc 999999) disk_ports d"
    by (simp add: wait_not_busy_def WAIT_LIMIT_def)
  have i: "in8 disk_ports STATUS_COMMAND d = (dv_status d, d)"
    by (simp add: disk_ports_def)
  show ?thesis
    unfolding w wait_rounds.simps(2) i using dv_status_cases [of d]
    by (auto simp: STATUS_BUSY_def STATUS_ERROR_def STATUS_DEVICE_FAULT_def)
qed

lemma wait_data_disk: "wait_data disk_ports d
    = ((if dv_status d = 0x58 then Inr () else Inl DeviceError), d)"
  using dv_status_cases [of d] by (auto simp: wait_data_def wait_disk STATUS_DRQ_def)

lemma wait_done_disk: "wait_done disk_ports d
    = ((if dv_status d = 0x51 then Inl DeviceError else Inr ()), d)"
  by (simp add: wait_done_def wait_disk)

text \<open>The registers that the driver loads select the sectors of the request.\<close>

lemma unat_byte: "unat (word_of_nat n :: byte) = n mod 256"
  by (simp add: unat_of_nat)

lemma lba_registers:
  assumes "lba \<le> MAX_LBA28"
  shows "lba mod 256 + 2 ^ 8 * (lba div 2 ^ 8 mod 256) + 2 ^ 16 * (lba div 2 ^ 16 mod 256)
    + 2 ^ 24 * (lba div 2 ^ 24 mod 16) = lba"
proof -
  have "lba div 2 ^ 24 < 16" using assms by (simp add: MAX_LBA28_def)
  then have a: "lba div 2 ^ 24 mod 16 = lba div 2 ^ 24" by simp
  have "lba = lba div 256 * 256 + lba mod 256" by simp
  also have "lba div 256 = lba div 2 ^ 16 * 256 + lba div 2 ^ 8 mod 256"
    using div_mult_mod_eq [of "lba div 256" 256] by (simp add: div_mult2_eq [symmetric])
  also have "lba div 2 ^ 16 = lba div 2 ^ 24 * 256 + lba div 2 ^ 16 mod 256"
    using div_mult_mod_eq [of "lba div 2 ^ 16" 256] by (simp add: div_mult2_eq [symmetric])
  finally show ?thesis unfolding a by (simp add: algebra_simps)
qed

lemma head_register: "unat ((0xf0 OR (word_of_nat n AND 0x0f) :: byte) AND 0x0f) = n mod 16"
proof -
  have "(0xf0 OR (w AND 0x0f) :: byte) AND 0x0f = take_bit 4 w" for w
    by (simp add: word_ao_dist and.assoc take_bit_eq_mask mask_numeral)
  moreover have "unat (take_bit 4 (word_of_nat n :: byte)) = n mod 16"
    unfolding unsigned_take_bit_eq unat_byte by (simp add: take_bit_eq_mod mod_mod_cancel)
  ultimately show ?thesis by simp
qed


lemma disk_out8:
  "port \<noteq> STATUS_COMMAND \<Longrightarrow> out8 disk_ports port b d = d\<lparr>dv_registers := (dv_registers d)(port := b)\<rparr>"
  "out8 disk_ports STATUS_COMMAND b d = dv_command b d"
  by (simp_all add: disk_ports_def)

lemma ports_distinct:
  "DRIVE_HEAD \<noteq> STATUS_COMMAND" "ERROR_FEATURES \<noteq> STATUS_COMMAND" "SECTOR_COUNT \<noteq> STATUS_COMMAND"
  "LBA_LOW \<noteq> STATUS_COMMAND" "LBA_MID \<noteq> STATUS_COMMAND" "LBA_HIGH \<noteq> STATUS_COMMAND"
  by (simp_all add: DRIVE_HEAD_def ERROR_FEATURES_def SECTOR_COUNT_def LBA_LOW_def LBA_MID_def
      LBA_HIGH_def STATUS_COMMAND_def)

text \<open>The state in which a command starts.\<close>

definition loaded :: "nat \<Rightarrow> nat \<Rightarrow> Disk \<Rightarrow> bool" where
  "loaded lba n d \<longleftrightarrow> dv_lba d = lba \<and> unat (dv_registers d SECTOR_COUNT) = n mod 256"

lemma start_command_disk:
  assumes "lba \<le> MAX_LBA28"
  shows "\<exists>d1. dv_bytes d1 = dv_bytes d \<and> (start_command c disk_ports lba n d
    = (if dv_status d = 0x51 then (Inl DeviceError, d1) else (Inr (), dv_command c d1)))
    \<and> (dv_status d \<noteq> 0x51 \<longrightarrow> loaded lba n d1) \<and> dv_faults d1 = dv_faults d
    \<and> (dv_status d = 0x51 \<longrightarrow> dv_status d1 = 0x51)"
proof -
  let ?h = "0xf0 OR (word_of_nat (lba div 2 ^ 24) AND 0x0f) :: byte"
  let ?d0 = "d\<lparr>dv_registers := (dv_registers d)(DRIVE_HEAD := ?h)\<rparr>"
  let ?d1 = "?d0\<lparr>dv_registers := (dv_registers ?d0)(ERROR_FEATURES := 0, SECTOR_COUNT := word_of_nat n,
    LBA_LOW := word_of_nat lba, LBA_MID := word_of_nat (lba div 2 ^ 8), LBA_HIGH := word_of_nat (lba div 2 ^ 16))\<rparr>"
  have st: "dv_status ?d0 = dv_status d"
    by (cases "dv_transfer d") (simp_all add: dv_status_def)
  have eq: "start_command c disk_ports lba n d
    = (if dv_status d = 0x51 then (Inl DeviceError, ?d0) else (Inr (), dv_command c ?d1))"
    unfolding start_command_def Let_def disk_out8(1) [OF ports_distinct(1)] delay_disk wait_disk st
    by (simp add: disk_out8 ports_distinct)
  have "lba div 2 ^ 24 < 16" using assms by (simp add: MAX_LBA28_def)
  then have "loaded lba n ?d1"
    using lba_registers [OF assms]
    by (simp add: head_register loaded_def dv_lba_def unat_byte DRIVE_HEAD_def ERROR_FEATURES_def SECTOR_COUNT_def
        LBA_LOW_def LBA_MID_def LBA_HIGH_def)
  then show ?thesis
    using eq st by (cases "dv_status d = 0x51") (auto intro: exI [of _ ?d0] exI [of _ ?d1])
qed

text \<open>Transfers of data.\<close>

definition bytes_at :: "Disk \<Rightarrow> nat \<Rightarrow> nat \<Rightarrow> byte list" where
  "bytes_at d pos n = map (dv_bytes d) [pos..<pos + n]"

lemma bytes_at_add: "bytes_at d pos (a + b) = bytes_at d pos a @ bytes_at d (pos + a) b"
  using upt_add_eq_append [of pos "pos + a" b] by (simp add: bytes_at_def add.assoc)

lemma bytes_at_transfer [simp]: "bytes_at (d\<lparr>dv_transfer := t\<rparr>) = bytes_at d"
  by (simp add: bytes_at_def fun_eq_iff)

lemma read_words_disk:
  "dv_transfer d = Reading pos stop \<Longrightarrow>
    read_words n disk_ports d = (bytes_at d pos (2 * n), d\<lparr>dv_transfer := Reading (pos + 2 * n) stop\<rparr>)"
proof (induction n arbitrary: d pos)
  case 0
  then show ?case by (simp add: bytes_at_def)
next
  case (Suc n)
  let ?d = "d\<lparr>dv_transfer := Reading (pos + 2) stop\<rparr>"
  have "in16 disk_ports DATA d = (word_of_nat (le_nat [dv_bytes d pos, dv_bytes d (pos + 1)]), ?d)"
    using Suc.prems by (simp add: disk_ports_def)
  moreover have "read_words n disk_ports ?d = (bytes_at ?d (pos + 2) (2 * n),
      ?d\<lparr>dv_transfer := Reading (pos + 2 + 2 * n) stop\<rparr>)"
    by (rule Suc.IH) simp
  moreover have "bytes_at d pos (2 * Suc n) = [dv_bytes d pos, dv_bytes d (pos + 1)] @ bytes_at d (pos + 2) (2 * n)"
    using bytes_at_add [of d pos 2 "2 * n"] by (simp add: bytes_at_def upt_conv_Cons)
  ultimately show ?case
    by (simp only: read_words.simps Let_def prod.case word_pair le_pair) simp
qed

lemma read_chunks_disk:
  assumes "dv_transfer d = Reading pos stop" "read_chunks n disk_ports d = (r, d')"
  shows "dv_bytes d' = dv_bytes d" "dv_faults d' = dv_faults d"
    "r = Inr bs \<Longrightarrow> bs = bytes_at d pos (512 * n)"
    "dv_fault d = None \<Longrightarrow> pos + 512 * n \<le> stop \<Longrightarrow> r = Inr (bytes_at d pos (512 * n))
      \<and> d' = d\<lparr>dv_transfer := Reading (pos + 512 * n) stop\<rparr>"
proof -
  have "dv_bytes d' = dv_bytes d \<and> dv_faults d' = dv_faults d \<and> (\<forall>bs. r = Inr bs \<longrightarrow> bs = bytes_at d pos (512 * n))
    \<and> (dv_fault d = None \<longrightarrow> pos + 512 * n \<le> stop \<longrightarrow> r = Inr (bytes_at d pos (512 * n))
      \<and> d' = d\<lparr>dv_transfer := Reading (pos + 512 * n) stop\<rparr>)"
    using assms
  proof (induction n arbitrary: d d' pos r)
    case 0
    then show ?case by (auto simp: bytes_at_def)
  next
    case (Suc n)
    let ?d = "d\<lparr>dv_transfer := Reading (pos + 512) stop\<rparr>"
    have rw: "read_words 256 disk_ports d = (bytes_at d pos 512, ?d)"
      using read_words_disk [OF Suc.prems(1), of 256] by simp
    obtain r1 d1 where rec: "read_chunks n disk_ports ?d = (r1, d1)" by fastforce
    have "dv_transfer ?d = Reading (pos + 512) stop" by simp
    note IH = Suc.IH [OF this rec]
    show ?case
    proof (cases "dv_status d = 0x58")
      case False
      then have "r = Inl DeviceError \<and> d' = d"
        using Suc.prems(2) by (simp add: wait_data_disk)
      moreover have "\<not> (dv_fault d = None \<and> pos + 512 * Suc n \<le> stop)"
        using False Suc.prems(1) by (auto simp: dv_status_def)
      ultimately show ?thesis by auto
    next
      case True
      then have "(r, d') = (case r1 of Inl e \<Rightarrow> (Inl e, d1) | Inr bs \<Rightarrow> (Inr (bytes_at d pos 512 @ bs), d1))"
        using Suc.prems(2) by (simp add: wait_data_disk rw rec split: sum.splits)
      then show ?thesis
        using IH by (cases r1) (auto simp: bytes_at_add add.assoc)
    qed
  qed
  then show "dv_bytes d' = dv_bytes d" "dv_faults d' = dv_faults d"
    "r = Inr bs \<Longrightarrow> bs = bytes_at d pos (512 * n)"
    "dv_fault d = None \<Longrightarrow> pos + 512 * n \<le> stop \<Longrightarrow> r = Inr (bytes_at d pos (512 * n))
      \<and> d' = d\<lparr>dv_transfer := Reading (pos + 512 * n) stop\<rparr>"
    by blast+
qed


definition put_bytes :: "nat \<Rightarrow> byte list \<Rightarrow> (nat \<Rightarrow> byte) \<Rightarrow> nat \<Rightarrow> byte" where
  "put_bytes pos bs f = (\<lambda>x. if pos \<le> x \<and> x < pos + length bs then bs ! (x - pos) else f x)"

lemma put_bytes_Nil [simp]: "put_bytes pos [] f = f"
  by (auto simp: put_bytes_def fun_eq_iff)

lemma put_bytes_append: "put_bytes (pos + length as) bs (put_bytes pos as f) = put_bytes pos (as @ bs) f"
  by (auto simp: put_bytes_def fun_eq_iff nth_append)

lemma write_words_disk:
  assumes "dv_transfer d = Writing pos stop" "even (length bs)"
  shows "write_words bs disk_ports d
    = d\<lparr>dv_transfer := Writing (pos + length bs) stop, dv_bytes := put_bytes pos bs (dv_bytes d)\<rparr>"
  using assms
proof (induction bs disk_ports d arbitrary: pos rule: write_words.induct)
  case (1 a b bs d)
  let ?w = "word_of_nat (le_nat [a, b]) :: 16 word"
  let ?d = "d\<lparr>dv_transfer := Writing (pos + 2) stop, dv_bytes := put_bytes pos [a, b] (dv_bytes d)\<rparr>"
  have "[word_of_nat (unat ?w), word_of_nat (unat ?w div 256)] = [a, b]"
    unfolding word_pair using le_pair [of a b] by (simp only: numeral_2_eq_2 le_bytes.simps)
  moreover have "(dv_bytes d)(pos := a, pos + 1 := b) = put_bytes pos [a, b] (dv_bytes d)"
    by (auto simp: put_bytes_def fun_eq_iff less_Suc_eq nth_Cons')
  ultimately have o: "out16 disk_ports DATA ?w d = ?d"
    using 1(2) by (simp add: disk_ports_def)
  have "write_words bs disk_ports ?d = ?d\<lparr>dv_transfer := Writing (pos + 2 + length bs) stop,
      dv_bytes := put_bytes (pos + 2) bs (dv_bytes ?d)\<rparr>"
    using 1(3) by (intro 1(1) [of "pos + 2", unfolded o]) simp_all
  then show ?case
    using put_bytes_append [of pos "[a, b]" bs] by (simp only: write_words.simps o) simp
qed simp_all

lemma write_chunks_disk:
  assumes "dv_transfer d = Writing pos stop" "length bs = 512 * n" "write_chunks n bs disk_ports d = (r, d')"
  shows "\<forall>x. x < pos \<or> pos + 512 * n \<le> x \<longrightarrow> dv_bytes d' x = dv_bytes d x" "dv_faults d' = dv_faults d"
    "r = Inr u \<Longrightarrow> dv_bytes d' = put_bytes pos bs (dv_bytes d)"
    "dv_fault d = None \<Longrightarrow> pos + 512 * n \<le> stop \<Longrightarrow> r = Inr ()
      \<and> d' = d\<lparr>dv_transfer := Writing (pos + 512 * n) stop, dv_bytes := put_bytes pos bs (dv_bytes d)\<rparr>"
proof -
  have "(\<forall>x. x < pos \<or> pos + 512 * n \<le> x \<longrightarrow> dv_bytes d' x = dv_bytes d x) \<and> dv_faults d' = dv_faults d
    \<and> (\<forall>u. r = Inr u \<longrightarrow> dv_bytes d' = put_bytes pos bs (dv_bytes d))
    \<and> (dv_fault d = None \<longrightarrow> pos + 512 * n \<le> stop \<longrightarrow> r = Inr ()
      \<and> d' = d\<lparr>dv_transfer := Writing (pos + 512 * n) stop, dv_bytes := put_bytes pos bs (dv_bytes d)\<rparr>)"
    using assms
  proof (induction n arbitrary: d d' pos bs r)
    case 0
    then show ?case by auto
  next
    case (Suc n)
    let ?one = "take 512 bs" and ?rest = "drop 512 bs"
    let ?d = "d\<lparr>dv_transfer := Writing (pos + 512) stop, dv_bytes := put_bytes pos ?one (dv_bytes d)\<rparr>"
    have len: "length ?one = 512" "length ?rest = 512 * n" using Suc.prems(2) by simp_all
    have ww: "write_words ?one disk_ports d = ?d"
      using write_words_disk [OF Suc.prems(1), of ?one] len(1) by simp
    have both: "put_bytes (pos + 512) ?rest (put_bytes pos ?one f) = put_bytes pos bs f" for f
      using put_bytes_append [of pos ?one ?rest f] len(1) by simp
    have frame: "put_bytes pos ?one (dv_bytes d) x = dv_bytes d x" if "x < pos \<or> pos + 512 \<le> x" for x
      using that len(1) by (auto simp: put_bytes_def)
    show ?case
    proof (cases "dv_status d = 0x58")
      case False
      then have "r = Inl DeviceError \<and> d' = d"
        using Suc.prems(3) by (simp add: wait_data_disk)
      moreover have "\<not> (dv_fault d = None \<and> pos + 512 * Suc n \<le> stop)"
        using False Suc.prems(1) by (auto simp: dv_status_def)
      ultimately show ?thesis by auto
    next
      case True
      then have rec: "write_chunks n ?rest disk_ports ?d = (r, d')"
        using Suc.prems(3) by (simp add: wait_data_disk ww)
      have "dv_transfer ?d = Writing (pos + 512) stop" by simp
      note IH = Suc.IH [OF this len(2) rec]
      show ?thesis
        using IH frame both by (auto simp: add.assoc)
    qed
  qed
  then show "\<forall>x. x < pos \<or> pos + 512 * n \<le> x \<longrightarrow> dv_bytes d' x = dv_bytes d x" "dv_faults d' = dv_faults d"
    "r = Inr u \<Longrightarrow> dv_bytes d' = put_bytes pos bs (dv_bytes d)"
    "dv_fault d = None \<Longrightarrow> pos + 512 * n \<le> stop \<Longrightarrow> r = Inr ()
      \<and> d' = d\<lparr>dv_transfer := Writing (pos + 512 * n) stop, dv_bytes := put_bytes pos bs (dv_bytes d)\<rparr>"
    by blast+
qed


text \<open>A whole request.\<close>

lemma validate_request_Inr:
  "validate_request lba n len = Inr u \<longleftrightarrow> n \<noteq> 0 \<and> len = n * 512 \<and> lba + n \<le> MAX_LBA28 + 1"
  by (auto simp: validate_request_def Let_def MAX_LBA28_def)

lemma disk_sectors: "concat (map (disk_sector d) [lba..<lba + n]) = bytes_at d (512 * lba) (512 * n)"
proof (induction n)
  case (Suc n)
  have "disk_sector d i = bytes_at d (512 * i) 512" for i
    by (auto simp: disk_sector_def bytes_at_def intro: nth_equalityI)
  then show ?case
    using Suc bytes_at_add [of d "512 * lba" "512 * n" 512] by (simp add: algebra_simps)
qed (simp add: bytes_at_def)

lemma dv_command_bytes [simp]: "dv_bytes (dv_command c d) = dv_bytes d"
  by (simp add: dv_command_def Let_def)

lemma dv_command_start:
  assumes "loaded lba n d"
  shows "dv_transfer (dv_command READ_SECTORS d) = Reading (512 * lba) (512 * lba + 512 * (n mod 256))"
    "dv_transfer (dv_command WRITE_SECTORS d) = Writing (512 * lba) (512 * lba + 512 * (n mod 256))"
    "dv_faults d = [] \<Longrightarrow> dv_fault (dv_command c d) = None \<and> dv_faults (dv_command c d) = []"
  using assms by (simp_all add: dv_command_def Let_def loaded_def READ_SECTORS_def WRITE_SECTORS_def)

lemma read_disk:
  assumes "read_sectors disk_ports lba n len d = (r, d')"
  shows "dv_bytes d' = dv_bytes d"
    "r = Inr bs \<Longrightarrow> len = 512 * n \<and> bs = bytes_at d (512 * lba) (512 * n)"
proof -
  have "dv_bytes d' = dv_bytes d \<and> (\<forall>bs. r = Inr bs \<longrightarrow> len = 512 * n \<and> bs = bytes_at d (512 * lba) (512 * n))"
  proof (cases "validate_request lba n len")
    case (Inl e)
    then show ?thesis using assms by (auto simp: read_sectors_def read_sectors_locked_def)
  next
    case (Inr u)
    then have v: "lba \<le> MAX_LBA28" "len = n * 512" by (auto simp: validate_request_Inr)
    obtain d1 where d1: "dv_bytes d1 = dv_bytes d"
      "start_command READ_SECTORS disk_ports lba n d
        = (if dv_status d = 0x51 then (Inl DeviceError, d1) else (Inr (), dv_command READ_SECTORS d1))"
      "dv_status d \<noteq> 0x51 \<longrightarrow> loaded lba n d1"
      using start_command_disk [OF v(1)] by metis
    show ?thesis
    proof (cases "dv_status d = 0x51")
      case True
      then show ?thesis
        using assms Inr d1 by (auto simp: read_sectors_def read_sectors_locked_def)
    next
      case False
      obtain r2 d2 where c: "read_chunks n disk_ports (dv_command READ_SECTORS d1) = (r2, d2)" by fastforce
      have l: "loaded lba n d1" using False d1(3) by simp
      note rc = read_chunks_disk [OF dv_command_start(1) [OF l] c]
      have b: "bytes_at (dv_command READ_SECTORS d1) x y = bytes_at d x y" for x y
        using d1(1) by (simp add: bytes_at_def)
      have "(r, d') = (case r2 of Inl e \<Rightarrow> (Inl e, d2)
          | Inr bs \<Rightarrow> if dv_status d2 = 0x51 then (Inl DeviceError, d2) else (Inr bs, d2))"
        using assms Inr d1(2) False c v(2)
        by (cases r2; cases "dv_status d2 = 0x51")
          (auto simp: read_sectors_def read_sectors_locked_def wait_done_disk)
      then show ?thesis
        using rc(1,3) d1(1) v(2) by (cases r2) (auto simp: b split: if_splits)
    qed
  qed
  then show "dv_bytes d' = dv_bytes d"
    "r = Inr bs \<Longrightarrow> len = 512 * n \<and> bs = bytes_at d (512 * lba) (512 * n)"
    by blast+
qed

lemma write_disk:
  assumes "write_sectors disk_ports lba n bs d = (r, d')"
  shows "x < 512 * lba \<or> 512 * lba + 512 * n \<le> x \<Longrightarrow> dv_bytes d' x = dv_bytes d x"
    "r = Inr u \<Longrightarrow> length bs = 512 * n \<and> dv_bytes d' = put_bytes (512 * lba) bs (dv_bytes d)"
proof -
  have "(\<forall>x. x < 512 * lba \<or> 512 * lba + 512 * n \<le> x \<longrightarrow> dv_bytes d' x = dv_bytes d x)
    \<and> (\<forall>u. r = Inr u \<longrightarrow> length bs = 512 * n \<and> dv_bytes d' = put_bytes (512 * lba) bs (dv_bytes d))"
  proof (cases "validate_request lba n (length bs)")
    case (Inl e)
    then show ?thesis using assms by (auto simp: write_sectors_def write_sectors_locked_def)
  next
    case (Inr w)
    then have v: "lba \<le> MAX_LBA28" "length bs = 512 * n" by (auto simp: validate_request_Inr)
    obtain d1 where d1: "dv_bytes d1 = dv_bytes d"
      "start_command WRITE_SECTORS disk_ports lba n d
        = (if dv_status d = 0x51 then (Inl DeviceError, d1) else (Inr (), dv_command WRITE_SECTORS d1))"
      "dv_status d \<noteq> 0x51 \<longrightarrow> loaded lba n d1"
      using start_command_disk [OF v(1)] by metis
    show ?thesis
    proof (cases "dv_status d = 0x51")
      case True
      then show ?thesis
        using assms Inr d1 by (auto simp: write_sectors_def write_sectors_locked_def)
    next
      case False
      obtain r2 d2 where c: "write_chunks n bs disk_ports (dv_command WRITE_SECTORS d1) = (r2, d2)" by fastforce
      have l: "loaded lba n d1" using False d1(3) by simp
      note wc = write_chunks_disk [OF dv_command_start(2) [OF l] v(2) c]
      have "dv_bytes d' = dv_bytes d2 \<and> (r = Inr () \<longrightarrow> r2 = Inr ())"
        using assms Inr d1(2) False c v(2)
        by (auto simp: write_sectors_def write_sectors_locked_def wait_done_disk disk_out8
            split: sum.splits if_splits)
      then show ?thesis
        using wc(1,3) d1(1) v(2) by auto
    qed
  qed
  then show "x < 512 * lba \<or> 512 * lba + 512 * n \<le> x \<Longrightarrow> dv_bytes d' x = dv_bytes d x"
    "r = Inr u \<Longrightarrow> length bs = 512 * n \<and> dv_bytes d' = put_bytes (512 * lba) bs (dv_bytes d)"
    by blast+
qed

interpretation ata: sector_store "read_sectors disk_ports" "write_sectors disk_ports" disk_sector
proof unfold_locales
  fix lba n len d r d' and bs :: "byte list" and u :: unit
  show "length (disk_sector d n) = 512" by (simp add: disk_sector_def)
  show "len = 512 * n \<and> bs = concat (map (disk_sector d) [lba..<lba + n])"
    if "read_sectors disk_ports lba n len d = (Inr bs, d')"
    using read_disk(2) [OF that] by (simp add: disk_sectors)
  show "disk_sector d' = disk_sector d" if "read_sectors disk_ports lba n len d = (r, d')"
    using read_disk(1) [OF that] by (simp add: disk_sector_def fun_eq_iff)
next
  fix lba n d d' and bs :: "byte list" and u :: unit
  assume "write_sectors disk_ports lba n bs d = (Inr u, d')"
  note w = write_disk(2) [OF this]
  have "bytes_at d' (512 * lba) (512 * n) = bs"
    using w by (auto simp: bytes_at_def put_bytes_def intro: nth_equalityI)
  then show "length bs = 512 * n \<and> concat (map (disk_sector d') [lba..<lba + n]) = bs"
    using w by (simp add: disk_sectors)
next
  fix lba n d d' r i and bs :: "byte list"
  assume w: "write_sectors disk_ports lba n bs d = (r, d')" and i: "i < lba \<or> lba + n \<le> i"
  have "512 * i + k < 512 * lba \<or> 512 * lba + 512 * n \<le> 512 * i + k" if "k < 512" for k
    using i that by auto
  then show "disk_sector d' i = disk_sector d i"
    using write_disk(1) [OF w] by (simp add: disk_sector_def)
qed

section \<open>A device without faults\<close>

definition ready :: "Disk \<Rightarrow> bool" where
  "ready d \<longleftrightarrow> dv_faults d = [] \<and> dv_status d \<noteq> 0x51"

lemma disk_read_ready:
  assumes "ready d" "validate_request lba n len = Inr ()" "n < 256"
  shows "\<exists>d'. read_sectors disk_ports lba n len d = (Inr (bytes_at d (512 * lba) (512 * n)), d') \<and> ready d'"
proof -
  have v: "lba \<le> MAX_LBA28" "len = 512 * n" "n mod 256 = n" using assms(2,3) by (auto simp: validate_request_Inr)
  obtain d4 where d4: "dv_faults d4 = []" "loaded lba n d4" "dv_bytes d4 = dv_bytes d"
    "start_command READ_SECTORS disk_ports lba n d = (Inr (), dv_command READ_SECTORS d4)"
    using start_command_disk [OF v(1), of d READ_SECTORS n] assms(1) by (auto simp: ready_def)
  let ?e = "dv_command READ_SECTORS d4"
  have nf: "dv_fault ?e = None" "dv_faults ?e = []" using dv_command_start(3) [OF d4(2) d4(1)] by simp_all
  obtain r5 e5 where c5: "read_chunks n disk_ports ?e = (r5, e5)" by fastforce
  have r5: "r5 = Inr (bytes_at ?e (512 * lba) (512 * n))"
    "e5 = ?e\<lparr>dv_transfer := Reading (512 * lba + 512 * n) (512 * lba + 512 * n)\<rparr>"
    using read_chunks_disk(4) [OF dv_command_start(1) [OF d4(2)] c5 nf(1)] v(3) by simp_all
  have s5: "dv_status e5 = 0x50" unfolding r5(2) using nf by (simp add: dv_status_def)
  have "read_sectors disk_ports lba n len d = (Inr (bytes_at ?e (512 * lba) (512 * n)), e5)"
    using assms(2) d4(4) c5 r5(1) v(2) s5
    by (simp add: read_sectors_def read_sectors_locked_def wait_done_disk)
  moreover have "bytes_at ?e (512 * lba) (512 * n) = bytes_at d (512 * lba) (512 * n)"
    using d4(3) by (simp add: bytes_at_def)
  moreover have "ready e5" using s5 nf r5(2) by (simp add: ready_def)
  ultimately show ?thesis by auto
qed

lemma disk_write_ready:
  assumes "ready d" "validate_request lba n (length input) = Inr ()" "n < 256"
  shows "\<exists>d'. write_sectors disk_ports lba n input d = (Inr (), d') \<and> ready d'"
proof -
  have v: "lba \<le> MAX_LBA28" "length input = 512 * n" "n mod 256 = n" using assms(2,3) by (auto simp: validate_request_Inr)
  obtain d1 where d1: "dv_faults d1 = []" "loaded lba n d1"
    "start_command WRITE_SECTORS disk_ports lba n d = (Inr (), dv_command WRITE_SECTORS d1)"
    using start_command_disk [OF v(1), of d WRITE_SECTORS n] assms(1) by (auto simp: ready_def)
  let ?c = "dv_command WRITE_SECTORS d1"
  let ?d2 = "?c\<lparr>dv_transfer := Writing (512 * lba + 512 * n) (512 * lba + 512 * n),
    dv_bytes := put_bytes (512 * lba) input (dv_bytes ?c)\<rparr>"
  have nf: "dv_fault ?c = None" "dv_faults ?c = []"
    using dv_command_start(3) [OF d1(2) d1(1)] by simp_all
  obtain r2 e2 where c2: "write_chunks n input disk_ports ?c = (r2, e2)" by fastforce
  have w2: "write_chunks n input disk_ports ?c = (Inr (), ?d2)"
    using write_chunks_disk(4) [OF dv_command_start(2) [OF d1(2)] v(2) c2 nf(1)] c2 v(3) by simp
  let ?d3 = "dv_command CACHE_FLUSH ?d2"
  have s2: "dv_status ?d2 = 0x50" using nf by (simp add: dv_status_def)
  have t3: "dv_transfer ?d3 = Idle" "dv_faults ?d3 = []"
    using nf(2) by (simp_all add: dv_command_def Let_def CACHE_FLUSH_def READ_SECTORS_def WRITE_SECTORS_def)
  have s3: "dv_status ?d3 = 0x50" using t3 by (simp add: dv_status_def)
  have "write_sectors disk_ports lba n input d = (Inr (), ?d3)"
    using assms(2) d1(3) w2 v(2) s2 s3
    by (simp add: write_sectors_def write_sectors_locked_def wait_done_disk disk_out8)
  moreover have "ready ?d3" using s3 t3 by (simp add: ready_def)
  ultimately show ?thesis by blast
qed

section \<open>Properties\<close>


definition blank_disk :: Disk where
  "blank_disk = \<lparr>dv_bytes = (\<lambda>_. 0), dv_registers = (\<lambda>_. 0), dv_transfer = Idle, dv_fault = None, dv_faults = []\<rparr>"


text \<open>A device in an error state \<open>err\<close> as the ATA standard has it: not busy, the error bit of the status
  register set, and neither reading the status nor selecting the drive clears it; only a command does.\<close>

definition error_state :: "'v Ports \<Rightarrow> ('v \<Rightarrow> bool) \<Rightarrow> bool" where
  "error_state P err \<longleftrightarrow> (\<forall>v. err v \<longrightarrow>
    (let (status, v1) = in8 P STATUS_COMMAND v
     in err v1 \<and> status \<noteq> 0xff \<and> status AND STATUS_BUSY = 0 \<and> status AND STATUS_ERROR \<noteq> 0)
    \<and> err (snd (in8 P ALT_STATUS_CONTROL v)) \<and> (\<forall>b. err (out8 P DRIVE_HEAD b v)))"

lemma error_state_delay: "error_state P err \<Longrightarrow> err v \<Longrightarrow> err (delay_400ns P v)"
  by (simp add: delay_400ns_def numeral_Bit0 error_state_def)

lemma error_state_wait:
  assumes "error_state P err" "err v"
  shows "\<exists>v1. wait_not_busy P v = (Inl DeviceError, v1) \<and> err v1"
proof -
  obtain status v1 where i: "in8 P STATUS_COMMAND v = (status, v1)" by fastforce
  have h: "err v1" "status \<noteq> 0xff" "status AND STATUS_BUSY = 0" "status AND STATUS_ERROR \<noteq> 0"
    using assms i by (auto simp: error_state_def)
  have b: "bit status 0"
  proof (rule ccontr)
    assume "\<not> bit status 0"
    then have "status AND 1 = 0" by (simp add: and_one_eq bit_0 even_iff_mod_2_eq_zero)
    then show False using h(4) by (simp add: STATUS_ERROR_def)
  qed
  then have "bit (status AND (STATUS_ERROR OR STATUS_DEVICE_FAULT)) 0"
    by (simp add: bit_and_iff bit_or_iff STATUS_ERROR_def)
  then have "status AND (STATUS_ERROR OR STATUS_DEVICE_FAULT) \<noteq> 0"
    by (rule contrapos_pn) simp
  moreover have "status \<noteq> 0" using b by auto
  ultimately have "wait_rounds (Suc n) P v = (Inl DeviceError, v1)" for n using i h by simp
  moreover have "Suc 999999 = WAIT_LIMIT" by (simp add: WAIT_LIMIT_def)
  ultimately have "wait_not_busy P v = (Inl DeviceError, v1)" unfolding wait_not_busy_def by metis
  then show ?thesis using h(1) by blast
qed

lemma error_state_start:
  assumes "error_state P err" "err v"
  shows "\<exists>v1. start_command c P lba n v = (Inl DeviceError, v1) \<and> err v1"
proof -
  let ?v = "delay_400ns P (out8 P DRIVE_HEAD (0xf0 OR (word_of_nat (lba div 2 ^ 24) AND 0x0f)) v)"
  have "err (out8 P DRIVE_HEAD b v)" for b using assms unfolding error_state_def by blast
  then have "err ?v" by (rule error_state_delay [OF assms(1)])
  then obtain v1 where "wait_not_busy P ?v = (Inl DeviceError, v1)" "err v1"
    using error_state_wait [OF assms(1)] by blast
  then show ?thesis by (simp add: start_command_def)
qed

text \<open>C40. A device error is permanent. A device that reports an error keeps the error bit of its status
  register set until the next command, but the driver looks at that bit before it gives a command:
  on any device in such a state every valid request is refused with a device error and leaves the
  device in the error state, so no command is ever given again.\<close>

theorem ata_error_sticks:
  assumes "error_state P err" and "err v" and "validate_request lba n (length input) = Inr ()"
  shows "(\<exists>v1. write_sectors P lba n input v = (Inl DeviceError, v1) \<and> err v1)
    \<and> (\<exists>v1. read_sectors P lba n (length input) v = (Inl DeviceError, v1) \<and> err v1)"
  using error_state_start [OF assms(1,2), of WRITE_SECTORS lba n] error_state_start [OF assms(1,2), of READ_SECTORS lba n] assms(3)
  by (auto simp: write_sectors_def write_sectors_locked_def read_sectors_def read_sectors_locked_def)

lemma disk_error_state: "error_state disk_ports (\<lambda>d. dv_status d = 0x51)"
proof -
  have "in8 disk_ports STATUS_COMMAND d = (dv_status d, d)" "in8 disk_ports ALT_STATUS_CONTROL d = (dv_status d, d)"
    for d by (simp_all add: disk_ports_def)
  moreover have "dv_status (out8 disk_ports DRIVE_HEAD b d) = dv_status d" for b d
    using ports_distinct(1) by (simp add: disk_out8 dv_status_def split: Transfer.split)
  ultimately show ?thesis by (simp add: error_state_def STATUS_BUSY_def STATUS_ERROR_def)
qed

text \<open>A disk whose first write fails at once.\<close>

theorem ata_error_sticks_witness:
  "\<exists>d1 d2. write_sectors disk_ports 8 1 (replicate 512 7) (blank_disk\<lparr>dv_faults := [Some 0]\<rparr>) = (Inl DeviceError, d1)
    \<and> write_sectors disk_ports 8 1 (replicate 512 7) d1 = (Inl DeviceError, d2)"
proof -
  let ?d = "blank_disk\<lparr>dv_faults := [Some 0]\<rparr>"
  have v: "validate_request 8 1 (length (replicate 512 (7 :: byte))) = Inr ()"
    by (simp add: validate_request_def MAX_LBA28_def)
  have "(8 :: nat) \<le> MAX_LBA28" by (simp add: MAX_LBA28_def)
  moreover have "dv_status ?d \<noteq> 0x51" by (simp add: dv_status_def blank_disk_def)
  ultimately obtain e where e: "start_command WRITE_SECTORS disk_ports 8 1 ?d = (Inr (), dv_command WRITE_SECTORS e)"
    "loaded 8 1 e" "dv_faults e = [Some 0]"
    using start_command_disk [of 8 ?d WRITE_SECTORS 1] by (auto simp: blank_disk_def)
  let ?c = "dv_command WRITE_SECTORS e"
  have s: "dv_status ?c = 0x51"
    using e(2,3) by (simp add: dv_status_def dv_command_def Let_def loaded_def READ_SECTORS_def WRITE_SECTORS_def)
  have "write_sectors disk_ports 8 1 (replicate 512 7) ?d = (Inl DeviceError, ?c)"
    using e(1) s v by (simp add: write_sectors_def write_sectors_locked_def wait_data_disk)
  moreover obtain d2 where "write_sectors disk_ports 8 1 (replicate 512 7) ?c = (Inl DeviceError, d2)"
    using ata_error_sticks [of disk_ports "\<lambda>d. dv_status d = 0x51", OF disk_error_state s v] by blast
  ultimately show ?thesis by blast
qed

end
