(* ===== verification/Ext2_Disk.thy ===== *)
theory Ext2_Disk
  imports Ata Utf8_Chars
begin

text \<open>
  The ext2 file system of \<open>fs/ext2.rs\<close>, first part: blocks, mounting, block transactions and inodes.
  An operation is a function of the disk state that returns an error or a value and the state
  afterwards; an outer \<open>None\<close> is a panic (an index out of range). A buffer is a list of bytes: all
  buffers are blocks of 4096 bytes, of which the file system uses the first \<open>block_size\<close>. The outcomes
  of \<open>try_reserve\<close> are given by the driver record, as a function of the size and the disk state.
\<close>

section \<open>Computations\<close>

type_synonym ('s, 'a) io = "'s \<Rightarrow> ((Ext2Error + 'a) \<times> 's) option"

named_theorems io_simps

definition ret :: "'a \<Rightarrow> ('s, 'a) io" where
  "ret a = (\<lambda>s. Some (Inr a, s))"

definition fail :: "Ext2Error \<Rightarrow> ('s, 'a) io" where
  "fail e = (\<lambda>s. Some (Inl e, s))"

definition bind_io :: "('s, 'a) io \<Rightarrow> ('a \<Rightarrow> ('s, 'b) io) \<Rightarrow> ('s, 'b) io" where
  "bind_io m f = (\<lambda>s. case m s of
      None \<Rightarrow> None | Some (Inl e, s') \<Rightarrow> Some (Inl e, s') | Some (Inr a, s') \<Rightarrow> f a s')"

text \<open>Results of computations that do not touch the disk: \<open>lift\<close> for a \<open>Result\<close>, \<open>must\<close> for an index
  that panics out of range, \<open>pure\<close> for both.\<close>

definition lift :: "Ext2Error + 'a \<Rightarrow> ('s, 'a) io" where
  "lift r = (\<lambda>s. Some (r, s))"

definition must :: "'a option \<Rightarrow> ('s, 'a) io" where
  "must x = (\<lambda>s. map_option (\<lambda>a. (Inr a, s)) x)"

definition pure_io :: "(Ext2Error + 'a) option \<Rightarrow> ('s, 'a) io" where
  "pure_io x = (\<lambda>s. map_option (\<lambda>r. (r, s)) x)"

primrec each_io :: "('a \<Rightarrow> ('s, unit) io) \<Rightarrow> 'a list \<Rightarrow> ('s, unit) io" where
  "each_io f [] = ret ()"
| "each_io f (x # xs) = bind_io (f x) (\<lambda>_. each_io f xs)"

primrec fold_io :: "('a \<Rightarrow> 'b \<Rightarrow> ('s, 'b) io) \<Rightarrow> 'a list \<Rightarrow> 'b \<Rightarrow> ('s, 'b) io" where
  "fold_io f [] b = ret b"
| "fold_io f (x # xs) b = bind_io (f x b) (\<lambda>b'. fold_io f xs b')"

lemma bind_io_cong [fundef_cong]:
  "m s = m' s' \<Longrightarrow> s = s' \<Longrightarrow> (\<And>a t. m' s' = Some (Inr a, t) \<Longrightarrow> f a t = f' a t) \<Longrightarrow>
    bind_io m f s = bind_io m' f' s'"
  by (simp add: bind_io_def split: option.split sum.split)

lemma io_run [io_simps]:
  "ret a s = Some (Inr a, s)" "fail e s = Some (Inl e, s)" "lift r s = Some (r, s)"
  by (simp_all add: ret_def fail_def lift_def)

lemma bind_io_Inr [io_simps]:
  "bind_io m f s = Some (Inr b, t) \<longleftrightarrow> (\<exists>a s1. m s = Some (Inr a, s1) \<and> f a s1 = Some (Inr b, t))"
  by (auto simp: bind_io_def split: option.splits sum.splits)

section \<open>Bytes and 32-bit arithmetic\<close>

definition le16 :: "byte list \<Rightarrow> nat \<Rightarrow> nat option" where
  "le16 bytes offset = map_option le_nat (get_range bytes offset (offset + 2))"

definition le32 :: "byte list \<Rightarrow> nat \<Rightarrow> nat option" where
  "le32 bytes offset = map_option le_nat (get_range bytes offset (offset + 4))"

definition u32_limit :: nat where "u32_limit = 2 ^ 32"

definition checked_add32 :: "nat \<Rightarrow> nat \<Rightarrow> nat option" where
  "checked_add32 a b = (if a + b < u32_limit then Some (a + b) else None)"

definition checked_mul32 :: "nat \<Rightarrow> nat \<Rightarrow> nat option" where
  "checked_mul32 a b = (if a * b < u32_limit then Some (a * b) else None)"

definition zeroed_block :: "byte list" where
  "zeroed_block = replicate 4096 0"

section \<open>The mounted file system\<close>

definition SUPERBLOCK_OFFSET :: nat where "SUPERBLOCK_OFFSET = 1024"
definition SUPERBLOCK_SIZE :: nat where "SUPERBLOCK_SIZE = 1024"
definition ROOT_INODE :: nat where "ROOT_INODE = 2"
definition DIRECT_BLOCKS :: nat where "DIRECT_BLOCKS = 12"
definition INODE_BLOCK_POINTERS_OFFSET :: nat where "INODE_BLOCK_POINTERS_OFFSET = 40"
definition MAX_GROUPS :: nat where "MAX_GROUPS = 4096"
definition FEATURE_COMPAT_EXT_ATTR :: "32 word" where "FEATURE_COMPAT_EXT_ATTR = 0x0008"
definition FEATURE_COMPAT_RESIZE_INODE :: "32 word" where "FEATURE_COMPAT_RESIZE_INODE = 0x0010"
definition FEATURE_INCOMPAT_FILETYPE :: "32 word" where "FEATURE_INCOMPAT_FILETYPE = 0x0002"
definition FEATURE_RO_COMPAT_SPARSE_SUPER :: "32 word" where "FEATURE_RO_COMPAT_SPARSE_SUPER = 0x0001"
definition FEATURE_RO_COMPAT_LARGE_FILE :: "32 word" where "FEATURE_RO_COMPAT_LARGE_FILE = 0x0002"

record Metadata =
  em_block_size :: nat
  em_blocks_count :: nat
  em_inodes_count :: nat
  em_first_data_block :: nat
  em_blocks_per_group :: nat
  em_inodes_per_group :: nat
  em_inode_size :: nat
  em_group_count :: nat
  em_incompat_features :: "32 word"

record Inode =
  ino_mode :: nat
  ino_links :: nat
  ino_size :: nat
  ino_allocated_blocks_512 :: nat
  ino_blocks :: "nat list"
  ino_single_indirect :: nat
  ino_double_indirect :: nat

definition is_directory :: "Inode \<Rightarrow> bool" where
  "is_directory i \<longleftrightarrow> ino_mode i div 2 ^ 12 = 4"

definition is_regular :: "Inode \<Rightarrow> bool" where
  "is_regular i \<longleftrightarrow> ino_mode i div 2 ^ 12 = 8"

section \<open>Blocks\<close>

text \<open>The driver as the file system calls it, and the outcomes of reservations.\<close>

record 'v Driver =
  drv_read :: "nat \<Rightarrow> nat \<Rightarrow> nat \<Rightarrow> 'v \<Rightarrow> (AtaError + byte list) \<times> 'v"
  drv_write :: "nat \<Rightarrow> nat \<Rightarrow> byte list \<Rightarrow> 'v \<Rightarrow> (AtaError + unit) \<times> 'v"
  drv_reserve :: "nat \<Rightarrow> 'v \<Rightarrow> bool"

definition ata_driver :: "'v Ports \<Rightarrow> (nat \<Rightarrow> 'v \<Rightarrow> bool) \<Rightarrow> 'v Driver" where
  "ata_driver P reserve = \<lparr>drv_read = read_sectors P, drv_write = write_sectors P, drv_reserve = reserve\<rparr>"

definition disk_block_size :: "nat \<Rightarrow> Ext2Error + nat" where
  "disk_block_size block_size =
    (if block_size div 512 < 256 then Inr (block_size div 512) else Inl InvalidFilesystem)"

definition disk_io :: "('v \<Rightarrow> (AtaError + 'a) \<times> 'v) \<Rightarrow> ('v, 'a) io" where
  "disk_io request = (\<lambda>v. case request v of (r, v') \<Rightarrow> Some (map_err Disk r, v'))"

text \<open>\<open>read_block\<close> overwrites the first \<open>block_size\<close> bytes of a buffer.\<close>

definition read_block :: "'v Driver \<Rightarrow> Metadata \<Rightarrow> nat \<Rightarrow> byte list \<Rightarrow> ('v, byte list) io" where
  "read_block D md block buffer =
    (if em_blocks_count md \<le> block \<or> length buffer < em_block_size md then fail InvalidFilesystem
     else bind_io (lift (disk_block_size (em_block_size md))) (\<lambda>sectors.
       bind_io (lift (ok_or InvalidFilesystem (checked_mul32 block sectors))) (\<lambda>lba.
         bind_io (disk_io (drv_read D lba sectors (em_block_size md))) (\<lambda>bytes.
           ret (bytes @ drop (em_block_size md) buffer)))))"

definition write_block :: "'v Driver \<Rightarrow> Metadata \<Rightarrow> nat \<Rightarrow> byte list \<Rightarrow> ('v, unit) io" where
  "write_block D md block input =
    (if em_blocks_count md \<le> block \<or> length input < em_block_size md then fail InvalidFilesystem
     else bind_io (lift (disk_block_size (em_block_size md))) (\<lambda>sectors.
       bind_io (lift (ok_or InvalidFilesystem (checked_mul32 block sectors))) (\<lambda>lba.
         disk_io (drv_write D lba sectors (take (em_block_size md) input)))))"

definition reserve_io :: "'v Driver \<Rightarrow> nat \<Rightarrow> ('v, unit) io" where
  "reserve_io D n = (\<lambda>v. if drv_reserve D n v then ret () v else fail Ext2AllocationFailed v)"

text \<open>How an operation reads and writes blocks: directly, or within a transaction, whose state is the
  list of saved blocks, newest first.\<close>

record 's Blocks =
  bl_read :: "Metadata \<Rightarrow> nat \<Rightarrow> byte list \<Rightarrow> ('s, byte list) io"
  bl_write :: "Metadata \<Rightarrow> nat \<Rightarrow> byte list \<Rightarrow> ('s, unit) io"

definition disk_blocks :: "'v Driver \<Rightarrow> 'v Blocks" where
  "disk_blocks D = \<lparr>bl_read = read_block D, bl_write = write_block D\<rparr>"

type_synonym undo = "(nat \<times> byte list) list"

text \<open>A computation on the disk, with something else beside it.\<close>

definition on_disk :: "('v, 'a) io \<Rightarrow> ('u \<times> 'v, 'a) io" where
  "on_disk m = (\<lambda>(u, v). map_option (\<lambda>(r, v'). (r, u, v')) (m v))"

definition push_undo :: "nat \<Rightarrow> byte list \<Rightarrow> (undo \<times> 'v, unit) io" where
  "push_undo block original = (\<lambda>(undo, v). Some (Inr (), (block, original) # undo, v))"

definition BlockTransaction_write :: "'v Driver \<Rightarrow> Metadata \<Rightarrow> nat \<Rightarrow> byte list \<Rightarrow> (undo \<times> 'v, unit) io" where
  "BlockTransaction_write D md block contents =
    bind_io (\<lambda>(undo, v). if block \<in> set (map fst undo) then ret () (undo, v)
        else bind_io (on_disk (reserve_io D 1)) (\<lambda>_.
          bind_io (on_disk (read_block D md block zeroed_block)) (\<lambda>original.
            push_undo block original)) (undo, v))
      (\<lambda>_. on_disk (write_block D md block contents))"

definition tx_blocks :: "'v Driver \<Rightarrow> (undo \<times> 'v) Blocks" where
  "tx_blocks D = \<lparr>bl_read = (\<lambda>md block buffer. on_disk (read_block D md block buffer)),
    bl_write = BlockTransaction_write D\<rparr>"

text \<open>\<open>rollback\<close> writes the saved blocks back, the last one first, and goes on after a failure.\<close>

primrec rollback_blocks :: "'v Driver \<Rightarrow> Metadata \<Rightarrow> undo \<Rightarrow> bool \<Rightarrow> ('v, unit) io" where
  "rollback_blocks D md [] failed = (if failed then fail RecoveryFailed else ret ())"
| "rollback_blocks D md (e # es) failed = (\<lambda>v. case write_block D md (fst e) (snd e) v of
      None \<Rightarrow> None
    | Some (Inl _, v') \<Rightarrow> rollback_blocks D md es True v'
    | Some (Inr _, v') \<Rightarrow> rollback_blocks D md es failed v')"

definition BlockTransaction_rollback :: "'v Driver \<Rightarrow> Metadata \<Rightarrow> undo \<Rightarrow> ('v, unit) io" where
  "BlockTransaction_rollback D md undo = rollback_blocks D md undo False"

section \<open>Mounting\<close>

definition u32_field :: "byte list \<Rightarrow> nat \<Rightarrow> ('s, nat) io" where
  "u32_field bytes offset = must (le32 bytes offset)"

definition u16_field :: "byte list \<Rightarrow> nat \<Rightarrow> ('s, nat) io" where
  "u16_field bytes offset = must (le16 bytes offset)"

text \<open>The checks on the sizes of the superblock.\<close>

definition sizes_invalid :: "Metadata \<Rightarrow> nat \<Rightarrow> bool" where
  "sizes_invalid md revision \<longleftrightarrow> em_blocks_count md = 0 \<or> em_inodes_count md < ROOT_INODE
    \<or> em_blocks_per_group md = 0 \<or> em_inodes_per_group md = 0
    \<or> em_blocks_count md \<le> em_first_data_block md
    \<or> em_block_size md * 8 < em_blocks_per_group md \<or> em_block_size md * 8 < em_inodes_per_group md
    \<or> \<not> (128 \<le> em_inode_size md \<and> em_inode_size md \<le> em_block_size md)
    \<or> em_block_size md mod em_inode_size md \<noteq> 0 \<or> 1 < revision
    \<or> em_block_size md = 1024 \<and> em_first_data_block md \<noteq> 1
    \<or> 1024 < em_block_size md \<and> em_first_data_block md \<noteq> 0"

definition group_count :: "Metadata \<Rightarrow> Ext2Error + nat" where
  "group_count md =
    bind_res (ok_or InvalidFilesystem (Option.bind
        (checked_sub (em_blocks_count md) (em_first_data_block md))
        (\<lambda>n. checked_add32 n (em_blocks_per_group md - 1)))) (\<lambda>b.
    bind_res (ok_or InvalidFilesystem (checked_add32 (em_inodes_count md) (em_inodes_per_group md - 1))) (\<lambda>i.
    let groups = max (b div em_blocks_per_group md) (i div em_inodes_per_group md)
    in if groups = 0 \<or> MAX_GROUPS < groups then Inl UnsupportedFeature
       else bind_res (ok_or InvalidFilesystem (Option.bind (checked_mul32 groups 32)
           (\<lambda>n. checked_add32 n (em_block_size md - 1)))) (\<lambda>n.
         let descriptor_blocks = n div em_block_size md
         in case Option.bind (checked_add32 (em_first_data_block md) 1)
             (\<lambda>block. checked_add32 block descriptor_blocks) of
           None \<Rightarrow> Inl InvalidFilesystem
         | Some stop \<Rightarrow> if em_blocks_count md < stop then Inl InvalidFilesystem
             else bind_res (disk_block_size (em_block_size md)) (\<lambda>sectors_per_block.
               bind_res (ok_or InvalidFilesystem (checked_mul32 (em_blocks_count md) sectors_per_block))
                 (\<lambda>disk_sectors. if 0x10000000 < disk_sectors then Inl UnsupportedFeature
                   else Inr groups)))))"

definition mount :: "'v Driver \<Rightarrow> ('v, Metadata) io" where
  "mount D =
    bind_io (disk_io (drv_read D (SUPERBLOCK_OFFSET div 512) 2 SUPERBLOCK_SIZE)) (\<lambda>superblock.
    bind_io (u16_field superblock 56) (\<lambda>magic.
    if magic \<noteq> 0xef53 then fail InvalidFilesystem else
    bind_io (u32_field superblock 24) (\<lambda>log_block_size.
    bind_io (u32_field superblock 28) (\<lambda>log_fragment_size.
    if 2 < log_block_size then fail UnsupportedFeature
    else if log_fragment_size \<noteq> log_block_size then fail UnsupportedFeature else
    bind_io (u32_field superblock 4) (\<lambda>blocks_count.
    bind_io (u32_field superblock 0) (\<lambda>inodes_count.
    bind_io (u32_field superblock 20) (\<lambda>first_data_block.
    bind_io (u32_field superblock 32) (\<lambda>blocks_per_group.
    bind_io (u32_field superblock 40) (\<lambda>inodes_per_group.
    bind_io (u32_field superblock 76) (\<lambda>revision.
    bind_io (if revision = 0 then ret 128 else u16_field superblock 88) (\<lambda>inode_size.
    bind_io (if revision = 0 then ret 0 else u32_field superblock 96) (\<lambda>incompat_features.
    bind_io (if revision = 0 then ret 0 else u32_field superblock 92) (\<lambda>compat_features.
    bind_io (if revision = 0 then ret 0 else u32_field superblock 100) (\<lambda>read_only_features.
    let md = \<lparr>em_block_size = 1024 * 2 ^ log_block_size, em_blocks_count = blocks_count,
          em_inodes_count = inodes_count, em_first_data_block = first_data_block,
          em_blocks_per_group = blocks_per_group, em_inodes_per_group = inodes_per_group,
          em_inode_size = inode_size, em_group_count = 0,
          em_incompat_features = word_of_nat incompat_features\<rparr>;
        known_compat = FEATURE_COMPAT_EXT_ATTR OR FEATURE_COMPAT_RESIZE_INODE;
        known_ro_compat = FEATURE_RO_COMPAT_SPARSE_SUPER OR FEATURE_RO_COMPAT_LARGE_FILE
    in if sizes_invalid md revision then fail InvalidFilesystem
       else if word_of_nat incompat_features AND NOT FEATURE_INCOMPAT_FILETYPE \<noteq> 0
           \<or> word_of_nat compat_features AND NOT known_compat \<noteq> 0
           \<or> word_of_nat read_only_features AND NOT known_ro_compat \<noteq> 0
         then fail UnsupportedFeature
       else bind_io (lift (group_count md)) (\<lambda>groups. ret (md\<lparr>em_group_count := groups\<rparr>))))))))))))))))"

text \<open>The static \<open>EXT2\<close>, \<open>initialize\<close> and \<open>metadata\<close>.\<close>

type_synonym ext2_cell = "(Ext2Error + Metadata) option"

definition ext2_initialize :: "'v Driver \<Rightarrow> ext2_cell \<Rightarrow> 'v \<Rightarrow> ((Ext2Error + unit) \<times> ext2_cell \<times> 'v) option" where
  "ext2_initialize D cell v = (case cell of
      Some r \<Rightarrow> Some (bind_res r (\<lambda>_. Inr ()), cell, v)
    | None \<Rightarrow> map_option (\<lambda>(r, v'). (bind_res r (\<lambda>_. Inr ()), Some r, v')) (mount D v))"

definition ext2_metadata :: "ext2_cell \<Rightarrow> Ext2Error + Metadata" where
  "ext2_metadata cell = (case cell of None \<Rightarrow> Inl Ext2NotInitialized | Some r \<Rightarrow> r)"

section \<open>Inodes\<close>

definition read_group_descriptor :: "'s Blocks \<Rightarrow> Metadata \<Rightarrow> nat \<Rightarrow> byte list \<Rightarrow> ('s, nat \<times> byte list) io" where
  "read_group_descriptor B md g buffer =
    (if em_group_count md \<le> g then fail InvalidFilesystem
     else bind_io (lift (ok_or InvalidFilesystem (checked_add32 (em_first_data_block md) 1))) (\<lambda>table.
       let byte_offset = g * 32; descriptor_offset = byte_offset mod em_block_size md
       in bind_io (lift (ok_or InvalidFilesystem (checked_add32 table (byte_offset div em_block_size md))))
         (\<lambda>descriptor_block.
         bind_io (bl_read B md descriptor_block buffer) (\<lambda>buffer'.
         bind_io (u32_field buffer' (descriptor_offset + 8)) (\<lambda>inode_table.
           if em_blocks_count md \<le> inode_table then fail InvalidFilesystem
           else ret (inode_table, buffer'))))))"

text \<open>Where an inode is on the disk: the block and the offset in it, and the buffer used so far.\<close>

definition locate_inode :: "'s Blocks \<Rightarrow> Metadata \<Rightarrow> nat \<Rightarrow> ('s, nat \<times> nat \<times> nat \<times> byte list) io" where
  "locate_inode B md inode_index =
    (let local_index = inode_index mod em_inodes_per_group md
     in bind_io (read_group_descriptor B md (inode_index div em_inodes_per_group md) zeroed_block)
       (\<lambda>(inode_table, buffer).
        let inode_offset = local_index * em_inode_size md
        in bind_io (lift (ok_or InvalidFilesystem (checked_add32 inode_table (inode_offset div em_block_size md))))
          (\<lambda>block_number. ret (inode_table, block_number, inode_offset mod em_block_size md, buffer))))"

definition block_pointer :: "Metadata \<Rightarrow> byte list \<Rightarrow> nat \<Rightarrow> ('s, nat) io" where
  "block_pointer md raw offset = bind_io (u32_field raw offset) (\<lambda>block.
    if block \<noteq> 0 \<and> em_blocks_count md \<le> block then fail InvalidFilesystem else ret block)"

primrec block_pointers :: "Metadata \<Rightarrow> byte list \<Rightarrow> nat list \<Rightarrow> ('s, nat list) io" where
  "block_pointers md raw [] = ret []"
| "block_pointers md raw (i # is) = bind_io (block_pointer md raw (INODE_BLOCK_POINTERS_OFFSET + i * 4))
    (\<lambda>block. bind_io (block_pointers md raw is) (\<lambda>blocks. ret (block # blocks)))"

definition parse_inode :: "Metadata \<Rightarrow> byte list \<Rightarrow> ('s, Inode) io" where
  "parse_inode md raw =
    bind_io (u32_field raw 4) (\<lambda>low_size.
    bind_io (u16_field raw 0) (\<lambda>mode.
    bind_io (if mode div 2 ^ 12 = 8 \<and> 112 \<le> em_inode_size md
        then bind_io (u32_field raw 108) (\<lambda>high. ret (low_size + 2 ^ 32 * high)) else ret low_size) (\<lambda>size.
    bind_io (block_pointers md raw [0..<DIRECT_BLOCKS]) (\<lambda>blocks.
    bind_io (block_pointer md raw (INODE_BLOCK_POINTERS_OFFSET + DIRECT_BLOCKS * 4)) (\<lambda>single_indirect.
    bind_io (block_pointer md raw (INODE_BLOCK_POINTERS_OFFSET + (DIRECT_BLOCKS + 1) * 4)) (\<lambda>double_indirect.
    bind_io (u16_field raw 26) (\<lambda>links.
    bind_io (u32_field raw 28) (\<lambda>allocated.
      ret \<lparr>ino_mode = mode, ino_links = links, ino_size = size, ino_allocated_blocks_512 = allocated,
        ino_blocks = blocks, ino_single_indirect = single_indirect,
        ino_double_indirect = double_indirect\<rparr>))))))))"

definition read_inode :: "'s Blocks \<Rightarrow> Metadata \<Rightarrow> nat \<Rightarrow> ('s, Inode) io" where
  "read_inode B md inode_number =
    (if inode_number = 0 \<or> em_inodes_count md < inode_number then fail InvalidFilesystem
     else bind_io (locate_inode B md (inode_number - 1)) (\<lambda>(inode_table, block_number, within_block, buffer).
       let inode_table_blocks = (em_inodes_per_group md * em_inode_size md + em_block_size md - 1)
             div em_block_size md
       in if em_blocks_count md < inode_table + inode_table_blocks then fail InvalidFilesystem
          else bind_io (bl_read B md block_number buffer) (\<lambda>block.
            if em_block_size md < within_block + em_inode_size md then fail InvalidFilesystem
            else bind_io (must (get_range block within_block (within_block + em_inode_size md)))
              (parse_inode md))))"

end
