(* ===== verification/Ext2_Read.thy ===== *)
theory Ext2_Read
  imports Ext2_Disk
begin

text \<open>
  The read side of \<open>fs/ext2.rs\<close>: the blocks of an inode through the indirect blocks and their cache,
  directories, path lookup, directory listing and file contents.
\<close>

section \<open>The blocks of an inode\<close>

definition inode_block_count :: "Metadata \<Rightarrow> Inode \<Rightarrow> Ext2Error + nat" where
  "inode_block_count md inode =
    (let block_count = ino_size inode div em_block_size md
           + (if ino_size inode mod em_block_size md \<noteq> 0 then 1 else 0);
         pointers_per_block = em_block_size md div 4;
         max_blocks = DIRECT_BLOCKS + pointers_per_block + pointers_per_block * pointers_per_block
     in if max_blocks < block_count then Inl UnsupportedFeature else Inr block_count)"

text \<open>The buffers and block numbers that \<open>inode_data_block\<close> keeps between calls.\<close>

record Cache =
  ca_indirect :: "byte list"
  ca_indirect_block :: nat
  ca_double :: "byte list"
  ca_double_block :: nat

definition empty_cache :: Cache where
  "empty_cache = \<lparr>ca_indirect = zeroed_block, ca_indirect_block = 0,
    ca_double = zeroed_block, ca_double_block = 0\<rparr>"

definition load_indirect :: "'s Blocks \<Rightarrow> Metadata \<Rightarrow> nat \<Rightarrow> Cache \<Rightarrow> ('s, Cache) io" where
  "load_indirect B md block c =
    (if ca_indirect_block c \<noteq> block
     then bind_io (bl_read B md block (ca_indirect c)) (\<lambda>data.
       ret (c\<lparr>ca_indirect := data, ca_indirect_block := block\<rparr>))
     else ret c)"

definition load_double :: "'s Blocks \<Rightarrow> Metadata \<Rightarrow> nat \<Rightarrow> Cache \<Rightarrow> ('s, Cache) io" where
  "load_double B md block c =
    (if ca_double_block c \<noteq> block
     then bind_io (bl_read B md block (ca_double c)) (\<lambda>data.
       ret (c\<lparr>ca_double := data, ca_double_block := block, ca_indirect_block := 0\<rparr>))
     else ret c)"

definition inode_data_block :: "'s Blocks \<Rightarrow> Metadata \<Rightarrow> Inode \<Rightarrow> nat \<Rightarrow> Cache \<Rightarrow> ('s, nat \<times> Cache) io" where
  "inode_data_block B md inode logical_index c =
    (if logical_index < DIRECT_BLOCKS then ret (ino_blocks inode ! logical_index, c)
     else let indirect_index = logical_index - DIRECT_BLOCKS; pointers_per_block = em_block_size md div 4
     in if indirect_index < pointers_per_block
        then if ino_single_indirect inode = 0 then ret (0, c)
          else bind_io (load_indirect B md (ino_single_indirect inode) c) (\<lambda>c'.
            bind_io (block_pointer md (ca_indirect c') (indirect_index * 4)) (\<lambda>block. ret (block, c')))
        else let double_index = indirect_index - pointers_per_block;
            outer_index = double_index div pointers_per_block;
            inner_index = double_index mod pointers_per_block
          in if pointers_per_block \<le> outer_index then fail UnsupportedFeature
             else if ino_double_indirect inode = 0 then ret (0, c)
             else bind_io (load_double B md (ino_double_indirect inode) c) (\<lambda>c'.
               bind_io (u32_field (ca_double c') (outer_index * 4)) (\<lambda>indirect_block.
                 if indirect_block = 0 then ret (0, c')
                 else if em_blocks_count md \<le> indirect_block then fail InvalidFilesystem
                 else bind_io (load_indirect B md indirect_block c') (\<lambda>c''.
                   bind_io (block_pointer md (ca_indirect c'') (inner_index * 4)) (\<lambda>block.
                     ret (block, c''))))))"

section \<open>Directories\<close>

definition ext2_safe_component :: "byte list \<Rightarrow> bool" where
  "ext2_safe_component component \<longleftrightarrow> component \<noteq> [] \<and> length component \<le> 255
    \<and> component \<noteq> ascii ''.'' \<and> component \<noteq> ascii ''..''
    \<and> (\<forall>b \<in> set component. is_ascii_alphanumeric b \<or> b \<in> set (ascii ''._-''))"

text \<open>The head of a directory record and its checks: the inode, the record length and the name length.\<close>

definition has_filetype :: "Metadata \<Rightarrow> bool" where
  "has_filetype md \<longleftrightarrow> em_incompat_features md AND FEATURE_INCOMPAT_FILETYPE \<noteq> 0"

definition dir_record :: "Metadata \<Rightarrow> byte list \<Rightarrow> nat \<Rightarrow> nat \<Rightarrow> (Ext2Error + nat \<times> nat \<times> nat) option" where
  "dir_record md block limit offset =
    Option.bind (le32 block offset) (\<lambda>inode.
    Option.bind (le16 block (offset + 4)) (\<lambda>record_len.
    if record_len < 8 \<or> record_len mod 4 \<noteq> 0 \<or> limit < offset + record_len
    then Some (Inl InvalidFilesystem)
    else Option.bind (if has_filetype md then map_option le_nat (get_range block (offset + 6) (offset + 7))
        else le16 block (offset + 6)) (\<lambda>name_len.
      if record_len - 8 < name_len then Some (Inl InvalidFilesystem)
      else Some (Inr (inode, record_len, name_len)))))"

definition dirent_name :: "byte list \<Rightarrow> nat \<Rightarrow> nat \<Rightarrow> byte list option" where
  "dirent_name block offset name_len = get_range block (offset + 8) (offset + 8 + name_len)"

lemma dir_record_length: "dir_record md block limit offset = Some (Inr (inode, record_len, name_len)) \<Longrightarrow>
    8 \<le> record_len \<and> offset + record_len \<le> limit \<and> name_len \<le> record_len - 8 \<and> record_len mod 4 = 0"
  by (auto simp: dir_record_def bind_eq_Some_conv split: if_splits)

function find_in_block :: "Metadata \<Rightarrow> byte list \<Rightarrow> nat \<Rightarrow> byte list \<Rightarrow> nat \<Rightarrow> (Ext2Error + nat option) option" where
  "find_in_block md block limit child offset =
    (if offset + 8 \<le> limit
     then case dir_record md block limit offset of
         None \<Rightarrow> None
       | Some (Inl e) \<Rightarrow> Some (Inl e)
       | Some (Inr (inode, record_len, name_len)) \<Rightarrow> (case dirent_name block offset name_len of
           None \<Rightarrow> None
         | Some name \<Rightarrow>
             if inode \<noteq> 0 \<and> em_inodes_count md < inode then Some (Inl InvalidFilesystem)
             else if inode \<noteq> 0 \<and> name = child then Some (Inr (Some inode))
             else find_in_block md block limit child (offset + record_len))
     else Some (Inr None))"
  by pat_completeness auto
termination
  by (relation "measure (\<lambda>(md, block, limit, child, offset). limit - offset)")
    (auto dest: dir_record_length)

declare find_in_block.simps [simp del]

definition directory_block :: "'s Blocks \<Rightarrow> Metadata \<Rightarrow> Inode \<Rightarrow> nat \<Rightarrow> byte list \<times> Cache
    \<Rightarrow> ('s, byte list \<times> Cache) io" where
  "directory_block B md directory logical_index bufs =
    bind_io (inode_data_block B md directory logical_index (snd bufs)) (\<lambda>(block_number, cache).
      if block_number = 0 then fail InvalidFilesystem
      else bind_io (bl_read B md block_number (fst bufs)) (\<lambda>block. ret (block, cache)))"

primrec find_in_blocks :: "'s Blocks \<Rightarrow> Metadata \<Rightarrow> Inode \<Rightarrow> byte list \<Rightarrow> nat list \<Rightarrow> byte list \<times> Cache \<Rightarrow> nat
    \<Rightarrow> ('s, nat option) io" where
  "find_in_blocks B md directory child [] bufs remaining = ret None"
| "find_in_blocks B md directory child (i # is) bufs remaining =
    bind_io (directory_block B md directory i bufs) (\<lambda>bufs'.
    bind_io (pure_io (find_in_block md (fst bufs') (min remaining (em_block_size md)) child 0)) (\<lambda>found.
      case found of Some inode \<Rightarrow> ret (Some inode)
      | None \<Rightarrow> find_in_blocks B md directory child is bufs' (remaining - em_block_size md)))"

definition find_child :: "'s Blocks \<Rightarrow> Metadata \<Rightarrow> Inode \<Rightarrow> byte list \<Rightarrow> ('s, nat option) io" where
  "find_child B md directory child =
    (if \<not> is_directory directory then ret None
     else bind_io (lift (inode_block_count md directory)) (\<lambda>block_count.
       find_in_blocks B md directory child [0..<block_count] (zeroed_block, empty_cache) (ino_size directory)))"

section \<open>Paths\<close>

definition is_slash :: "byte \<Rightarrow> bool" where
  "is_slash b \<longleftrightarrow> b = of_char CHR ''/''"

text \<open>The loop over the components, with the number of the inode reached.\<close>

primrec ext2_walk :: "'s Blocks \<Rightarrow> Metadata \<Rightarrow> byte list list \<Rightarrow> nat \<times> Inode \<Rightarrow> ('s, (nat \<times> Inode) option) io" where
  "ext2_walk B md [] at = ret (Some at)"
| "ext2_walk B md (component # rest) at =
    (if component = [] then ext2_walk B md rest at
     else if \<not> ext2_safe_component component \<or> \<not> is_directory (snd at) then ret None
     else bind_io (find_child B md (snd at) component) (\<lambda>child. case child of
         None \<Rightarrow> ret None
       | Some number \<Rightarrow> bind_io (read_inode B md number) (\<lambda>inode. ext2_walk B md rest (number, inode))))"

definition find_inode_number :: "'s Blocks \<Rightarrow> Metadata \<Rightarrow> byte list \<Rightarrow> ('s, nat option) io" where
  "find_inode_number B md path =
    bind_io (read_inode B md ROOT_INODE) (\<lambda>root.
      bind_io (ext2_walk B md (split_on is_slash path) (ROOT_INODE, root)) (\<lambda>r. ret (map_option fst r)))"

definition lookup :: "'s Blocks \<Rightarrow> ext2_cell \<Rightarrow> byte list \<Rightarrow> ('s, Inode option) io" where
  "lookup B cell path =
    bind_io (lift (ext2_metadata cell)) (\<lambda>md.
    bind_io (read_inode B md ROOT_INODE) (\<lambda>root.
      bind_io (ext2_walk B md (split_on is_slash path) (ROOT_INODE, root)) (\<lambda>r. ret (map_option snd r))))"

definition ext2_directory_exists :: "'s Blocks \<Rightarrow> ext2_cell \<Rightarrow> byte list \<Rightarrow> ('s, bool) io" where
  "ext2_directory_exists B cell path = bind_io (lookup B cell path) (\<lambda>r. ret
    (case r of None \<Rightarrow> False | Some inode \<Rightarrow> is_directory inode))"

section \<open>Listing\<close>

text \<open>The calls of the visitor (name, directory, size) are recorded beside the disk, so that those made
  before an error are seen.\<close>

type_synonym visits = "(byte list \<times> bool \<times> nat) list"

definition visit :: "byte list \<times> bool \<times> nat \<Rightarrow> (visits \<times> 's, unit) io" where
  "visit x = (\<lambda>(xs, s). Some (Inr (), xs @ [x], s))"

definition visit_entry :: "'s Blocks \<Rightarrow> Metadata \<Rightarrow> byte list \<Rightarrow> nat \<Rightarrow> nat \<Rightarrow> nat \<Rightarrow> (visits \<times> 's, unit) io" where
  "visit_entry B md block offset inode_number name_len =
    (if inode_number = 0 then ret ()
     else if em_inodes_count md < inode_number then fail InvalidFilesystem
     else bind_io (must (dirent_name block offset name_len)) (\<lambda>name.
       if name = ascii ''.'' \<or> name = ascii ''..'' then ret ()
       else if \<not> ext2_safe_component name then fail UnsupportedFeature
       else bind_io (on_disk (read_inode B md inode_number)) (\<lambda>inode.
         if \<not> is_directory inode \<and> \<not> is_regular inode then fail UnsupportedFeature
         else if \<not> utf8_valid name then fail UnsupportedFeature
         else visit (name, is_directory inode, ino_size inode))))"

function visit_block :: "'s Blocks \<Rightarrow> Metadata \<Rightarrow> byte list \<Rightarrow> nat \<Rightarrow> nat \<Rightarrow> (visits \<times> 's, unit) io" where
  "visit_block B md block limit offset s =
    (if offset + 8 \<le> limit
     then case dir_record md block limit offset of
         None \<Rightarrow> None
       | Some (Inl e) \<Rightarrow> Some (Inl e, s)
       | Some (Inr (inode, record_len, name_len)) \<Rightarrow>
           bind_io (visit_entry B md block offset inode name_len)
             (\<lambda>_ s'. visit_block B md block limit (offset + record_len) s') s
     else ret () s)"
  by pat_completeness auto
termination
  by (relation "measure (\<lambda>(B, md, block, limit, offset, s). limit - offset)")
    (auto dest: dir_record_length)

declare visit_block.simps [simp del]

primrec visit_blocks :: "'s Blocks \<Rightarrow> Metadata \<Rightarrow> Inode \<Rightarrow> nat list \<Rightarrow> byte list \<times> Cache \<Rightarrow> nat
    \<Rightarrow> (visits \<times> 's, unit) io" where
  "visit_blocks B md directory [] bufs remaining = ret ()"
| "visit_blocks B md directory (i # is) bufs remaining =
    bind_io (on_disk (directory_block B md directory i bufs)) (\<lambda>bufs'.
    bind_io (visit_block B md (fst bufs') (min remaining (em_block_size md)) 0) (\<lambda>_.
      visit_blocks B md directory is bufs' (remaining - em_block_size md)))"

definition for_each_child :: "'s Blocks \<Rightarrow> ext2_cell \<Rightarrow> Inode \<Rightarrow> (visits \<times> 's, unit) io" where
  "for_each_child B cell directory =
    bind_io (lift (ext2_metadata cell)) (\<lambda>md.
    if \<not> is_directory directory then ret ()
    else bind_io (lift (inode_block_count md directory)) (\<lambda>block_count.
      visit_blocks B md directory [0..<block_count] (zeroed_block, empty_cache) (ino_size directory)))"

definition ext2_for_each_entry :: "'s Blocks \<Rightarrow> ext2_cell \<Rightarrow> byte list \<Rightarrow> (visits \<times> 's, unit) io" where
  "ext2_for_each_entry B cell path =
    bind_io (on_disk (lookup B cell path)) (\<lambda>r. case r of
      Some directory \<Rightarrow> if is_directory directory then for_each_child B cell directory else ret ()
    | None \<Rightarrow> ret ())"

section \<open>File contents\<close>

text \<open>One round of the loop of \<open>read_inode_contents\<close>: the bytes to copy, and the buffers afterwards.\<close>

definition read_piece :: "'s Blocks \<Rightarrow> Metadata \<Rightarrow> Inode \<Rightarrow> nat \<Rightarrow> nat \<Rightarrow> nat \<Rightarrow> byte list \<times> Cache
    \<Rightarrow> ('s, byte list \<times> byte list \<times> Cache) io" where
  "read_piece B md inode block_index block_offset amount bufs =
    bind_io (inode_data_block B md inode block_index (snd bufs)) (\<lambda>(block_number, cache).
      if block_number = 0 then ret (replicate amount 0, fst bufs, cache)
      else bind_io (bl_read B md block_number (fst bufs)) (\<lambda>block.
        bind_io (must (get_range block block_offset (block_offset + amount))) (\<lambda>piece.
          ret (piece, block, cache))))"

lemma piece_progress:
  assumes "0 < (b::nat)" "a < n"
  shows "n - (a + min (b - a mod b) (n - a)) < n - a"
proof -
  have "a mod b < b" using assms by simp
  then show ?thesis using assms by linarith
qed

function read_pieces :: "'s Blocks \<Rightarrow> Metadata \<Rightarrow> Inode \<Rightarrow> nat \<Rightarrow> nat \<Rightarrow> nat \<Rightarrow> byte list \<Rightarrow> byte list \<times> Cache
    \<Rightarrow> ('s, nat \<times> byte list) io" where
  "read_pieces B md inode block_count copy_len copied out bufs s =
    (if copied < copy_len
     then if em_block_size md = 0 then None
       else let block_index = copied div em_block_size md; block_offset = copied mod em_block_size md;
           amount = min (em_block_size md - block_offset) (copy_len - copied)
         in if block_count \<le> block_index then fail InvalidFilesystem s
            else bind_io (read_piece B md inode block_index block_offset amount bufs) (\<lambda>(piece, bufs') s'.
              case put_slice copied piece out of None \<Rightarrow> None
              | Some out' \<Rightarrow> read_pieces B md inode block_count copy_len (copied + amount) out' bufs' s') s
     else ret (copied, out) s)"
  by pat_completeness auto
termination
  by (relation "measure (\<lambda>(B, md, inode, block_count, copy_len, copied, out, bufs, s). copy_len - copied)")
    (auto intro: piece_progress)

declare read_pieces.simps [simp del]

text \<open>The bytes copied, the size of the file, and the output buffer.\<close>

definition read_inode_contents :: "'s Blocks \<Rightarrow> Metadata \<Rightarrow> Inode \<Rightarrow> byte list
    \<Rightarrow> ('s, (nat \<times> nat) \<times> byte list) io" where
  "read_inode_contents B md inode out =
    bind_io (lift (inode_block_count md inode)) (\<lambda>block_count.
    bind_io (read_pieces B md inode block_count (min (ino_size inode) (length out)) 0 out
        (zeroed_block, empty_cache)) (\<lambda>(copied, out').
      ret ((copied, ino_size inode), out')))"

definition read_file :: "'s Blocks \<Rightarrow> ext2_cell \<Rightarrow> byte list \<Rightarrow> byte list
    \<Rightarrow> ('s, ((nat \<times> nat) \<times> byte list) option) io" where
  "read_file B cell path out =
    bind_io (lift (ext2_metadata cell)) (\<lambda>md.
    bind_io (lookup B cell path) (\<lambda>r. case r of
      None \<Rightarrow> ret None
    | Some inode \<Rightarrow> if \<not> is_regular inode then ret None
        else bind_io (read_inode_contents B md inode out) (\<lambda>x. ret (Some x))))"

definition read_file_vec :: "'v Driver \<Rightarrow> ext2_cell \<Rightarrow> byte list \<Rightarrow> nat \<Rightarrow> ('v, byte list option) io" where
  "read_file_vec D cell path max_size =
    bind_io (lift (ext2_metadata cell)) (\<lambda>md.
    bind_io (lookup (disk_blocks D) cell path) (\<lambda>r. case r of
      None \<Rightarrow> ret None
    | Some inode \<Rightarrow> if \<not> is_regular inode then ret None
        else if max_size < ino_size inode then fail FileTooLarge
        else bind_io (reserve_io D (ino_size inode)) (\<lambda>_.
          bind_io (read_inode_contents (disk_blocks D) md inode (replicate (ino_size inode) 0)) (\<lambda>x.
            ret (Some (snd x))))))"

definition free_block_count :: "'s Blocks \<Rightarrow> ext2_cell \<Rightarrow> ('s, nat) io" where
  "free_block_count B cell =
    bind_io (lift (ext2_metadata cell)) (\<lambda>md.
    bind_io (bl_read B md (em_first_data_block md) zeroed_block) (\<lambda>superblock. u32_field superblock 12))"

end
