(* ===== verification/Ext2_Write.thy ===== *)
theory Ext2_Write
  imports Ext2_Read
begin

text \<open>
  The write side of \<open>fs/ext2.rs\<close>: bitmaps, directory entries, counters, and the operations
  \<open>create_directory\<close>, \<open>remove_file\<close>, \<open>remove_empty_directory\<close> and \<open>write_file\<close>. A function that takes an
  \<open>Option<&mut BlockTransaction>\<close> takes a \<open>Blocks\<close> record here: \<open>disk_blocks\<close> for \<open>None\<close>, \<open>tx_blocks\<close> for
  a transaction. The write lock serialises these operations and is not modelled.
\<close>

section \<open>Edits of a buffer\<close>

primrec put_all :: "(nat \<times> byte list) list \<Rightarrow> byte list \<Rightarrow> byte list option" where
  "put_all [] bytes = Some bytes"
| "put_all (e # es) bytes = Option.bind (put_slice (fst e) (snd e) bytes) (put_all es)"

definition inode_edits :: "Metadata \<Rightarrow> nat \<Rightarrow> nat \<Rightarrow> nat \<Rightarrow> nat list \<Rightarrow> nat \<Rightarrow> nat \<Rightarrow> nat \<Rightarrow> (nat \<times> byte list) list" where
  "inode_edits md mode file_size link_count data_blocks single_indirect double_indirect allocated_blocks_512 =
    [(0, le_bytes 2 mode), (4, le_bytes 4 file_size), (26, le_bytes 2 link_count)]
    @ (if 112 \<le> em_inode_size md then [(108, replicate 4 0)] else [])
    @ [(28, le_bytes 4 allocated_blocks_512)]
    @ map (\<lambda>(index, block). (INODE_BLOCK_POINTERS_OFFSET + index * 4, le_bytes 4 block)) (enumerate 0 data_blocks)
    @ (let single_offset = INODE_BLOCK_POINTERS_OFFSET + DIRECT_BLOCKS * 4
       in [(single_offset, le_bytes 4 single_indirect), (single_offset + 4, le_bytes 4 double_indirect)])"

definition write_inode_fields :: "'s Blocks \<Rightarrow> Metadata \<Rightarrow> nat \<Rightarrow> nat \<Rightarrow> nat \<Rightarrow> nat \<Rightarrow> nat list \<Rightarrow> nat \<Rightarrow> nat \<Rightarrow> nat
    \<Rightarrow> bool \<Rightarrow> ('s, unit) io" where
  "write_inode_fields B md inode_number mode file_size link_count data_blocks single_indirect double_indirect
      allocated_blocks_512 is_new =
    bind_io (lift (ok_or InvalidFilesystem (checked_sub inode_number 1))) (\<lambda>inode_index.
    bind_io (locate_inode B md inode_index) (\<lambda>(inode_table, block_number, within_block, buffer).
    if em_block_size md < within_block + em_inode_size md then fail InvalidFilesystem
    else bind_io (bl_read B md block_number buffer) (\<lambda>block.
      bind_io (must (get_range block within_block (within_block + em_inode_size md))) (\<lambda>raw.
      bind_io (must (put_all (inode_edits md mode file_size link_count data_blocks single_indirect double_indirect
          allocated_blocks_512) (if is_new then replicate (em_inode_size md) 0 else raw))) (\<lambda>raw'.
      bind_io (must (put_slice within_block raw' block)) (\<lambda>block'.
        bl_write B md block_number block'))))))"

section \<open>Bitmaps\<close>

text \<open>A bit of a bitmap, \<open>None\<close> out of range.\<close>

definition bitmap_bit :: "byte list \<Rightarrow> nat \<Rightarrow> bool option" where
  "bitmap_bit bitmap i = (if i div 8 < length bitmap then Some (bit (bitmap ! (i div 8)) (i mod 8)) else None)"

primrec find_free_from :: "byte list \<Rightarrow> nat \<Rightarrow> nat \<Rightarrow> nat option option" where
  "find_free_from bitmap index 0 = Some None"
| "find_free_from bitmap index (Suc n) = Option.bind (bitmap_bit bitmap index) (\<lambda>used.
    if used then find_free_from bitmap (index + 1) n else Some (Some index))"

definition find_free_bit :: "byte list \<Rightarrow> nat \<Rightarrow> nat option option" where
  "find_free_bit bitmap n = find_free_from bitmap 0 n"

definition put_bit :: "byte list \<Rightarrow> nat \<Rightarrow> bool \<Rightarrow> byte list" where
  "put_bit bitmap i allocated = bitmap[i div 8 :=
    (if allocated then bitmap ! (i div 8) OR push_bit (i mod 8) 1
     else bitmap ! (i div 8) AND NOT (push_bit (i mod 8) 1))]"

definition change_bit :: "byte list \<Rightarrow> nat \<Rightarrow> bool \<Rightarrow> (Ext2Error + byte list) option" where
  "change_bit bitmap i allocated = Option.bind (bitmap_bit bitmap i) (\<lambda>used.
    if used = allocated then Some (Inl InvalidFilesystem) else Some (Inr (put_bit bitmap i allocated)))"

definition update_inode_bitmap :: "byte list \<Rightarrow> nat \<Rightarrow> bool \<Rightarrow> (Ext2Error + byte list) option" where
  "update_inode_bitmap bitmap inode_number allocated =
    (case checked_sub inode_number 1 of None \<Rightarrow> Some (Inl InvalidFilesystem)
     | Some i \<Rightarrow> change_bit bitmap i allocated)"

definition update_block_bitmap :: "Metadata \<Rightarrow> byte list \<Rightarrow> nat \<Rightarrow> bool \<Rightarrow> (Ext2Error + byte list) option" where
  "update_block_bitmap md bitmap block_number allocated =
    (if block_number < em_first_data_block md \<or> em_blocks_count md \<le> block_number
     then Some (Inl InvalidFilesystem)
     else change_bit bitmap (block_number - em_first_data_block md) allocated)"

definition free_block_in :: "Metadata \<Rightarrow> byte list \<Rightarrow> ('s, nat) io" where
  "free_block_in md bitmap =
    bind_io (must (find_free_bit bitmap (em_blocks_count md - em_first_data_block md))) (\<lambda>found.
    bind_io (lift (ok_or NoSpace found)) (\<lambda>block_index.
      lift (ok_or InvalidFilesystem (checked_add32 block_index (em_first_data_block md)))))"

definition free_inode_in :: "Metadata \<Rightarrow> byte list \<Rightarrow> ('s, nat) io" where
  "free_inode_in md bitmap =
    bind_io (must (find_free_bit bitmap (em_inodes_count md))) (\<lambda>found.
      lift (ok_or NoSpace (Option.bind found (\<lambda>i. checked_add32 i 1))))"

definition allocate_data_block :: "Metadata \<Rightarrow> byte list \<Rightarrow> ('s, nat \<times> byte list) io" where
  "allocate_data_block md bitmap =
    bind_io (free_block_in md bitmap) (\<lambda>block.
    bind_io (pure_io (update_block_bitmap md bitmap block True)) (\<lambda>bitmap'. ret (block, bitmap')))"

definition single_indirect_capacity :: "Metadata \<Rightarrow> Ext2Error + nat" where
  "single_indirect_capacity md = ok_or UnsupportedFeature (checked_add DIRECT_BLOCKS (em_block_size md div 4))"

definition double_indirect_capacity :: "Metadata \<Rightarrow> Ext2Error + nat" where
  "double_indirect_capacity md =
    (let pointers_per_block = em_block_size md div 4
     in bind_res (single_indirect_capacity md) (\<lambda>single.
       bind_res (ok_or UnsupportedFeature (checked_mul pointers_per_block pointers_per_block)) (\<lambda>double.
         ok_or UnsupportedFeature (checked_add single double))))"

section \<open>Directory entries\<close>

definition entry_length :: "nat \<Rightarrow> nat" where
  "entry_length n = (8 + n + 3) div 4 * 4"

text \<open>The first record with room for an entry: its offset, inode, length and used length.\<close>

function find_slot :: "Metadata \<Rightarrow> byte list \<Rightarrow> nat \<Rightarrow> nat \<Rightarrow> (Ext2Error + nat \<times> nat \<times> nat \<times> nat) option" where
  "find_slot md block required offset =
    (if offset + 8 \<le> em_block_size md
     then case dir_record md block (em_block_size md) offset of
         None \<Rightarrow> None
       | Some (Inl e) \<Rightarrow> Some (Inl e)
       | Some (Inr (inode, record_len, name_len)) \<Rightarrow>
           let used_len = entry_length name_len
           in if inode = 0 \<and> required \<le> record_len \<or> inode \<noteq> 0 \<and> required \<le> record_len - used_len
              then Some (Inr (offset, inode, record_len, used_len))
              else find_slot md block required (offset + record_len)
     else Some (Inl NoSpace))"
  by pat_completeness auto
termination
  by (relation "measure (\<lambda>(md, block, required, offset). em_block_size md - offset)")
    (auto dest: dir_record_length)

declare find_slot.simps [simp del]

text \<open>Writing the entry into the slot, which splits the record of an entry in use.\<close>

definition insert_entry :: "Metadata \<Rightarrow> nat \<times> nat \<times> nat \<times> nat \<Rightarrow> byte list \<Rightarrow> nat \<Rightarrow> nat \<Rightarrow> byte list \<Rightarrow> byte list option" where
  "insert_entry md slot name inode_number file_type block =
    (case slot of (offset, inode, record_len, used_len) \<Rightarrow>
     let entry_offset = (if inode = 0 then offset else offset + used_len);
         entry_len = (if inode = 0 then record_len else record_len - used_len)
     in put_all ((if inode = 0 then [] else [(offset + 4, le_bytes 2 used_len)])
        @ [(entry_offset, replicate entry_len 0), (entry_offset, le_bytes 4 inode_number),
           (entry_offset + 4, le_bytes 2 entry_len)]
        @ (if has_filetype md then [(entry_offset + 6, le_bytes 1 (length name)), (entry_offset + 7, le_bytes 1 file_type)]
           else [(entry_offset + 6, le_bytes 2 (length name))])
        @ [(entry_offset + 8, name)]) block)"

definition add_directory_entry :: "'s Blocks \<Rightarrow> Metadata \<Rightarrow> Inode \<Rightarrow> byte list \<Rightarrow> nat \<Rightarrow> nat \<Rightarrow> ('s, unit) io" where
  "add_directory_entry B md directory name inode_number file_type =
    (if \<not> is_directory directory then fail UnsupportedFeature
     else bind_io (lift (inode_block_count md directory)) (\<lambda>block_count.
     if block_count \<noteq> 1 then fail UnsupportedFeature
     else let block_number = ino_blocks directory ! 0
     in if block_number = 0 then fail InvalidFilesystem
        else bind_io (bl_read B md block_number zeroed_block) (\<lambda>block.
          bind_io (pure_io (find_slot md block (entry_length (length name)) 0)) (\<lambda>slot.
          bind_io (must (insert_entry md slot name inode_number file_type block)) (\<lambda>block'.
            bl_write B md block_number block')))))"

definition ensure_directory_entry_space :: "'s Blocks \<Rightarrow> Metadata \<Rightarrow> Inode \<Rightarrow> byte list \<Rightarrow> ('s, unit) io" where
  "ensure_directory_entry_space B md directory name =
    (if \<not> is_directory directory then fail UnsupportedFeature
     else bind_io (lift (inode_block_count md directory)) (\<lambda>block_count.
     if block_count \<noteq> 1 \<or> ino_blocks directory ! 0 = 0 then fail UnsupportedFeature
     else bind_io (bl_read B md (ino_blocks directory ! 0) zeroed_block) (\<lambda>block.
       bind_io (pure_io (find_slot md block (entry_length (length name)) 0)) (\<lambda>_. ret ()))))"

text \<open>Removing an entry: its record joins the one before it, or becomes unused if it is the first.\<close>

definition drop_entry :: "Metadata \<Rightarrow> byte list \<Rightarrow> nat \<Rightarrow> nat \<Rightarrow> nat option \<Rightarrow> (Ext2Error + byte list) option" where
  "drop_entry md block offset record_len previous = (case previous of
      Some previous_offset \<Rightarrow> Option.bind (le16 block (previous_offset + 4)) (\<lambda>previous_len.
        if previous_len + record_len \<le> em_block_size md \<and> previous_len + record_len < 2 ^ 16
        then map_option Inr (put_slice (previous_offset + 4) (le_bytes 2 (previous_len + record_len)) block)
        else Some (Inl InvalidFilesystem))
    | None \<Rightarrow> map_option Inr (put_all [(offset, replicate 4 0), (offset + 6, [0]), (offset + 7, [0]),
        (offset + 8, replicate (record_len - 8) 0)] block))"

function remove_in_block :: "Metadata \<Rightarrow> byte list \<Rightarrow> byte list \<Rightarrow> nat \<Rightarrow> nat option \<Rightarrow> (Ext2Error + byte list) option" where
  "remove_in_block md block name offset previous =
    (if offset + 8 \<le> em_block_size md
     then case dir_record md block (em_block_size md) offset of
         None \<Rightarrow> None
       | Some (Inl e) \<Rightarrow> Some (Inl e)
       | Some (Inr (inode, record_len, name_len)) \<Rightarrow> (case dirent_name block offset name_len of
           None \<Rightarrow> None
         | Some entry \<Rightarrow>
             if inode \<noteq> 0 \<and> entry = name then drop_entry md block offset record_len previous
             else remove_in_block md block name (offset + record_len) (Some offset))
     else Some (Inl NotFound))"
  by pat_completeness auto
termination
  by (relation "measure (\<lambda>(md, block, name, offset, previous). em_block_size md - offset)")
    (auto dest: dir_record_length)

declare remove_in_block.simps [simp del]

definition remove_directory_entry :: "'s Blocks \<Rightarrow> Metadata \<Rightarrow> Inode \<Rightarrow> byte list \<Rightarrow> ('s, unit) io" where
  "remove_directory_entry B md directory name =
    (if \<not> is_directory directory then fail UnsupportedFeature
     else bind_io (lift (inode_block_count md directory)) (\<lambda>block_count.
     if block_count \<noteq> 1 \<or> ino_blocks directory ! 0 = 0 then fail UnsupportedFeature
     else bind_io (bl_read B md (ino_blocks directory ! 0) zeroed_block) (\<lambda>block.
       bind_io (pure_io (remove_in_block md block name 0 None)) (\<lambda>block'.
         bl_write B md (ino_blocks directory ! 0) block'))))"

section \<open>Parents\<close>

definition writable_metadata :: "ext2_cell \<Rightarrow> Ext2Error + Metadata" where
  "writable_metadata cell = bind_res (ext2_metadata cell) (\<lambda>md.
    if em_block_size md \<noteq> 1024 \<or> em_group_count md \<noteq> 1 \<or> em_inode_size md \<noteq> 128
      \<or> em_blocks_per_group md < em_blocks_count md - em_first_data_block md
      \<or> em_inodes_per_group md < em_inodes_count md
    then Inl UnsupportedFeature else Inr md)"

definition split_path :: "byte list \<Rightarrow> byte list \<times> byte list" where
  "split_path path = (case rposition is_slash path of
      Some index \<Rightarrow> (take index path, drop (index + 1) path) | None \<Rightarrow> ([], path))"

definition resolve_parent :: "'s Blocks \<Rightarrow> ext2_cell \<Rightarrow> Metadata \<Rightarrow> byte list \<Rightarrow> ('s, nat \<times> Inode \<times> byte list) io" where
  "resolve_parent B cell md path =
    (case split_path path of (parent_path, name) \<Rightarrow>
     if \<not> ext2_safe_component name then fail InvalidPath
     else if \<exists>c \<in> set (split_on is_slash parent_path). c \<noteq> [] \<and> \<not> ext2_safe_component c then fail InvalidPath
     else bind_io (if parent_path = [] \<or> parent_path = ascii ''/'' then ret ROOT_INODE
         else bind_io (lookup B cell parent_path) (\<lambda>r.
           bind_io (lift (ok_or NotFound r)) (\<lambda>parent.
           if \<not> is_directory parent then fail InvalidPath
           else bind_io (find_inode_number B md parent_path) (\<lambda>n. lift (ok_or InvalidFilesystem n)))))
       (\<lambda>parent_number. bind_io (read_inode B md parent_number) (\<lambda>parent.
         if \<not> is_directory parent then fail InvalidPath else ret (parent_number, parent, name))))"

section \<open>Allocation tables and counters\<close>

text \<open>The numbers of the two bitmaps, the descriptor block and the two bitmaps.\<close>

definition read_allocation_tables :: "'s Blocks \<Rightarrow> Metadata
    \<Rightarrow> ('s, nat \<times> nat \<times> byte list \<times> byte list \<times> byte list) io" where
  "read_allocation_tables B md =
    bind_io (bl_read B md (em_first_data_block md + 1) zeroed_block) (\<lambda>descriptor.
    bind_io (u32_field descriptor 0) (\<lambda>block_bitmap_number.
    bind_io (u32_field descriptor 4) (\<lambda>inode_bitmap_number.
    if em_blocks_count md \<le> block_bitmap_number \<or> em_blocks_count md \<le> inode_bitmap_number
    then fail InvalidFilesystem
    else bind_io (bl_read B md block_bitmap_number zeroed_block) (\<lambda>block_bitmap.
      bind_io (bl_read B md inode_bitmap_number zeroed_block) (\<lambda>inode_bitmap.
        ret (block_bitmap_number, inode_bitmap_number, descriptor, block_bitmap, inode_bitmap))))))"

definition adjust :: "nat \<Rightarrow> nat \<Rightarrow> int \<Rightarrow> Ext2Error + nat" where
  "adjust w old delta = (let new = int old + delta
    in if 0 \<le> new \<and> new < 2 ^ w then Inr (nat new) else Inl InvalidFilesystem)"

definition update_free_counters :: "'s Blocks \<Rightarrow> Metadata \<Rightarrow> byte list \<Rightarrow> int \<Rightarrow> int \<Rightarrow> ('s, unit) io" where
  "update_free_counters B md descriptor blocks_delta inodes_delta =
    (if blocks_delta = 0 \<and> inodes_delta = 0 then ret ()
     else bind_io (u16_field descriptor 12) (\<lambda>db. bind_io (lift (adjust 16 db blocks_delta)) (\<lambda>descriptor_blocks.
       bind_io (u16_field descriptor 14) (\<lambda>di. bind_io (lift (adjust 16 di inodes_delta)) (\<lambda>descriptor_inodes.
       bind_io (bl_read B md (em_first_data_block md) zeroed_block) (\<lambda>superblock.
       bind_io (u32_field superblock 12) (\<lambda>sb. bind_io (lift (adjust 32 sb blocks_delta)) (\<lambda>super_blocks.
       bind_io (u32_field superblock 16) (\<lambda>si. bind_io (lift (adjust 32 si inodes_delta)) (\<lambda>super_inodes.
       bind_io (must (put_all [(12, le_bytes 2 descriptor_blocks), (14, le_bytes 2 descriptor_inodes)] descriptor))
         (\<lambda>descriptor'.
       bind_io (must (put_all [(12, le_bytes 4 super_blocks), (16, le_bytes 4 super_inodes)] superblock))
         (\<lambda>superblock'.
       bind_io (bl_write B md (em_first_data_block md + 1) descriptor') (\<lambda>_.
         bl_write B md (em_first_data_block md) superblock')))))))))))))"

text \<open>\<open>i32::try_from\<close> of a length.\<close>

definition to_i32 :: "nat \<Rightarrow> Ext2Error + int" where
  "to_i32 n = (if n < 2 ^ 31 then Inr (int n) else Inl InvalidFilesystem)"

definition clear_blocks :: "Metadata \<Rightarrow> nat list \<Rightarrow> byte list \<Rightarrow> ('s, byte list) io" where
  "clear_blocks md blocks bitmap =
    fold_io (\<lambda>block bitmap. pure_io (update_block_bitmap md bitmap block False)) blocks bitmap"

definition free_data_blocks :: "'s Blocks \<Rightarrow> Metadata \<Rightarrow> nat list \<Rightarrow> ('s, unit) io" where
  "free_data_blocks B md blocks =
    (if blocks = [] then ret ()
     else bind_io (read_allocation_tables B md) (\<lambda>(block_bitmap_number, _, descriptor, block_bitmap, _).
       bind_io (clear_blocks md blocks block_bitmap) (\<lambda>block_bitmap'.
       bind_io (bl_write B md block_bitmap_number block_bitmap') (\<lambda>_.
       bind_io (lift (to_i32 (length blocks))) (\<lambda>n. update_free_counters B md descriptor n 0)))))"

definition push_unique_block :: "nat list \<Rightarrow> nat \<Rightarrow> Ext2Error + nat list" where
  "push_unique_block blocks block = (if block \<in> set blocks then Inl InvalidFilesystem else Inr (blocks @ [block]))"

section \<open>The blocks of a file\<close>

definition collect_pointers :: "Metadata \<Rightarrow> byte list \<Rightarrow> nat list \<Rightarrow> ('s, nat list) io" where
  "collect_pointers md pointers blocks =
    fold_io (\<lambda>index blocks. bind_io (u32_field pointers (index * 4)) (\<lambda>block.
        if block = 0 then ret blocks
        else if em_blocks_count md \<le> block then fail InvalidFilesystem
        else lift (push_unique_block blocks block)))
      [0..<em_block_size md div 4] blocks"

definition collect_indirect :: "'s Blocks \<Rightarrow> Metadata \<Rightarrow> nat \<Rightarrow> nat list \<Rightarrow> ('s, nat list) io" where
  "collect_indirect B md indirect blocks =
    (if indirect = 0 then ret blocks
     else if em_blocks_count md \<le> indirect then fail InvalidFilesystem
     else bind_io (bl_read B md indirect zeroed_block) (\<lambda>pointers.
       bind_io (collect_pointers md pointers blocks) (\<lambda>blocks'.
         lift (push_unique_block blocks' indirect))))"

definition collect_double :: "'s Blocks \<Rightarrow> Metadata \<Rightarrow> nat \<Rightarrow> nat list \<Rightarrow> ('s, nat list) io" where
  "collect_double B md double blocks =
    (if double = 0 then ret blocks
     else if em_blocks_count md \<le> double then fail InvalidFilesystem
     else bind_io (bl_read B md double zeroed_block) (\<lambda>root.
       bind_io (fold_io (\<lambda>index blocks. bind_io (u32_field root (index * 4)) (\<lambda>indirect.
           collect_indirect B md indirect blocks)) [0..<em_block_size md div 4] blocks) (\<lambda>blocks'.
         lift (push_unique_block blocks' double))))"

definition collect_file_allocations :: "'v Driver \<Rightarrow> Metadata \<Rightarrow> Inode \<Rightarrow> ('v, nat list) io" where
  "collect_file_allocations D md inode =
    bind_io (lift (double_indirect_capacity md)) (\<lambda>capacity.
    if capacity * em_block_size md < ino_size inode then fail UnsupportedFeature
    else let pointer_capacity = em_block_size md div 4;
        allocation_capacity = DIRECT_BLOCKS
          + (if ino_single_indirect inode \<noteq> 0 then pointer_capacity + 1 else 0)
          + (if ino_double_indirect inode \<noteq> 0 then pointer_capacity * pointer_capacity + pointer_capacity + 1 else 0)
      in bind_io (reserve_io D allocation_capacity) (\<lambda>_.
        bind_io (fold_io (\<lambda>block blocks. if em_blocks_count md \<le> block then fail InvalidFilesystem
            else lift (push_unique_block blocks block)) (filter (\<lambda>block. block \<noteq> 0) (ino_blocks inode)) [])
          (\<lambda>direct.
        bind_io (collect_indirect (disk_blocks D) md (ino_single_indirect inode) direct) (\<lambda>single.
          collect_double (disk_blocks D) md (ino_double_indirect inode) single))))"

section \<open>Directories: create and remove\<close>

definition update_directory_link_count :: "'s Blocks \<Rightarrow> Metadata \<Rightarrow> nat \<Rightarrow> bool \<Rightarrow> ('s, unit) io" where
  "update_directory_link_count B md inode_number increase =
    bind_io (read_inode B md inode_number) (\<lambda>root.
    bind_io (lift (ok_or InvalidFilesystem (if increase
        then if ino_links root + 1 < 2 ^ 16 then Some (ino_links root + 1) else None
        else checked_sub (ino_links root) 1))) (\<lambda>links.
    if u32_limit \<le> ino_size root then fail UnsupportedFeature
    else write_inode_fields B md inode_number (ino_mode root) (ino_size root) links (ino_blocks root)
      (ino_single_indirect root) (ino_double_indirect root) (ino_allocated_blocks_512 root) False))"

definition new_directory_block :: "Metadata \<Rightarrow> nat \<Rightarrow> nat \<Rightarrow> byte list option" where
  "new_directory_block md inode_number parent_number = put_all (
    [(0, le_bytes 4 inode_number), (4, le_bytes 2 12)]
    @ (if has_filetype md then [(6, [1]), (7, [2])] else [(6, le_bytes 2 1)])
    @ [(8, ascii ''.''), (12, le_bytes 4 parent_number), (16, le_bytes 2 (em_block_size md - 12))]
    @ (if has_filetype md then [(18, [2]), (19, [2])] else [(18, le_bytes 2 2)])
    @ [(20, ascii ''..'')]) zeroed_block"

definition create_directory_in :: "'s Blocks \<Rightarrow> Metadata \<Rightarrow> nat \<Rightarrow> Inode \<Rightarrow> byte list \<Rightarrow> ('s, unit) io" where
  "create_directory_in B md parent_number parent name =
    bind_io (ensure_directory_entry_space B md parent name) (\<lambda>_.
    bind_io (read_allocation_tables B md)
      (\<lambda>(block_bitmap_number, inode_bitmap_number, descriptor, block_bitmap, inode_bitmap).
    bind_io (free_inode_in md inode_bitmap) (\<lambda>inode_number.
    bind_io (free_block_in md block_bitmap) (\<lambda>data_block.
    bind_io (pure_io (update_inode_bitmap inode_bitmap inode_number True)) (\<lambda>inode_bitmap'.
    bind_io (pure_io (update_block_bitmap md block_bitmap data_block True)) (\<lambda>block_bitmap'.
    bind_io (must (new_directory_block md inode_number parent_number)) (\<lambda>directory.
    bind_io (bl_write B md data_block directory) (\<lambda>_.
    bind_io (write_inode_fields B md inode_number 0x41ed (em_block_size md) 2
      (data_block # replicate (DIRECT_BLOCKS - 1) 0) 0 0 (em_block_size md div 512) True) (\<lambda>_.
    bind_io (bl_write B md block_bitmap_number block_bitmap') (\<lambda>_.
    bind_io (bl_write B md inode_bitmap_number inode_bitmap') (\<lambda>_.
    bind_io (update_free_counters B md descriptor (- 1) (- 1)) (\<lambda>_.
    bind_io (update_directory_link_count B md parent_number True) (\<lambda>_.
      add_directory_entry B md parent name inode_number 2)))))))))))))"

definition create_directory :: "'s Blocks \<Rightarrow> ext2_cell \<Rightarrow> byte list \<Rightarrow> ('s, unit) io" where
  "create_directory B cell path =
    bind_io (lift (writable_metadata cell)) (\<lambda>md.
    bind_io (resolve_parent B cell md path) (\<lambda>(parent_number, parent, name).
    bind_io (find_child B md parent name) (\<lambda>found.
      if found \<noteq> None then fail AlreadyExists else create_directory_in B md parent_number parent name)))"

definition remove_root_entry_allocations :: "'s Blocks \<Rightarrow> Metadata \<Rightarrow> nat \<Rightarrow> Inode \<Rightarrow> byte list \<Rightarrow> nat \<Rightarrow> Inode
    \<Rightarrow> nat list \<Rightarrow> ('s, unit) io" where
  "remove_root_entry_allocations B md parent_number parent name inode_number inode data_blocks =
    (if ino_links inode \<noteq> (if is_directory inode then 2 else 1) then fail UnsupportedFeature
     else bind_io (read_allocation_tables B md)
       (\<lambda>(block_bitmap_number, inode_bitmap_number, descriptor, block_bitmap, inode_bitmap).
     bind_io (pure_io (update_inode_bitmap inode_bitmap inode_number False)) (\<lambda>inode_bitmap'.
     bind_io (clear_blocks md data_blocks block_bitmap) (\<lambda>block_bitmap'.
     bind_io (remove_directory_entry B md parent name) (\<lambda>_.
     bind_io (bl_write B md block_bitmap_number block_bitmap') (\<lambda>_.
     bind_io (bl_write B md inode_bitmap_number inode_bitmap') (\<lambda>_.
     bind_io (lift (to_i32 (length data_blocks))) (\<lambda>n.
     bind_io (update_free_counters B md descriptor n 1) (\<lambda>_.
     bind_io (write_inode_fields B md inode_number 0 0 0 (replicate DIRECT_BLOCKS 0) 0 0 0 True) (\<lambda>_.
       if is_directory inode then update_directory_link_count B md parent_number False else ret ()))))))))))"

definition remove_file :: "'v Driver \<Rightarrow> ext2_cell \<Rightarrow> byte list \<Rightarrow> ('v, unit) io" where
  "remove_file D cell path =
    bind_io (lift (writable_metadata cell)) (\<lambda>md.
    bind_io (resolve_parent (disk_blocks D) cell md path) (\<lambda>(parent_number, parent, name).
    bind_io (find_child (disk_blocks D) md parent name) (\<lambda>found.
    bind_io (lift (ok_or NotFound found)) (\<lambda>inode_number.
    bind_io (read_inode (disk_blocks D) md inode_number) (\<lambda>inode.
    if \<not> is_regular inode then fail InvalidPath
    else bind_io (lift (double_indirect_capacity md)) (\<lambda>capacity.
      if capacity * em_block_size md < ino_size inode then fail UnsupportedFeature
      else bind_io (collect_file_allocations D md inode) (\<lambda>blocks.
        remove_root_entry_allocations (disk_blocks D) md parent_number parent name inode_number inode blocks)))))))"

definition remove_empty_directory :: "'s Blocks \<Rightarrow> ext2_cell \<Rightarrow> byte list \<Rightarrow> ('s, unit) io" where
  "remove_empty_directory B cell path =
    bind_io (lift (writable_metadata cell)) (\<lambda>md.
    bind_io (resolve_parent B cell md path) (\<lambda>(parent_number, parent, name).
    bind_io (find_child B md parent name) (\<lambda>found.
    bind_io (lift (ok_or NotFound found)) (\<lambda>inode_number.
    bind_io (read_inode B md inode_number) (\<lambda>inode.
    if \<not> is_directory inode then fail InvalidPath
    else bind_io (\<lambda>s. map_option (\<lambda>(r, entries, s'). (map_sum id (\<lambda>_. entries) r, s'))
        (for_each_child B cell inode ([], s))) (\<lambda>entries.
      if entries \<noteq> [] then fail NotEmpty
      else if ino_size inode \<noteq> em_block_size md \<or> ino_single_indirect inode \<noteq> 0
          \<or> ino_double_indirect inode \<noteq> 0 \<or> ino_blocks inode ! 0 = 0
          \<or> (\<exists>block \<in> set (drop 1 (ino_blocks inode)). block \<noteq> 0)
        then fail UnsupportedFeature
      else remove_root_entry_allocations B md parent_number parent name inode_number inode
        [ino_blocks inode ! 0]))))))"

section \<open>Writing a file\<close>

primrec allocate_blocks :: "Metadata \<Rightarrow> nat \<Rightarrow> byte list \<Rightarrow> ('s, nat list \<times> byte list) io" where
  "allocate_blocks md 0 bitmap = ret ([], bitmap)"
| "allocate_blocks md (Suc n) bitmap = bind_io (allocate_data_block md bitmap) (\<lambda>(block, bitmap').
    bind_io (allocate_blocks md n bitmap') (\<lambda>(blocks, bitmap''). ret (block # blocks, bitmap'')))"

definition ceil_blocks :: "nat \<Rightarrow> nat \<Rightarrow> nat" where
  "ceil_blocks a b = a div b + (if a mod b \<noteq> 0 then 1 else 0)"

text \<open>Chunks of a block each; the block size of a writable file system is 1024.\<close>

function block_chunks :: "nat \<Rightarrow> byte list \<Rightarrow> byte list list" where
  "block_chunks n contents = (if contents = [] \<or> n = 0 then []
    else take n contents # block_chunks n (drop n contents))"
  by pat_completeness auto
termination by (relation "measure (length \<circ> snd)") auto

declare block_chunks.simps [simp del]

definition pointer_or_zero :: "nat list \<Rightarrow> nat \<Rightarrow> nat" where
  "pointer_or_zero blocks i = (if i < length blocks then blocks ! i else 0)"

definition pointer_block :: "nat list \<Rightarrow> byte list option" where
  "pointer_block pointers = put_slice 0 (concat (map (le_bytes 4) pointers)) zeroed_block"

text \<open>The blocks chosen for a file.\<close>

record FileLayout =
  ly_data :: "nat list"
  ly_single :: nat
  ly_double :: nat
  ly_leaves :: "nat list"

definition ly_blocks :: "FileLayout \<Rightarrow> nat list" where
  "ly_blocks l = (if ly_single l = 0 then [] else [ly_single l]) @ (if ly_leaves l = [] then [] else [ly_double l])
    @ ly_leaves l @ ly_data l"

definition plan_layout :: "'v Driver \<Rightarrow> Metadata \<Rightarrow> nat \<Rightarrow> nat \<Rightarrow> byte list \<Rightarrow> ('v, FileLayout \<times> byte list) io" where
  "plan_layout D md required_blocks single_capacity bitmap =
    bind_io (reserve_io D required_blocks) (\<lambda>_.
    let required_double_leaves = ceil_blocks (required_blocks - single_capacity) (em_block_size md div 4)
    in bind_io (reserve_io D required_double_leaves) (\<lambda>_.
    bind_io (if DIRECT_BLOCKS < required_blocks then allocate_data_block md bitmap else ret (0, bitmap)) (\<lambda>(single, b1).
    bind_io (if required_double_leaves \<noteq> 0 then allocate_data_block md b1 else ret (0, b1)) (\<lambda>(double, b2).
    bind_io (allocate_blocks md required_double_leaves b2) (\<lambda>(leaves, b3).
    bind_io (allocate_blocks md required_blocks b3) (\<lambda>(data, b4).
      ret (\<lparr>ly_data = data, ly_single = single, ly_double = double, ly_leaves = leaves\<rparr>, b4)))))))"

definition write_contents :: "'s Blocks \<Rightarrow> Metadata \<Rightarrow> nat \<Rightarrow> FileLayout \<Rightarrow> byte list \<Rightarrow> ('s, unit) io" where
  "write_contents B md single_capacity l contents =
    (let pointer_capacity = em_block_size md div 4
     in bind_io (each_io (\<lambda>(index, chunk).
          bind_io (must (put_slice 0 chunk zeroed_block)) (\<lambda>data.
          bind_io (must (if index < length (ly_data l) then Some (ly_data l ! index) else None)) (\<lambda>block.
            bl_write B md block data))) (enumerate 0 (block_chunks (em_block_size md) contents))) (\<lambda>_.
     bind_io (if ly_single l \<noteq> 0
       then bind_io (must (pointer_block (map (\<lambda>i. pointer_or_zero (ly_data l) (DIRECT_BLOCKS + i)) [0..<pointer_capacity])))
         (\<lambda>pointers. bl_write B md (ly_single l) pointers)
       else ret ()) (\<lambda>_.
     if ly_leaves l \<noteq> []
     then bind_io (must (pointer_block (ly_leaves l))) (\<lambda>root.
       bind_io (each_io (\<lambda>(outer_index, leaf).
           bind_io (must (pointer_block (map (\<lambda>inner_index. pointer_or_zero (ly_data l)
               (single_capacity + outer_index * pointer_capacity + inner_index)) [0..<pointer_capacity])))
             (\<lambda>pointers. bl_write B md leaf pointers)) (enumerate 0 (ly_leaves l))) (\<lambda>_.
         bl_write B md (ly_double l) root))
     else ret ())))"

definition direct_blocks :: "FileLayout \<Rightarrow> nat list" where
  "direct_blocks l = map (pointer_or_zero (ly_data l)) [0..<DIRECT_BLOCKS]"

text \<open>What the transaction of \<open>write_file\<close> writes.\<close>

record Commit =
  cm_tables :: "nat \<times> nat \<times> byte list \<times> byte list \<times> byte list"
  cm_inode :: nat
  cm_new :: bool
  cm_parent :: Inode
  cm_name :: "byte list"
  cm_size :: nat
  cm_layout :: FileLayout
  cm_count :: nat
  cm_sectors :: nat

definition commit_file :: "'s Blocks \<Rightarrow> Metadata \<Rightarrow> Commit \<Rightarrow> ('s, unit) io" where
  "commit_file B md c = (case cm_tables c of
      (block_bitmap_number, inode_bitmap_number, descriptor, block_bitmap, inode_bitmap) \<Rightarrow>
    bind_io (if cm_count c \<noteq> 0 then bl_write B md block_bitmap_number block_bitmap else ret ()) (\<lambda>_.
    bind_io (if cm_new c
      then bind_io (must (bitmap_bit inode_bitmap (cm_inode c - 1))) (\<lambda>_.
        bl_write B md inode_bitmap_number (put_bit inode_bitmap (cm_inode c - 1) True))
      else ret ()) (\<lambda>_.
    bind_io (update_free_counters B md descriptor (- int (cm_count c)) (if cm_new c then - 1 else 0)) (\<lambda>_.
    bind_io (write_inode_fields B md (cm_inode c) 0x81a4 (cm_size c) 1 (direct_blocks (cm_layout c))
      (ly_single (cm_layout c)) (ly_double (cm_layout c)) (cm_sectors c) (cm_new c)) (\<lambda>_.
      if cm_new c then add_directory_entry B md (cm_parent c) (cm_name c) (cm_inode c) 1 else ret ())))))"

text \<open>The commit with its rollback, and the release of the old blocks with both rollbacks.\<close>

definition run_commit :: "'v Driver \<Rightarrow> Metadata \<Rightarrow> Commit \<Rightarrow> nat list \<Rightarrow> ('v, unit) io" where
  "run_commit D md c old_blocks = (\<lambda>v. case commit_file (tx_blocks D) md c ([], v) of
      None \<Rightarrow> None
    | Some (Inl e, undo, v1) \<Rightarrow> bind_io (BlockTransaction_rollback D md undo) (\<lambda>_. fail e) v1
    | Some (Inr _, undo, v1) \<Rightarrow> (case free_data_blocks (tx_blocks D) md old_blocks ([], v1) of
        None \<Rightarrow> None
      | Some (Inr _, _, v2) \<Rightarrow> Some (Inr (), v2)
      | Some (Inl e, cleanup, v2) \<Rightarrow> (case BlockTransaction_rollback D md cleanup v2 of
          None \<Rightarrow> None
        | Some (r1, v3) \<Rightarrow> (case BlockTransaction_rollback D md undo v3 of
            None \<Rightarrow> None
          | Some (r2, v4) \<Rightarrow> Some (if isl r1 \<or> isl r2 then Inl RecoveryFailed else Inl e, v4)))))"

definition find_target :: "'s Blocks \<Rightarrow> Metadata \<Rightarrow> Inode \<Rightarrow> byte list \<Rightarrow> nat \<Rightarrow> ('s, (nat \<times> Inode) option) io" where
  "find_target B md parent name max_file_size =
    bind_io (find_child B md parent name) (\<lambda>found. case found of
      Some inode_number \<Rightarrow> bind_io (read_inode B md inode_number) (\<lambda>inode.
        if \<not> is_regular inode then fail InvalidPath
        else if max_file_size < ino_size inode then fail UnsupportedFeature
        else ret (Some (inode_number, inode)))
    | None \<Rightarrow> ret None)"

definition write_file :: "'v Driver \<Rightarrow> ext2_cell \<Rightarrow> byte list \<Rightarrow> byte list \<Rightarrow> ('v, unit) io" where
  "write_file D cell path contents =
    bind_io (lift (writable_metadata cell)) (\<lambda>md.
    bind_io (resolve_parent (disk_blocks D) cell md path) (\<lambda>(_, parent, name).
    bind_io (lift (single_indirect_capacity md)) (\<lambda>single_capacity.
    bind_io (lift (bind_res (double_indirect_capacity md)
      (\<lambda>n. ok_or UnsupportedFeature (checked_mul (em_block_size md) n)))) (\<lambda>max_file_size.
    if max_file_size < length contents \<or> u32_limit \<le> length contents then fail UnsupportedFeature
    else bind_io (find_target (disk_blocks D) md parent name max_file_size) (\<lambda>target.
    bind_io (if target = None then ensure_directory_entry_space (disk_blocks D) md parent name else ret ()) (\<lambda>_.
    bind_io (case target of Some (_, inode) \<Rightarrow> collect_file_allocations D md inode | None \<Rightarrow> ret []) (\<lambda>old_blocks.
    bind_io (read_allocation_tables (disk_blocks D) md)
      (\<lambda>(block_bitmap_number, inode_bitmap_number, descriptor, block_bitmap, inode_bitmap).
    bind_io (case target of None \<Rightarrow> free_inode_in md inode_bitmap | Some (n, _) \<Rightarrow> ret n) (\<lambda>allocated_inode.
    bind_io (plan_layout D md (ceil_blocks (length contents) (em_block_size md)) single_capacity block_bitmap)
      (\<lambda>(l, block_bitmap').
    let allocated_blocks = length (ly_data l) + (if DIRECT_BLOCKS < length (ly_data l) then 1 else 0)
          + (if ly_leaves l \<noteq> [] then 1 else 0) + length (ly_leaves l)
    in bind_io (lift (to_i32 allocated_blocks)) (\<lambda>_.
    bind_io (write_contents (disk_blocks D) md single_capacity l contents) (\<lambda>_.
    bind_io (lift (ok_or InvalidFilesystem (checked_mul32 allocated_blocks (em_block_size md div 512))))
      (\<lambda>allocated_blocks_512.
      run_commit D md \<lparr>cm_tables = (block_bitmap_number, inode_bitmap_number, descriptor, block_bitmap', inode_bitmap),
        cm_inode = allocated_inode, cm_new = (target = None), cm_parent = parent, cm_name = name,
        cm_size = length contents, cm_layout = l, cm_count = allocated_blocks,
        cm_sectors = allocated_blocks_512\<rparr> old_blocks)))))))))))))"

end
