(* ===== verification/Ext2_Safety.thy ===== *)
theory Ext2_Safety
  imports Ext2_Write
begin

text \<open>
  No operation of the file system panics, whatever the disk holds: every index into a buffer, an
  inode or a bitmap is in range. The proofs follow the structure of the operations; \<open>yields Q m\<close> says
  that \<open>m\<close> returns from every state, and that a value it returns satisfies \<open>Q\<close>. The locale \<open>total_blocks\<close>
  is what the operations need of block access, and is met by direct access and by transactions.
\<close>

section \<open>Computations that return\<close>

definition yields :: "('a \<Rightarrow> bool) \<Rightarrow> ('s, 'a) io \<Rightarrow> bool" where
  "yields Q m \<longleftrightarrow> (\<forall>s. \<exists>r s'. m s = Some (r, s') \<and> (\<forall>a. r = Inr a \<longrightarrow> Q a))"

named_theorems yields_rules

lemma yields_ret [yields_rules]: "Q a \<Longrightarrow> yields Q (ret a)"
  by (simp add: yields_def ret_def)

lemma yields_fail [yields_rules]: "yields Q (fail e)"
  by (simp add: yields_def fail_def)

lemma yields_lift [yields_rules]: "(\<And>a. r = Inr a \<Longrightarrow> Q a) \<Longrightarrow> yields Q (lift r)"
  by (simp add: yields_def lift_def)

lemma yields_must: "x = Some a \<Longrightarrow> Q a \<Longrightarrow> yields Q (must x)"
  by (simp add: yields_def must_def)

lemma yields_pure: "x = Some r \<Longrightarrow> (\<And>a. r = Inr a \<Longrightarrow> Q a) \<Longrightarrow> yields Q (pure_io x)"
  by (simp add: yields_def pure_io_def)

lemma yields_bind: "yields P m \<Longrightarrow> (\<And>a. P a \<Longrightarrow> yields Q (f a)) \<Longrightarrow> yields Q (bind_io m f)"
  unfolding yields_def bind_io_def
proof (rule allI)
  fix s
  assume m: "\<forall>s. \<exists>r s'. m s = Some (r, s') \<and> (\<forall>a. r = Inr a \<longrightarrow> P a)"
    and f: "\<And>a. P a \<Longrightarrow> \<forall>s. \<exists>r s'. f a s = Some (r, s') \<and> (\<forall>b. r = Inr b \<longrightarrow> Q b)"
  obtain r s1 where r: "m s = Some (r, s1)" "\<forall>a. r = Inr a \<longrightarrow> P a" using m by blast
  show "\<exists>r s'. (case m s of None \<Rightarrow> None | Some (Inl e, s') \<Rightarrow> Some (Inl e, s') | Some (Inr a, s') \<Rightarrow> f a s')
      = Some (r, s') \<and> (\<forall>b. r = Inr b \<longrightarrow> Q b)"
  proof (cases r)
    case (Inl e) then show ?thesis using r by simp
  next
    case (Inr a) then show ?thesis using r f [of a] by simp
  qed
qed

lemma yields_bind2: "yields (\<lambda>(a, b). P a b) m \<Longrightarrow> (\<And>a b. P a b \<Longrightarrow> yields Q (f a b)) \<Longrightarrow>
    yields Q (bind_io m (\<lambda>(a, b). f a b))"
  by (erule yields_bind) auto

lemma yields_bind3: "yields (\<lambda>(a, b, c). P a b c) m \<Longrightarrow> (\<And>a b c. P a b c \<Longrightarrow> yields Q (f a b c)) \<Longrightarrow>
    yields Q (bind_io m (\<lambda>(a, b, c). f a b c))"
  by (erule yields_bind) auto

lemma yields_bind5: "yields (\<lambda>(a, b, c, d, e). P a b c d e) m \<Longrightarrow>
    (\<And>a b c d e. P a b c d e \<Longrightarrow> yields Q (f a b c d e)) \<Longrightarrow>
    yields Q (bind_io m (\<lambda>(a, b, c, d, e). f a b c d e))"
  by (erule yields_bind) auto

lemma yields_weaken: "yields P m \<Longrightarrow> (\<And>a. P a \<Longrightarrow> Q a) \<Longrightarrow> yields Q m"
  unfolding yields_def by blast

lemma yields_on_disk [yields_rules]:
  fixes m :: "('v, 'a) io"
  assumes "yields Q m"
  shows "yields Q (on_disk m :: ('u \<times> 'v, 'a) io)"
  unfolding yields_def
proof
  fix s :: "'u \<times> 'v"
  obtain r v where "m (snd s) = Some (r, v)" "\<forall>a. r = Inr a \<longrightarrow> Q a"
    using assms unfolding yields_def by blast
  then show "\<exists>r s'. on_disk m s = Some (r, s') \<and> (\<forall>a. r = Inr a \<longrightarrow> Q a)"
    by (cases s) (simp add: on_disk_def)
qed

lemma yields_if [yields_rules]: "(b \<Longrightarrow> yields Q m) \<Longrightarrow> (\<not> b \<Longrightarrow> yields Q m') \<Longrightarrow> yields Q (if b then m else m')"
  by simp

lemma yields_returns: "yields Q m \<Longrightarrow> m s \<noteq> None"
  unfolding yields_def by (metis option.discI)

lemma yields_each: "(\<And>x. x \<in> set xs \<Longrightarrow> yields (\<lambda>_. True) (f x)) \<Longrightarrow> yields (\<lambda>_. True) (each_io f xs)"
  by (induction xs) (auto intro: yields_ret yields_bind)

lemma yields_fold:
  "(\<And>x b. x \<in> set xs \<Longrightarrow> Q b \<Longrightarrow> yields Q (f x b)) \<Longrightarrow> Q b \<Longrightarrow> yields Q (fold_io f xs b)"
  by (induction xs arbitrary: b) (auto intro: yields_ret yields_bind)

section \<open>Fields in range\<close>

lemma get_range_Some: "a \<le> b \<Longrightarrow> b \<le> length xs \<Longrightarrow> \<exists>ys. get_range xs a b = Some ys \<and> length ys = b - a"
  by (simp add: get_range_def)

lemma le16_Some: "offset + 2 \<le> length bytes \<Longrightarrow> \<exists>v. le16 bytes offset = Some v \<and> v < 2 ^ 16"
proof -
  assume "offset + 2 \<le> length bytes"
  then obtain ys where "get_range bytes offset (offset + 2) = Some ys" "length ys = 2"
    using get_range_Some [of offset "offset + 2" bytes] by auto
  then show ?thesis using le_nat_less [of ys] by (simp add: le16_def)
qed

lemma le32_Some: "offset + 4 \<le> length bytes \<Longrightarrow> \<exists>v. le32 bytes offset = Some v \<and> v < 2 ^ 32"
proof -
  assume "offset + 4 \<le> length bytes"
  then obtain ys where "get_range bytes offset (offset + 4) = Some ys" "length ys = 4"
    using get_range_Some [of offset "offset + 4" bytes] by auto
  then show ?thesis using le_nat_less [of ys] by (simp add: le32_def)
qed

lemma yields_u32: "offset + 4 \<le> length bytes \<Longrightarrow> yields (\<lambda>v. v < 2 ^ 32) (u32_field bytes offset)"
  using le32_Some [of offset bytes] unfolding u32_field_def by (auto intro: yields_must)

lemma yields_u16: "offset + 2 \<le> length bytes \<Longrightarrow> yields (\<lambda>v. v < 2 ^ 16) (u16_field bytes offset)"
  using le16_Some [of offset bytes] unfolding u16_field_def by (auto intro: yields_must)

lemma put_slice_Some: "a + length source \<le> length xs \<Longrightarrow> \<exists>ys. put_slice a source xs = Some ys \<and> length ys = length xs"
  by (simp add: put_slice_def)

lemma put_all_Some:
  "\<forall>e \<in> set es. fst e + length (snd e) \<le> length xs \<Longrightarrow> \<exists>ys. put_all es xs = Some ys \<and> length ys = length xs"
proof (induction es arbitrary: xs)
  case (Cons e es)
  then obtain ys where "put_slice (fst e) (snd e) xs = Some ys" "length ys = length xs"
    using put_slice_Some [of "fst e" "snd e" xs] by auto
  then show ?case using Cons.prems Cons.IH [of ys] by simp
qed simp

lemma yields_put_all:
  "\<forall>e \<in> set es. fst e + length (snd e) \<le> length xs \<Longrightarrow> yields (\<lambda>ys. length ys = length xs) (must (put_all es xs))"
  using put_all_Some [of es xs] by (auto intro: yields_must)

lemma yields_put_slice:
  "a + length source \<le> length xs \<Longrightarrow> yields (\<lambda>ys. length ys = length xs) (must (put_slice a source xs))"
  using put_slice_Some [of a source xs] by (auto intro: yields_must)

section \<open>Directory records\<close>

lemma dir_record_Some:
  assumes "offset + 8 \<le> length block"
  shows "\<exists>r. dir_record md block limit offset = Some r"
proof -
  obtain a where a: "le32 block offset = Some a" using le32_Some [of offset block] assms by auto
  obtain b where b: "le16 block (offset + 4) = Some b" using le16_Some [of "offset + 4" block] assms by auto
  obtain c where c: "le16 block (offset + 6) = Some c" using le16_Some [of "offset + 6" block] assms by auto
  obtain d where d: "get_range block (offset + 6) (offset + 7) = Some d"
    using get_range_Some [of "offset + 6" "offset + 7" block] assms by auto
  show ?thesis by (simp add: dir_record_def a b c d)
qed

lemma dirent_name_Some:
  assumes "dir_record md block limit offset = Some (Inr (inode, record_len, name_len))" "limit \<le> length block"
  shows "\<exists>name. dirent_name block offset name_len = Some name \<and> length name = name_len"
proof -
  have "offset + 8 + name_len \<le> length block" using dir_record_length [OF assms(1)] assms(2) by linarith
  then show ?thesis
    using get_range_Some [of "offset + 8" "offset + 8 + name_len" block] by (simp add: dirent_name_def)
qed

text \<open>The outcomes of one record, for the loops over a directory block.\<close>

lemma record_cases:
  assumes "offset + 8 \<le> limit" "limit \<le> length block"
  obtains (error) e where "dir_record md block limit offset = Some (Inl e)"
  | (entry) inode record_len name_len name where
      "dir_record md block limit offset = Some (Inr (inode, record_len, name_len))"
      "dirent_name block offset name_len = Some name" "length name = name_len"
proof -
  obtain r where r: "dir_record md block limit offset = Some r" using dir_record_Some assms by fastforce
  show thesis
  proof (cases r)
    case (Inl e) then show ?thesis using error r by simp
  next
    case (Inr x)
    then show ?thesis using entry r dirent_name_Some assms(2) by (cases x) blast
  qed
qed

lemma find_in_block_Some: "limit \<le> length block \<Longrightarrow> \<exists>r. find_in_block md block limit child offset = Some r"
proof (induction md block limit child offset rule: find_in_block.induct)
  case (1 md block limit child offset)
  show ?case
  proof (cases "offset + 8 \<le> limit")
    case True
    from True 1(2) show ?thesis
    proof (cases rule: record_cases [of _ _ _ md])
      case (error e)
      then show ?thesis using True by (simp add: find_in_block.simps [of md block limit child offset])
    next
      case (entry inode l n name)
      note IH = 1(1) [OF True entry(1) refl refl refl entry(2) _ _ 1(2)]
      show ?thesis using IH entry True by (simp add: find_in_block.simps [of md block limit child offset])
    qed
  qed (simp add: find_in_block.simps)
qed

section \<open>Bitmaps and directory edits\<close>

lemma bitmap_bit_Some: "i < 8 * length bitmap \<Longrightarrow> \<exists>b. bitmap_bit bitmap i = Some b"
  by (simp add: bitmap_bit_def less_mult_imp_div_less mult.commute)

lemma find_free_from_Some: "index + n \<le> 8 * length bitmap \<Longrightarrow> \<exists>r. find_free_from bitmap index n = Some r
    \<and> (\<forall>i. r = Some i \<longrightarrow> index \<le> i \<and> i < index + n)"
proof (induction n arbitrary: index)
  case (Suc n)
  obtain b where "bitmap_bit bitmap index = Some b" using bitmap_bit_Some Suc.prems by fastforce
  then show ?case using Suc.IH [of "index + 1"] Suc.prems by (cases b) auto
qed simp

lemma change_bit_Some: "i < 8 * length bitmap \<Longrightarrow> \<exists>r. change_bit bitmap i allocated = Some r
    \<and> (\<forall>b. r = Inr b \<longrightarrow> length b = length bitmap)"
  using bitmap_bit_Some [of i bitmap] by (auto simp: change_bit_def put_bit_def)

lemma find_slot_Some:
  assumes "em_block_size md \<le> length block"
  shows "\<exists>r. find_slot md block required offset = Some r \<and> (\<forall>p i l u. r = Inr (p, i, l, u) \<longrightarrow>
    p + l \<le> em_block_size md \<and> (i \<noteq> 0 \<longrightarrow> 8 \<le> u \<and> required \<le> l - u) \<and> (i = 0 \<longrightarrow> required \<le> l))"
proof (induction "em_block_size md - offset" arbitrary: offset rule: less_induct)
  case less
  show ?case
  proof (cases "offset + 8 \<le> em_block_size md")
    case True
    from True assms show ?thesis
    proof (cases rule: record_cases [of _ _ _ md])
      case (error e)
      then show ?thesis using True by (simp add: find_slot.simps)
    next
      case (entry inode l n name)
      have l: "8 \<le> l" "offset + l \<le> em_block_size md" using dir_record_length [OF entry(1)] by simp_all
      have u: "8 \<le> entry_length n" by (simp add: entry_length_def)
      have IH: "\<exists>r. find_slot md block required (offset + l) = Some r \<and> (\<forall>p i l u. r = Inr (p, i, l, u) \<longrightarrow>
          p + l \<le> em_block_size md \<and> (i \<noteq> 0 \<longrightarrow> 8 \<le> u \<and> required \<le> l - u) \<and> (i = 0 \<longrightarrow> required \<le> l))"
        using l True by (intro less) linarith
      show ?thesis
        using IH l u entry True by (subst (1) find_slot.simps) (simp add: Let_def)
    qed
  qed (simp add: find_slot.simps)
qed

lemma insert_entry_Some:
  assumes "p + l \<le> length block" "i \<noteq> 0 \<longrightarrow> 8 \<le> u \<and> entry_length (length name) \<le> l - u"
    "i = 0 \<longrightarrow> entry_length (length name) \<le> l"
  shows "\<exists>b. insert_entry md (p, i, l, u) name inode ty block = Some b \<and> length b = length block"
proof -
  have "8 + length name \<le> entry_length (length name)" by (simp add: entry_length_def)
  then show ?thesis
    unfolding insert_entry_def prod.case Let_def using assms by (intro put_all_Some) auto
qed

lemma drop_entry_Some:
  assumes "offset + l \<le> length block" "8 \<le> l" "\<forall>p. previous = Some p \<longrightarrow> p + 6 \<le> length block"
  shows "\<exists>r. drop_entry md block offset l previous = Some r"
proof (cases previous)
  case None
  have "\<exists>ys. put_all [(offset, replicate 4 0), (offset + 6, [0]), (offset + 7, [0]),
      (offset + 8, replicate (l - 8) 0)] block = Some ys \<and> length ys = length block"
    using assms by (intro put_all_Some) auto
  then show ?thesis using None by (auto simp: drop_entry_def)
next
  case (Some q)
  then obtain v where v: "le16 block (q + 4) = Some v" using le16_Some [of "q + 4" block] assms(3) by auto
  obtain b where "put_slice (q + 4) (le_bytes 2 (v + l)) block = Some b"
    using put_slice_Some [of "q + 4" "le_bytes 2 (v + l)" block] assms(3) Some by auto
  then show ?thesis using Some v by (simp add: drop_entry_def)
qed

lemma remove_in_block_Some:
  assumes "em_block_size md \<le> length block" "\<forall>p. previous = Some p \<longrightarrow> p + 6 \<le> length block"
  shows "\<exists>r. remove_in_block md block name offset previous = Some r"
  using assms(2)
proof (induction "em_block_size md - offset" arbitrary: offset previous rule: less_induct)
  case less
  show ?case
  proof (cases "offset + 8 \<le> em_block_size md")
    case True
    from True assms(1) show ?thesis
    proof (cases rule: record_cases [of _ _ _ md])
      case (error e)
      then show ?thesis using True by (simp add: remove_in_block.simps)
    next
      case (entry inode l n name')
      have l: "8 \<le> l" "offset + l \<le> em_block_size md" using dir_record_length [OF entry(1)] by simp_all
      have "\<exists>r. remove_in_block md block name (offset + l) (Some offset) = Some r"
        using l True assms(1) by (intro less) auto
      moreover have "\<exists>r. drop_entry md block offset l previous = Some r"
        using drop_entry_Some less.prems l assms(1) by auto
      ultimately show ?thesis
        using entry True by (subst remove_in_block.simps) simp
    qed
  qed (simp add: remove_in_block.simps)
qed

section \<open>What mounting establishes\<close>

definition metadata_ok :: "Metadata \<Rightarrow> bool" where
  "metadata_ok md \<longleftrightarrow> em_block_size md \<in> {1024, 2048, 4096}
    \<and> 128 \<le> em_inode_size md \<and> em_inode_size md dvd em_block_size md
    \<and> 0 < em_inodes_per_group md \<and> 0 < em_blocks_per_group md
    \<and> em_first_data_block md < em_blocks_count md \<and> em_blocks_count md < 2 ^ 32
    \<and> em_inodes_per_group md \<le> em_block_size md * 8 \<and> em_blocks_per_group md \<le> em_block_size md * 8
    \<and> (em_block_size md = 1024 \<longrightarrow> em_first_data_block md = 1)"

text \<open>What \<open>writable_metadata\<close> adds.\<close>

definition writable_ok :: "Metadata \<Rightarrow> bool" where
  "writable_ok md \<longleftrightarrow> metadata_ok md \<and> em_block_size md = 1024 \<and> em_inode_size md = 128 \<and> em_group_count md = 1
    \<and> em_blocks_count md - em_first_data_block md \<le> 8192 \<and> em_inodes_count md \<le> 8192"

definition cell_ok :: "ext2_cell \<Rightarrow> bool" where
  "cell_ok cell \<longleftrightarrow> (\<forall>md. cell = Some (Inr md) \<longrightarrow> metadata_ok md)"

lemma metadata_yields: "cell_ok cell \<Longrightarrow> yields metadata_ok (lift (ext2_metadata cell))"
  by (auto simp: cell_ok_def ext2_metadata_def intro!: yields_lift split: option.splits)

lemma writable_yields: "cell_ok cell \<Longrightarrow> yields writable_ok (lift (writable_metadata cell))"
  by (auto simp: cell_ok_def writable_metadata_def ext2_metadata_def writable_ok_def metadata_ok_def
      intro!: yields_lift split: option.splits if_splits)

text \<open>What the operations rely on of a driver, beside the laws of the sectors.\<close>

lemma read_block_yields:
  assumes "sector_store (drv_read D) (drv_write D) sector" "metadata_ok md" "length buffer = 4096"
  shows "yields (\<lambda>b. length b = 4096) (read_block D md block buffer)"
proof -
  have disk: "yields (\<lambda>bs. length bs = em_block_size md) (disk_io (drv_read D lba n (em_block_size md)))" for lba n
  proof -
    have "\<exists>r v'. disk_io (drv_read D lba n (em_block_size md)) v = Some (r, v')
        \<and> (\<forall>bs. r = Inr bs \<longrightarrow> length bs = em_block_size md)" for v
    proof (cases "drv_read D lba n (em_block_size md) v")
      case (Pair r v')
      then show ?thesis
        using sector_store.read_gives [OF assms(1), of lba n "em_block_size md" v _ v']
        by (cases r) (auto simp: disk_io_def)
    qed
    then show ?thesis unfolding yields_def by blast
  qed
  have "em_block_size md \<le> 4096" using assms(2) by (auto simp: metadata_ok_def)
  then show ?thesis unfolding read_block_def using assms(3)
    by (auto intro!: yields_rules yields_bind [OF yields_lift] yields_bind [OF disk])
qed

lemma write_block_yields: "yields (\<lambda>_. True) (write_block D md block input)"
proof -
  have disk: "yields (\<lambda>_. True) (disk_io r)" for r :: "'v \<Rightarrow> (AtaError + unit) \<times> 'v"
    unfolding yields_def disk_io_def by (auto split: prod.split)
  show ?thesis unfolding write_block_def
    by (auto intro!: yields_rules yields_bind [OF yields_lift] disk)
qed

lemma reserve_yields: "yields (\<lambda>_. True) (reserve_io D n)"
  unfolding yields_def reserve_io_def ret_def fail_def by simp

section \<open>Parts that need no block access\<close>

definition cache_ok :: "Cache \<Rightarrow> bool" where
  "cache_ok c \<longleftrightarrow> length (ca_indirect c) = 4096 \<and> length (ca_double c) = 4096"

lemma empty_buffers [simp]: "cache_ok empty_cache" "length zeroed_block = 4096"
  by (simp_all add: cache_ok_def empty_cache_def zeroed_block_def)

lemma pointer_in_block:
  assumes "metadata_ok md" "i < em_block_size md div 4"
  shows "i * 4 + 4 \<le> 4096"
  using assms by (auto simp: metadata_ok_def)

lemma block_pointer_yields:
  "offset + 4 \<le> length raw \<Longrightarrow> yields (\<lambda>b. b = 0 \<or> b < em_blocks_count md) (block_pointer md raw offset :: ('s, nat) io)"
  unfolding block_pointer_def by (auto intro!: yields_rules yields_bind [OF yields_u32])

lemma block_pointers_yields:
  "\<forall>i \<in> set is. 40 + i * 4 + 4 \<le> length raw \<Longrightarrow>
    yields (\<lambda>bs. length bs = length is) (block_pointers md raw is :: ('s, nat list) io)"
  by (induction "is") (auto simp: INODE_BLOCK_POINTERS_OFFSET_def intro!: yields_ret
      yields_bind [OF block_pointer_yields] intro: yields_bind)

lemma parse_inode_yields:
  assumes "128 \<le> length raw"
  shows "yields (\<lambda>i. length (ino_blocks i) = 12) (parse_inode md raw :: ('s, Inode) io)"
proof -
  have p: "yields (\<lambda>bs. length bs = 12) (block_pointers md raw [0..<DIRECT_BLOCKS] :: ('s, nat list) io)"
    using block_pointers_yields [of "[0..<DIRECT_BLOCKS]" raw md] assms by (simp add: DIRECT_BLOCKS_def)
  have sz: "yields (\<lambda>_. True) (if b then bind_io (u32_field raw 108) (\<lambda>high. ret (f high)) else ret n :: ('s, nat) io)" for b f n
    using assms by (auto intro!: yields_rules yields_bind [OF yields_u32])
  show ?thesis unfolding parse_inode_def
    by (intro yields_bind [OF yields_u32] yields_bind [OF yields_u16] yields_bind [OF sz] yields_bind [OF p]
        yields_bind [OF block_pointer_yields] yields_ret)
      (use assms in \<open>auto simp: INODE_BLOCK_POINTERS_OFFSET_def DIRECT_BLOCKS_def\<close>)
qed

lemma inode_edits_fit:
  assumes "length data_blocks = 12" "e \<in> set (inode_edits md mode file_size links data_blocks single double allocated)"
  shows "fst e + length (snd e) \<le> 128"
  using assms by (auto simp: inode_edits_def Let_def INODE_BLOCK_POINTERS_OFFSET_def DIRECT_BLOCKS_def
      in_set_enumerate_eq split: if_splits)

lemma slot_yields:
  assumes "metadata_ok md" "length block = 4096"
  shows "yields (\<lambda>(p, i, l, u). p + l \<le> em_block_size md \<and> (i \<noteq> 0 \<longrightarrow> 8 \<le> u \<and> required \<le> l - u) \<and> (i = 0 \<longrightarrow> required \<le> l))
    (pure_io (find_slot md block required offset))"
proof -
  have "em_block_size md \<le> length block" using assms by (auto simp: metadata_ok_def)
  from find_slot_Some [OF this, of required offset] show ?thesis by (auto intro!: yields_pure)
qed

lemma insert_yields:
  assumes "metadata_ok md" "length block = 4096" "case slot of (p, i, l, u) \<Rightarrow> p + l \<le> em_block_size md
      \<and> (i \<noteq> 0 \<longrightarrow> 8 \<le> u \<and> entry_length (length name) \<le> l - u) \<and> (i = 0 \<longrightarrow> entry_length (length name) \<le> l)"
  shows "yields (\<lambda>b. length b = 4096) (must (insert_entry md slot name inode ty block))"
proof (cases slot)
  case (fields p i l u)
  then have "p + l \<le> length block" using assms by (auto simp: metadata_ok_def)
  then obtain b where "insert_entry md slot name inode ty block = Some b" "length b = 4096"
    using insert_entry_Some [of p l block i u name md inode ty] assms fields by auto
  then show ?thesis by (auto intro: yields_must)
qed

lemma update_block_bitmap_yields:
  assumes "writable_ok md" "length bitmap = 4096"
  shows "yields (\<lambda>b. length b = 4096) (pure_io (update_block_bitmap md bitmap n allocated))"
proof (cases "n < em_first_data_block md \<or> em_blocks_count md \<le> n")
  case True then show ?thesis by (auto simp: update_block_bitmap_def intro!: yields_pure)
next
  case False
  then have "n - em_first_data_block md < 8 * length bitmap" using assms by (auto simp: writable_ok_def)
  from change_bit_Some [OF this, of allocated] show ?thesis
    using False assms(2) by (auto simp: update_block_bitmap_def intro!: yields_pure)
qed

lemma update_inode_bitmap_yields:
  assumes "writable_ok md" "length bitmap = 4096" "n \<le> em_inodes_count md"
  shows "yields (\<lambda>b. length b = 4096) (pure_io (update_inode_bitmap bitmap n allocated))"
proof (cases "n = 0")
  case True then show ?thesis by (auto simp: update_inode_bitmap_def checked_sub_def intro!: yields_pure)
next
  case False
  then have "n - 1 < 8 * length bitmap" using assms by (auto simp: writable_ok_def)
  from change_bit_Some [OF this, of allocated] show ?thesis
    using False assms(2) by (auto simp: update_inode_bitmap_def checked_sub_def intro!: yields_pure)
qed

lemma clear_blocks_yields:
  assumes "writable_ok md" "length bitmap = 4096"
  shows "yields (\<lambda>b. length b = 4096) (clear_blocks md blocks bitmap)"
  unfolding clear_blocks_def using assms by (intro yields_fold update_block_bitmap_yields)

lemma free_inode_yields:
  assumes "writable_ok md" "length bitmap = 4096"
  shows "yields (\<lambda>n. n \<noteq> 0 \<and> n \<le> em_inodes_count md) (free_inode_in md bitmap)"
proof -
  obtain r where r: "find_free_bit bitmap (em_inodes_count md) = Some r" "\<forall>i. r = Some i \<longrightarrow> i < em_inodes_count md"
    using find_free_from_Some [of 0 "em_inodes_count md" bitmap] assms by (auto simp: find_free_bit_def writable_ok_def)
  show ?thesis unfolding free_inode_in_def using r(2)
    by (intro yields_bind [OF yields_must [where Q = "\<lambda>x. x = r", OF r(1) refl]] yields_lift)
      (auto simp: bind_eq_Some_conv checked_add32_def split: if_splits)
qed

lemma free_block_yields:
  assumes "writable_ok md" "length bitmap = 4096"
  shows "yields (\<lambda>n. em_first_data_block md \<le> n \<and> n < em_blocks_count md) (free_block_in md bitmap)"
proof -
  let ?n = "em_blocks_count md - em_first_data_block md"
  obtain r where r: "find_free_bit bitmap ?n = Some r" "\<forall>i. r = Some i \<longrightarrow> i < ?n"
    using find_free_from_Some [of 0 ?n bitmap] assms by (auto simp: find_free_bit_def writable_ok_def)
  show ?thesis unfolding free_block_in_def using r(2)
    by (intro yields_bind [OF yields_must [where Q = "\<lambda>x. x = r", OF r(1) refl]]
        yields_bind [OF yields_lift [where Q = "\<lambda>i. r = Some i"]] yields_lift)
      (auto simp: checked_add32_def split: if_splits)
qed

lemma new_directory_block_yields:
  "yields (\<lambda>b. length b = 4096) (must (new_directory_block md inode parent))"
  unfolding new_directory_block_def
  by (rule yields_weaken [OF yields_put_all]) (auto simp: zeroed_block_def)

lemma pointer_block_yields:
  "length pointers \<le> 1024 \<Longrightarrow> yields (\<lambda>_. True) (must (pointer_block pointers) :: ('s, byte list) io)"
  unfolding pointer_block_def
  by (rule yields_weaken [OF yields_put_slice])
    (simp_all add: length_concat o_def sum_list_triv zeroed_block_def)

lemma chunk_length: "c \<in> set (block_chunks n contents) \<Longrightarrow> length c \<le> n"
  by (induction n contents rule: block_chunks.induct) (subst (asm) (2) block_chunks.simps, auto split: if_splits)

section \<open>The operations over any block access\<close>

locale total_blocks =
  fixes B :: "'s Blocks"
  assumes rd: "metadata_ok md \<Longrightarrow> length buffer = 4096 \<Longrightarrow> yields (\<lambda>b. length b = 4096) (bl_read B md block buffer)"
    and wr: "yields (\<lambda>_. True) (bl_write B md block input)"
begin

lemmas bind_rules = yields_bind [OF rd] yields_bind [OF wr] yields_bind [OF yields_lift]
  yields_bind [OF yields_u32] yields_bind [OF yields_u16]

lemma group_descriptor_yields:
  assumes "metadata_ok md" "length buffer = 4096"
  shows "yields (\<lambda>(t, b). t < em_blocks_count md \<and> length b = 4096) (read_group_descriptor B md g buffer)"
proof -
  let ?o = "g * 32 mod em_block_size md"
  have bs: "em_block_size md \<in> {1024, 2048, 4096}" using assms(1) by (simp add: metadata_ok_def)
  have "32 dvd em_block_size md" using bs by auto
  then have "32 dvd ?o" by (simp add: dvd_mod)
  then obtain k where k: "?o = 32 * k" by (elim dvdE)
  have "?o < em_block_size md" using bs by (intro mod_less_divisor) auto
  then have "?o + 12 \<le> 4096" using bs k by auto
  then show ?thesis unfolding read_group_descriptor_def Let_def using assms
    by (auto intro!: yields_rules bind_rules)
qed

lemma locate_inode_yields:
  assumes "metadata_ok md"
  shows "yields (\<lambda>(t, n, w, b). w + em_inode_size md \<le> em_block_size md \<and> length b = 4096) (locate_inode B md i)"
proof -
  let ?w = "i mod em_inodes_per_group md * em_inode_size md mod em_block_size md"
  have bs: "0 < em_block_size md" and z: "em_inode_size md dvd em_block_size md"
    using assms by (auto simp: metadata_ok_def)
  have "em_inode_size md dvd ?w" using z by (simp add: dvd_mod)
  then obtain k where k: "?w = em_inode_size md * k" by (elim dvdE)
  obtain n where n: "em_block_size md = em_inode_size md * n" using z by (elim dvdE)
  have "em_inode_size md * k < em_inode_size md * n" using mod_less_divisor [OF bs] k n by metis
  then have "Suc k \<le> n" by simp
  then have "em_inode_size md * Suc k \<le> em_block_size md" using n by (metis mult_le_mono2)
  then have "?w + em_inode_size md \<le> em_block_size md" using k by simp
  then show ?thesis unfolding locate_inode_def Let_def
    by (intro yields_bind [OF group_descriptor_yields [OF assms]])
      (auto simp: zeroed_block_def intro!: yields_rules bind_rules)
qed

lemma read_inode_yields:
  assumes "metadata_ok md"
  shows "yields (\<lambda>i. length (ino_blocks i) = 12 \<and> n \<noteq> 0 \<and> n \<le> em_inodes_count md) (read_inode B md n)"
proof -
  have z: "128 \<le> em_inode_size md" "em_block_size md \<le> 4096" using assms by (auto simp: metadata_ok_def)
  have p: "yields (\<lambda>i. length (ino_blocks i) = 12)
      (bind_io (must (get_range block w (w + em_inode_size md))) (parse_inode md) :: ('s, Inode) io)"
    if "w + em_inode_size md \<le> em_block_size md" "length block = 4096" for block w
  proof -
    obtain raw where "get_range block w (w + em_inode_size md) = Some raw" "length raw = em_inode_size md"
      using get_range_Some [of w "w + em_inode_size md" block] \<open>w + _ \<le> _\<close> \<open>length block = _\<close> z by auto
    then show ?thesis using z by (auto intro!: yields_bind [OF yields_must] parse_inode_yields)
  qed
  show ?thesis unfolding read_inode_def Let_def
    by (intro yields_if yields_fail yields_bind [OF locate_inode_yields [OF assms]])
      (auto intro!: yields_if yields_fail yields_weaken [OF p] bind_rules assms)
qed

lemma load_indirect_yields: "metadata_ok md \<Longrightarrow> cache_ok c \<Longrightarrow> yields cache_ok (load_indirect B md block c)"
  unfolding load_indirect_def by (auto simp: cache_ok_def intro!: yields_rules bind_rules)

lemma load_double_yields: "metadata_ok md \<Longrightarrow> cache_ok c \<Longrightarrow> yields cache_ok (load_double B md block c)"
  unfolding load_double_def by (auto simp: cache_ok_def intro!: yields_rules bind_rules)

lemma inode_data_block_yields:
  assumes "metadata_ok md" "cache_ok c"
  shows "yields (\<lambda>(_, c'). cache_ok c') (inode_data_block B md inode i c)"
proof -
  let ?p = "em_block_size md div 4"
  have p: "0 < ?p" using assms(1) by (auto simp: metadata_ok_def)
  have pointer: "yields (\<lambda>(_, c'). cache_ok c')
      (bind_io (block_pointer md (ca_indirect c') (j * 4)) (\<lambda>block. ret (block, c')) :: ('s, nat \<times> Cache) io)"
    if "j < ?p" "cache_ok c'" for j c'
    using pointer_in_block [OF assms(1) that(1)] that(2)
    by (intro yields_bind [OF block_pointer_yields] yields_ret) (auto simp: cache_ok_def)
  show ?thesis unfolding inode_data_block_def Let_def
  proof (intro yields_if yields_ret yields_fail yields_bind [OF load_indirect_yields [OF assms]]
      yields_bind [OF load_double_yields [OF assms]])
    fix c' let ?d = "i - DIRECT_BLOCKS - ?p"
    assume o: "\<not> ?p \<le> ?d div ?p" and c': "cache_ok c'"
    have "?d div ?p * 4 + 4 \<le> length (ca_double c')"
      using pointer_in_block [OF assms(1), of "?d div ?p"] o c' by (simp add: cache_ok_def)
    moreover have "?d mod ?p < ?p" using p by simp
    ultimately show "yields (\<lambda>(_, c'). cache_ok c') (bind_io (u32_field (ca_double c') (?d div ?p * 4))
        (\<lambda>indirect_block. if indirect_block = 0 then ret (0, c')
           else if em_blocks_count md \<le> indirect_block then fail InvalidFilesystem
           else bind_io (load_indirect B md indirect_block c') (\<lambda>c''.
             bind_io (block_pointer md (ca_indirect c'') (?d mod ?p * 4)) (\<lambda>block. ret (block, c'')))))"
      using c' by (auto intro!: yields_bind [OF yields_u32] yields_rules
          yields_bind [OF load_indirect_yields [OF assms(1) c']] pointer)
  qed (auto intro!: pointer simp: assms)
qed

lemma directory_block_yields:
  assumes "metadata_ok md" "length (fst bufs) = 4096" "cache_ok (snd bufs)"
  shows "yields (\<lambda>b. length (fst b) = 4096 \<and> cache_ok (snd b)) (directory_block B md directory i bufs)"
  unfolding directory_block_def
  by (intro yields_bind [OF inode_data_block_yields [OF assms(1,3)]])
    (auto intro!: yields_rules bind_rules assms)

lemma find_in_blocks_yields:
  "metadata_ok md \<Longrightarrow> length (fst bufs) = 4096 \<Longrightarrow> cache_ok (snd bufs) \<Longrightarrow>
    yields (\<lambda>_. True) (find_in_blocks B md directory child is bufs remaining)"
proof (induction "is" arbitrary: bufs remaining)
  case (Cons i "is")
  have found: "yields (\<lambda>_. True) (pure_io (find_in_block md block (min r (em_block_size md)) child 0) :: ('s, nat option) io)"
    if "length block = 4096" for block r
  proof -
    have "min r (em_block_size md) \<le> length block" using that Cons.prems(1) by (auto simp: metadata_ok_def)
    from find_in_block_Some [OF this, of md child 0] show ?thesis by (auto intro: yields_pure)
  qed
  show ?case unfolding find_in_blocks.simps
    by (intro yields_bind [OF directory_block_yields [OF Cons.prems]] yields_bind [OF found])
      (auto intro!: yields_rules Cons.IH Cons.prems split: option.split)
qed (auto intro: yields_ret)

lemma find_child_yields: "metadata_ok md \<Longrightarrow> yields (\<lambda>_. True) (find_child B md directory child)"
  unfolding find_child_def by (auto intro!: yields_rules bind_rules find_in_blocks_yields)

lemma walk_yields:
  "metadata_ok md \<Longrightarrow> length (ino_blocks (snd at)) = 12 \<Longrightarrow>
    yields (\<lambda>r. \<forall>x. r = Some x \<longrightarrow> length (ino_blocks (snd x)) = 12) (ext2_walk B md path at)"
proof (induction path arbitrary: at)
  case (Cons component rest)
  show ?case unfolding ext2_walk.simps
    by (intro yields_if Cons.IH Cons.prems yields_bind [OF find_child_yields [OF Cons.prems(1)]])
      (auto simp del: split_paired_All intro!: yields_rules yields_bind [OF read_inode_yields [OF Cons.prems(1)]]
        Cons.IH Cons.prems split: option.split)
qed (auto intro: yields_ret)

lemma find_inode_number_yields: "metadata_ok md \<Longrightarrow> yields (\<lambda>_. True) (find_inode_number B md path)"
  unfolding find_inode_number_def
  by (intro yields_bind [OF read_inode_yields] yields_bind [OF walk_yields]) (auto intro: yields_ret)

lemma lookup_yields:
  "cell_ok cell \<Longrightarrow> yields (\<lambda>r. \<forall>x. r = Some x \<longrightarrow> length (ino_blocks x) = 12) (lookup B cell path)"
  unfolding lookup_def
  by (intro yields_bind [OF metadata_yields] yields_bind [OF read_inode_yields] yields_bind [OF walk_yields])
    (auto intro!: yields_ret)

lemma visit_entry_yields:
  assumes "metadata_ok md" "dirent_name block offset n = Some name"
  shows "yields (\<lambda>_. True) (visit_entry B md block offset inode n)"
proof -
  have v: "yields (\<lambda>_. True) (visit x :: (visits \<times> 's, unit) io)" for x
    unfolding yields_def visit_def by (auto split: prod.split)
  show ?thesis unfolding visit_entry_def assms(2)
    by (intro yields_if yields_ret yields_fail yields_bind [OF yields_must [where Q = "\<lambda>_. True", OF refl TrueI]]
        yields_bind [OF yields_on_disk [OF read_inode_yields [OF assms(1)]]] v TrueI)
qed

lemma visit_block_yields:
  assumes "metadata_ok md" "limit \<le> length block"
  shows "yields (\<lambda>_. True) (visit_block B md block limit offset)"
proof (induction "limit - offset" arbitrary: offset rule: less_induct)
  case less
  show ?case
  proof (cases "offset + 8 \<le> limit")
    case True
    from True assms(2) show ?thesis
    proof (cases rule: record_cases [of _ _ _ md])
      case (error e)
      then have "visit_block B md block limit offset = fail e"
        using True by (intro ext) (simp add: visit_block.simps fail_def)
      then show ?thesis by (simp add: yields_fail)
    next
      case (entry inode l n name)
      then have "visit_block B md block limit offset
          = bind_io (visit_entry B md block offset inode n) (\<lambda>_. visit_block B md block limit (offset + l))"
        using True by (intro ext) (simp add: visit_block.simps [of B md block limit offset])
      moreover have "limit - (offset + l) < limit - offset"
        using dir_record_length [OF entry(1)] True by linarith
      ultimately show ?thesis
        using less [of "offset + l"] yields_bind [OF visit_entry_yields [OF assms(1) entry(2)]] by simp
    qed
  next
    case False
    then have "visit_block B md block limit offset = ret ()" by (intro ext) (simp add: visit_block.simps)
    then show ?thesis by (simp add: yields_ret)
  qed
qed

lemma visit_blocks_yields:
  "metadata_ok md \<Longrightarrow> length (fst bufs) = 4096 \<Longrightarrow> cache_ok (snd bufs) \<Longrightarrow>
    yields (\<lambda>_. True) (visit_blocks B md directory is bufs remaining)"
proof (induction "is" arbitrary: bufs remaining)
  case (Cons i "is")
  have v: "yields (\<lambda>_. True) (visit_block B md block (min r (em_block_size md)) 0)" if "length block = 4096" for block r
    using Cons.prems(1) that by (intro visit_block_yields) (auto simp: metadata_ok_def)
  show ?case unfolding visit_blocks.simps
    by (intro yields_bind [OF yields_on_disk [OF directory_block_yields [OF Cons.prems]]] yields_bind [OF v])
      (auto intro!: Cons.IH Cons.prems)
qed (auto intro: yields_ret)

lemma for_each_child_yields: "cell_ok cell \<Longrightarrow> yields (\<lambda>_. True) (for_each_child B cell directory)"
  unfolding for_each_child_def
  by (intro yields_bind [OF metadata_yields])
    (auto intro!: yields_rules yields_bind [OF yields_lift] visit_blocks_yields)

lemma read_piece_yields:
  assumes "metadata_ok md" "length (fst bufs) = 4096" "cache_ok (snd bufs)" "offset + amount \<le> em_block_size md"
  shows "yields (\<lambda>(piece, bufs'). length piece = amount \<and> length (fst bufs') = 4096 \<and> cache_ok (snd bufs'))
    (read_piece B md inode i offset amount bufs)"
proof -
  have piece: "yields (\<lambda>piece. length piece = amount) (must (get_range block offset (offset + amount)) :: ('s, byte list) io)"
    if "length block = 4096" for block
    using get_range_Some [of offset "offset + amount" block] that assms(1,4)
    by (auto simp: metadata_ok_def intro: yields_must)
  show ?thesis unfolding read_piece_def
    by (intro yields_bind [OF inode_data_block_yields [OF assms(1,3)]])
      (auto intro!: yields_rules bind_rules assms yields_bind [OF piece])
qed

lemma read_pieces_yields:
  assumes "metadata_ok md" "copy_len \<le> n"
  shows "length out = n \<Longrightarrow> length (fst bufs) = 4096 \<Longrightarrow> cache_ok (snd bufs) \<Longrightarrow>
    yields (\<lambda>_. True) (read_pieces B md inode block_count copy_len copied out bufs)"
proof (induction "copy_len - copied" arbitrary: copied out bufs rule: less_induct)
  case less
  let ?b = "em_block_size md" and ?i = "copied div em_block_size md" and ?o = "copied mod em_block_size md"
  let ?a = "min (?b - ?o) (copy_len - copied)"
  have b: "0 < ?b" using assms(1) by (auto simp: metadata_ok_def)
  show ?case
  proof (cases "copied < copy_len \<and> \<not> block_count \<le> ?i")
    case True
    then have step: "read_pieces B md inode block_count copy_len copied out bufs
        = bind_io (read_piece B md inode ?i ?o ?a bufs) (\<lambda>(piece, bufs').
          bind_io (must (put_slice copied piece out)) (\<lambda>out'.
            read_pieces B md inode block_count copy_len (copied + ?a) out' bufs'))"
      using b by (intro ext) (simp add: read_pieces.simps [of B md inode block_count copy_len copied] Let_def
          bind_io_def must_def split: option.split sum.split)
    have o: "?o + ?a \<le> ?b" using mod_less_divisor [OF b, of copied] by simp
    have progress: "copy_len - (copied + ?a) < copy_len - copied" using piece_progress b True by blast
    have fits: "copied + ?a \<le> length out" using less.prems(1) assms(2) True by auto
    have rest: "yields (\<lambda>_. True) (bind_io (must (put_slice copied piece out)) (\<lambda>out'.
        read_pieces B md inode block_count copy_len (copied + ?a) out' bufs'))"
      if "length piece = ?a" "length (fst bufs') = 4096" "cache_ok (snd bufs')" for piece bufs'
    proof (rule yields_bind [OF yields_put_slice])
      show "copied + length piece \<le> length out" using fits that by simp
      show "yields (\<lambda>_. True) (read_pieces B md inode block_count copy_len (copied + ?a) out' bufs')"
        if "length out' = length out" for out'
        using that less.prems(1) \<open>length (fst bufs') = 4096\<close> \<open>cache_ok (snd bufs')\<close>
        by (intro less.hyps [OF progress]) simp_all
    qed
    show ?thesis unfolding step
      by (rule yields_bind [OF read_piece_yields [OF assms(1) less.prems(2,3) o]])
        (simp only: split_def rest)
  next
    case False
    then have "read_pieces B md inode block_count copy_len copied out bufs
        = (if copied < copy_len then fail InvalidFilesystem else ret (copied, out))"
      using b by (intro ext) (auto simp: read_pieces.simps [of B md inode block_count copy_len copied] Let_def)
    then show ?thesis by (auto intro: yields_rules)
  qed
qed

lemma read_inode_contents_yields:
  "metadata_ok md \<Longrightarrow> yields (\<lambda>_. True) (read_inode_contents B md inode out)"
  unfolding read_inode_contents_def
  by (intro yields_bind [OF yields_lift [where Q = "\<lambda>_. True"]] yields_bind [OF read_pieces_yields [where n = "length out"]])
    (auto intro: yields_ret split: prod.split)

section \<open>Writing\<close>

lemma write_inode_fields_yields:
  assumes "metadata_ok md" "length data_blocks = 12"
  shows "yields (\<lambda>_. True) (write_inode_fields B md n mode file_size links data_blocks single double allocated is_new)"
proof -
  have z: "128 \<le> em_inode_size md" "em_block_size md \<le> 4096" using assms(1) by (auto simp: metadata_ok_def)
  have g: "yields (\<lambda>raw. length raw = em_inode_size md)
      (must (get_range block w (w + em_inode_size md)) :: ('s, byte list) io)"
    if "w + em_inode_size md \<le> em_block_size md" "length block = 4096" for block w
    using get_range_Some [of w "w + em_inode_size md" block] that z by (auto intro: yields_must)
  have e: "yields (\<lambda>ys. length ys = length raw)
      (must (put_all (inode_edits md mode file_size links data_blocks single double allocated) raw) :: ('s, byte list) io)"
    if "length raw = em_inode_size md" for raw
    using inode_edits_fit [OF assms(2)] that z by (intro yields_put_all) fastforce
  show ?thesis unfolding write_inode_fields_def
    by (intro yields_bind [OF yields_lift [where Q = "\<lambda>_. True"]] yields_bind [OF locate_inode_yields [OF assms(1)]])
      (use z in \<open>auto intro!: yields_if yields_fail wr yields_bind [OF g] yields_bind [OF e] yields_bind [OF rd]
        yields_bind [OF yields_put_slice] assms(1)\<close>)
qed

lemma add_directory_entry_yields:
  "metadata_ok md \<Longrightarrow> yields (\<lambda>_. True) (add_directory_entry B md directory name inode ty)"
  unfolding add_directory_entry_def Let_def
  by (intro yields_if yields_fail yields_bind [OF yields_lift [where Q = "\<lambda>_. True"]] yields_bind [OF rd]
      yields_bind [OF slot_yields] yields_bind [OF insert_yields] wr) auto

lemma ensure_space_yields:
  "metadata_ok md \<Longrightarrow> yields (\<lambda>_. True) (ensure_directory_entry_space B md directory name)"
  unfolding ensure_directory_entry_space_def
  by (intro yields_if yields_fail yields_bind [OF yields_lift [where Q = "\<lambda>_. True"]] yields_bind [OF rd]
      yields_bind [OF slot_yields] yields_ret) auto

lemma remove_directory_entry_yields:
  assumes "metadata_ok md"
  shows "yields (\<lambda>_. True) (remove_directory_entry B md directory name)"
proof -
  have r: "yields (\<lambda>_. True) (pure_io (remove_in_block md block name 0 None) :: ('s, byte list) io)"
    if "length block = 4096" for block
  proof -
    have "em_block_size md \<le> length block" using assms that by (auto simp: metadata_ok_def)
    from remove_in_block_Some [OF this, of None name 0] show ?thesis by (auto intro: yields_pure)
  qed
  show ?thesis unfolding remove_directory_entry_def
    by (intro yields_if yields_fail yields_bind [OF yields_lift [where Q = "\<lambda>_. True"]]
        yields_bind [OF rd [OF assms]] yields_bind [OF r] wr) simp_all
qed

lemma resolve_parent_yields:
  assumes "cell_ok cell" "metadata_ok md"
  shows "yields (\<lambda>(n, i, name). length (ino_blocks i) = 12 \<and> n \<noteq> 0 \<and> n \<le> em_inodes_count md) (resolve_parent B cell md path)"
proof -
  have n: "yields (\<lambda>_. True) (bind_io (lookup B cell parent_path) (\<lambda>r.
      bind_io (lift (ok_or NotFound r)) (\<lambda>parent. if \<not> is_directory parent then fail InvalidPath
        else bind_io (find_inode_number B md parent_path) (\<lambda>n. lift (ok_or InvalidFilesystem n)))))" for parent_path
    by (intro yields_if yields_fail yields_bind [OF lookup_yields [OF assms(1)]]
        yields_bind [OF yields_lift [where Q = "\<lambda>_. True"]] yields_bind [OF find_inode_number_yields [OF assms(2)]]
        yields_lift TrueI)
  have number: "yields (\<lambda>_. True) (if c then ret ROOT_INODE else bind_io (lookup B cell parent_path) (\<lambda>r.
      bind_io (lift (ok_or NotFound r)) (\<lambda>parent. if \<not> is_directory parent then fail InvalidPath
        else bind_io (find_inode_number B md parent_path) (\<lambda>n. lift (ok_or InvalidFilesystem n)))))" for c parent_path
    by (intro yields_if yields_ret n TrueI)
  show ?thesis
  proof (cases "split_path path")
    case (Pair parent_path name)
    show ?thesis unfolding resolve_parent_def Pair prod.case
      by (intro yields_if yields_fail yields_bind [OF number] yields_bind [OF read_inode_yields [OF assms(2)]]
          yields_ret) simp_all
  qed
qed

lemma tables_yields:
  assumes "metadata_ok md"
  shows "yields (\<lambda>(_, _, d, b, i). length d = 4096 \<and> length b = 4096 \<and> length i = 4096) (read_allocation_tables B md)"
  unfolding read_allocation_tables_def
  by (intro yields_if yields_fail yields_bind [OF rd [OF assms]] yields_bind [OF yields_u32] yields_ret) auto

lemma update_free_counters_yields:
  assumes "metadata_ok md" "length descriptor = 4096"
  shows "yields (\<lambda>_. True) (update_free_counters B md descriptor a b)"
  unfolding update_free_counters_def
  by (intro yields_if yields_ret yields_bind [OF yields_u16] yields_bind [OF yields_lift [where Q = "\<lambda>_. True"]]
      yields_bind [OF rd [OF assms(1)]] yields_bind [OF yields_u32] yields_bind [OF yields_put_all]
      yields_bind [OF wr] wr) (auto simp: assms)

lemma free_data_blocks_yields:
  assumes "writable_ok md"
  shows "yields (\<lambda>_. True) (free_data_blocks B md blocks)"
proof -
  have md: "metadata_ok md" using assms by (simp add: writable_ok_def)
  show ?thesis unfolding free_data_blocks_def
    by (intro yields_if yields_ret yields_bind [OF tables_yields [OF md]])
      (auto intro!: yields_bind [OF clear_blocks_yields [OF assms]] yields_bind [OF wr]
        yields_bind [OF yields_lift [where Q = "\<lambda>_. True"]] update_free_counters_yields md)
qed

lemma update_directory_link_count_yields:
  assumes "metadata_ok md"
  shows "yields (\<lambda>_. True) (update_directory_link_count B md n increase)"
  unfolding update_directory_link_count_def
  by (intro yields_if yields_fail yields_bind [OF read_inode_yields [OF assms]]
      yields_bind [OF yields_lift [where Q = "\<lambda>_. True"]] write_inode_fields_yields assms) auto

lemma create_directory_in_yields:
  assumes "writable_ok md"
  shows "yields (\<lambda>_. True) (create_directory_in B md parent_number parent name)"
proof -
  have md: "metadata_ok md" using assms by (simp add: writable_ok_def)
  have twelve: "length (b # replicate (DIRECT_BLOCKS - 1) 0) = 12" for b :: nat by (simp add: DIRECT_BLOCKS_def)
  show ?thesis unfolding create_directory_in_def
    by (intro yields_bind [OF ensure_space_yields [OF md]] yields_bind [OF tables_yields [OF md]],
        clarify, (simp only: prod.case)?,
        intro yields_bind [OF free_inode_yields [OF assms]] yields_bind [OF free_block_yields [OF assms]]
        yields_bind [OF update_inode_bitmap_yields [OF assms]] yields_bind [OF update_block_bitmap_yields [OF assms]]
        yields_bind [OF new_directory_block_yields] yields_bind [OF wr]
        yields_bind [OF write_inode_fields_yields [OF md twelve]] yields_bind [OF update_free_counters_yields [OF md]]
        yields_bind [OF update_directory_link_count_yields [OF md]] add_directory_entry_yields md, simp_all)
qed

lemma create_directory_yields: "cell_ok cell \<Longrightarrow> yields (\<lambda>_. True) (create_directory B cell path)"
  unfolding create_directory_def
  by (rule yields_bind [OF writable_yields], assumption)
    (auto simp: writable_ok_def intro!: yields_bind [OF resolve_parent_yields] yields_bind [OF find_child_yields]
      yields_if yields_fail create_directory_in_yields)

lemma remove_entry_yields:
  assumes "writable_ok md" "inode_number \<le> em_inodes_count md"
  shows "yields (\<lambda>_. True) (remove_root_entry_allocations B md parent_number parent name inode_number inode blocks)"
proof -
  have md: "metadata_ok md" using assms by (simp add: writable_ok_def)
  have twelve: "length (replicate DIRECT_BLOCKS 0 :: nat list) = 12" by (simp add: DIRECT_BLOCKS_def)
  show ?thesis unfolding remove_root_entry_allocations_def
    apply (intro yields_if yields_fail yields_bind [OF tables_yields [OF md]])
    subgoal for t
      by (cases t, simp only: prod.case,
        intro yields_bind [OF update_inode_bitmap_yields [OF assms(1)]] yields_bind [OF clear_blocks_yields [OF assms(1)]]
        yields_bind [OF remove_directory_entry_yields [OF md]] yields_bind [OF wr]
        yields_bind [OF yields_lift [where Q = "\<lambda>_. True"]] yields_bind [OF update_free_counters_yields [OF md]]
        yields_bind [OF write_inode_fields_yields [OF md twelve]] yields_if yields_ret
        update_directory_link_count_yields [OF md], simp_all add: assms)
    done
qed

lemma children_yields:
  assumes "cell_ok cell"
  shows "yields (\<lambda>_. True) (\<lambda>s. map_option (\<lambda>(r, entries, s'). (map_sum id (\<lambda>_. entries) r, s'))
    (for_each_child B cell inode ([], s)))"
  unfolding yields_def
proof
  fix s
  obtain r xs t where "for_each_child B cell inode ([], s) = Some (r, xs, t)"
    using for_each_child_yields [OF assms, of inode] unfolding yields_def by (metis surj_pair)
  then show "\<exists>r s'. map_option (\<lambda>(r, entries, s'). (map_sum id (\<lambda>_. entries) r, s'))
      (for_each_child B cell inode ([], s)) = Some (r, s') \<and> (\<forall>a. r = Inr a \<longrightarrow> True)" by simp
qed

lemma remove_empty_directory_yields:
  assumes "cell_ok cell"
  shows "yields (\<lambda>_. True) (remove_empty_directory B cell path)"
  unfolding remove_empty_directory_def
  by (rule yields_bind [OF writable_yields [OF assms]])
    (auto simp: writable_ok_def intro!: yields_bind [OF resolve_parent_yields [OF assms]] yields_bind [OF find_child_yields]
      yields_bind [OF yields_lift [where Q = "\<lambda>_. True"]] yields_bind [OF read_inode_yields] yields_bind [OF children_yields [OF assms]]
      yields_if yields_fail remove_entry_yields)

lemma collect_indirect_yields:
  assumes "metadata_ok md"
  shows "yields (\<lambda>_. True) (collect_indirect B md indirect blocks)"
proof -
  have p: "yields (\<lambda>_. True) (collect_pointers md pointers blocks :: ('s, nat list) io)" if "length pointers = 4096" for pointers blocks
    unfolding collect_pointers_def
  proof (rule yields_fold)
    fix i :: nat and b :: "nat list"
    assume "i \<in> set [0..<em_block_size md div 4]"
    then have "i * 4 + 4 \<le> length pointers" using pointer_in_block [OF assms] that by simp
    then show "yields (\<lambda>_. True) (bind_io (u32_field pointers (i * 4)) (\<lambda>block. if block = 0 then ret b
        else if em_blocks_count md \<le> block then fail InvalidFilesystem else lift (push_unique_block b block)) :: ('s, nat list) io)"
      by (intro yields_bind [OF yields_u32] yields_if yields_ret yields_fail yields_lift TrueI)
  qed simp
  show ?thesis unfolding collect_indirect_def
    by (intro yields_if yields_ret yields_fail yields_bind [OF rd [OF assms]] yields_bind [OF p] yields_lift) simp_all
qed

lemma collect_double_yields:
  assumes "metadata_ok md"
  shows "yields (\<lambda>_. True) (collect_double B md double blocks)"
proof -
  have f: "yields (\<lambda>_. True) (fold_io (\<lambda>index blocks. bind_io (u32_field root (index * 4)) (\<lambda>indirect.
      collect_indirect B md indirect blocks)) [0..<em_block_size md div 4] blocks)" if "length root = 4096" for root blocks
  proof (rule yields_fold)
    fix i :: nat and b :: "nat list"
    assume "i \<in> set [0..<em_block_size md div 4]"
    then have "i * 4 + 4 \<le> length root" using pointer_in_block [OF assms] that by simp
    then show "yields (\<lambda>_. True) (bind_io (u32_field root (i * 4)) (\<lambda>indirect. collect_indirect B md indirect b))"
      by (intro yields_bind [OF yields_u32] collect_indirect_yields assms)
  qed simp
  show ?thesis unfolding collect_double_def
    by (intro yields_if yields_ret yields_fail yields_bind [OF rd [OF assms]] yields_bind [OF f] yields_lift) simp_all
qed

lemma find_target_yields:
  assumes "metadata_ok md"
  shows "yields (\<lambda>r. \<forall>n i. r = Some (n, i) \<longrightarrow> n \<noteq> 0 \<and> n \<le> em_inodes_count md) (find_target B md parent name max_file_size)"
  unfolding find_target_def
  by (rule yields_bind [OF find_child_yields [OF assms]])
    (auto intro!: yields_bind [OF read_inode_yields [OF assms]] yields_if yields_fail yields_ret split: option.split)

lemma commit_file_yields:
  assumes "writable_ok md" "case cm_tables c of (_, _, d, b, i) \<Rightarrow> length d = 4096 \<and> length b = 4096 \<and> length i = 4096"
    "cm_inode c \<le> em_inodes_count md"
  shows "yields (\<lambda>_. True) (commit_file B md c)"
proof (cases "cm_tables c")
  case (fields bn inn d b i)
  have md: "metadata_ok md" using assms(1) by (simp add: writable_ok_def)
  have twelve: "length (direct_blocks (cm_layout c)) = 12" by (simp add: direct_blocks_def DIRECT_BLOCKS_def)
  have bit: "yields (\<lambda>_. True) (must (bitmap_bit i (cm_inode c - 1)) :: ('s, bool) io)"
  proof -
    have "cm_inode c \<le> 8192" "length i = 4096" using assms fields by (simp_all add: writable_ok_def)
    then have "cm_inode c - 1 < 8 * length i" by linarith
    from bitmap_bit_Some [OF this] show ?thesis by (auto intro: yields_must)
  qed
  have w: "yields (\<lambda>_. True) (if x then bl_write B md n y else ret ())" for x n y
    by (intro yields_if wr yields_ret TrueI)
  have w2: "yields (\<lambda>_. True) (if x then bind_io (must (bitmap_bit i (cm_inode c - 1))) (\<lambda>_. bl_write B md n y) else ret ())" for x n y
    by (intro yields_if yields_bind [OF bit] wr yields_ret TrueI)
  show ?thesis unfolding commit_file_def fields prod.case
    by (intro yields_bind [OF w] yields_bind [OF w2] yields_bind [OF update_free_counters_yields [OF md]]
        yields_bind [OF write_inode_fields_yields [OF md twelve]] yields_if add_directory_entry_yields md yields_ret)
      (use assms(2) fields in simp_all)
qed

lemma write_contents_yields:
  assumes "writable_ok md" "length (ly_data l) = length (block_chunks (em_block_size md) contents)"
    "length (ly_leaves l) \<le> 1024"
  shows "yields (\<lambda>_. True) (write_contents B md single_capacity l contents)"
proof -
  have bs: "em_block_size md = 1024" using assms(1) by (simp add: writable_ok_def)
  have data: "yields (\<lambda>_. True) (each_io (\<lambda>(index, chunk).
      bind_io (must (put_slice 0 chunk zeroed_block)) (\<lambda>data.
      bind_io (must (if index < length (ly_data l) then Some (ly_data l ! index) else None)) (\<lambda>block.
        bl_write B md block data))) (enumerate 0 (block_chunks (em_block_size md) contents)))"
  proof (rule yields_each)
    fix x assume x: "x \<in> set (enumerate 0 (block_chunks (em_block_size md) contents))"
    obtain i c where ic: "x = (i, c)" by (cases x)
    have "i < length (ly_data l)" "length c \<le> 1024"
      using x ic assms(2) chunk_length [of c "em_block_size md" contents] bs by (auto simp: in_set_enumerate_eq)
    then show "yields (\<lambda>_. True) (case x of (index, chunk) \<Rightarrow>
        bind_io (must (put_slice 0 chunk zeroed_block)) (\<lambda>data.
        bind_io (must (if index < length (ly_data l) then Some (ly_data l ! index) else None)) (\<lambda>block.
          bl_write B md block data)))"
      unfolding ic prod.case
      by (intro yields_bind [OF yields_put_slice] yields_bind [OF yields_must [where Q = "\<lambda>_. True"]] wr) simp_all
  qed
  have single: "yields (\<lambda>_. True) (if b then bind_io (must (pointer_block (map f [0..<em_block_size md div 4])))
      (\<lambda>pointers. bl_write B md n pointers) else ret ())" for b f n
    using bs by (intro yields_if yields_bind [OF pointer_block_yields] wr yields_ret) simp_all
  have leaves: "yields (\<lambda>_. True) (each_io (\<lambda>(outer_index, leaf).
      bind_io (must (pointer_block (map (f outer_index) [0..<em_block_size md div 4]))) (\<lambda>pointers. bl_write B md leaf pointers)) xs)" for f xs
    using bs by (intro yields_each) (auto intro!: yields_bind [OF pointer_block_yields] wr)
  show ?thesis unfolding write_contents_def Let_def
    by (intro yields_bind [OF data] yields_bind [OF single] yields_if yields_bind [OF pointer_block_yields]
        yields_bind [OF leaves] wr yields_ret assms(3) TrueI)
qed

end

section \<open>The file system on a driver\<close>

lemma disk_blocks_total:
  assumes "sector_store (drv_read D) (drv_write D) sector"
  shows "total_blocks (disk_blocks D)"
  using read_block_yields [OF assms] write_block_yields by unfold_locales (simp_all add: disk_blocks_def)

lemma read_block_returns: "yields (\<lambda>_. True) (read_block D md block buffer)"
proof -
  have disk: "yields (\<lambda>_. True) (disk_io r)" for r :: "'v \<Rightarrow> (AtaError + byte list) \<times> 'v"
    unfolding yields_def disk_io_def by (auto split: prod.split)
  show ?thesis unfolding read_block_def
    by (intro yields_if yields_fail yields_bind [OF yields_lift [where Q = "\<lambda>_. True"]] yields_bind [OF disk]
        yields_ret TrueI)
qed

lemma BlockTransaction_write_yields: "yields (\<lambda>_. True) (BlockTransaction_write D md block contents)"
proof -
  let ?save = "bind_io (on_disk (reserve_io D 1)) (\<lambda>_. bind_io (on_disk (read_block D md block zeroed_block))
    (\<lambda>original. push_undo block original))"
  have "yields (\<lambda>_. True) (push_undo block original :: (undo \<times> 'a, unit) io)" for original
    unfolding yields_def push_undo_def by (auto split: prod.split)
  then have "yields (\<lambda>_. True) ?save"
    by (intro yields_bind [OF yields_on_disk [OF reserve_yields]] yields_bind [OF yields_on_disk [OF read_block_returns]])
  then have "yields (\<lambda>_. True) (\<lambda>(undo, v). if block \<in> set (map fst undo) then ret () (undo, v) else ?save (undo, v))"
    unfolding yields_def by (auto simp: ret_def split: prod.split)
  then show ?thesis unfolding BlockTransaction_write_def
    by (rule yields_bind) (intro yields_on_disk write_block_yields)
qed

lemma tx_blocks_total:
  assumes "sector_store (drv_read D) (drv_write D) sector"
  shows "total_blocks (tx_blocks D)"
proof
  show "yields (\<lambda>b. length b = 4096) (bl_read (tx_blocks D) md block buffer)"
    if "metadata_ok md" "length buffer = 4096" for md block buffer
    using yields_on_disk [OF read_block_yields [OF assms that]] by (simp add: tx_blocks_def)
  show "yields (\<lambda>_. True) (bl_write (tx_blocks D) md block input)" for md block input
    using BlockTransaction_write_yields by (simp add: tx_blocks_def)
qed

lemma rollback_returns: "\<exists>r v'. rollback_blocks D md undo failed v = Some (r, v')"
proof (induction undo arbitrary: failed v)
  case (Cons e es)
  obtain r v1 where "write_block D md (fst e) (snd e) v = Some (r, v1)"
    using write_block_yields [of D md "fst e" "snd e"] unfolding yields_def by blast
  then show ?case using Cons.IH by (cases r) simp_all
qed (simp add: fail_def ret_def)

lemma mount_yields:
  assumes "sector_store (drv_read D) (drv_write D) sector"
  shows "yields metadata_ok (mount D)"
proof -
  have disk: "yields (\<lambda>bs. length bs = 1024) (disk_io (drv_read D lba n 1024))" for lba n
    unfolding yields_def
  proof
    fix v
    obtain r v' where r: "drv_read D lba n 1024 v = (r, v')" by fastforce
    then show "\<exists>r s'. disk_io (drv_read D lba n 1024) v = Some (r, s') \<and> (\<forall>a. r = Inr a \<longrightarrow> length a = 1024)"
      using sector_store.read_gives [OF assms, of lba n 1024 v _ v'] by (cases r) (simp_all add: disk_io_def)
  qed
  have opt: "yields (\<lambda>v. v < 2 ^ 32) (if b then ret k else u32_field bytes offset)"
    if "offset + 4 \<le> length bytes" "k < 2 ^ 32" for b k bytes offset
    using that by (intro yields_if yields_ret yields_u32)
  have opt16: "yields (\<lambda>v. v < 2 ^ 32) (if b then ret k else u16_field bytes offset)"
    if "offset + 2 \<le> length bytes" "k < 2 ^ 32" for b k bytes offset
    using that by (intro yields_if yields_ret yields_weaken [OF yields_u16]) simp_all
  have ok: "metadata_ok (md\<lparr>em_group_count := g\<rparr>)"
    if "\<not> sizes_invalid md revision" "em_block_size md = 1024 * 2 ^ k" "\<not> 2 < k" "em_blocks_count md < 2 ^ 32" for md revision g k
  proof -
    have "k = 0 \<or> k = 1 \<or> k = 2" using that(3) by auto
    then have "em_block_size md \<in> {1024, 2048, 4096}" using that(2) by auto
    then show ?thesis using that(1,4) by (auto simp: sizes_invalid_def metadata_ok_def mod_eq_0_iff_dvd)
  qed
  show ?thesis unfolding mount_def SUPERBLOCK_SIZE_def Let_def
    by (intro yields_bind [OF disk] yields_bind [OF yields_u16] yields_if yields_fail yields_bind [OF yields_u32]
        yields_bind [OF opt] yields_bind [OF opt16] yields_bind [OF yields_lift [where Q = "\<lambda>_. True"]] yields_ret ok)
      (simp_all)
qed

lemma ceil_blocks_chunks: "0 < n \<Longrightarrow> length (block_chunks n contents) = ceil_blocks (length contents) n"
proof (induction n contents rule: block_chunks.induct)
  case (1 n contents)
  show ?case
  proof (cases "contents = []")
    case False
    have "ceil_blocks (length contents) n = Suc (ceil_blocks (length contents - n) n)"
    proof (cases "n \<le> length contents")
      case True
      then show ?thesis using 1(2) by (simp add: ceil_blocks_def le_div_geq le_mod_geq)
    next
      case False
      then show ?thesis using \<open>contents \<noteq> []\<close> by (simp add: ceil_blocks_def)
    qed
    then show ?thesis using 1 False by (simp add: block_chunks.simps [of n contents])
  qed (simp add: block_chunks.simps ceil_blocks_def)
qed

lemma allocate_data_block_yields:
  assumes "writable_ok md" "length bitmap = 4096"
  shows "yields (\<lambda>(_, b). length b = 4096) (allocate_data_block md bitmap :: ('s, nat \<times> byte list) io)"
  unfolding allocate_data_block_def
  by (intro yields_bind [OF free_block_yields] yields_bind [OF update_block_bitmap_yields] yields_ret)
    (auto intro: assms)

lemma allocate_blocks_yields:
  "writable_ok md \<Longrightarrow> length bitmap = 4096 \<Longrightarrow>
    yields (\<lambda>(bs, b). length bs = n \<and> length b = 4096) (allocate_blocks md n bitmap :: ('s, nat list \<times> byte list) io)"
proof (induction n arbitrary: bitmap)
  case (Suc n)
  show ?case unfolding allocate_blocks.simps
    by (rule yields_bind [OF allocate_data_block_yields [OF Suc.prems]])
      (auto intro!: yields_bind [OF Suc.IH] Suc.prems yields_ret)
qed (auto intro: yields_ret)

lemma plan_layout_yields:
  assumes "writable_ok md" "length bitmap = 4096"
  shows "yields (\<lambda>(l, b). length (ly_data l) = n \<and> length (ly_leaves l) = ceil_blocks (n - k) (em_block_size md div 4)
    \<and> length b = 4096) (plan_layout D md n k bitmap)"
proof -
  have opt: "yields (\<lambda>(_, b). length b = 4096) (if c then allocate_data_block md b else ret (0, b) :: ('s, nat \<times> byte list) io)"
    if "length b = 4096" for c b
    using that by (intro yields_if allocate_data_block_yields assms yields_ret) simp_all
  show ?thesis unfolding plan_layout_def Let_def
    by (intro yields_bind [OF reserve_yields] yields_bind2 [OF opt] yields_bind2 [OF allocate_blocks_yields] assms yields_ret)
      (simp_all)
qed

lemma run_commit_returns:
  assumes "sector_store (drv_read D) (drv_write D) sector" "writable_ok md"
    "case cm_tables c of (_, _, d, b, i) \<Rightarrow> length d = 4096 \<and> length b = 4096 \<and> length i = 4096"
    "cm_inode c \<le> em_inodes_count md"
  shows "yields (\<lambda>_. True) (run_commit D md c old_blocks)"
  unfolding yields_def
proof
  fix v
  note tx = tx_blocks_total [OF assms(1)]
  obtain r1 u1 v1 where c1: "commit_file (tx_blocks D) md c ([], v) = Some (r1, u1, v1)"
    using total_blocks.commit_file_yields [OF tx assms(2-4)] unfolding yields_def by (metis surj_pair)
  obtain r2 u2 v2 where c2: "free_data_blocks (tx_blocks D) md old_blocks ([], v1) = Some (r2, u2, v2)"
    using total_blocks.free_data_blocks_yields [OF tx assms(2)] unfolding yields_def by (metis surj_pair)
  have recover: "\<exists>r v'. BlockTransaction_rollback D md undo v = Some (r, v')" for undo v
    unfolding BlockTransaction_rollback_def by (rule rollback_returns)
  obtain r3 v3 where b3: "BlockTransaction_rollback D md u2 v2 = Some (r3, v3)" using recover by blast
  obtain r4 v4 where b4: "BlockTransaction_rollback D md u1 v3 = Some (r4, v4)" using recover by blast
  obtain r5 v5 where b5: "BlockTransaction_rollback D md u1 v1 = Some (r5, v5)" using recover by blast
  show "\<exists>r s'. run_commit D md c old_blocks v = Some (r, s') \<and> (\<forall>a. r = Inr a \<longrightarrow> True)"
    using c1 c2 b3 b4 b5
    by (cases r1; cases r2; cases r5) (simp_all add: run_commit_def bind_io_def fail_def)
qed

lemma collect_file_allocations_yields:
  assumes "sector_store (drv_read D) (drv_write D) sector" "metadata_ok md"
  shows "yields (\<lambda>_. True) (collect_file_allocations D md inode)"
proof -
  note disk = disk_blocks_total [OF assms(1)]
  have direct: "yields (\<lambda>_. True) (fold_io (\<lambda>block blocks. if em_blocks_count md \<le> block then fail InvalidFilesystem
      else lift (push_unique_block blocks block)) xs [])" for xs
    by (intro yields_fold yields_if yields_fail yields_lift TrueI)
  show ?thesis unfolding collect_file_allocations_def Let_def
    by (intro yields_bind [OF yields_lift [where Q = "\<lambda>_. True"]] yields_if yields_fail yields_bind [OF reserve_yields]
        yields_bind [OF direct] yields_bind [OF total_blocks.collect_indirect_yields [OF disk assms(2)]]
        total_blocks.collect_double_yields [OF disk assms(2)] TrueI)
qed

lemma leaves_bound: "k \<le> 268 + 256 * 256 \<Longrightarrow> ceil_blocks (k - 268) 256 \<le> 1024"
proof -
  assume "k \<le> 268 + 256 * 256"
  then have "(k - 268) div 256 \<le> 256" by linarith
  then show ?thesis by (simp add: ceil_blocks_def)
qed

lemma ceil_blocks_le: "0 < b \<Longrightarrow> a \<le> b * m \<Longrightarrow> ceil_blocks a b \<le> m"
proof -
  assume b: "0 < b" "a \<le> b * m"
  show ?thesis
  proof (cases "a mod b = 0")
    case True
    then show ?thesis using b by (simp add: ceil_blocks_def) (metis div_le_mono nonzero_mult_div_cancel_left less_numeral_extra(3))
  next
    case False
    then have "a \<noteq> b * m" by auto
    then have "a < b * m" using b by simp
    then have "a div b < m" by (simp add: less_mult_imp_div_less mult.commute)
    then show ?thesis using False by (simp add: ceil_blocks_def)
  qed
qed

lemma write_file_yields:
  assumes "sector_store (drv_read D) (drv_write D) sector" "cell_ok cell"
  shows "yields (\<lambda>_. True) (write_file D cell path contents)"
proof -
  note disk = disk_blocks_total [OF assms(1)]
  note lift_rule = yields_bind [OF yields_lift [where Q = "\<lambda>_. True"]]
  have run: "yields (\<lambda>_. True) (let allocated_blocks = length (ly_data l) + (if DIRECT_BLOCKS < length (ly_data l) then 1 else 0)
          + (if ly_leaves l \<noteq> [] then 1 else 0) + length (ly_leaves l)
      in bind_io (lift (to_i32 allocated_blocks)) (\<lambda>_.
      bind_io (write_contents (disk_blocks D) md single_capacity l contents) (\<lambda>_.
      bind_io (lift (ok_or InvalidFilesystem (checked_mul32 allocated_blocks (em_block_size md div 512))))
      (\<lambda>allocated_blocks_512. run_commit D md \<lparr>cm_tables = (bn, inn, d, b, i),
        cm_inode = n, cm_new = new, cm_parent = parent, cm_name = name,
        cm_size = length contents, cm_layout = l, cm_count = allocated_blocks,
        cm_sectors = allocated_blocks_512\<rparr> old_blocks))))"
    if "writable_ok md" "length d = 4096" "length b = 4096" "length i = 4096" "n \<le> em_inodes_count md"
      "length (ly_data l) = ceil_blocks (length contents) (em_block_size md)" "length (ly_leaves l) \<le> 1024"
    for md l single_capacity bn inn d b i n new parent name old_blocks
    unfolding Let_def
    using that ceil_blocks_chunks [of "em_block_size md" contents]
    by (intro lift_rule yields_bind [OF total_blocks.write_contents_yields [OF disk]] run_commit_returns [OF assms(1)] TrueI)
      (simp_all add: writable_ok_def)
  have old: "yields (\<lambda>_. True) (case target of Some (_, inode) \<Rightarrow> collect_file_allocations D md inode | None \<Rightarrow> ret [])"
    if "writable_ok md" for target :: "(nat \<times> Inode) option" and md
    using that by (cases target) (auto simp: writable_ok_def intro!: yields_ret collect_file_allocations_yields [OF assms(1)])
  have number: "yields (\<lambda>n. n \<le> em_inodes_count md) (case target of None \<Rightarrow> free_inode_in md i | Some (n, _) \<Rightarrow> ret n)"
    if "writable_ok md" "length i = 4096" "\<forall>n x. target = Some (n, x) \<longrightarrow> n \<noteq> 0 \<and> n \<le> em_inodes_count md"
    for target :: "(nat \<times> Inode) option" and md i
    using that by (cases target) (auto intro!: yields_ret yields_weaken [OF free_inode_yields])
  have space: "yields (\<lambda>_. True) (if (target :: (nat \<times> Inode) option) = None
      then ensure_directory_entry_space (disk_blocks D) md parent name else ret ())"
    if "writable_ok md" for target md parent name
    using that by (intro yields_if yields_ret total_blocks.ensure_space_yields [OF disk]) (simp_all add: writable_ok_def)
  have single: "yields (\<lambda>n. n = 268) (lift (single_indirect_capacity md) :: ('a, nat) io)" if "writable_ok md" for md
    using that by (intro yields_lift) (simp add: single_indirect_capacity_def writable_ok_def DIRECT_BLOCKS_def)
  have most: "yields (\<lambda>n. n = 1024 * (268 + 256 * 256)) (lift (bind_res (double_indirect_capacity md)
      (\<lambda>n. ok_or UnsupportedFeature (checked_mul (em_block_size md) n))) :: ('a, nat) io)" if "writable_ok md" for md
    using that by (intro yields_lift)
      (auto simp: single_indirect_capacity_def double_indirect_capacity_def writable_ok_def DIRECT_BLOCKS_def)
  have leaves: "ceil_blocks (ceil_blocks (length contents) (em_block_size md) - 268) (em_block_size md div 4) \<le> 1024"
    if "writable_ok md" "\<not> (1024 * (268 + 256 * 256) < length contents \<or> u32_limit \<le> length contents)" for md
    using that ceil_blocks_le [of 1024 "length contents" "268 + 256 * 256"] leaves_bound by (simp add: writable_ok_def)
  show ?thesis unfolding write_file_def
    by (intro yields_bind [OF writable_yields [OF assms(2)]]
        yields_bind3 [OF total_blocks.resolve_parent_yields [OF disk assms(2)]] yields_bind [OF single] yields_bind [OF most]
        yields_if yields_fail yields_bind [OF total_blocks.find_target_yields [OF disk]] yields_bind [OF space]
        yields_bind [OF old] yields_bind5 [OF total_blocks.tables_yields [OF disk]] yields_bind [OF number]
        yields_bind2 [OF plan_layout_yields] run)
      (use leaves in \<open>simp_all add: writable_ok_def\<close>)
qed

lemma remove_file_yields:
  assumes "sector_store (drv_read D) (drv_write D) sector" "cell_ok cell"
  shows "yields (\<lambda>_. True) (remove_file D cell path)"
proof -
  note disk = disk_blocks_total [OF assms(1)]
  have md: "writable_ok md \<Longrightarrow> metadata_ok md" for md by (simp add: writable_ok_def)
  show ?thesis unfolding remove_file_def
    by (intro yields_bind [OF writable_yields [OF assms(2)]]
        yields_bind3 [OF total_blocks.resolve_parent_yields [OF disk assms(2) md]]
        yields_bind [OF total_blocks.find_child_yields [OF disk md]]
        yields_bind [OF yields_lift [where Q = "\<lambda>_. True"]]
        yields_bind [OF total_blocks.read_inode_yields [OF disk md]] yields_if yields_fail
        yields_bind [OF collect_file_allocations_yields [OF assms(1) md]] total_blocks.remove_entry_yields [OF disk])
      auto
qed

lemma read_file_yields:
  assumes "sector_store (drv_read D) (drv_write D) sector" "cell_ok cell"
  shows "yields (\<lambda>_. True) (read_file (disk_blocks D) cell path out)"
    "yields (\<lambda>_. True) (read_file_vec D cell path max_size)"
proof -
  note disk = disk_blocks_total [OF assms(1)]
  show "yields (\<lambda>_. True) (read_file (disk_blocks D) cell path out)" unfolding read_file_def
    by (intro yields_bind [OF metadata_yields [OF assms(2)]] yields_bind [OF total_blocks.lookup_yields [OF disk assms(2)]])
      (auto intro!: yields_ret yields_if yields_bind [OF total_blocks.read_inode_contents_yields [OF disk]] split: option.split)
  show "yields (\<lambda>_. True) (read_file_vec D cell path max_size)" unfolding read_file_vec_def
    by (intro yields_bind [OF metadata_yields [OF assms(2)]] yields_bind [OF total_blocks.lookup_yields [OF disk assms(2)]])
      (auto intro!: yields_ret yields_if yields_fail yields_bind [OF reserve_yields]
        yields_bind [OF total_blocks.read_inode_contents_yields [OF disk]] split: option.split)
qed

lemma listing_yields:
  assumes "sector_store (drv_read D) (drv_write D) sector" "cell_ok cell"
  shows "yields (\<lambda>_. True) (ext2_for_each_entry (disk_blocks D) cell path)"
    "yields (\<lambda>_. True) (ext2_directory_exists (disk_blocks D) cell path)"
    "yields (\<lambda>_. True) (free_block_count (disk_blocks D) cell)"
proof -
  note disk = disk_blocks_total [OF assms(1)]
  show "yields (\<lambda>_. True) (ext2_for_each_entry (disk_blocks D) cell path)" unfolding ext2_for_each_entry_def
    by (intro yields_bind [OF yields_on_disk [OF total_blocks.lookup_yields [OF disk assms(2)]]])
      (auto intro!: yields_ret yields_if total_blocks.for_each_child_yields [OF disk] assms split: option.split)
  show "yields (\<lambda>_. True) (ext2_directory_exists (disk_blocks D) cell path)" unfolding ext2_directory_exists_def
    by (intro yields_bind [OF total_blocks.lookup_yields [OF disk assms(2)]] yields_ret TrueI)
  show "yields (\<lambda>_. True) (free_block_count (disk_blocks D) cell)" unfolding free_block_count_def
    by (intro yields_bind [OF metadata_yields [OF assms(2)]] yields_bind [OF total_blocks.rd [OF disk]]
        yields_weaken [OF yields_u32]) simp_all
qed

lemma initialize_cell_ok:
  assumes "sector_store (drv_read D) (drv_write D) sector" "ext2_initialize D None v = Some (r, cell, v')"
  shows "cell_ok cell"
proof -
  obtain m w where m: "mount D v = Some (m, w)" "\<forall>md. m = Inr md \<longrightarrow> metadata_ok md"
    using mount_yields [OF assms(1)] unfolding yields_def by blast
  then have "cell = Some m" using assms(2) by (auto simp: ext2_initialize_def)
  then show ?thesis using m(2) by (simp add: cell_ok_def)
qed

section \<open>The driver of the kernel\<close>

lemma ata_driver_store:
  "sector_store (drv_read (ata_driver disk_ports reserve)) (drv_write (ata_driver disk_ports reserve)) disk_sector"
  unfolding ata_driver_def using ata.sector_store_axioms by simp

interpretation ext2_direct: total_blocks "disk_blocks (ata_driver disk_ports reserve)"
  by (rule disk_blocks_total [OF ata_driver_store])

interpretation ext2_tx: total_blocks "tx_blocks (ata_driver disk_ports reserve)"
  by (rule tx_blocks_total [OF ata_driver_store])

text \<open>C7. The file system never panics. On any driver that keeps the laws of a sector store, once
  \<open>initialize\<close> has run, every public operation, for every path and every argument, returns from every
  state of the disk: whatever bytes the disk holds, no index into a block, an inode, a bitmap or a
  directory is out of range, and every loop ends.\<close>

theorem ext2_never_panics:
  assumes "sector_store (drv_read D) (drv_write D) sector"
    and "ext2_initialize D None v0 = Some (r0, cell, v1)"
  shows "lookup (disk_blocks D) cell path v \<noteq> None
    \<and> ext2_directory_exists (disk_blocks D) cell path v \<noteq> None
    \<and> ext2_for_each_entry (disk_blocks D) cell path (visits, v) \<noteq> None
    \<and> read_file (disk_blocks D) cell path out v \<noteq> None
    \<and> read_file_vec D cell path max_size v \<noteq> None
    \<and> free_block_count (disk_blocks D) cell v \<noteq> None
    \<and> create_directory (disk_blocks D) cell path v \<noteq> None
    \<and> remove_file D cell path v \<noteq> None
    \<and> remove_empty_directory (disk_blocks D) cell path v \<noteq> None
    \<and> write_file D cell path contents v \<noteq> None"
proof -
  note disk = disk_blocks_total [OF assms(1)] and cell = initialize_cell_ok [OF assms]
  show ?thesis
    by (intro conjI yields_returns [OF total_blocks.lookup_yields [OF disk cell]]
        yields_returns [OF listing_yields(1) [OF assms(1) cell]] yields_returns [OF listing_yields(2) [OF assms(1) cell]]
        yields_returns [OF listing_yields(3) [OF assms(1) cell]] yields_returns [OF read_file_yields(1) [OF assms(1) cell]]
        yields_returns [OF read_file_yields(2) [OF assms(1) cell]]
        yields_returns [OF total_blocks.create_directory_yields [OF disk cell]]
        yields_returns [OF remove_file_yields [OF assms(1) cell]]
        yields_returns [OF total_blocks.remove_empty_directory_yields [OF disk cell]]
        yields_returns [OF write_file_yields [OF assms(1) cell]])
qed

text \<open>A formatted disk of 64 blocks of 1024 bytes, one group with 32 inodes: its superblock.\<close>

definition formatted_super :: "(nat \<times> byte) list" where
  "formatted_super = [(1024, 32), (1028, 64), (1044, 1), (1057, 32), (1064, 32), (1080, 0x53), (1081, 0xef)]"

definition formatted_disk :: Disk where
  "formatted_disk = blank_disk\<lparr>dv_bytes := (\<lambda>i. case map_of formatted_super i of None \<Rightarrow> 0 | Some b \<Rightarrow> b)\<rparr>"

definition formatted_metadata :: Metadata where
  "formatted_metadata = \<lparr>em_block_size = 1024, em_blocks_count = 64, em_inodes_count = 32, em_first_data_block = 1,
    em_blocks_per_group = 8192, em_inodes_per_group = 32, em_inode_size = 128, em_group_count = 1,
    em_incompat_features = 0\<rparr>"

lemma range_bytes_at: "a \<le> b \<Longrightarrow> b \<le> n \<Longrightarrow> get_range (bytes_at d pos n) a b = Some (bytes_at d (pos + a) (b - a))"
  by (simp add: get_range_def bytes_at_def take_map drop_map)

lemma le_bytes_at:
  "offset + 4 \<le> n \<Longrightarrow> le32 (bytes_at d pos n) offset = Some (le_nat (bytes_at d (pos + offset) 4))"
  "offset + 2 \<le> n \<Longrightarrow> le16 (bytes_at d pos n) offset = Some (le_nat (bytes_at d (pos + offset) 2))"
  by (simp_all add: le32_def le16_def range_bytes_at)

lemma formatted_fields:
  "le_nat (bytes_at formatted_disk 1024 4) = 32" "le_nat (bytes_at formatted_disk 1028 4) = 64"
  "le_nat (bytes_at formatted_disk 1044 4) = 1" "le_nat (bytes_at formatted_disk 1048 4) = 0"
  "le_nat (bytes_at formatted_disk 1052 4) = 0" "le_nat (bytes_at formatted_disk 1056 4) = 8192"
  "le_nat (bytes_at formatted_disk 1064 4) = 32" "le_nat (bytes_at formatted_disk 1080 2) = 0xef53"
  "le_nat (bytes_at formatted_disk 1100 4) = 0"
  by (simp_all add: bytes_at_def formatted_disk_def formatted_super_def blank_disk_def upt_conv_Cons)

lemma formatted_mount:
  "\<exists>d. mount (ata_driver disk_ports reserve) formatted_disk = Some (Inr formatted_metadata, d) \<and> ready d \<and> dv_bytes d = dv_bytes formatted_disk"
proof -
  have "ready formatted_disk" by (simp add: ready_def formatted_disk_def blank_disk_def dv_status_def)
  moreover have "validate_request 2 2 1024 = Inr ()" by (simp add: validate_request_def MAX_LBA28_def)
  ultimately obtain d where d: "read_sectors disk_ports 2 2 1024 formatted_disk = (Inr (bytes_at formatted_disk 1024 1024), d)" "ready d"
    using disk_read_ready [of formatted_disk 2 2 1024] by auto
  have "\<not> sizes_invalid (formatted_metadata\<lparr>em_group_count := 0\<rparr>) 0"
    by (simp add: sizes_invalid_def formatted_metadata_def ROOT_INODE_def)
  moreover have "group_count (formatted_metadata\<lparr>em_group_count := 0\<rparr>) = Inr 1"
    by (simp add: group_count_def formatted_metadata_def checked_sub_def checked_add32_def checked_mul32_def u32_limit_def
        MAX_GROUPS_def disk_block_size_def Let_def)
  ultimately have "mount (ata_driver disk_ports reserve) formatted_disk = Some (Inr formatted_metadata, d)"
    using d(1)
    by (simp add: mount_def ata_driver_def SUPERBLOCK_OFFSET_def SUPERBLOCK_SIZE_def disk_io_def bind_io_def lift_def
        u16_field_def u32_field_def must_def le_bytes_at formatted_fields ret_def fail_def formatted_metadata_def)
  then show ?thesis using d read_disk(1) [OF d(1)] by blast
qed

theorem ext2_never_panics_witness:
  "\<exists>d. ext2_initialize (ata_driver disk_ports (\<lambda>_ _. True)) None formatted_disk = Some (Inr (), Some (Inr formatted_metadata), d)
    \<and> write_file (ata_driver disk_ports (\<lambda>_ _. True)) (Some (Inr formatted_metadata)) (ascii ''/notes'') (ascii ''leaf'') d \<noteq> None"
proof -
  obtain d where d: "mount (ata_driver disk_ports (\<lambda>_ _. True)) formatted_disk = Some (Inr formatted_metadata, d)"
    using formatted_mount by blast
  then have i: "ext2_initialize (ata_driver disk_ports (\<lambda>_ _. True)) None formatted_disk = Some (Inr (), Some (Inr formatted_metadata), d)"
    by (simp add: ext2_initialize_def)
  show ?thesis using ext2_never_panics [OF ata_driver_store i, of "ascii ''/notes''" d] i by blast
qed

end
