(* ===== verification/Ext2_Atomic.thy ===== *)
theory Ext2_Atomic
  imports Ext2_Safety
begin

text \<open>
  Failed writes of the file system leave it as it was. A block transaction saves the blocks it writes
  and its rollback restores them; \<open>write_file\<close> writes contents only to blocks that the bitmap has as
  free, and everything else in a transaction. The locales \<open>kept_reads\<close> and \<open>kept_blocks\<close> are what an
  invariant of the state needs to be kept by the operations.
\<close>

section \<open>Blocks on the disk\<close>

definition block_at :: "Metadata \<Rightarrow> (nat \<Rightarrow> byte list) \<Rightarrow> nat \<Rightarrow> byte list" where
  "block_at md S b = sectors_of S (b * (em_block_size md div 512)) (em_block_size md div 512)"

definition same_blocks :: "Metadata \<Rightarrow> nat set \<Rightarrow> (nat \<Rightarrow> byte list) \<Rightarrow> (nat \<Rightarrow> byte list) \<Rightarrow> bool" where
  "same_blocks md X S S' \<longleftrightarrow> (\<forall>b < em_blocks_count md. b \<notin> X \<longrightarrow> block_at md S' b = block_at md S b)"

lemma same_blocks_refl [simp]: "same_blocks md X S S"
  by (simp add: same_blocks_def)

lemma same_blocks_trans: "same_blocks md X S S' \<Longrightarrow> same_blocks md Y S' S'' \<Longrightarrow> X \<union> Y \<subseteq> Z \<Longrightarrow> same_blocks md Z S S''"
  unfolding same_blocks_def by (metis UnCI subsetD)

lemma blocks_disjoint: "b \<noteq> b' \<Longrightarrow> b' * k + k \<le> b * k \<or> b * k + k \<le> b' * (k :: nat)"
proof -
  assume "b \<noteq> b'"
  then consider "Suc b' \<le> b" | "Suc b \<le> b'" by linarith
  then show ?thesis
  proof cases
    case 1 then have "Suc b' * k \<le> b * k" by (rule mult_le_mono1) then show ?thesis by simp
  next
    case 2 then have "Suc b * k \<le> b' * k" by (rule mult_le_mono1) then show ?thesis by simp
  qed
qed

locale ext2_store = sector_store "drv_read D" "drv_write D" sector
  for D :: "'v Driver" and sector :: "'v \<Rightarrow> nat \<Rightarrow> byte list"
begin

lemma length_block_at: "metadata_ok md \<Longrightarrow> length (block_at md (sector v) b) = em_block_size md"
  by (auto simp: block_at_def length_sectors metadata_ok_def)

lemma read_block_gives:
  assumes "read_block D md b buffer v = Some (r, v')" "metadata_ok md"
  shows "sector v' = sector v"
    "r = Inr x \<Longrightarrow> b < em_blocks_count md \<and> x = block_at md (sector v) b @ drop (em_block_size md) buffer"
proof -
  let ?k = "em_block_size md div 512"
  have k: "em_block_size md = 512 * ?k" using assms(2) by (auto simp: metadata_ok_def)
  have "sector v' = sector v \<and> (\<forall>x. r = Inr x \<longrightarrow>
      b < em_blocks_count md \<and> x = block_at md (sector v) b @ drop (em_block_size md) buffer)"
  proof (cases "em_blocks_count md \<le> b \<or> length buffer < em_block_size md \<or> \<not> ?k < 256 \<or> checked_mul32 b ?k = None")
    case True
    then show ?thesis using assms(1)
      by (auto simp: read_block_def bind_io_def lift_def fail_def disk_block_size_def split: if_splits)
  next
    case False
    obtain q w where q: "drv_read D (b * ?k) ?k (em_block_size md) v = (q, w)" by fastforce
    have "(r, v') = (case q of Inl e \<Rightarrow> (Inl (Disk e), w) | Inr bs \<Rightarrow> (Inr (bs @ drop (em_block_size md) buffer), w))"
      using False assms(1) q
      by (auto simp: read_block_def bind_io_def lift_def ret_def disk_block_size_def disk_io_def checked_mul32_def
          split: if_splits sum.splits)
    then show ?thesis using False rd_keeps [OF q] read_gives [of "b * ?k" ?k "em_block_size md" v _ w] q
      by (cases q) (auto simp: block_at_def)
  qed
  then show "sector v' = sector v"
    "r = Inr x \<Longrightarrow> b < em_blocks_count md \<and> x = block_at md (sector v) b @ drop (em_block_size md) buffer" by blast+
qed

lemma write_block_gives:
  assumes "write_block D md b input v = Some (r, v')" "metadata_ok md"
  shows "same_blocks md {b} (sector v) (sector v')"
    "r = Inr u \<Longrightarrow> b < em_blocks_count md \<and> block_at md (sector v') b = take (em_block_size md) input"
proof -
  let ?k = "em_block_size md div 512"
  have "same_blocks md {b} (sector v) (sector v') \<and> (\<forall>u. r = Inr u \<longrightarrow>
      b < em_blocks_count md \<and> block_at md (sector v') b = take (em_block_size md) input)"
  proof (cases "em_blocks_count md \<le> b \<or> length input < em_block_size md \<or> \<not> ?k < 256 \<or> checked_mul32 b ?k = None")
    case True
    then show ?thesis using assms(1)
      by (auto simp: write_block_def bind_io_def lift_def fail_def disk_block_size_def split: if_splits)
  next
    case False
    obtain q w where q: "drv_write D (b * ?k) ?k (take (em_block_size md) input) v = (q, w)" by fastforce
    have eq: "(r, v') = (map_err Disk q, w)"
      using False assms(1) q
      by (auto simp: write_block_def bind_io_def lift_def ret_def disk_block_size_def disk_io_def checked_mul32_def
          split: if_splits sum.splits)
    have "block_at md (sector w) b' = block_at md (sector v) b'" if "b' \<noteq> b" for b'
      unfolding block_at_def by (rule write_outside [OF q]) (use blocks_disjoint [of b b' ?k] that in auto)
    then show ?thesis using eq False write_stores [of "b * ?k" ?k _ v _ w] q
      by (auto simp: same_blocks_def block_at_def)
  qed
  then show "same_blocks md {b} (sector v) (sector v')"
    "r = Inr u \<Longrightarrow> b < em_blocks_count md \<and> block_at md (sector v') b = take (em_block_size md) input" by blast+
qed

end

section \<open>Invariants of the state\<close>

definition preserves :: "('s \<Rightarrow> bool) \<Rightarrow> ('s, 'a) io \<Rightarrow> bool" where
  "preserves I m \<longleftrightarrow> (\<forall>s r s'. I s \<longrightarrow> m s = Some (r, s') \<longrightarrow> I s')"

named_theorems keep

lemma preserves_basic [keep]:
  "preserves I (ret a)" "preserves I (fail e)" "preserves I (lift r)" "preserves I (must x)" "preserves I (pure_io y)"
  by (auto simp: preserves_def ret_def fail_def lift_def must_def pure_io_def)

lemma preserves_fields [keep]: "preserves I (u32_field bytes offset)" "preserves I (u16_field bytes offset)"
  by (simp_all add: u32_field_def u16_field_def preserves_basic)

lemma preservesD: "preserves I m \<Longrightarrow> I s \<Longrightarrow> m s = Some (r, s') \<Longrightarrow> I s'"
  unfolding preserves_def by blast

lemma preserves_bind [keep]:
  assumes "preserves I m" "\<And>a. preserves I (f a)"
  shows "preserves I (bind_io m f)"
  unfolding preserves_def
proof (intro allI impI)
  fix s r s' assume i: "I s" "bind_io m f s = Some (r, s')"
  then obtain q t where q: "m s = Some (q, t)" by (auto simp: bind_io_def split: option.splits)
  have "I t" using preservesD [OF assms(1) i(1) q] .
  then show "I s'" using i(2) q preservesD [OF assms(2)] by (cases q) (auto simp: bind_io_def)
qed

lemma preserves_if [keep]: "preserves I m \<Longrightarrow> preserves I m' \<Longrightarrow> preserves I (if b then m else m')"
  by simp

lemma preserves_case_option [keep]: "preserves I m \<Longrightarrow> (\<And>a. preserves I (f a)) \<Longrightarrow>
    preserves I (case x of None \<Rightarrow> m | Some a \<Rightarrow> f a)"
  by (cases x) auto

lemma preserves_case_prod [keep]: "(\<And>a b. preserves I (f a b)) \<Longrightarrow> preserves I (case x of (a, b) \<Rightarrow> f a b)"
  by (cases x) auto

lemma preserves_each [keep]: "(\<And>x. x \<in> set xs \<Longrightarrow> preserves I (f x)) \<Longrightarrow> preserves I (each_io f xs)"
  by (induction xs) (auto intro: keep)

lemma preserves_fold [keep]: "(\<And>x b. preserves I (f x b)) \<Longrightarrow> preserves I (fold_io f xs b)"
  by (induction xs arbitrary: b) (auto intro: keep)

lemma preserves_reserve [keep]: "preserves I (reserve_io D n)"
  by (auto simp: preserves_def reserve_io_def ret_def fail_def)

lemma preserves_block_pointer [keep]: "preserves I (block_pointer md raw offset)"
  unfolding block_pointer_def by (intro keep)

lemma preserves_block_pointers [keep]: "preserves I (block_pointers md raw is)"
  by (induction "is") (auto intro: keep)

lemma preserves_parse_inode [keep]: "preserves I (parse_inode md raw)"
  unfolding parse_inode_def by (intro keep)

lemma preserves_pure_parts [keep]:
  "preserves I (free_block_in md bitmap)" "preserves I (free_inode_in md bitmap)"
  "preserves I (clear_blocks md blocks bitmap)" "preserves I (allocate_data_block md bitmap)"
  "preserves I (collect_pointers md pointers bs)"
  unfolding free_block_in_def free_inode_in_def clear_blocks_def allocate_data_block_def collect_pointers_def
  by (intro keep)+

lemma preserves_allocate_blocks [keep]: "preserves I (allocate_blocks md n bitmap)"
  by (induction n arbitrary: bitmap) (auto intro!: keep)

lemma preserves_plan_layout [keep]: "preserves I (plan_layout D md n k bitmap)"
  unfolding plan_layout_def Let_def by (intro keep)

locale kept_reads =
  fixes B :: "'s Blocks" and md :: Metadata and I :: "'s \<Rightarrow> bool"
  assumes rd [keep]: "preserves I (bl_read B md block buffer)"
begin

lemma keeps_group_descriptor [keep]: "preserves I (read_group_descriptor B md g buffer)"
  unfolding read_group_descriptor_def Let_def by (intro keep)

lemma keeps_locate_inode [keep]: "preserves I (locate_inode B md i)"
  unfolding locate_inode_def Let_def by (intro keep)

lemma keeps_read_inode [keep]: "preserves I (read_inode B md n)"
  unfolding read_inode_def Let_def by (intro keep)

lemma keeps_inode_data_block [keep]: "preserves I (inode_data_block B md inode i c)"
  unfolding inode_data_block_def load_indirect_def load_double_def Let_def by (intro keep)

lemma keeps_directory_block [keep]: "preserves I (directory_block B md directory i bufs)"
  unfolding directory_block_def by (intro keep)

lemma keeps_find_in_blocks [keep]: "preserves I (find_in_blocks B md directory child is bufs remaining)"
  by (induction "is" arbitrary: bufs remaining) (auto intro!: keep)

lemma keeps_find_child [keep]: "preserves I (find_child B md directory child)"
  unfolding find_child_def by (intro keep)

lemma keeps_walk [keep]: "preserves I (ext2_walk B md path at)"
  by (induction path arbitrary: at) (auto intro!: keep)

lemma keeps_find_inode_number [keep]: "preserves I (find_inode_number B md path)"
  unfolding find_inode_number_def by (intro keep)

lemma keeps_lookup [keep]: "preserves I (lookup B (Some (Inr md)) path)"
proof -
  have "lookup B (Some (Inr md)) path = bind_io (read_inode B md ROOT_INODE) (\<lambda>root.
      bind_io (ext2_walk B md (split_on is_slash path) (ROOT_INODE, root)) (\<lambda>r. ret (map_option snd r)))"
    by (simp add: lookup_def ext2_metadata_def bind_io_def lift_def)
  then show ?thesis by (simp only:) (intro keep)
qed

lemma keeps_resolve_parent [keep]: "preserves I (resolve_parent B (Some (Inr md)) md path)"
  unfolding resolve_parent_def by (intro keep)

lemma keeps_ensure_space [keep]: "preserves I (ensure_directory_entry_space B md directory name)"
  unfolding ensure_directory_entry_space_def by (intro keep)

lemma keeps_tables [keep]: "preserves I (read_allocation_tables B md)"
  unfolding read_allocation_tables_def by (intro keep)

lemma keeps_collect_indirect [keep]: "preserves I (collect_indirect B md indirect bs)"
  unfolding collect_indirect_def by (intro keep)

lemma keeps_collect_double [keep]: "preserves I (collect_double B md double bs)"
  unfolding collect_double_def by (intro keep)

lemma keeps_find_target [keep]: "preserves I (find_target B md parent name max_file_size)"
  unfolding find_target_def by (intro keep)

end

locale kept_blocks = kept_reads +
  assumes wr [keep]: "preserves I (bl_write B md block input)"
begin

lemma keeps_write_inode_fields [keep]:
  "preserves I (write_inode_fields B md n mode file_size links bs single double allocated is_new)"
  unfolding write_inode_fields_def by (intro keep)

lemma keeps_add_entry [keep]: "preserves I (add_directory_entry B md directory name inode ty)"
  unfolding add_directory_entry_def Let_def by (intro keep)

lemma keeps_counters [keep]: "preserves I (update_free_counters B md descriptor a b)"
  unfolding update_free_counters_def by (intro keep)

lemma keeps_free_data_blocks [keep]: "preserves I (free_data_blocks B md bs)"
  unfolding free_data_blocks_def by (intro keep)

lemma keeps_commit_file [keep]: "preserves I (commit_file B md c)"
  unfolding commit_file_def by (intro keep)

end

section \<open>Block transactions\<close>

text \<open>Within a transaction that started on the sectors \<open>S\<close>: the saved blocks are those of \<open>S\<close>, and the disk
  differs from \<open>S\<close> only in saved blocks.\<close>

definition tx_inv :: "('v \<Rightarrow> nat \<Rightarrow> byte list) \<Rightarrow> Metadata \<Rightarrow> (nat \<Rightarrow> byte list) \<Rightarrow> undo \<times> 'v \<Rightarrow> bool" where
  "tx_inv sector md S s \<longleftrightarrow> (\<forall>e \<in> set (fst s). take (em_block_size md) (snd e) = block_at md S (fst e))
    \<and> same_blocks md (fst ` set (fst s)) S (sector (snd s))"

context ext2_store
begin

lemma tx_read_keeps:
  assumes "metadata_ok md"
  shows "preserves (tx_inv sector md S) (on_disk (read_block D md b buffer))"
  unfolding preserves_def
proof (intro allI impI)
  fix s r s' assume i: "tx_inv sector md S s" "on_disk (read_block D md b buffer) s = Some (r, s')"
  obtain u v where s: "s = (u, v)" by (cases s)
  obtain w where w: "read_block D md b buffer v = Some (r, w)" "s' = (u, w)"
    using i(2) s by (auto simp: on_disk_def)
  show "tx_inv sector md S s'" using i(1) s w(2) read_block_gives(1) [OF w(1) assms] by (simp add: tx_inv_def)
qed

lemma tx_save_keeps:
  assumes "metadata_ok md" "tx_inv sector md S (u, v)" "b \<notin> set (map fst u)"
    "bind_io (on_disk (reserve_io D 1)) (\<lambda>_. bind_io (on_disk (read_block D md b zeroed_block))
      (\<lambda>original. push_undo b original)) (u, v) = Some (r, u', v')"
  shows "tx_inv sector md S (u', v') \<and> (r = Inr () \<longrightarrow> b \<in> set (map fst u'))"
proof (cases "drv_reserve D 1 v")
  case False
  then show ?thesis using assms(2,4) by (auto simp: bind_io_def on_disk_def reserve_io_def fail_def split: if_splits)
next
  case True
  obtain q w where q: "read_block D md b zeroed_block v = Some (q, w)"
    using read_block_returns [of D md b zeroed_block] unfolding yields_def by blast
  note k = read_block_gives [OF q assms(1)]
  show ?thesis
  proof (cases q)
    case (Inl e)
    then have "u' = u" "v' = w" "r = Inl e"
      using True q assms(4) by (simp_all add: bind_io_def on_disk_def reserve_io_def ret_def)
    then show ?thesis using assms(2) k(1) by (simp add: tx_inv_def)
  next
    case (Inr x)
    then have eq: "u' = (b, x) # u" "v' = w"
      using True q assms(4) by (simp_all add: bind_io_def on_disk_def reserve_io_def ret_def push_undo_def)
    have "take (em_block_size md) x = block_at md (sector v) b"
      using k(2) [OF Inr] length_block_at [OF assms(1)] by simp
    also have "\<dots> = block_at md S b"
      using assms(2,3) k(2) [OF Inr] by (auto simp: tx_inv_def same_blocks_def)
    finally show ?thesis using assms(2) eq k(1) by (auto simp: tx_inv_def same_blocks_def)
  qed
qed

lemma tx_write_keeps:
  assumes "metadata_ok md"
  shows "preserves (tx_inv sector md S) (BlockTransaction_write D md b contents)"
  unfolding preserves_def
proof (intro allI impI)
  fix s r s' assume i: "tx_inv sector md S s" "BlockTransaction_write D md b contents s = Some (r, s')"
  let ?save = "bind_io (on_disk (reserve_io D 1)) (\<lambda>_. bind_io (on_disk (read_block D md b zeroed_block))
      (\<lambda>original. push_undo b original))"
  obtain u v where s: "s = (u, v)" by (cases s)
  let ?first = "if b \<in> set (map fst u) then ret () (u, v) else ?save (u, v)"
  obtain q u1 v1 where q: "?first = Some (q, u1, v1)"
    using i(2) s by (auto simp: BlockTransaction_write_def bind_io_def split: option.splits)
  have saved: "tx_inv sector md S (u1, v1) \<and> (q = Inr () \<longrightarrow> b \<in> set (map fst u1))"
  proof (cases "b \<in> set (map fst u)")
    case True then show ?thesis using q i(1) s by (auto simp: ret_def)
  next
    case False then show ?thesis using tx_save_keeps [OF assms _ False] q i(1) s by simp
  qed
  show "tx_inv sector md S s'"
  proof (cases q)
    case (Inl e)
    then have "s' = (u1, v1)" using i(2) s q by (auto simp: BlockTransaction_write_def bind_io_def)
    then show ?thesis using saved by simp
  next
    case (Inr a)
    then obtain w where w: "write_block D md b contents v1 = Some (r, w)" "s' = (u1, w)"
      using i(2) s q by (auto simp: BlockTransaction_write_def bind_io_def on_disk_def)
    show ?thesis using saved Inr w(2) write_block_gives(1) [OF w(1) assms]
      by (auto simp: tx_inv_def intro: same_blocks_trans)
  qed
qed

lemma tx_kept_blocks: "metadata_ok md \<Longrightarrow> kept_blocks (tx_blocks D) md (tx_inv sector md S)"
  using tx_read_keeps tx_write_keeps by unfold_locales (simp_all add: tx_blocks_def)

lemma rollback_result: "rollback_blocks D md undo failed v = Some (r, v') \<Longrightarrow> r = Inr () \<or> r = Inl RecoveryFailed"
  by (induction undo arbitrary: failed v) (auto simp: fail_def ret_def split: option.splits sum.splits if_splits)

lemma rollback_failed: "rollback_blocks D md undo True v = Some (r, v') \<Longrightarrow> r = Inl RecoveryFailed"
  by (induction undo arbitrary: v) (auto simp: fail_def split: option.splits sum.splits)

lemma rollback_restores:
  assumes "metadata_ok md"
  shows "rollback_blocks D md undo False v = Some (Inr u, v') \<Longrightarrow> tx_inv sector md S (undo, v) \<Longrightarrow>
    same_blocks md {} S (sector v')"
proof (induction undo arbitrary: v)
  case Nil
  then show ?case by (simp add: tx_inv_def ret_def)
next
  case (Cons e es)
  obtain q w where q: "write_block D md (fst e) (snd e) v = Some (q, w)"
    using write_block_yields [of D md "fst e" "snd e"] unfolding yields_def by blast
  show ?case
  proof (cases q)
    case (Inl x)
    then show ?thesis using Cons.prems(1) q rollback_failed [of md es w] by simp
  next
    case (Inr x)
    note k = write_block_gives [OF q assms]
    have e: "block_at md (sector w) (fst e) = block_at md S (fst e)"
      using k(2) [OF Inr] Cons.prems(2) by (simp add: tx_inv_def)
    have "same_blocks md (fst ` set es) S (sector w)"
      unfolding same_blocks_def
    proof (intro allI impI)
      fix b assume b: "b < em_blocks_count md" "b \<notin> fst ` set es"
      show "block_at md (sector w) b = block_at md S b"
        using b e k(1) Cons.prems(2) by (cases "b = fst e") (auto simp: same_blocks_def tx_inv_def)
    qed
    then have "tx_inv sector md S (es, w)" using Cons.prems(2) by (simp add: tx_inv_def)
    then show ?thesis using Cons.IH [of w] Cons.prems(1) q Inr by simp
  qed
qed

lemma tx_inv_start: "tx_inv sector md (sector v) ([], v)"
  by (simp add: tx_inv_def)

lemma run_commit_atomic:
  assumes "metadata_ok md" "run_commit D md c old_blocks v = Some (Inl e, v')" "e \<noteq> RecoveryFailed"
  shows "same_blocks md {} (sector v) (sector v')"
proof -
  note tx = tx_kept_blocks [OF assms(1)]
  obtain r1 u1 v1 where c1: "commit_file (tx_blocks D) md c ([], v) = Some (r1, u1, v1)"
    using assms(2) by (auto simp: run_commit_def split: option.splits)
  have i1: "tx_inv sector md (sector v) (u1, v1)"
    by (rule preservesD [OF kept_blocks.keeps_commit_file [OF tx] tx_inv_start c1])
  show ?thesis
  proof (cases r1)
    case (Inl e1)
    obtain r2 where "BlockTransaction_rollback D md u1 v1 = Some (r2, v')" "r2 = Inr () \<or> e = RecoveryFailed"
      using assms(2) c1 Inl rollback_result [of md u1 False v1]
      by (fastforce simp: run_commit_def bind_io_def fail_def BlockTransaction_rollback_def split: option.splits sum.splits)
    then show ?thesis
      using rollback_restores [OF assms(1) _ i1] assms(3) by (auto simp: BlockTransaction_rollback_def)
  next
    case (Inr a)
    obtain r2 u2 v2 where c2: "free_data_blocks (tx_blocks D) md old_blocks ([], v1) = Some (r2, u2, v2)"
      using assms(2) c1 Inr by (auto simp: run_commit_def split: option.splits)
    have i2: "tx_inv sector md (sector v1) (u2, v2)"
      by (rule preservesD [OF kept_blocks.keeps_free_data_blocks [OF tx] tx_inv_start c2])
    obtain e2 where e2: "r2 = Inl e2" using assms(2) c1 c2 Inr by (cases r2) (auto simp: run_commit_def)
    obtain r3 v3 r4 where b3: "BlockTransaction_rollback D md u2 v2 = Some (r3, v3)"
        and b4: "BlockTransaction_rollback D md u1 v3 = Some (r4, v')" and ok: "\<not> isl r3" "\<not> isl r4"
      using assms(2,3) c1 c2 Inr e2 by (auto simp: run_commit_def split: option.splits if_splits)
    have "same_blocks md {} (sector v1) (sector v3)"
      using rollback_restores [OF assms(1) _ i2] b3 ok(1) by (cases r3) (auto simp: BlockTransaction_rollback_def)
    then have "tx_inv sector md (sector v) (u1, v3)"
      using i1 by (auto simp: tx_inv_def intro: same_blocks_trans)
    then show ?thesis
      using rollback_restores [OF assms(1)] b4 ok(2) by (cases r4) (auto simp: BlockTransaction_rollback_def)
  qed
qed

end

section \<open>Free blocks\<close>

definition free_in :: "Metadata \<Rightarrow> byte list \<Rightarrow> nat \<Rightarrow> bool" where
  "free_in md bitmap b \<longleftrightarrow> em_first_data_block md \<le> b \<and> b < em_blocks_count md
    \<and> bitmap_bit bitmap (b - em_first_data_block md) = Some False"

lemma find_free_from_free: "find_free_from bitmap index n = Some (Some i) \<Longrightarrow>
    index \<le> i \<and> i < index + n \<and> bitmap_bit bitmap i = Some False"
proof (induction n arbitrary: index)
  case (Suc n)
  then show ?case by (cases "bitmap_bit bitmap index") (fastforce split: if_splits)+
qed simp

lemma put_bit_True:
  assumes "i div 8 < length bitmap"
  shows "bitmap_bit (put_bit bitmap i True) j = (if j = i then Some True else bitmap_bit bitmap j)"
proof (cases "j div 8 = i div 8")
  case True
  have m: "i mod 8 < 8" by simp
  have "j = i \<longleftrightarrow> j mod 8 = i mod 8" using True by (metis div_mult_mod_eq)
  then show ?thesis using True assms m
    by (auto simp: bitmap_bit_def put_bit_def bit_or_iff bit_push_bit_iff bit_1_iff bit_exp_iff)
next
  case False
  then show ?thesis by (auto simp: bitmap_bit_def put_bit_def)
qed

lemma allocate_data_block_free:
  assumes "allocate_data_block md bitmap s = Some (Inr (b, bitmap'), s')"
  shows "free_in md bitmap b" "free_in md bitmap' x \<longleftrightarrow> free_in md bitmap x \<and> x \<noteq> b"
proof -
  let ?n = "em_blocks_count md - em_first_data_block md"
  obtain i where i: "find_free_from bitmap 0 ?n = Some (Some i)" "b = i + em_first_data_block md"
      and u: "update_block_bitmap md bitmap b True = Some (Inr bitmap')"
    using assms by (auto simp: allocate_data_block_def free_block_in_def find_free_bit_def bind_io_Inr must_def lift_def
        pure_io_def ret_def checked_add32_def ok_or_def split: if_splits option.splits)
  note f = find_free_from_free [OF i(1)]
  have "i + em_first_data_block md < em_blocks_count md" using f by linarith
  then show b: "free_in md bitmap b" using f i(2) by (simp add: free_in_def)
  have "bitmap' = put_bit bitmap i True" and l: "i div 8 < length bitmap"
    using u f i(2) by (auto simp: update_block_bitmap_def change_bit_def bitmap_bit_def split: if_splits)
  then show "free_in md bitmap' x \<longleftrightarrow> free_in md bitmap x \<and> x \<noteq> b"
    using put_bit_True [OF l] i(2) by (auto simp: free_in_def)
qed

lemma optional_block_free:
  assumes "(if c then allocate_data_block md bitmap else ret (0, bitmap)) s = Some (Inr (b, bitmap'), s')"
  shows "if c then free_in md bitmap b \<and> (\<forall>x. free_in md bitmap' x \<longleftrightarrow> free_in md bitmap x \<and> x \<noteq> b)
    else b = 0 \<and> bitmap' = bitmap"
proof (cases c)
  case True
  then have "allocate_data_block md bitmap s = Some (Inr (b, bitmap'), s')" using assms by simp
  from allocate_data_block_free [OF this] show ?thesis using True by simp
next
  case False
  then show ?thesis using assms by (simp add: ret_def)
qed

lemma allocate_blocks_free:
  "allocate_blocks md n bitmap s = Some (Inr (bs, bitmap'), s') \<Longrightarrow>
    (\<forall>b \<in> set bs. free_in md bitmap b) \<and> distinct bs \<and> length bs = n
    \<and> (\<forall>x. free_in md bitmap' x \<longleftrightarrow> free_in md bitmap x \<and> x \<notin> set bs)"
proof (induction n arbitrary: bitmap s bs)
  case (Suc n)
  obtain b bm t bs' where a: "allocate_data_block md bitmap s = Some (Inr (b, bm), t)"
      and r: "allocate_blocks md n bm t = Some (Inr (bs', bitmap'), s')" and bs: "bs = b # bs'"
    using Suc.prems by (auto simp: bind_io_Inr ret_def)
  show ?case using Suc.IH [OF r] allocate_data_block_free [OF a] bs by auto
qed (auto simp: ret_def)

lemma plan_layout_free:
  assumes "plan_layout D md n k bitmap s = Some (Inr (l, bitmap'), s')"
  shows "\<forall>b \<in> set (ly_blocks l). free_in md bitmap b" "distinct (ly_blocks l)"
    "length (ly_data l) = n" "length (ly_leaves l) = ceil_blocks (n - k) (em_block_size md div 4)"
    "DIRECT_BLOCKS < n \<longrightarrow> free_in md bitmap (ly_single l)" "\<not> DIRECT_BLOCKS < n \<longrightarrow> ly_single l = 0"
proof -
  let ?m = "ceil_blocks (n - k) (em_block_size md div 4)"
  obtain single b1 t1 t2 double b2 t3 leaves b3 t4 data b4 where
      s: "(if DIRECT_BLOCKS < n then allocate_data_block md bitmap else ret (0, bitmap)) t1 = Some (Inr (single, b1), t2)"
    and d: "(if ?m \<noteq> 0 then allocate_data_block md b1 else ret (0, b1)) t2 = Some (Inr (double, b2), t3)"
    and le: "allocate_blocks md ?m b2 t3 = Some (Inr (leaves, b3), t4)"
    and da: "allocate_blocks md n b3 t4 = Some (Inr (data, b4), s')"
    and l: "l = \<lparr>ly_data = data, ly_single = single, ly_double = double, ly_leaves = leaves\<rparr>"
    using assms unfolding plan_layout_def Let_def bind_io_Inr by (auto simp: bind_io_Inr ret_def split: prod.splits)
  note s' = optional_block_free [OF s] and d' = optional_block_free [OF d]
  note le' = allocate_blocks_free [OF le] and da' = allocate_blocks_free [OF da]
  show "\<forall>b \<in> set (ly_blocks l). free_in md bitmap b" "distinct (ly_blocks l)"
    "length (ly_data l) = n" "length (ly_leaves l) = ?m"
    "DIRECT_BLOCKS < n \<longrightarrow> free_in md bitmap (ly_single l)" "\<not> DIRECT_BLOCKS < n \<longrightarrow> ly_single l = 0"
    using s' d' le' da' by (auto simp: l ly_blocks_def split: if_splits)
qed

section \<open>Writing a file\<close>

definition block_bitmap_of :: "Metadata \<Rightarrow> (nat \<Rightarrow> byte list) \<Rightarrow> byte list" where
  "block_bitmap_of md S = block_at md S (le_nat (take 4 (block_at md S (em_first_data_block md + 1))))"

text \<open>The blocks that the bitmap on the disk has as used, and those before the first data block.\<close>

definition in_use :: "Metadata \<Rightarrow> (nat \<Rightarrow> byte list) \<Rightarrow> nat \<Rightarrow> bool" where
  "in_use md S b \<longleftrightarrow> (let i = b - em_first_data_block md
    in b < em_first_data_block md \<or> bit (block_bitmap_of md S ! (i div 8)) (i mod 8))"

text \<open>Partial correctness with separate conditions for values and errors.\<close>

definition triple :: "('s \<Rightarrow> bool) \<Rightarrow> ('s, 'a) io \<Rightarrow> ('a \<Rightarrow> 's \<Rightarrow> bool) \<Rightarrow> (Ext2Error \<Rightarrow> 's \<Rightarrow> bool) \<Rightarrow> bool" where
  "triple P m Q E \<longleftrightarrow> (\<forall>s r s'. P s \<longrightarrow> m s = Some (r, s') \<longrightarrow> (case r of Inl e \<Rightarrow> E e s' | Inr a \<Rightarrow> Q a s'))"

lemma triple_bind:
  assumes "triple P m Q E" "\<And>a. triple (Q a) (f a) R E"
  shows "triple P (bind_io m f) R E"
  unfolding triple_def
proof (intro allI impI)
  fix s r s' assume p: "P s" "bind_io m f s = Some (r, s')"
  then obtain q t where q: "m s = Some (q, t)" by (auto simp: bind_io_def split: option.splits)
  have c: "case q of Inl e \<Rightarrow> E e t | Inr a \<Rightarrow> Q a t" using assms(1) p(1) q unfolding triple_def by blast
  show "case r of Inl e \<Rightarrow> E e s' | Inr a \<Rightarrow> R a s'"
  proof (cases q)
    case (Inl e) then show ?thesis using c p(2) q by (auto simp: bind_io_def)
  next
    case (Inr a)
    then have "f a t = Some (r, s')" "Q a t" using c p(2) q by (auto simp: bind_io_def)
    then show ?thesis using assms(2) unfolding triple_def by blast
  qed
qed

lemma triple_bind_prod:
  assumes "triple P m (\<lambda>(a, b). Q a b) E" "\<And>a b. triple (Q a b) (f a b) R E"
  shows "triple P (bind_io m (\<lambda>(a, b). f a b)) R E"
  using assms(1) by (rule triple_bind) (use assms(2) in auto)

lemma triple_bind5:
  assumes "triple P m (\<lambda>(a, b, c, d, e). Q a b c d e) E" "\<And>a b c d e. triple (Q a b c d e) (f a b c d e) R E"
  shows "triple P (bind_io m (\<lambda>(a, b, c, d, e). f a b c d e)) R E"
  using assms(1) by (rule triple_bind) (use assms(2) in auto)

lemma triple_case_prod: "(\<And>a b. triple P (f a b) Q E) \<Longrightarrow> triple P (case x of (a, b) \<Rightarrow> f a b) Q E"
  by (cases x) simp

lemma triple_keep: "preserves P m \<Longrightarrow> (\<And>e s. P s \<Longrightarrow> E e s) \<Longrightarrow> triple P m (\<lambda>_. P) E"
  unfolding triple_def preserves_def by (auto split: sum.split)

lemma triple_fail: "(\<And>s. P s \<Longrightarrow> E e s) \<Longrightarrow> triple P (fail e) Q E"
  by (simp add: triple_def fail_def)

lemma triple_if: "(b \<Longrightarrow> triple P m Q E) \<Longrightarrow> (\<not> b \<Longrightarrow> triple P m' Q E) \<Longrightarrow> triple P (if b then m else m') Q E"
  by simp

lemma triple_weaken: "triple P m Q E \<Longrightarrow> (\<And>s. P' s \<Longrightarrow> P s) \<Longrightarrow> (\<And>a s. Q a s \<Longrightarrow> Q' a s) \<Longrightarrow>
    (\<And>e s. E e s \<Longrightarrow> E' e s) \<Longrightarrow> triple P' m Q' E'"
  unfolding triple_def by (fastforce split: sum.splits)

lemma triple_conj: "(F \<Longrightarrow> triple P m Q E) \<Longrightarrow> triple (\<lambda>s. F \<and> P s) m Q E"
  unfolding triple_def by blast

lemma preserves_must_bind: "(\<And>a. x = Some a \<Longrightarrow> preserves I (f a)) \<Longrightarrow> preserves I (bind_io (must x) f)"
  by (cases x) (auto simp: preserves_def bind_io_def must_def)

context ext2_store
begin

lemma read_kept: "metadata_ok md \<Longrightarrow> kept_reads (disk_blocks D) md (\<lambda>v. sector v = S)"
proof
  fix b buffer assume md: "metadata_ok md"
  show "preserves (\<lambda>v. sector v = S) (bl_read (disk_blocks D) md b buffer)"
    using read_block_gives(1) [OF _ md] by (auto simp: preserves_def disk_blocks_def)
qed

lemma write_kept: "metadata_ok md \<Longrightarrow> b \<in> X \<Longrightarrow>
    preserves (\<lambda>v. same_blocks md X S (sector v)) (bl_write (disk_blocks D) md b contents)"
  unfolding preserves_def disk_blocks_def
  by (auto dest: write_block_gives(1) intro: same_blocks_trans)

lemma write_contents_kept:
  assumes "metadata_ok md" "set (ly_blocks l) \<subseteq> X"
  shows "preserves (\<lambda>v. same_blocks md X S (sector v)) (write_contents (disk_blocks D) md k l contents)"
proof -
  have data: "b \<in> X" if "b \<in> set (ly_data l) \<or> b \<in> set (ly_leaves l)" for b
    using that assms(2) by (auto simp: ly_blocks_def split: if_splits)
  have single: "ly_single l \<noteq> 0 \<Longrightarrow> ly_single l \<in> X" and double: "ly_leaves l \<noteq> [] \<Longrightarrow> ly_double l \<in> X"
    using assms(2) by (auto simp: ly_blocks_def)
  show ?thesis unfolding write_contents_def Let_def
  proof (intro preserves_bind preserves_each)
    fix x assume "x \<in> set (enumerate 0 (block_chunks (em_block_size md) contents))"
    show "preserves (\<lambda>v. same_blocks md X S (sector v)) (case x of (index, chunk) \<Rightarrow>
        bind_io (must (put_slice 0 chunk zeroed_block)) (\<lambda>data.
        bind_io (must (if index < length (ly_data l) then Some (ly_data l ! index) else None)) (\<lambda>block.
          bl_write (disk_blocks D) md block data)))"
      by (cases x) (auto intro!: preserves_must_bind write_kept assms data split: if_splits)
  next
    fix a
    show "preserves (\<lambda>v. same_blocks md X S (sector v)) (if ly_single l \<noteq> 0
       then bind_io (must (pointer_block (map (\<lambda>i. pointer_or_zero (ly_data l) (DIRECT_BLOCKS + i)) [0..<em_block_size md div 4])))
         (\<lambda>pointers. bl_write (disk_blocks D) md (ly_single l) pointers)
       else ret ())"
      using single by (auto intro!: keep write_kept assms)
  next
    fix a b
    show "preserves (\<lambda>v. same_blocks md X S (sector v)) (if ly_leaves l \<noteq> []
     then bind_io (must (pointer_block (ly_leaves l))) (\<lambda>root.
       bind_io (each_io (\<lambda>(outer_index, leaf).
           bind_io (must (pointer_block (map (\<lambda>inner_index. pointer_or_zero (ly_data l)
               (k + outer_index * (em_block_size md div 4) + inner_index)) [0..<em_block_size md div 4])))
             (\<lambda>pointers. bl_write (disk_blocks D) md leaf pointers)) (enumerate 0 (ly_leaves l))) (\<lambda>_.
         bl_write (disk_blocks D) md (ly_double l) root))
     else ret ())"
      using double data by (auto simp: in_set_enumerate_eq intro!: keep write_kept assms)
  qed
qed

lemma tables_free:
  assumes "writable_ok md"
  shows "triple (\<lambda>v. sector v = S) (read_allocation_tables (disk_blocks D) md)
    (\<lambda>(_, _, _, bitmap, _) v. (\<forall>b. free_in md bitmap b \<longrightarrow> \<not> in_use md S b) \<and> sector v = S) (\<lambda>_ v. sector v = S)"
  unfolding triple_def
proof (intro allI impI)
  fix v r v' assume S: "sector v = S" and t: "read_allocation_tables (disk_blocks D) md v = Some (r, v')"
  have md: "metadata_ok md" "em_block_size md = 1024" and n: "em_blocks_count md - em_first_data_block md \<le> 8192"
    using assms by (auto simp: writable_ok_def)
  have v': "sector v' = S"
    using preservesD [OF kept_reads.keeps_tables [OF read_kept [OF md(1)]] S t] .
  show "case r of Inl e \<Rightarrow> sector v' = S | Inr a \<Rightarrow> (case a of (_, _, _, bitmap, _) \<Rightarrow>
      \<lambda>v. (\<forall>b. free_in md bitmap b \<longrightarrow> \<not> in_use md S b) \<and> sector v = S) v'"
  proof (cases r)
    case (Inl e) then show ?thesis using v' by simp
  next
    case (Inr a)
    obtain bn inn d b i where a: "a = (bn, inn, d, b, i)" by (cases a)
    obtain v1 v2 where d: "read_block D md (em_first_data_block md + 1) zeroed_block v = Some (Inr d, v1)"
      and bn: "le32 d 0 = Some bn" and b: "read_block D md bn zeroed_block v1 = Some (Inr b, v2)"
      using t Inr a by (auto simp: read_allocation_tables_def disk_blocks_def bind_io_Inr u32_field_def must_def
          ret_def fail_def split: if_splits)
    have d': "d = block_at md S (em_first_data_block md + 1) @ drop 1024 zeroed_block"
      using read_block_gives(2) [OF d md(1) refl] md(2) S by simp
    have b': "b = block_at md S bn @ drop 1024 zeroed_block"
      using read_block_gives(2) [OF b md(1) refl] read_block_gives(1) [OF d md(1)] md(2) S by simp
    have len: "length (block_at md S x) = 1024" for x
      using length_block_at [OF md(1), of v] S md(2) by simp
    have "bn = le_nat (take 4 (block_at md S (em_first_data_block md + 1)))"
      using bn d' len by (simp add: le32_def get_range_def split: if_splits)
    then have bm: "block_bitmap_of md S = block_at md S bn" by (simp add: block_bitmap_of_def)
    have "\<not> in_use md S x" if "free_in md b x" for x
    proof -
      let ?i = "x - em_first_data_block md"
      have i: "?i div 8 < 1024" "em_first_data_block md \<le> x" using that n by (auto simp: free_in_def)
      then have "b ! (?i div 8) = block_at md S bn ! (?i div 8)" using b' len by (simp add: nth_append)
      then show ?thesis using that i bm by (auto simp: free_in_def bitmap_bit_def in_use_def Let_def split: if_splits)
    qed
    then show ?thesis using Inr a v' by simp
  qed
qed

lemma plan_layout_triple:
  "triple (\<lambda>v. sector v = S) (plan_layout D md n k bitmap)
    (\<lambda>(l, _) v. set (ly_blocks l) \<subseteq> {b. free_in md bitmap b} \<and> sector v = S) (\<lambda>_ v. sector v = S)"
  unfolding triple_def
proof (intro allI impI)
  fix v r v' assume p: "sector v = S" "plan_layout D md n k bitmap v = Some (r, v')"
  have "sector v' = S"
    using preservesD [of "\<lambda>v. sector v = S", OF preserves_plan_layout p(1) p(2)] .
  then show "case r of Inl e \<Rightarrow> sector v' = S | Inr a \<Rightarrow> (case a of (l, _) \<Rightarrow>
      \<lambda>v. set (ly_blocks l) \<subseteq> {b. free_in md bitmap b} \<and> sector v = S) v'"
    using p(2) plan_layout_free(1) [of D md n k bitmap v _ _ v'] by (cases r) auto
qed

lemma commit_phase:
  assumes "writable_ok md" "set (ly_blocks l) \<subseteq> U"
  shows "triple (\<lambda>v. sector v = S)
    (bind_io (lift i) (\<lambda>_. bind_io (write_contents (disk_blocks D) md k l contents) (\<lambda>_.
      bind_io (lift j) (\<lambda>n. run_commit D md (c n) old_blocks))))
    (\<lambda>_ _. True) (\<lambda>e v. e \<noteq> RecoveryFailed \<longrightarrow> same_blocks md U S (sector v))"
proof -
  have md: "metadata_ok md" using assms(1) by (simp add: writable_ok_def)
  let ?I = "\<lambda>v. same_blocks md U S (sector v)"
  have run: "triple ?I (run_commit D md c old_blocks) (\<lambda>_ _. True) (\<lambda>e v. e \<noteq> RecoveryFailed \<longrightarrow> ?I v)" for c
    unfolding triple_def
  proof (intro allI impI)
    fix v r v' assume i: "?I v" "run_commit D md c old_blocks v = Some (r, v')"
    have "?I v'" if "r = Inl e" "e \<noteq> RecoveryFailed" for e
      using i that run_commit_atomic [OF md, of c old_blocks v e v'] by (auto intro: same_blocks_trans)
    then show "case r of Inl e \<Rightarrow> e \<noteq> RecoveryFailed \<longrightarrow> ?I v' | Inr a \<Rightarrow> True" by (cases r) auto
  qed
  have "triple ?I (bind_io (lift i) (\<lambda>_. bind_io (write_contents (disk_blocks D) md k l contents) (\<lambda>_.
      bind_io (lift j) (\<lambda>n. run_commit D md (c n) old_blocks))))
    (\<lambda>_ _. True) (\<lambda>e v. e \<noteq> RecoveryFailed \<longrightarrow> ?I v)"
    by (intro triple_bind [OF triple_keep [OF preserves_basic(3)]]
        triple_bind [OF triple_keep [OF write_contents_kept [OF md assms(2)]]] run) simp_all
  then show ?thesis by (rule triple_weaken) auto
qed

lemma write_file_triple:
  assumes "metadata_ok md"
  shows "triple (\<lambda>v. sector v = S) (write_file D (Some (Inr md)) path contents) (\<lambda>_ _. True)
    (\<lambda>e v. e \<noteq> RecoveryFailed \<longrightarrow> same_blocks md {b. \<not> in_use md S b} S (sector v))"
    (is "triple ?P _ _ ?E")
proof -
  have W: "triple ?P (lift (writable_metadata (Some (Inr md)))) (\<lambda>md' v. (md' = md \<and> writable_ok md) \<and> ?P v) ?E"
    using assms writable_yields [of "Some (Inr md)"]
    by (auto simp: triple_def lift_def writable_metadata_def ext2_metadata_def writable_ok_def metadata_ok_def split: sum.split)
  note reads = read_kept [OF assms, of S]
  have E: "?E e v" if "?P v" for e v using that by simp
  have old: "preserves ?P (collect_file_allocations D md inode)" for inode
    unfolding collect_file_allocations_def Let_def
    by (intro keep kept_reads.keeps_collect_indirect [OF reads] kept_reads.keeps_collect_double [OF reads])
  have space: "preserves ?P (if b then ensure_directory_entry_space (disk_blocks D) md parent name else ret ())" for b parent name
    by (intro keep kept_reads.keeps_ensure_space [OF reads])
  have blocks: "preserves ?P (case target of Some (_, inode) \<Rightarrow> collect_file_allocations D md inode | None \<Rightarrow> ret [])"
    for target :: "(nat \<times> Inode) option" by (intro keep old)
  have number: "preserves ?P (case target of None \<Rightarrow> free_inode_in md i | Some (n, _) \<Rightarrow> ret n)"
    for target :: "(nat \<times> Inode) option" and i by (intro keep)
  note keeps = triple_keep [of ?P _ ?E, OF _ E]
  have tables: "triple ?P (read_allocation_tables (disk_blocks D) md)
      (\<lambda>(_, _, _, bitmap, _) v. (\<forall>b. free_in md bitmap b \<longrightarrow> \<not> in_use md S b) \<and> ?P v) ?E" if "writable_ok md"
    by (rule triple_weaken [OF tables_free [OF that, of S]]) auto
  have layout: "triple ?P (plan_layout D md n k bitmap)
      (\<lambda>(l, _) v. set (ly_blocks l) \<subseteq> {b. free_in md bitmap b} \<and> ?P v) ?E" for n k bitmap
    by (rule triple_weaken [OF plan_layout_triple [of S]]) auto
  show ?thesis unfolding write_file_def
    apply (rule triple_bind [OF W])
    apply (rule triple_conj, clarify)
    apply (intro triple_bind [OF keeps [OF kept_reads.keeps_resolve_parent [OF reads]]] triple_case_prod
        triple_bind [OF keeps [OF preserves_basic(3)]] triple_if triple_fail E
        triple_bind [OF keeps [OF kept_reads.keeps_find_target [OF reads]]]
        triple_bind [OF keeps [OF space]] triple_bind [OF keeps [OF blocks]]; assumption?)
    apply (rule triple_bind5 [OF tables], assumption)
    apply (rule triple_conj)
    apply (rule triple_bind [OF keeps [OF number]], assumption)
    apply (rule triple_bind_prod [OF layout])
    apply (rule triple_conj)
    unfolding Let_def
    apply (rule commit_phase)
     apply assumption
    apply blast
    done
qed

end

section \<open>Properties\<close>

lemma formatted_ok: "metadata_ok formatted_metadata"
  by (simp add: metadata_ok_def formatted_metadata_def)

interpretation ext2_ata: ext2_store "ata_driver disk_ports reserve" disk_sector
  by (rule ext2_store.intro [OF ata_driver_store])

interpretation ata_tx: kept_blocks "tx_blocks (ata_driver disk_ports reserve)" formatted_metadata
  "tx_inv disk_sector formatted_metadata S"
  by (rule ext2_ata.tx_kept_blocks [OF formatted_ok])

text \<open>C9. A write that fails changes nothing. On any driver that keeps the laws of a sector store, when
  \<open>write_file\<close> returns an error other than \<open>RecoveryFailed\<close>, at whatever point it failed, every block that
  the bitmap on the disk has as used holds what it held before the call: the superblock, the group
  descriptor, both bitmaps, the inode table, all directories and all files are as they were.\<close>

theorem write_file_atomic:
  assumes "sector_store (drv_read D) (drv_write D) sector"
    and "ext2_initialize D None v0 = Some (Inr (), Some (Inr md), v1)"
    and "write_file D (Some (Inr md)) path contents v = Some (Inl e, v')" and "e \<noteq> RecoveryFailed"
    and "b < em_blocks_count md" and "in_use md (sector v) b"
  shows "block_at md (sector v') b = block_at md (sector v) b"
proof -
  have "metadata_ok md" using initialize_cell_ok [OF assms(1,2)] by (simp add: cell_ok_def)
  then have "same_blocks md {b. \<not> in_use md (sector v) b} (sector v) (sector v')"
    using ext2_store.write_file_triple [OF ext2_store.intro [OF assms(1)], of md "sector v" path contents] assms(3,4)
    unfolding triple_def by fastforce
  then show ?thesis using assms(5,6) by (simp add: same_blocks_def)
qed

text \<open>On the formatted disk, whose root inode is not written, \<open>write_file\<close> reads the group descriptor and the
  root inode and refuses the path.\<close>

lemma zero_fields:
  "offset + 4 \<le> n \<Longrightarrow> le32 (replicate n 0) offset = Some 0" "offset + 2 \<le> n \<Longrightarrow> le16 (replicate n 0) offset = Some 0"
  by (simp_all add: le32_def le16_def get_range_def numeral_eq_Suc)

lemma zero_pointers:
  "\<forall>i \<in> set is. 40 + i * 4 + 4 \<le> n \<Longrightarrow> block_pointers md (replicate n 0) is s = Some (Inr (replicate (length is) 0), s)"
  by (induction "is") (auto simp: block_pointer_def u32_field_def must_def zero_fields INODE_BLOCK_POINTERS_OFFSET_def
      bind_io_def ret_def)

lemma zero_inode: "parse_inode formatted_metadata (replicate 128 0) s = Some (Inr \<lparr>ino_mode = 0, ino_links = 0, ino_size = 0,
    ino_allocated_blocks_512 = 0, ino_blocks = replicate 12 0, ino_single_indirect = 0, ino_double_indirect = 0\<rparr>, s)"
  using zero_pointers [of "[0..<12]" 128 formatted_metadata s]
  by (simp add: parse_inode_def block_pointer_def u32_field_def u16_field_def must_def zero_fields bind_io_def ret_def
      INODE_BLOCK_POINTERS_OFFSET_def DIRECT_BLOCKS_def)

lemma formatted_read:
  assumes "ready d" "dv_bytes d = dv_bytes formatted_disk" "b = 0 \<or> b = 2"
  shows "\<exists>d'. read_block (ata_driver disk_ports reserve) formatted_metadata b zeroed_block d = Some (Inr zeroed_block, d')
    \<and> ready d' \<and> dv_bytes d' = dv_bytes formatted_disk"
proof -
  have "validate_request (b * 2) 2 1024 = Inr ()" using assms(3) by (auto simp: validate_request_def MAX_LBA28_def)
  then obtain d' where d': "read_sectors disk_ports (b * 2) 2 1024 d = (Inr (bytes_at d (512 * (b * 2)) 1024), d')" "ready d'"
    using disk_read_ready [OF assms(1), of "b * 2" 2 1024] by auto
  have "bytes_at d (512 * (b * 2)) 1024 = replicate 1024 0"
    unfolding bytes_at_def assms(2)
    by (rule nth_equalityI) (use assms(3) in \<open>auto simp: formatted_disk_def formatted_super_def blank_disk_def\<close>)
  then have "read_block (ata_driver disk_ports reserve) formatted_metadata b zeroed_block d = Some (Inr zeroed_block, d')"
    using d'(1) assms(3)
    by (auto simp: read_block_def formatted_metadata_def ata_driver_def disk_block_size_def checked_mul32_def u32_limit_def
        lift_def bind_io_def disk_io_def ret_def zeroed_block_def replicate_add [symmetric])
  then show ?thesis using d'(2) read_disk(1) [OF d'(1)] assms(2) by auto
qed

theorem write_file_atomic_witness:
  "\<exists>d d'. ext2_initialize (ata_driver disk_ports (\<lambda>_ _. True)) None formatted_disk = Some (Inr (), Some (Inr formatted_metadata), d)
    \<and> write_file (ata_driver disk_ports (\<lambda>_ _. True)) (Some (Inr formatted_metadata)) (ascii ''notes'') (ascii ''leaf'') d
      = Some (Inl InvalidPath, d')
    \<and> block_at formatted_metadata (disk_sector d') 0 = block_at formatted_metadata (disk_sector d) 0"
proof -
  let ?D = "ata_driver disk_ports (\<lambda>_ _. True)" and ?m = formatted_metadata
  obtain d where d: "mount ?D formatted_disk = Some (Inr ?m, d)" "ready d" "dv_bytes d = dv_bytes formatted_disk"
    using formatted_mount by blast
  then have i: "ext2_initialize ?D None formatted_disk = Some (Inr (), Some (Inr ?m), d)"
    by (simp add: ext2_initialize_def)
  obtain d1 where d1: "read_block ?D ?m 2 zeroed_block d = Some (Inr zeroed_block, d1)" "ready d1" "dv_bytes d1 = dv_bytes formatted_disk"
    using formatted_read [OF d(2,3), of 2] by blast
  obtain d2 where d2: "read_block ?D ?m 0 zeroed_block d1 = Some (Inr zeroed_block, d2)"
    using formatted_read [OF d1(2,3), of 0] by blast
  have m: "em_block_size ?m = 1024" "em_blocks_count ?m = 64" "em_inodes_count ?m = 32" "em_first_data_block ?m = 1"
    "em_inodes_per_group ?m = 32" "em_inode_size ?m = 128" "em_group_count ?m = 1" by (simp_all add: formatted_metadata_def)
  have "get_range zeroed_block 128 256 = Some (replicate 128 0)" by (simp add: get_range_def zeroed_block_def)
  then have "read_inode (disk_blocks ?D) ?m ROOT_INODE d = parse_inode ?m (replicate 128 0) d2"
    using d1(1) [unfolded numeral_2_eq_2] d2
    by (simp add: read_inode_def locate_inode_def read_group_descriptor_def disk_blocks_def Let_def m ROOT_INODE_def bind_io_def
        lift_def ret_def u32_field_def must_def zero_fields zeroed_block_def checked_add32_def u32_limit_def)
  moreover have "writable_metadata (Some (Inr ?m)) = Inr ?m"
    by (simp add: writable_metadata_def ext2_metadata_def formatted_metadata_def)
  moreover have "split_path (ascii ''notes'') = ([], ascii ''notes'')" "ext2_safe_component (ascii ''notes'')"
    by (simp_all add: split_path_def rposition_def is_slash_def ext2_safe_component_def is_ascii_alphanumeric_def)
  ultimately have w: "write_file ?D (Some (Inr ?m)) (ascii ''notes'') (ascii ''leaf'') d = Some (Inl InvalidPath, d2)"
    by (simp add: write_file_def bind_io_def lift_def resolve_parent_def fail_def ret_def zero_inode is_directory_def)
  have "in_use ?m (disk_sector d) 0" by (simp add: in_use_def m)
  from write_file_atomic [OF ata_driver_store i w _ _ this] i w show ?thesis using m(2) by auto
qed

end
