(* ===== verification/Spec2Isabelle.thy ===== *)
theory Spec2Isabelle
  imports Input_Queue Pipe_Fd Frame_Alloc Address_Space Memory_Manager Heap_Growth Kernel_Fds Ustar
    Interrupts Shell_Line Shell_Parse Shell_Editor Program_Image Ext2_Atomic
begin

text \<open>
  A verification library for the LeafOS kernel (the Rust crate under \<open>src/src/kernel/src\<close>). File names
  below are relative to that directory.

  \<^bold>\<open>Conventions.\<close> A struct is a record, an enum a datatype, a function a definition with the source's
  name where HOL has no such name already. A \<open>Result\<close> is a sum with the error on the left; an outer
  \<open>option\<close> is a panic (\<open>None\<close>: an index out of range, an \<open>expect\<close>, an assertion). A \<open>usize\<close>, \<open>u32\<close> or
  \<open>u64\<close> that the source moves only within checked bounds is a natural number, with the checks of the
  source written out; bytes, flags and wrapping counters are words. A section under a lock, or with
  interrupts off, is one step. What the kernel calls outside its sources (page tables of the x86_64
  crate, the free list of the heap, the ports of the hardware, allocation of vectors) is a record of
  functions, and the theorems name what they assume of it. Loops are recursive functions with
  termination proofs; the only bound of the source that is kept as fuel is the polling limit of the
  disk driver, \<open>WAIT_LIMIT\<close>, whose exhaustion is the error \<open>Timeout\<close> as in the code.

  \<^bold>\<open>Foundations.\<close> \<open>LeafOS_Prelude\<close>: results, checked arithmetic, little-endian numbers, UTF-8 and
  ring arithmetic. \<open>Byte_Strings\<close>, \<open>Utf8_Chars\<close>: slices and characters. \<open>Fifo_Spec\<close>: the contract
  \<open>bounded_fifo\<close> of a bounded queue. \<open>Sector_Store\<close>: the contract \<open>sector_store\<close> of a disk driver.

  \<^bold>\<open>Queues, pipes, descriptors\<close> (\<open>drivers/input.rs\<close>, \<open>tasking/fd.rs\<close>, the key queue of \<open>shell/mod.rs\<close>):
  \<open>Input_Queue\<close>, \<open>Pipe_Fd\<close>, \<open>Key_Queue\<close>. The three rings interpret \<open>bounded_fifo\<close>. Pipes deliver
  what they accepted, in order; block, end of file and broken pipe are decided exactly by the counters
  of the ends; the key queue is correct with an interrupt between any two accesses of its consumer.

  \<^bold>\<open>Memory\<close> (\<open>boot_info.rs\<close>, \<open>memory/mod.rs\<close>, \<open>memory/heap.rs\<close>, \<open>arch/user.rs\<close>): \<open>Frame_Alloc\<close>,
  \<open>Address_Space\<close>, \<open>Memory_Manager\<close>, \<open>Heap_Growth\<close>. No frame is handed out twice or out of a reserved
  range, and the count of free frames is exact; user ranges are checked exactly; new address spaces
  share nothing with user space; page lists and unmapping are safe; a growth of the heap that fails
  leaves it as it was or poisons it.

  \<^bold>\<open>Tasking\<close> (\<open>tasking/scheduler.rs\<close>): \<open>Scheduler\<close> (the structure and its methods), \<open>Task_Ops\<close> (the
  kernel functions and the context switch), \<open>Task_Frames\<close> (their effects), \<open>Kernel_Steps\<close> (the step
  relation \<open>kstep\<close> and its invariant), \<open>Kernel_Runs\<close> and \<open>Kernel_Fds\<close> (properties of all runs): a
  consistent task table, the right address space, no panics, registers restored, no starvation,
  and pipe counters equal to the numbers of descriptors in all tables. \<open>Sample_User\<close> is a concrete run.

  \<^bold>\<open>Interrupts and keyboard\<close> (\<open>arch/interrupts.rs\<close>, \<open>drivers/pic8259.rs\<close>, \<open>drivers/keyboard.rs\<close>):
  \<open>Interrupts\<close>, \<open>Keyboard\<close>. Keys reach the queue they belong to; the interrupt character typed in a
  user task leaves the lock of the decoder taken.

  \<^bold>\<open>File systems\<close> (\<open>fs/mod.rs\<close>, \<open>drivers/ata.rs\<close>, \<open>fs/ext2.rs\<close>): \<open>Ustar\<close>, the read-only boot archive,
  which serves every request once it is mounted, with exact contents and listings. \<open>Ata\<close>, the disk
  driver over the ports, with a device that behaves as the standard says, on which it interprets
  \<open>sector_store\<close>; a device error is permanent. \<open>Ext2_Types\<close>, \<open>Ext2_Disk\<close>, \<open>Ext2_Read\<close> and \<open>Ext2_Write\<close>
  are the whole of \<open>ext2.rs\<close> as computations on the disk state. \<open>Ext2_Safety\<close>: no operation panics,
  whatever the disk holds, by the rules of \<open>yields\<close> and the locale \<open>total_blocks\<close>. \<open>Ext2_Atomic\<close>: a
  failed \<open>write_file\<close> leaves all used blocks as they were, by the invariant of block transactions and
  the locales \<open>ext2_store\<close>, \<open>kept_reads\<close> and \<open>kept_blocks\<close>. Both are proved for every driver that keeps
  the laws of \<open>sector_store\<close>. \<open>create_directory\<close>, \<open>remove_file\<close> and \<open>remove_empty_directory\<close> write without
  a transaction, so that only the absence of panics is shown for them.

  \<^bold>\<open>Programs\<close> (\<open>user_program.rs\<close>): \<open>User_Program\<close> (the loader), \<open>Program_Format\<close> (the \<open>.app\<close> header and
  the argument vector), \<open>Program_Loading\<close> and \<open>Program_Image\<close>: a loaded program has exactly the image its
  file describes and always passes the checks of the entry to user mode; its arguments lie below its
  initial stack pointer.

  \<^bold>\<open>Shell\<close> (\<open>shell/mod.rs\<close>): \<open>Shell_Line\<close> (line editor and history), \<open>Shell_Parse\<close> (commands,
  redirections, paths), \<open>Shell_Editor\<close> (the file editor and its sessions, which never lose work
  silently).

  \<^bold>\<open>Not modelled.\<close> System call dispatch (\<open>arch/syscall.rs\<close>): decoding of registers and user strings
  around kernel functions that are modelled, and assembly. The command loop and the built-in commands
  of the shell: console output around parts that are modelled. The frame buffer, text and serial
  consoles and the font, the segment tables, the timer chip (its tick counter is part of the kernel state), the entry point and the test harness:
  device output and privileged instructions. The locks, which are taken as atomic sections. The boot
  loader (C) and the user programs. The test hooks of \<open>ext2.rs\<close>, which the kernel does not contain.
\<close>

end
